(* ===== verification/Prelude.thy ===== *)
theory Prelude
  imports Complex_Main "HOL-Library.List_Lexorder" "HOL-Library.Char_ord"
begin

text \<open>
  What every component of the model shares: JSON values, the exceptions of the Python
  code, results that are either an exception or a value, Python's truth test on optional
  strings, SQL statements over a table kept as a list of rows, and the contract of a
  validated state machine as a locale.

  Strings are \<^typ>\<open>string\<close>; the Python code compares, concatenates and stores them only.
  Timestamps are microseconds since the epoch: every writer of the code renders them with
  the one fixed-width format \<^verbatim>\<open>%Y-%m-%dT%H:%M:%S.%f\<close> and a final Z, for which comparing the
  texts is comparing the instants. A column that Python parses again may hold any text;
  it has the type \<open>stamp\<close> below.
\<close>

section \<open>Values\<close>

datatype json =
    JNull
  | JBool bool
  | JInt int
  | JNum rat
  | JStr string
  | JList "json list"
  | JObj "(string \<times> json) list"

text \<open>A timestamp column: an instant, or a text that \<^verbatim>\<open>datetime.fromisoformat\<close> refuses.\<close>

datatype stamp = At int | Garbled string

fun parse_stamp :: "stamp option \<Rightarrow> int option" where
  "parse_stamp None = None"
| "parse_stamp (Some (Garbled _)) = None"
| "parse_stamp (Some (At t)) = Some t"

text \<open>One second, in clock units.\<close>

definition sec :: int where
  "sec = 1000000"

fun json_opt :: "string option \<Rightarrow> json" where
  "json_opt None = JNull"
| "json_opt (Some s) = JStr s"

text \<open>\<^verbatim>\<open>json.dumps(obj) if obj is not None else "{}"\<close>, as the value the column decodes to.\<close>

fun dump :: "(string \<times> json) list option \<Rightarrow> json" where
  "dump None = JObj []"
| "dump (Some m) = JObj m"

section \<open>Exceptions and results\<close>

text \<open>
  The exceptions of the code with the data their messages are made of. A message that the
  code stores again (an inbox failure reason) is kept as text.
\<close>

datatype exn =
    InvalidStateError string
  | InvalidTransitionError string string
  | DuplicateTransitionError string string string
  | KeyError string
  | ValueError string
  | IntegrityError string
  | TypeError
  | TenantUnresolved
  | BrokerError string
  | OSError string
  | OverflowError
  | BindingError string
  | AttributeError
  | InvalidWorkerStateError string
  | InvalidWorkerTransitionError string string
  | InvalidRunStateError string
  | InvalidRunTransitionError string string
  | RunNotFoundError string
  | InvalidFailureClassError string
  | InboxEventNotFoundError string
  | InvalidInboxStateError string
  | InvalidInboxTransitionError string string
  | EmptySchemaDecoyError
  | RuntimeError string
  | IndexError
  | OperationalError string
  | TrackNotFoundError string string
  | InvalidPhaseError string
  | PhaseTransitionError string string
  | InvalidHorizonError string
  | HorizonColumnMissingError string string
  | DecisionRefColumnMissingError string
  | GoalTooThinError int int
  | TargetRegistryError string
  | TargetExistsError string
  | TargetNotFoundError string
  | TerminalOccupiedError string string
  | InvalidTargetTypeError string
  | InvalidHealthStateError string
  | InvalidCapabilityError string
  | GovernanceError string
  | InvalidEscalationTransition string string string
  | ForbiddenActionError string string

text \<open>
  What \<^verbatim>\<open>except (InvalidTransitionError, KeyError)\<close> catches: the worker's transition error and
  the duplicate error are subclasses of \<^verbatim>\<open>InvalidTransitionError\<close>.
\<close>

fun transition_or_key_error :: "exn \<Rightarrow> bool" where
  "transition_or_key_error (InvalidTransitionError _ _) = True"
| "transition_or_key_error (DuplicateTransitionError _ _ _) = True"
| "transition_or_key_error (InvalidWorkerTransitionError _ _) = True"
| "transition_or_key_error (KeyError _) = True"
| "transition_or_key_error _ = False"

definition bindE :: "'e + 'a \<Rightarrow> ('a \<Rightarrow> 'e + 'b) \<Rightarrow> 'e + 'b" where
  "bindE m f = (case m of Inl e \<Rightarrow> Inl e | Inr x \<Rightarrow> f x)"

text \<open>\<^verbatim>\<open>dict(cursor.fetchone())\<close>: \<^verbatim>\<open>dict(None)\<close> raises \<^verbatim>\<open>TypeError\<close>.\<close>

definition fetch_dict :: "'r option \<Rightarrow> exn + 'r" where
  "fetch_dict r = (case r of None \<Rightarrow> Inl TypeError | Some x \<Rightarrow> Inr x)"

definition guardE :: "bool \<Rightarrow> 'e \<Rightarrow> 'e + unit" where
  "guardE b e = (if b then Inr () else Inl e)"

fun foldE :: "('a \<Rightarrow> 's \<Rightarrow> 'e + 's) \<Rightarrow> 'a list \<Rightarrow> 's \<Rightarrow> 'e + 's" where
  "foldE f [] s = Inr s"
| "foldE f (x # xs) s = bindE (f x s) (foldE f xs)"

lemma bindE_Inl [simp]: "bindE (Inl e) f = Inl e"
  by (simp add: bindE_def)

lemma bindE_Inr [simp]: "bindE (Inr x) f = f x"
  by (simp add: bindE_def)

lemma bindE_eq_Inr: "bindE m f = Inr y \<longleftrightarrow> (\<exists>x. m = Inr x \<and> f x = Inr y)"
  by (cases m) simp_all

lemma bindE_eq_Inl: "bindE m f = Inl e \<longleftrightarrow> m = Inl e \<or> (\<exists>x. m = Inr x \<and> f x = Inl e)"
  by (cases m) simp_all

lemma guardE_eq_Inr: "guardE b e = Inr u \<longleftrightarrow> b"
  by (simp add: guardE_def)

lemma guardE_eq_Inl: "guardE b e = Inl e' \<longleftrightarrow> \<not> b \<and> e' = e"
  by (auto simp: guardE_def)

lemma guardE_True [simp]: "guardE True e = Inr ()"
  by (simp add: guardE_def)

lemma guardE_False [simp]: "guardE False e = Inl e"
  by (simp add: guardE_def)

text \<open>
  Calls that keep what they have written when they raise: an outcome and the state afterwards.
\<close>

definition bindS :: "(exn + 'a) \<times> 's \<Rightarrow> ('a \<Rightarrow> 's \<Rightarrow> (exn + 'b) \<times> 's) \<Rightarrow> (exn + 'b) \<times> 's" where
  "bindS m f = (case m of (Inl e, s) \<Rightarrow> (Inl e, s) | (Inr x, s) \<Rightarrow> f x s)"

definition raise_unless :: "bool \<Rightarrow> exn \<Rightarrow> 's \<Rightarrow> (exn + unit) \<times> 's" where
  "raise_unless ok e s = (if ok then (Inr (), s) else (Inl e, s))"

lemma bindS_simps [simp]: "bindS (Inl e, s) f = (Inl e, s)" "bindS (Inr x, s) f = f x s"
  by (simp_all add: bindS_def)

lemma bindS_keeps:
  assumes "P (snd m)" and "\<And>x s1. m = (Inr x, s1) \<Longrightarrow> P s1 \<Longrightarrow> P (snd (f x s1))"
  shows "P (snd (bindS m f))"
  using assms by (cases m; cases "fst m") (auto simp: bindS_def)

lemma raise_unless_sel [simp]: "snd (raise_unless ok e s) = s"
  by (simp add: raise_unless_def)

lemma raise_unless_eq: "raise_unless ok e s = (Inr x, s1) \<longleftrightarrow> ok \<and> s1 = s"
  by (auto simp: raise_unless_def)

lemma fetch_dict_eq_Inr: "fetch_dict r = Inr x \<longleftrightarrow> r = Some x"
  by (simp add: fetch_dict_def split: option.splits)

lemma fetch_dict_simps [simp]: "fetch_dict (Some x) = Inr x" "fetch_dict None = Inl TypeError"
  by (simp_all add: fetch_dict_def)

lemmas result_iffs = bindE_eq_Inr bindE_eq_Inl guardE_eq_Inr guardE_eq_Inl fetch_dict_eq_Inr

text \<open>Running an operation that does not fail in a concrete store.\<close>

lemma not_isl_obtain:
  assumes "\<not> isl x"
  obtains y where "x = Inr y"
  using assms by (cases x) auto

text \<open>A loop keeps what each of its rounds keeps.\<close>

lemma foldE_invariant:
  assumes "foldE f xs s = Inr s'" and "P s"
    and "\<And>x s s'. x \<in> set xs \<Longrightarrow> P s \<Longrightarrow> f x s = Inr s' \<Longrightarrow> P s'"
  shows "P s'"
  using assms
proof (induction xs arbitrary: s)
  case Nil
  then show ?case by simp
next
  case (Cons x xs)
  from Cons.prems(1) obtain s1 where s1: "f x s = Inr s1" "foldE f xs s1 = Inr s'"
    by (auto simp: bindE_eq_Inr)
  from Cons.prems(3) [OF _ Cons.prems(2) s1(1)] have "P s1" by simp
  with s1(2) show ?case
    by (rule Cons.IH) (use Cons.prems(3) in auto)
qed

lemma foldE_append: "foldE f (xs @ ys) s = bindE (foldE f xs s) (foldE f ys)"
  by (induction xs arbitrary: s) (auto simp: bindE_def split: sum.splits)

section \<open>Python's truth test and string formatting\<close>

fun truthy :: "string option \<Rightarrow> bool" where
  "truthy None = False"
| "truthy (Some s) = (s \<noteq> [])"

text \<open>\<^verbatim>\<open>reason or default\<close>.\<close>

definition or_else :: "string option \<Rightarrow> string \<Rightarrow> string" where
  "or_else r d = (if truthy r then the r else d)"

text \<open>
  \<^verbatim>\<open>repr\<close> of a \<^verbatim>\<open>str\<close> of printable characters: double quotes when the text holds a single
  quote and no double quote, a backslash before a backslash and before the quote used.
\<close>

definition py_repr :: "string \<Rightarrow> string" where
  "py_repr s =
     (let q = (if CHR 39 \<in> set s \<and> CHR 34 \<notin> set s then CHR 34 else CHR 39)
      in [q] @ concat (map (\<lambda>c. if c = CHR 92 \<or> c = q then [CHR 92, c] else [c]) s) @ [q])"

fun nat_digits :: "nat \<Rightarrow> string" where
  "nat_digits n =
     (if n < 10 then [char_of (48 + n)] else nat_digits (n div 10) @ [char_of (48 + n mod 10)])"

declare nat_digits.simps [simp del]

definition py_int :: "int \<Rightarrow> string" where
  "py_int i = (if i < 0 then CHR 45 # nat_digits (nat (- i)) else nat_digits (nat i))"

text \<open>A string with an optional value in an f-string: \<^verbatim>\<open>None\<close> prints as None.\<close>

fun py_opt :: "string option \<Rightarrow> string" where
  "py_opt None = ''None''"
| "py_opt (Some s) = s"

text \<open>\<^verbatim>\<open>str.lower\<close> and \<^verbatim>\<open>str.strip\<close> on ASCII text.\<close>

definition lower_char :: "char \<Rightarrow> char" where
  "lower_char c = (if 65 \<le> (of_char c :: nat) \<and> (of_char c :: nat) \<le> 90
                   then char_of ((of_char c :: nat) + 32) else c)"

definition py_lower :: "string \<Rightarrow> string" where
  "py_lower s = map lower_char s"

definition upper_char :: "char \<Rightarrow> char" where
  "upper_char c = (if 97 \<le> (of_char c :: nat) \<and> (of_char c :: nat) \<le> 122
                   then char_of ((of_char c :: nat) - 32) else c)"

definition py_upper :: "string \<Rightarrow> string" where
  "py_upper s = map upper_char s"

definition is_space :: "char \<Rightarrow> bool" where
  "is_space c = (let n = (of_char c :: nat) in n = 32 \<or> (9 \<le> n \<and> n \<le> 13) \<or> (28 \<le> n \<and> n \<le> 31))"

definition py_strip :: "string \<Rightarrow> string" where
  "py_strip s = rev (dropWhile is_space (rev (dropWhile is_space s)))"

text \<open>\<^verbatim>\<open>needle in text\<close> on strings.\<close>

fun contains :: "string \<Rightarrow> string \<Rightarrow> bool" where
  "contains needle [] = (needle = [])"
| "contains needle (c # cs) = (take (length needle) (c # cs) = needle \<or> contains needle cs)"

lemma contains_iff: "contains n t \<longleftrightarrow> (\<exists>u v. t = u @ n @ v)"
proof (induction t)
  case Nil
  then show ?case by auto
next
  case (Cons c t)
  have "take (length n) (c # t) = n \<longleftrightarrow> (\<exists>v. c # t = n @ v)"
    by (metis append_eq_conv_conj append_take_drop_id)
  moreover have "(\<exists>u v. c # t = u @ n @ v) \<longleftrightarrow> (\<exists>v. c # t = n @ v) \<or> (\<exists>u v. t = u @ n @ v)"
    by (auto simp: Cons_eq_append_conv)
  ultimately show ?case using Cons.IH by simp
qed

lemma contains_inside: "contains n t \<Longrightarrow> contains n (u @ t @ v)"
  unfolding contains_iff by (metis append.assoc)

text \<open>\<^verbatim>\<open>repr\<close> of a list of strings.\<close>

fun join_with :: "string \<Rightarrow> string list \<Rightarrow> string" where
  "join_with sep [] = []"
| "join_with sep [x] = x"
| "join_with sep (x # y # ys) = x @ sep @ join_with sep (y # ys)"

definition py_repr_list :: "string list \<Rightarrow> string" where
  "py_repr_list xs = ''['' @ join_with '', '' (map py_repr xs) @ '']''"

section \<open>Tables\<close>

text \<open>
  A table is the list of its rows in rowid order. \<^verbatim>\<open>SELECT ... WHERE p\<close> with \<^verbatim>\<open>fetchone\<close> takes the
  first row, \<^verbatim>\<open>UPDATE ... WHERE p\<close> changes every matching row, \<^verbatim>\<open>ORDER BY\<close> is a stable sort.
\<close>

definition update_where :: "('r \<Rightarrow> bool) \<Rightarrow> ('r \<Rightarrow> 'r) \<Rightarrow> 'r list \<Rightarrow> 'r list" where
  "update_where p f rows = map (\<lambda>r. if p r then f r else r) rows"

lemma update_where_simps [simp]:
  "update_where p f [] = []"
  "update_where p f (r # rs) = (if p r then f r else r) # update_where p f rs"
  by (simp_all add: update_where_def)

lemma length_update_where [simp]: "length (update_where p f rows) = length rows"
  by (simp add: update_where_def)

lemma update_where_append [simp]:
  "update_where p f (xs @ ys) = update_where p f xs @ update_where p f ys"
  by (simp add: update_where_def)

lemma in_update_where:
  "r \<in> set (update_where p f rows) \<longleftrightarrow> (\<exists>q \<in> set rows. r = (if p q then f q else q))"
  by (auto simp: update_where_def)

lemma map_update_where:
  assumes "\<And>r. r \<in> set rows \<Longrightarrow> p r \<Longrightarrow> k (f r) = k r"
  shows "map k (update_where p f rows) = map k rows"
  using assms by (induction rows) auto

lemma find_update_where:
  assumes "\<And>r. k (f r) = k r"
  shows "find (\<lambda>r. k r = x) (update_where (\<lambda>r. k r = x) f rows) = map_option f (find (\<lambda>r. k r = x) rows)"
  using assms by (induction rows) auto

lemma find_update_where_other:
  assumes "\<And>r. k (f r) = k r" and "y \<noteq> x"
  shows "find (\<lambda>r. k r = y) (update_where (\<lambda>r. k r = x) f rows) = find (\<lambda>r. k r = y) rows"
  using assms by (induction rows) auto

lemma find_update_same:
  assumes "\<And>r. p (f r) = p r"
  shows "find p (update_where p f rows) = map_option f (find p rows)"
  using assms by (induction rows) auto

lemma find_update_disjoint:
  assumes "\<And>r. q r \<Longrightarrow> \<not> p r" and "\<And>r. q r \<Longrightarrow> \<not> p (f r)"
  shows "find p (update_where q f rows) = find p rows"
  using assms by (induction rows) auto

lemma update_where_none:
  assumes "\<And>r. r \<in> set rows \<Longrightarrow> \<not> p r"
  shows "update_where p f rows = rows"
  using assms by (induction rows) auto

lemma update_where_compose:
  assumes "\<And>r. p r \<Longrightarrow> p (f r)"
  shows "update_where p g (update_where p f rows) = update_where p (g \<circ> f) rows"
  using assms by (induction rows) auto

lemma find_SomeD: "find p xs = Some x \<Longrightarrow> x \<in> set xs \<and> p x"
  by (induction xs) (auto split: if_splits)

lemma find_None_all: "find p xs = None \<longleftrightarrow> (\<forall>x \<in> set xs. \<not> p x)"
  by (induction xs) auto

lemma find_key_unique:
  assumes "distinct (map k rows)" and "r \<in> set rows"
  shows "find (\<lambda>q. k q = k r) rows = Some r"
  using assms by (induction rows) (auto simp: image_iff)

lemma find_append: "find p (xs @ ys) = (case find p xs of None \<Rightarrow> find p ys | Some x \<Rightarrow> Some x)"
  by (induction xs) auto

text \<open>With a unique key, an update by the key of a row changes that row alone.\<close>

lemma update_where_key:
  assumes "distinct (map k rows)" and "r \<in> set rows"
  shows "update_where (\<lambda>x. k x = k r) f rows = map (\<lambda>x. if x = r then f x else x) rows"
proof -
  have "k x = k r \<longleftrightarrow> x = r" if "x \<in> set rows" for x
    using assms that by (auto simp: distinct_map inj_on_def)
  then show ?thesis by (simp add: update_where_def)
qed

lemma update_where_key_cong:
  assumes "distinct (map k rows)" and "r \<in> set rows" and "f r = g r"
  shows "update_where (\<lambda>x. k x = k r) f rows = update_where (\<lambda>x. k x = k r) g rows"
  using assms(3) by (simp add: update_where_key [OF assms(1,2)])

lemma update_where_key_id:
  assumes "distinct (map k rows)" and "r \<in> set rows" and "g r = r"
  shows "update_where (\<lambda>x. k x = k r) g rows = rows"
proof -
  have "(\<lambda>x. if x = r then g x else x) = (\<lambda>x. x)" using assms(3) by auto
  then show ?thesis by (simp add: update_where_key [OF assms(1,2)])
qed

text \<open>
  A loop over selected rows that updates each of them by its key, ends with every selected row
  updated and every other row as it was.
\<close>

lemma foldE_sweep:
  assumes step: "\<And>r s. Inv s \<Longrightarrow> r \<in> set rows \<Longrightarrow> r \<in> set (tab s) \<Longrightarrow>
      \<exists>s'. f r s = Inr s' \<and> Inv s' \<and> tab s' = update_where (\<lambda>x. k x = k r) g (tab s)"
    and key: "\<And>x. k (g x) = k x"
    and "Inv s" and "distinct (map k (tab s))" and "distinct rows" and "set rows \<subseteq> set (tab s)"
  shows "\<exists>s'. foldE f rows s = Inr s' \<and> Inv s' \<and> tab s' = map (\<lambda>x. if x \<in> set rows then g x else x) (tab s)"
  using step assms(3-)
proof (induction rows arbitrary: s)
  case Nil
  then show ?case by simp
next
  case (Cons r rows)
  have r: "r \<in> set (tab s)" using Cons.prems(5) by simp
  from Cons.prems(1) [OF Cons.prems(2) _ r] obtain s1 where
    s1: "f r s = Inr s1" "Inv s1" "tab s1 = update_where (\<lambda>x. k x = k r) g (tab s)" by auto
  have tab1: "tab s1 = map (\<lambda>x. if x = r then g x else x) (tab s)"
    unfolding s1(3) by (rule update_where_key) (use Cons.prems(3) r in auto)
  have inj: "x = y" if "x \<in> set (tab s)" "y \<in> set (tab s)" "k x = k y" for x y
    using that Cons.prems(3) by (auto simp: distinct_map inj_on_def)
  have "map k (tab s1) = map k (tab s)" by (simp add: tab1 key)
  then have "distinct (map k (tab s1))" using Cons.prems(3) by simp
  moreover have "set rows \<subseteq> set (tab s1)"
    using Cons.prems(4,5) by (auto simp: tab1 image_iff)
  moreover have "distinct rows" using Cons.prems(4) by simp
  ultimately obtain s' where s': "foldE f rows s1 = Inr s'" "Inv s'"
    "tab s' = map (\<lambda>x. if x \<in> set rows then g x else x) (tab s1)"
    using Cons.IH [OF Cons.prems(1) s1(2)] by auto
  have "g r \<notin> set rows"
  proof
    assume "g r \<in> set rows"
    with Cons.prems(5) inj [OF _ r, of "g r"] key have "g r = r" by auto
    with \<open>g r \<in> set rows\<close> Cons.prems(4) show False by simp
  qed
  then have "tab s' = map (\<lambda>x. if x \<in> set (r # rows) then g x else x) (tab s)"
    unfolding s'(3) tab1 by auto
  with s1(1) s'(1,2) show ?case by auto
qed

section \<open>The contract of a validated state machine\<close>

text \<open>
  A transition table is a dictionary from a state to the states it may move to;
  \<open>allowed_from\<close> is \<^verbatim>\<open>TABLE.get(state, frozenset())\<close>.
\<close>

definition allowed_from :: "(string \<times> string list) list \<Rightarrow> string \<Rightarrow> string list" where
  "allowed_from table s = (case map_of table s of None \<Rightarrow> [] | Some ts \<Rightarrow> ts)"

text \<open>The states visited by a run that follows the table.\<close>

fun walk :: "(string \<times> string list) list \<Rightarrow> string \<Rightarrow> string list \<Rightarrow> bool" where
  "walk table s [] = True"
| "walk table s (t # ts) = (t \<in> set (allowed_from table s) \<and> walk table t ts)"

definition last_state :: "string \<Rightarrow> string list \<Rightarrow> string" where
  "last_state s ts = (if ts = [] then s else last ts)"

lemma last_state_simps [simp]:
  "last_state s [] = s"
  "last_state s (ts @ [t]) = t"
  by (simp_all add: last_state_def)

lemma walk_snoc: "walk table s (ts @ [t]) \<longleftrightarrow> walk table s ts \<and> t \<in> set (allowed_from table (last_state s ts))"
  by (induction ts arbitrary: s) (auto simp: last_state_def)

lemma allowed_from_all_keys:
  assumes "t \<in> set (allowed_from table s)"
  shows "\<exists>ts. (s, ts) \<in> set table \<and> t \<in> set ts"
  using assms by (cases "map_of table s") (auto simp: allowed_from_def dest: map_of_SomeD)

text \<open>Two checks of a concrete table, by evaluation.\<close>

definition table_closed :: "string list \<Rightarrow> (string \<times> string list) list \<Rightarrow> bool" where
  "table_closed states table = list_all (\<lambda>(s, ts). list_all (\<lambda>x. x \<in> set states) (s # ts)) table"

definition stuck_exactly :: "string list \<Rightarrow> (string \<times> string list) list \<Rightarrow> string list \<Rightarrow> bool" where
  "stuck_exactly states table terminal =
     list_all (\<lambda>s. (s \<in> set terminal) = (allowed_from table s = [])) states"

lemma table_closedD: "table_closed states table \<Longrightarrow> (s, ts) \<in> set table \<Longrightarrow> set (s # ts) \<subseteq> set states"
  by (auto simp: table_closed_def list_all_iff)

lemma table_closed_edge:
  "table_closed states table \<Longrightarrow> t \<in> set (allowed_from table s) \<Longrightarrow> s \<in> set states \<and> t \<in> set states"
  using allowed_from_all_keys table_closedD by fastforce

lemma stuck_exactlyD:
  "stuck_exactly states table terminal \<Longrightarrow> s \<in> set states \<Longrightarrow> s \<in> set terminal \<longleftrightarrow> allowed_from table s = []"
  by (simp add: stuck_exactly_def list_all_iff)

text \<open>
  The five lifecycles of the runtime (dispatch, lease, worker, headless run, inbox event)
  share one contract: a validation that succeeds exactly on the table's edges, a table
  that stays inside the declared states, and declared terminal states with no way out.
\<close>

locale validated_lifecycle =
  fixes states :: "string list"
    and terminal :: "string list"
    and table :: "(string \<times> string list) list"
    and validate :: "string \<Rightarrow> string \<Rightarrow> exn + unit"
  assumes validate_edge: "validate s t = Inr u \<longleftrightarrow> t \<in> set (allowed_from table s)"
    and table_inside: "(s, ts) \<in> set table \<Longrightarrow> set (s # ts) \<subseteq> set states"
    and terminal_inside: "set terminal \<subseteq> set states"
    and terminal_stuck: "s \<in> set states \<Longrightarrow> s \<in> set terminal \<longleftrightarrow> allowed_from table s = []"
begin

lemma edge_inside:
  "t \<in> set (allowed_from table s) \<Longrightarrow> s \<in> set states \<and> t \<in> set states"
  using allowed_from_all_keys table_inside by fastforce

lemma terminal_refuses: "s \<in> set terminal \<Longrightarrow> \<exists>e. validate s t = Inl e"
proof -
  assume s: "s \<in> set terminal"
  then have "allowed_from table s = []"
    using terminal_stuck terminal_inside by auto
  then have "validate s t \<noteq> Inr ()" by (simp add: validate_edge)
  then show ?thesis by (cases "validate s t") auto
qed

lemma walk_from_terminal: "s \<in> set terminal \<Longrightarrow> walk table s ts \<Longrightarrow> ts = []"
  using terminal_stuck terminal_inside by (cases ts) auto

lemma walk_inside: "s \<in> set states \<Longrightarrow> walk table s ts \<Longrightarrow> last_state s ts \<in> set states"
proof (induction ts rule: rev_induct)
  case Nil
  then show ?case by simp
next
  case (snoc t ts)
  then show ?case by (auto simp: walk_snoc dest: edge_inside)
qed

lemma validate_inside: "validate s t = Inr u \<Longrightarrow> s \<in> set states \<and> t \<in> set states"
  using validate_edge edge_inside by blast

lemma validate_not_terminal: "validate s t = Inr u \<Longrightarrow> s \<notin> set terminal"
  using terminal_refuses [of s t] by auto

end

end
