(* ===== verification/Coordination_DB.thy ===== *)
theory Coordination_DB
  imports Prelude "HOL-Library.AList"
begin

text \<open>
  The leaf module \<^verbatim>\<open>scripts/lib/coordination_db.py\<close> and the tables of
  \<^verbatim>\<open>runtime_coordination.db\<close> (\<^verbatim>\<open>schemas/runtime_coordination*.sql\<close>): the rows, the store
  that holds them, the canonical state sets and transition tables, the coordination event
  log and the raw queries.

  The store also carries what an operation reads from its process: the clock (read once
  per operation), the two environment variables of \<^verbatim>\<open>project_scope.py\<close>, the project id the
  store's own file resolves to, the tables that have a \<open>project_id\<close> column, and the source
  of \<^verbatim>\<open>uuid4\<close> values.
\<close>

section \<open>Rows\<close>

record dispatch_row =
  d_id :: string
  d_project :: "string option"
  d_state :: string
  d_terminal :: "string option"
  d_track :: "string option"
  d_priority :: "string option"
  d_pr_ref :: "string option"
  d_gate :: "string option"
  d_attempt_count :: int
  d_bundle_path :: "string option"
  d_created_at :: int
  d_updated_at :: int
  d_expires_after :: "string option"
  d_metadata :: json
  d_task_class :: "string option"
  d_channel_origin :: "string option"
  d_claimed_by :: "string option"
  d_claimed_at :: "int option"
  d_output_ref :: "string option"

record attempt_row =
  a_id :: string
  a_dispatch :: string
  a_project :: "string option"
  a_number :: int
  a_terminal :: string
  a_state :: string
  a_started_at :: int
  a_ended_at :: "int option"
  a_failure_reason :: "string option"
  a_metadata :: json

record lease_row =
  l_terminal :: string
  l_project :: "string option"
  l_state :: string
  l_dispatch :: "string option"
  l_generation :: int
  l_leased_at :: "stamp option"
  l_expires_at :: "stamp option"
  l_heartbeat_at :: "stamp option"
  l_released_at :: "stamp option"

record event_row =
  e_id :: string
  e_type :: string
  e_entity_type :: string
  e_entity :: string
  e_from :: "string option"
  e_to :: "string option"
  e_actor :: string
  e_reason :: "string option"
  e_metadata :: json
  e_at :: int
  e_project :: "string option"

record worker_row =
  w_terminal :: string
  w_dispatch :: string
  w_state :: string
  w_last_output_at :: "int option"
  w_entered_at :: int
  w_stall_count :: int
  w_blocked_reason :: "string option"
  w_created_at :: int
  w_updated_at :: int

record run_row =
  r_id :: string
  r_dispatch :: string
  r_attempt :: string
  r_target :: string
  r_target_type :: string
  r_task_class :: string
  r_terminal :: "string option"
  r_pid :: "int option"
  r_pgid :: "int option"
  r_state :: string
  r_failure_class :: "string option"
  r_exit_code :: "int option"
  r_started_at :: int
  r_subprocess_started_at :: "int option"
  r_heartbeat_at :: "int option"
  r_last_output_at :: "int option"
  r_completed_at :: "int option"
  r_duration :: "rat option"
  r_log_path :: "string option"
  r_output_path :: "string option"
  r_receipt :: "string option"
  r_metadata :: json

record incident_row =
  i_id :: string
  i_class :: string
  i_severity :: string
  i_entity_type :: string
  i_entity :: string
  i_dispatch :: "string option"
  i_terminal :: "string option"
  i_component :: "string option"
  i_state :: string
  i_attempt_count :: int
  i_budget_exhausted :: bool
  i_escalated :: bool
  i_halted :: bool
  i_failure_detail :: "string option"
  i_actor :: string
  i_occurred_at :: int
  i_resolved_at :: "int option"
  i_metadata :: json
  i_project :: "string option"

record retry_row =
  y_dispatch :: string
  y_class :: string
  y_attempts_used :: int
  y_last_attempt_at :: "int option"
  y_next_eligible_at :: "stamp option"
  y_budget_exhausted :: bool
  y_escalated :: bool
  y_halted :: bool
  y_created_at :: int
  y_updated_at :: int
  y_project :: "string option"

record escalation_row =
  x_id :: string
  x_incident :: string
  x_dispatch :: "string option"
  x_terminal :: "string option"
  x_class :: string
  x_severity :: string
  x_escalated_to :: string
  x_reason :: string
  x_retry_count :: int
  x_budget_exhausted :: bool
  x_halted :: bool
  x_acknowledged :: bool
  x_acknowledged_at :: "int option"
  x_metadata :: json
  x_created_at :: int
  x_project :: "string option"

record budget_row =
  b_key :: string
  b_entity_type :: string
  b_entity :: string
  b_class :: string
  b_attempts_used :: int
  b_max_retries :: int
  b_cooldown :: int
  b_backoff :: rat
  b_max_cooldown :: int
  b_last_attempt_at :: "int option"
  b_next_allowed_at :: "stamp option"
  b_escalated_at :: "int option"
  b_halted :: bool
  b_created_at :: int
  b_updated_at :: int
  b_project :: "string option"

record inbox_row =
  n_id :: string
  n_channel :: string
  n_dedupe_key :: string
  n_state :: string
  n_payload :: "(string \<times> json) list"
  n_hints :: "(string \<times> json) list"
  n_dispatch :: "string option"
  n_attempt_count :: int
  n_max_retries :: int
  n_failure_reason :: "string option"
  n_received_at :: int
  n_processed_at :: "int option"
  n_metadata :: "(string \<times> json) list"
  n_project :: "string option"

record target_row =
  g_id :: string
  g_type :: string
  g_terminal :: "string option"
  g_capabilities :: "string list"
  g_health :: string
  g_health_checked_at :: "int option"
  g_model :: "string option"
  g_registered_at :: int
  g_updated_at :: int
  g_metadata :: json
  g_project :: "string option"

record level_row =
  v_entity_type :: string
  v_entity :: string
  v_level :: string
  v_category :: "string option"
  v_description :: "string option"
  v_policy_class :: "string option"
  v_decision_type :: "string option"
  v_retry_count :: "int option"
  v_budget_remaining :: "int option"
  v_escalated_at :: int
  v_updated_at :: int
  v_resolved_at :: "int option"
  v_resolved_by :: "string option"

record override_row =
  o_id :: string
  o_entity_type :: string
  o_entity :: string
  o_actor :: string
  o_type :: string
  o_justification :: string
  o_outcome :: string
  o_previous :: string
  o_new :: string
  o_policy_class :: "string option"
  o_decision_type :: "string option"
  o_scope :: "string option"
  o_at :: int

section \<open>The store\<close>

record store =
  dispatches :: "dispatch_row list"
  attempts :: "attempt_row list"
  leases :: "lease_row list"
  events :: "event_row list"
  workers :: "worker_row list"
  runs :: "run_row list"
  incidents :: "incident_row list"
  retries :: "retry_row list"
  escalations :: "escalation_row list"
  budgets :: "budget_row list"
  inbox :: "inbox_row list"
  exec_targets :: "target_row list"
  levels :: "level_row list"
  overrides :: "override_row list"
  pid_tables :: "string list"
  has_claim_cols :: bool
  env_project :: "string option"
  env_filter :: "string option"
  env_headless :: "string option"
  env_autonomy :: "string option"
  store_project :: "string option"
  clock :: int
  uuid_at :: "nat \<Rightarrow> string"
  uuid_next :: nat

text \<open>
  A write through \<^verbatim>\<open>get_connection\<close> that raises before \<^verbatim>\<open>commit\<close> leaves the database as it was.
\<close>

definition commit :: "store \<Rightarrow> exn + ('a \<times> store) \<Rightarrow> (exn + 'a) \<times> store" where
  "commit s r = (case r of Inl e \<Rightarrow> (Inl e, s) | Inr (x, s') \<Rightarrow> (Inr x, s'))"

lemma commit_Inl [simp]: "commit s (Inl e) = (Inl e, s)"
  by (simp add: commit_def)

lemma commit_Inr [simp]: "commit s (Inr (x, s')) = (Inr x, s')"
  by (simp add: commit_def)

lemma commit_eq_Inr: "commit s r = (Inr x, s') \<longleftrightarrow> r = Inr (x, s')"
  by (auto simp: commit_def split: sum.splits)

lemma commit_eq_Inl: "commit s r = (Inl e, s') \<longleftrightarrow> r = Inl e \<and> s' = s"
  by (auto simp: commit_def split: sum.splits)

definition DEFAULT_PROJECT :: string where
  "DEFAULT_PROJECT = ''vnx-dev''"

text \<open>
  The rows that \<^verbatim>\<open>runtime_coordination.sql\<close> and \<^verbatim>\<open>runtime_coordination_v4.sql\<close> seed: an idle lease per terminal
  and the three interactive targets, which nobody has seen yet. No event tells of them. The stamps of the targets are
  SQLite's, in milliseconds.
\<close>

definition SEED_LEASES :: "string option \<Rightarrow> lease_row list" where
  "SEED_LEASES project =
     map (\<lambda>terminal. \<lparr>l_terminal = terminal, l_project = project, l_state = ''idle'', l_dispatch = None, l_generation = 1,
                     l_leased_at = None, l_expires_at = None, l_heartbeat_at = None, l_released_at = None\<rparr>)
       [''T1'', ''T2'', ''T3'']"

definition SEED_TARGETS :: "string option \<Rightarrow> int \<Rightarrow> target_row list" where
  "SEED_TARGETS project now =
     map (\<lambda>(terminal, model).
            \<lparr>g_id = ''interactive_tmux_claude_'' @ terminal, g_type = ''interactive_tmux_claude'', g_terminal = Some terminal,
             g_capabilities = [''coding_interactive'', ''research_structured'', ''docs_synthesis'', ''ops_watchdog''],
             g_health = ''offline'', g_health_checked_at = None, g_model = Some model,
             g_registered_at = now div 1000 * 1000, g_updated_at = now div 1000 * 1000, g_metadata = JObj [],
             g_project = project\<rparr>)
       [(''T1'', ''sonnet''), (''T2'', ''sonnet''), (''T3'', ''opus'')]"

text \<open>A database just created, for a process with the given environment.\<close>

definition empty_store :: "string list \<Rightarrow> string option \<Rightarrow> int \<Rightarrow> store" where
  "empty_store with_project_id project now =
     \<lparr>dispatches = [], attempts = [],
      leases = SEED_LEASES (if ''terminal_leases'' \<in> set with_project_id then Some DEFAULT_PROJECT else None),
      events = [], workers = [], runs = [], incidents = [], retries = [], escalations = [], budgets = [], inbox = [],
      exec_targets =
        SEED_TARGETS (if ''execution_targets'' \<in> set with_project_id then Some DEFAULT_PROJECT else None) now,
      levels = [], overrides = [],
      pid_tables = with_project_id, has_claim_cols = True, env_project = project,
      env_filter = None, env_headless = None, env_autonomy = None, store_project = project, clock = now,
      uuid_at = (\<lambda>n. ''uuid-'' @ nat_digits n), uuid_next = 0\<rparr>"

text \<open>
  A loop whose rounds commit on their own: an exception ends it, what the earlier rounds
  committed stays.
\<close>

fun each_committed ::
  "('r \<Rightarrow> 'a \<Rightarrow> store \<Rightarrow> (exn + 'a) \<times> store) \<Rightarrow> 'r list \<Rightarrow> 'a \<Rightarrow> store \<Rightarrow> (exn + 'a) \<times> store" where
  "each_committed f [] a s = (Inr a, s)"
| "each_committed f (r # rs) a s =
     (case f r a s of (Inl e, s') \<Rightarrow> (Inl e, s') | (Inr a', s') \<Rightarrow> each_committed f rs a' s')"

lemma each_committed_foldE:
  assumes "foldE (\<lambda>r (a, s). case f r a s of (Inl e, s') \<Rightarrow> Inl e | (Inr a', s') \<Rightarrow> Inr (a', s')) rs (a, s) = Inr (a', s')"
  shows "each_committed f rs a s = (Inr a', s')"
  using assms by (induction rs arbitrary: a s) (auto simp: bindE_eq_Inr split: prod.splits sum.splits)

lemma each_committed_sweep:
  assumes step: "\<And>r a s. Inv (a, s) \<Longrightarrow> r \<in> set rows \<Longrightarrow> r \<in> set (tab s) \<Longrightarrow>
      \<exists>a' s'. f r a s = (Inr a', s') \<and> Inv (a', s') \<and> tab s' = update_where (\<lambda>x. k x = k r) g (tab s)"
    and key: "\<And>x. k (g x) = k x"
    and "Inv (a, s)" and "distinct (map k (tab s))" and "distinct rows" and "set rows \<subseteq> set (tab s)"
  shows "\<exists>a' s'. each_committed f rows a s = (Inr a', s') \<and> Inv (a', s') \<and>
    tab s' = map (\<lambda>x. if x \<in> set rows then g x else x) (tab s)"
proof -
  let ?f = "\<lambda>r (a, s). case f r a s of (Inl e, s') \<Rightarrow> Inl e | (Inr a', s') \<Rightarrow> Inr (a', s')"
  have step': "\<exists>st'. ?f r st = Inr st' \<and> Inv st' \<and> tab (snd st') = update_where (\<lambda>x. k x = k r) g (tab (snd st))"
    if "Inv st" "r \<in> set rows" "r \<in> set (tab (snd st))" for r st
    using step [of "fst st" "snd st" r] that by (cases st) auto
  obtain st' where st': "foldE ?f rows (a, s) = Inr st'" "Inv st'"
    "tab (snd st') = map (\<lambda>x. if x \<in> set rows then g x else x) (tab s)"
    using foldE_sweep [of Inv rows "\<lambda>st. tab (snd st)" ?f k g "(a, s)", OF step' key assms(3)] assms(4-6)
    by auto
  obtain a' s' where "st' = (a', s')" by (cases st')
  with st' each_committed_foldE [of f rows a s a' s'] show ?thesis by auto
qed

section \<open>Canonical states and transitions\<close>

definition DISPATCH_STATES :: "string list" where
  "DISPATCH_STATES =
     [''proposed'', ''ready'',
      ''queued'', ''claimed'', ''delivering'', ''accepted'', ''running'',
      ''completed'', ''timed_out'', ''failed_delivery'', ''expired'', ''recovered'', ''dead_letter'',
      ''withdrawn'']"

definition TERMINAL_DISPATCH_STATES :: "string list" where
  "TERMINAL_DISPATCH_STATES = [''completed'', ''expired'', ''dead_letter'', ''withdrawn'']"

definition ACCEPTED_OR_BEYOND_STATES :: "string list" where
  "ACCEPTED_OR_BEYOND_STATES =
     [''accepted'', ''running'', ''completed'', ''timed_out'', ''expired'', ''dead_letter'']"

definition LEASE_STATES :: "string list" where
  "LEASE_STATES = [''idle'', ''leased'', ''expired'', ''recovering'', ''released'']"

definition DISPATCH_TRANSITIONS :: "(string \<times> string list) list" where
  "DISPATCH_TRANSITIONS =
     [(''proposed'', [''ready'', ''withdrawn'']),
      (''ready'', [''claimed'', ''expired'', ''withdrawn'']),
      (''queued'', [''claimed'', ''expired'']),
      (''claimed'', [''delivering'', ''expired'', ''recovered'']),
      (''delivering'', [''accepted'', ''failed_delivery'', ''timed_out'']),
      (''accepted'', [''running'', ''timed_out'']),
      (''running'', [''completed'', ''timed_out'', ''failed_delivery'']),
      (''completed'', []),
      (''timed_out'', [''recovered'', ''expired'', ''dead_letter'']),
      (''failed_delivery'', [''recovered'', ''expired'', ''dead_letter'']),
      (''expired'', []),
      (''recovered'', [''queued'', ''claimed'', ''expired'', ''dead_letter'']),
      (''dead_letter'', []),
      (''withdrawn'', [])]"

definition PRE_FLIGHT_DISPATCH_STATES :: "string list" where
  "PRE_FLIGHT_DISPATCH_STATES = [''proposed'', ''ready'', ''queued'']"

definition IN_FLIGHT_DISPATCH_STATES :: "string list" where
  "IN_FLIGHT_DISPATCH_STATES =
     filter (\<lambda>s. s \<notin> set TERMINAL_DISPATCH_STATES \<and> s \<notin> set PRE_FLIGHT_DISPATCH_STATES \<and>
                 ''dead_letter'' \<notin> set (allowed_from DISPATCH_TRANSITIONS s))
       DISPATCH_STATES"

definition LEASE_TRANSITIONS :: "(string \<times> string list) list" where
  "LEASE_TRANSITIONS =
     [(''idle'', [''leased'']),
      (''leased'', [''released'', ''expired'']),
      (''expired'', [''recovering'', ''idle'']),
      (''recovering'', [''idle'', ''leased'']),
      (''released'', [''idle''])]"

section \<open>Project scope\<close>

definition project_id_char :: "char \<Rightarrow> bool" where
  "project_id_char c =
     (let n = (of_char c :: nat) in (97 \<le> n \<and> n \<le> 122) \<or> (48 \<le> n \<and> n \<le> 57) \<or> n = 45)"

text \<open>
  \<^verbatim>\<open>re.match(r"^[a-z][a-z0-9-]{1,31}$", s)\<close>; the dollar sign also matches before one final
  newline.
\<close>

definition project_id_re :: "string \<Rightarrow> bool" where
  "project_id_re s =
     (let body = (if s \<noteq> [] \<and> last s = CHR 10 then butlast s else s) in
      case body of [] \<Rightarrow> False
      | c # cs \<Rightarrow> 97 \<le> (of_char c :: nat) \<and> (of_char c :: nat) \<le> 122 \<and>
                 1 \<le> length cs \<and> length cs \<le> 31 \<and> list_all project_id_char cs)"

definition current_project_id :: "store \<Rightarrow> exn + string" where
  "current_project_id s =
     (if \<not> truthy (env_project s) then Inr DEFAULT_PROJECT
      else if project_id_re (the (env_project s)) then Inr (the (env_project s))
      else Inl (ValueError (''Invalid VNX project_id '' @ py_repr (the (env_project s)) @
                            '': must match /^[a-z][a-z0-9-]{1,31}$/'')))"

definition project_filter_enabled :: "store \<Rightarrow> bool" where
  "project_filter_enabled s =
     (case env_filter s of
        None \<Rightarrow> True
      | Some raw \<Rightarrow> py_lower (py_strip raw) \<notin> {''0'', ''false'', ''no'', ''off''})"

section \<open>Event log and insert stamps\<close>

definition has_project_id_col :: "store \<Rightarrow> string \<Rightarrow> bool" where
  "has_project_id_col s table = (table \<in> set (pid_tables s))"

text \<open>
  \<^verbatim>\<open>str(uuid.uuid4())\<close> is the next value of the store's source. An event row carries the
  next value as its id; writing it advances the source.
\<close>

definition new_uuid :: "store \<Rightarrow> string" where
  "new_uuid s = uuid_at s (uuid_next s)"

definition event_project :: "store \<Rightarrow> string option \<Rightarrow> exn + string option" where
  "event_project s project_id =
     (if has_project_id_col s ''coordination_events''
      then (if truthy project_id then Inr project_id
            else bindE (current_project_id s) (\<lambda>p. Inr (Some p)))
      else Inr None)"

definition mk_event ::
  "store \<Rightarrow> string \<Rightarrow> string \<Rightarrow> string \<Rightarrow> string option \<Rightarrow> string option \<Rightarrow> string \<Rightarrow> string option \<Rightarrow>
   (string \<times> json) list option \<Rightarrow> string option \<Rightarrow> event_row" where
  "mk_event s event_type entity_type entity_id from_state to_state actor reason metadata pid =
     \<lparr>e_id = new_uuid s, e_type = event_type, e_entity_type = entity_type,
      e_entity = entity_id, e_from = from_state, e_to = to_state, e_actor = actor,
      e_reason = reason, e_metadata = dump metadata, e_at = clock s, e_project = pid\<rparr>"

definition log_event :: "event_row \<Rightarrow> store \<Rightarrow> store" where
  "log_event e s = s\<lparr>uuid_next := Suc (uuid_next s), events := events s @ [e]\<rparr>"

definition append_event ::
  "string \<Rightarrow> string \<Rightarrow> string \<Rightarrow> string option \<Rightarrow> string option \<Rightarrow> string \<Rightarrow> string option \<Rightarrow>
   (string \<times> json) list option \<Rightarrow> string option \<Rightarrow> store \<Rightarrow> exn + store" where
  "append_event event_type entity_type entity_id from_state to_state actor reason metadata project_id s =
     bindE (event_project s project_id)
       (\<lambda>pid. Inr (log_event (mk_event s event_type entity_type entity_id from_state to_state
                                 actor reason metadata pid) s))"

text \<open>
  \<^verbatim>\<open>project_id_stamp\<close>: no value for a table without the column, else the project id that the
  store's own file resolves to, refusing when none does.
\<close>

definition project_id_stamp :: "store \<Rightarrow> string \<Rightarrow> exn + string option" where
  "project_id_stamp s table =
     (if \<not> has_project_id_col s table then Inr None
      else case store_project s of None \<Rightarrow> Inl TenantUnresolved | Some p \<Rightarrow> Inr (Some p))"

text \<open>
  The foreign key of a row's \<open>dispatch_id\<close> into \<open>dispatches\<close>, on the id alone in a store
  without the \<open>project_id\<close> columns and on the pair in a migrated one.
\<close>

definition dispatch_ref_ok :: "store \<Rightarrow> string \<Rightarrow> string option \<Rightarrow> bool" where
  "dispatch_ref_ok s dispatch_id project =
     list_ex (\<lambda>d. d_id d = dispatch_id \<and> (project = None \<or> d_project d = project)) (dispatches s)"

text \<open>
  The migrations add each \<open>project_id\<close> column with this default; an INSERT that names no
  project gets it.
\<close>

definition column_default :: "store \<Rightarrow> string \<Rightarrow> string option" where
  "column_default s table = (if has_project_id_col s table then Some DEFAULT_PROJECT else None)"

section \<open>Query helpers\<close>

definition get_dispatch :: "store \<Rightarrow> string \<Rightarrow> dispatch_row option" where
  "get_dispatch s dispatch_id = find (\<lambda>d. d_id d = dispatch_id) (dispatches s)"

definition get_lease :: "store \<Rightarrow> string \<Rightarrow> exn + lease_row option" where
  "get_lease s terminal_id =
     (if has_project_id_col s ''terminal_leases'' \<and> project_filter_enabled s
      then bindE (current_project_id s)
             (\<lambda>p. Inr (find (\<lambda>l. l_terminal l = terminal_id \<and> l_project l = Some p) (leases s)))
      else Inr (find (\<lambda>l. l_terminal l = terminal_id) (leases s)))"

definition sql_limit :: "int \<Rightarrow> 'a list \<Rightarrow> 'a list" where
  "sql_limit n rows = (if n < 0 then rows else take (nat n) rows)"

definition get_events ::
  "store \<Rightarrow> string option \<Rightarrow> string option \<Rightarrow> string option \<Rightarrow> int \<Rightarrow> exn + event_row list" where
  "get_events s entity_id entity_type event_type limit =
     bindE (if has_project_id_col s ''coordination_events'' \<and> project_filter_enabled s
            then bindE (current_project_id s) (\<lambda>p. Inr (Some p)) else Inr None)
       (\<lambda>scope.
         Inr (sql_limit limit (sort_key (\<lambda>e. - e_at e)
               (filter (\<lambda>e. (truthy entity_id \<longrightarrow> Some (e_entity e) = entity_id) \<and>
                            (truthy entity_type \<longrightarrow> Some (e_entity_type e) = entity_type) \<and>
                            (truthy event_type \<longrightarrow> Some (e_type e) = event_type) \<and>
                            (scope \<noteq> None \<longrightarrow> e_project e = scope))
                  (events s)))))"

text \<open>The record \<^verbatim>\<open>terminal_state.json\<close> holds per terminal; an absent key is \<open>None\<close>.\<close>

record terminal_record =
  t_status :: string
  t_version :: int
  t_claimed_by :: "string option"
  t_claimed_at :: "stamp option"
  t_expires_at :: "stamp option"
  t_last_activity :: "stamp option"

fun truthy_stamp :: "stamp option \<Rightarrow> bool" where
  "truthy_stamp None = False"
| "truthy_stamp (Some (At _)) = True"
| "truthy_stamp (Some (Garbled s)) = (s \<noteq> [])"

definition projected_status :: "string \<Rightarrow> string" where
  "projected_status lease_state =
     (if lease_state = ''leased'' then ''working''
      else if lease_state \<in> {''expired'', ''recovering''} then ''recovering''
      else ''idle'')"

definition project_row :: "lease_row \<Rightarrow> terminal_record" where
  "project_row r =
     \<lparr>t_status = projected_status (l_state r), t_version = l_generation r,
      t_claimed_by = (if truthy (l_dispatch r) then l_dispatch r else None),
      t_claimed_at = (if truthy_stamp (l_leased_at r) then l_leased_at r else None),
      t_expires_at = (if truthy_stamp (l_expires_at r) then l_expires_at r else None),
      t_last_activity = (if truthy_stamp (l_heartbeat_at r) then l_heartbeat_at r else None)\<rparr>"

definition project_terminal_state :: "store \<Rightarrow> exn + (string \<times> terminal_record) list" where
  "project_terminal_state s =
     bindE (if has_project_id_col s ''terminal_leases'' \<and> project_filter_enabled s
            then bindE (current_project_id s)
                   (\<lambda>p. Inr (filter (\<lambda>l. l_project l = Some p) (leases s)))
            else Inr (leases s))
       (\<lambda>rows. Inr (fold (\<lambda>r terminals. AList.update (l_terminal r) (project_row r) terminals) rows []))"

section \<open>Lemmas\<close>

lemma log_event_simps [simp]:
  "dispatches (log_event e s) = dispatches s"
  "attempts (log_event e s) = attempts s"
  "leases (log_event e s) = leases s"
  "events (log_event e s) = events s @ [e]"
  "workers (log_event e s) = workers s"
  "runs (log_event e s) = runs s"
  "incidents (log_event e s) = incidents s"
  "retries (log_event e s) = retries s"
  "escalations (log_event e s) = escalations s"
  "budgets (log_event e s) = budgets s"
  "inbox (log_event e s) = inbox s"
  "pid_tables (log_event e s) = pid_tables s"
  "has_claim_cols (log_event e s) = has_claim_cols s"
  "env_project (log_event e s) = env_project s"
  "env_filter (log_event e s) = env_filter s"
  "store_project (log_event e s) = store_project s"
  "clock (log_event e s) = clock s"
  "uuid_at (log_event e s) = uuid_at s"
  "uuid_next (log_event e s) = Suc (uuid_next s)"
  by (simp_all add: log_event_def)

lemma log_event_inject [simp]: "log_event e s = log_event e' s \<longleftrightarrow> e = e'"
proof
  assume "log_event e s = log_event e' s"
  then have "events (log_event e s) = events (log_event e' s)" by (rule arg_cong)
  then show "e = e'" by (simp add: log_event_def)
qed simp

lemma mk_event_simps [simp]:
  "e_id (mk_event s ty ety eid f t a r m p) = new_uuid s"
  "e_type (mk_event s ty ety eid f t a r m p) = ty"
  "e_entity_type (mk_event s ty ety eid f t a r m p) = ety"
  "e_entity (mk_event s ty ety eid f t a r m p) = eid"
  "e_from (mk_event s ty ety eid f t a r m p) = f"
  "e_to (mk_event s ty ety eid f t a r m p) = t"
  "e_actor (mk_event s ty ety eid f t a r m p) = a"
  "e_reason (mk_event s ty ety eid f t a r m p) = r"
  "e_metadata (mk_event s ty ety eid f t a r m p) = dump m"
  "e_at (mk_event s ty ety eid f t a r m p) = clock s"
  "e_project (mk_event s ty ety eid f t a r m p) = p"
  by (simp_all add: mk_event_def)

lemma append_event_eq_Inr:
  "append_event ty ety eid f t a r m pid s = Inr s' \<longleftrightarrow>
     (\<exists>p. event_project s pid = Inr p \<and> s' = log_event (mk_event s ty ety eid f t a r m p) s)"
  by (auto simp: append_event_def bindE_eq_Inr)

lemma append_event_eq_Inl:
  "append_event ty ety eid f t a r m pid s = Inl e \<longleftrightarrow> event_project s pid = Inl e"
  by (auto simp: append_event_def bindE_eq_Inl)

text \<open>What decides whether an event can be written is not changed by writing rows.\<close>

lemma event_project_cong:
  "pid_tables s' = pid_tables s \<Longrightarrow> env_project s' = env_project s \<Longrightarrow>
   event_project s' pid = event_project s pid"
  by (simp add: event_project_def has_project_id_col_def current_project_id_def)

lemma event_project_log [simp]: "event_project (log_event e s) pid = event_project s pid"
  by (rule event_project_cong) simp_all

text \<open>
  An event log write fails only for an invalid project id in the environment, and only
  when the caller names no project.
\<close>

lemma append_event_total:
  "\<not> has_project_id_col s ''coordination_events'' \<or> truthy pid \<or> (\<exists>p. current_project_id s = Inr p) \<Longrightarrow>
   \<exists>s'. append_event ty ety eid f t a r m pid s = Inr s'"
  by (auto simp: append_event_def event_project_def)

text \<open>Whether an event that names no project can be written.\<close>

definition events_ok :: "store \<Rightarrow> bool" where
  "events_ok s = (\<not> isl (event_project s None))"

definition default_project :: "store \<Rightarrow> string option" where
  "default_project s = projr (event_project s None)"

lemma events_ok_cong:
  "pid_tables s' = pid_tables s \<Longrightarrow> env_project s' = env_project s \<Longrightarrow> events_ok s' = events_ok s"
  using event_project_cong [of s' s None] by (simp only: events_ok_def)

lemma events_ok_log [simp]: "events_ok (log_event e s) = events_ok s"
  by (rule events_ok_cong) simp_all

lemma events_ok_project: "events_ok s \<Longrightarrow> \<exists>p. event_project s pid = Inr p"
  by (cases "event_project s None") (auto simp: events_ok_def event_project_def split: if_splits)

lemma append_event_any_ok:
  "events_ok s \<Longrightarrow> \<exists>p. append_event ty ety eid f t a r m pid s =
     Inr (log_event (mk_event s ty ety eid f t a r m p) s)"
  using events_ok_project [of s pid] by (auto simp: append_event_def)

lemma append_event_ok:
  "events_ok s \<Longrightarrow> append_event ty ety eid f t a r m None s =
     Inr (log_event (mk_event s ty ety eid f t a r m (default_project s)) s)"
  by (cases "event_project s None") (simp_all add: append_event_def events_ok_def default_project_def)

lemma append_event_not_ok:
  "\<not> events_ok s \<Longrightarrow> \<exists>e. append_event ty ety eid f t a r m None s = Inl e"
  by (cases "event_project s None") (simp_all add: append_event_def events_ok_def)

lemma append_event_None_eq_Inr:
  "append_event ty ety eid f t a r m None s = Inr s' \<longleftrightarrow>
     events_ok s \<and> s' = log_event (mk_event s ty ety eid f t a r m (default_project s)) s"
  by (cases "event_project s None") (auto simp: append_event_def events_ok_def default_project_def)

text \<open>What no operation on the tables changes: the schema, the environment and the clock.\<close>

definition same_env :: "store \<Rightarrow> store \<Rightarrow> bool" where
  "same_env s s' = (pid_tables s' = pid_tables s \<and> has_claim_cols s' = has_claim_cols s \<and>
     env_project s' = env_project s \<and> env_filter s' = env_filter s \<and>
     store_project s' = store_project s \<and> clock s' = clock s \<and> uuid_at s' = uuid_at s)"

lemma same_env_refl [simp, intro]: "same_env s s"
  by (simp add: same_env_def)

lemma same_env_trans: "same_env s s1 \<Longrightarrow> same_env s1 s2 \<Longrightarrow> same_env s s2"
  by (simp add: same_env_def)

lemma same_env_log [simp]: "same_env s (log_event e s') = same_env s s'"
  by (simp add: same_env_def)

lemma same_env_simps:
  assumes "same_env s s'"
  shows "clock s' = clock s" "events_ok s' = events_ok s" "has_project_id_col s' t = has_project_id_col s t"
    "event_project s' pid = event_project s pid" "default_project s' = default_project s"
    "project_filter_enabled s' = project_filter_enabled s" "current_project_id s' = current_project_id s"
    "project_id_stamp s' t = project_id_stamp s t"
proof -
  show ev: "event_project s' pid = event_project s pid" for pid
    using assms by (intro event_project_cong) (simp_all add: same_env_def)
  show "events_ok s' = events_ok s" "default_project s' = default_project s"
    by (simp_all only: events_ok_def default_project_def ev)
  show "clock s' = clock s" "has_project_id_col s' t = has_project_id_col s t"
    "project_filter_enabled s' = project_filter_enabled s" "current_project_id s' = current_project_id s"
    "project_id_stamp s' t = project_id_stamp s t"
    using assms by (simp_all add: same_env_def has_project_id_col_def project_filter_enabled_def
        current_project_id_def project_id_stamp_def)
qed

lemma find_get_dispatch: "get_dispatch s d = Some r \<Longrightarrow> d_id r = d \<and> r \<in> set (dispatches s)"
  by (auto simp: get_dispatch_def dest: find_SomeD)

lemma set_DISPATCH_STATES:
  "set DISPATCH_STATES = {''proposed'', ''ready'', ''queued'', ''claimed'', ''delivering'', ''accepted'',
     ''running'', ''completed'', ''timed_out'', ''failed_delivery'', ''expired'', ''recovered'',
     ''dead_letter'', ''withdrawn''}"
  by (auto simp: DISPATCH_STATES_def)

lemma set_TERMINAL: "set TERMINAL_DISPATCH_STATES = {''completed'', ''expired'', ''dead_letter'', ''withdrawn''}"
  by (auto simp: TERMINAL_DISPATCH_STATES_def)

lemma in_flight_eq: "IN_FLIGHT_DISPATCH_STATES = [''claimed'', ''delivering'', ''accepted'', ''running'']"
  by (simp add: IN_FLIGHT_DISPATCH_STATES_def DISPATCH_STATES_def TERMINAL_DISPATCH_STATES_def
      PRE_FLIGHT_DISPATCH_STATES_def DISPATCH_TRANSITIONS_def allowed_from_def)

lemmas dispatch_table_defs =
  DISPATCH_STATES_def TERMINAL_DISPATCH_STATES_def DISPATCH_TRANSITIONS_def allowed_from_def

lemmas lease_table_defs = LEASE_STATES_def LEASE_TRANSITIONS_def allowed_from_def

end
