(* ===== verification/Dispatch_Lifecycle.thy ===== *)
theory Dispatch_Lifecycle
  imports Coordination_DB "HOL-Library.Option_ord" "HOL-Library.Product_Lexorder"
begin

text \<open>
  \<^verbatim>\<open>scripts/lib/runtime_state_machine.py\<close>: validation against the canonical tables, dispatch
  registration, project-scoped and unscoped transitions, idempotent transitions, attempts
  and the atomic queue claim.

  An operation that works on an open connection returns either the exception it raises or
  its value with the new store; the caller decides when to commit.
\<close>

section \<open>Validation\<close>

definition validate_dispatch_state :: "string \<Rightarrow> exn + unit" where
  "validate_dispatch_state state = guardE (state \<in> set DISPATCH_STATES) (InvalidStateError state)"

definition validate_lease_state :: "string \<Rightarrow> exn + unit" where
  "validate_lease_state state = guardE (state \<in> set LEASE_STATES) (InvalidStateError state)"

definition validate_dispatch_transition :: "string \<Rightarrow> string \<Rightarrow> exn + unit" where
  "validate_dispatch_transition from_state to_state =
     bindE (validate_dispatch_state from_state) (\<lambda>_.
     bindE (validate_dispatch_state to_state) (\<lambda>_.
     guardE (to_state \<in> set (allowed_from DISPATCH_TRANSITIONS from_state))
       (InvalidTransitionError from_state to_state)))"

definition is_terminal_dispatch_state :: "string \<Rightarrow> bool" where
  "is_terminal_dispatch_state state = (state \<in> set TERMINAL_DISPATCH_STATES)"

definition is_accepted_or_beyond :: "string \<Rightarrow> bool" where
  "is_accepted_or_beyond state = (state \<in> set ACCEPTED_OR_BEYOND_STATES)"

definition validate_lease_transition :: "string \<Rightarrow> string \<Rightarrow> exn + unit" where
  "validate_lease_transition from_state to_state =
     bindE (validate_lease_state from_state) (\<lambda>_.
     bindE (validate_lease_state to_state) (\<lambda>_.
     guardE (to_state \<in> set (allowed_from LEASE_TRANSITIONS from_state))
       (InvalidTransitionError from_state to_state)))"

section \<open>Project scope of a transition\<close>

text \<open>
  The \<open>project_id\<close> keyword of a transition: not passed at all (the legacy behaviour), or
  some Python value.
\<close>

datatype project_arg = Unset | Given json

fun resolve_project_scope :: "project_arg \<Rightarrow> exn + string option" where
  "resolve_project_scope Unset = Inr None"
| "resolve_project_scope (Given (JStr p)) =
     (if py_strip p = [] then Inl (ValueError ''project_id must be a non-empty string when given'')
      else Inr (Some p))"
| "resolve_project_scope (Given _) =
     Inl (ValueError ''project_id must be a non-empty string when given'')"

definition in_scope :: "string \<Rightarrow> string option \<Rightarrow> dispatch_row \<Rightarrow> bool" where
  "in_scope dispatch_id scope d = (d_id d = dispatch_id \<and> (scope = None \<or> d_project d = scope))"

definition dispatch_row_of :: "store \<Rightarrow> string \<Rightarrow> string option \<Rightarrow> dispatch_row option" where
  "dispatch_row_of s dispatch_id scope = find (in_scope dispatch_id scope) (dispatches s)"

text \<open>\<^verbatim>\<open>WHERE ... project_id = ?\<close> on a table that was never migrated.\<close>

definition project_column :: "store \<Rightarrow> string option \<Rightarrow> exn + unit" where
  "project_column s scope =
     guardE (scope = None \<or> has_project_id_col s ''dispatches'') (OperationalError ''no such column: project_id'')"

section \<open>Registration\<close>

definition register_dispatch ::
  "string \<Rightarrow> string \<Rightarrow> string option \<Rightarrow> string option \<Rightarrow> string option \<Rightarrow> string option \<Rightarrow>
   string option \<Rightarrow> string option \<Rightarrow> string option \<Rightarrow> (string \<times> json) list option \<Rightarrow> string \<Rightarrow>
   store \<Rightarrow> exn + (dispatch_row \<times> store)" where
  "register_dispatch dispatch_id project_id terminal_id track priority pr_ref gate bundle_path
      expires_after metadata actor s =
     (let has_pid = has_project_id_col s ''dispatches'' in
      case get_dispatch s dispatch_id of
        Some existing \<Rightarrow>
          if has_pid \<and> truthy (d_project existing) \<and> d_project existing \<noteq> Some project_id
          then Inl (ValueError (''Cross-tenant dispatch_id reuse: '' @ py_repr dispatch_id @
                 '' is already registered under project '' @ py_repr (the (d_project existing)) @
                 ''; refusing registration under '' @ py_repr project_id))
          else Inr (existing, s)
      | None \<Rightarrow>
          let now = clock s;
              row = \<lparr>d_id = dispatch_id, d_project = (if has_pid then Some project_id else None),
                     d_state = ''queued'', d_terminal = terminal_id, d_track = track,
                     d_priority = priority, d_pr_ref = pr_ref, d_gate = gate, d_attempt_count = 0,
                     d_bundle_path = bundle_path, d_created_at = now, d_updated_at = now,
                     d_expires_after = expires_after, d_metadata = dump metadata,
                     d_task_class = None, d_channel_origin = None, d_claimed_by = None,
                     d_claimed_at = None, d_output_ref = None\<rparr>;
              s1 = s\<lparr>dispatches := dispatches s @ [row]\<rparr>
          in bindE (append_event ''dispatch_queued'' ''dispatch'' dispatch_id None (Some ''queued'')
                      actor (Some ''initial registration'') metadata (Some project_id) s1)
               (\<lambda>s2. bindE (fetch_dict (get_dispatch s2 dispatch_id)) (\<lambda>r. Inr (r, s2))))"

section \<open>Transitions\<close>

definition set_dispatch_state :: "string \<Rightarrow> string option \<Rightarrow> string \<Rightarrow> store \<Rightarrow> store" where
  "set_dispatch_state dispatch_id scope to_state s =
     s\<lparr>dispatches := update_where (in_scope dispatch_id scope)
         (\<lambda>d. d\<lparr>d_state := to_state, d_updated_at := clock s\<rparr>) (dispatches s)\<rparr>"

definition transition_dispatch_scoped ::
  "string \<Rightarrow> string \<Rightarrow> string \<Rightarrow> string option \<Rightarrow> (string \<times> json) list option \<Rightarrow> string option \<Rightarrow>
   store \<Rightarrow> exn + (dispatch_row \<times> store)" where
  "transition_dispatch_scoped dispatch_id to_state actor reason metadata scope s =
     bindE (project_column s scope) (\<lambda>_.
      case dispatch_row_of s dispatch_id scope of
        None \<Rightarrow> Inl (KeyError dispatch_id)
      | Some row \<Rightarrow>
          bindE (validate_dispatch_transition (d_state row) to_state) (\<lambda>_.
          bindE (guardE (scope = None \<or> list_ex (in_scope dispatch_id scope) (dispatches s))
                   (KeyError dispatch_id)) (\<lambda>_.
          bindE (append_event (''dispatch_'' @ to_state) ''dispatch'' dispatch_id
                   (Some (d_state row)) (Some to_state) actor reason metadata scope
                   (set_dispatch_state dispatch_id scope to_state s)) (\<lambda>s2.
          bindE (fetch_dict (dispatch_row_of s2 dispatch_id scope)) (\<lambda>r. Inr (r, s2))))))"

definition transition_dispatch ::
  "string \<Rightarrow> string \<Rightarrow> string \<Rightarrow> string option \<Rightarrow> (string \<times> json) list option \<Rightarrow> project_arg \<Rightarrow>
   store \<Rightarrow> exn + (dispatch_row \<times> store)" where
  "transition_dispatch dispatch_id to_state actor reason metadata project_id s =
     bindE (resolve_project_scope project_id)
       (\<lambda>scope. transition_dispatch_scoped dispatch_id to_state actor reason metadata scope s)"

definition check_idempotent_noop ::
  "string \<Rightarrow> string \<Rightarrow> string \<Rightarrow> string \<Rightarrow> string option \<Rightarrow> (string \<times> json) list option \<Rightarrow>
   dispatch_row \<Rightarrow> string option \<Rightarrow> store \<Rightarrow> exn + (dispatch_row option \<times> store)" where
  "check_idempotent_noop dispatch_id from_state to_state actor reason metadata row scope s =
     (if from_state = to_state then
        bindE (append_event ''dispatch_noop'' ''dispatch'' dispatch_id (Some from_state) (Some to_state)
                 actor (Some (or_else reason (''idempotent no-op: already in '' @ py_repr to_state)))
                 metadata scope s)
          (\<lambda>s1. Inr (Some row, s1))
      else if is_terminal_dispatch_state from_state then
        Inl (DuplicateTransitionError dispatch_id from_state to_state)
      else if to_state = ''accepted'' \<and> is_accepted_or_beyond from_state then
        bindE (append_event ''dispatch_noop'' ''dispatch'' dispatch_id (Some from_state) (Some to_state)
                 actor (Some (or_else reason (''idempotent no-op: already at '' @ py_repr from_state @
                                              '' (past '' @ py_repr to_state @ '')'')))
                 metadata scope s)
          (\<lambda>s1. Inr (Some row, s1))
      else Inr (None, s))"

definition transition_dispatch_idempotent ::
  "string \<Rightarrow> string \<Rightarrow> string \<Rightarrow> string option \<Rightarrow> (string \<times> json) list option \<Rightarrow> project_arg \<Rightarrow>
   store \<Rightarrow> exn + (dispatch_row \<times> store)" where
  "transition_dispatch_idempotent dispatch_id to_state actor reason metadata project_id s =
     bindE (resolve_project_scope project_id) (\<lambda>scope.
     bindE (project_column s scope) (\<lambda>_.
     case dispatch_row_of s dispatch_id scope of
       None \<Rightarrow> Inl (KeyError dispatch_id)
     | Some row \<Rightarrow>
         bindE (check_idempotent_noop dispatch_id (d_state row) to_state actor reason metadata row scope s)
           (\<lambda>(noop, s1).
             case noop of
               Some r \<Rightarrow> Inr (r, s1)
             | None \<Rightarrow> transition_dispatch_scoped dispatch_id to_state actor reason metadata scope s1)))"

section \<open>Attempts\<close>

definition increment_attempt_count :: "string \<Rightarrow> store \<Rightarrow> int \<times> store" where
  "increment_attempt_count dispatch_id s =
     (let s1 = s\<lparr>dispatches := update_where (\<lambda>d. d_id d = dispatch_id)
                  (\<lambda>d. d\<lparr>d_attempt_count := d_attempt_count d + 1, d_updated_at := clock s\<rparr>)
                  (dispatches s)\<rparr>
      in (case get_dispatch s1 dispatch_id of None \<Rightarrow> 0 | Some d \<Rightarrow> d_attempt_count d, s1))"

definition get_attempt :: "store \<Rightarrow> string \<Rightarrow> attempt_row option" where
  "get_attempt s attempt_id = find (\<lambda>a. a_id a = attempt_id) (attempts s)"

definition create_attempt ::
  "string \<Rightarrow> string option \<Rightarrow> string \<Rightarrow> int \<Rightarrow> (string \<times> json) list option \<Rightarrow> string \<Rightarrow>
   store \<Rightarrow> exn + (attempt_row \<times> store)" where
  "create_attempt dispatch_id project_id terminal_id attempt_number metadata actor s =
     (let has_pid = has_project_id_col s ''dispatch_attempts'';
          attempt_id = new_uuid s;
          row = \<lparr>a_id = attempt_id, a_dispatch = dispatch_id,
                 a_project = (if has_pid then project_id else None), a_number = attempt_number,
                 a_terminal = terminal_id, a_state = ''pending'', a_started_at = clock s,
                 a_ended_at = None, a_failure_reason = None, a_metadata = dump metadata\<rparr>;
          s1 = s\<lparr>uuid_next := Suc (uuid_next s), attempts := attempts s @ [row]\<rparr>
      in bindE (guardE (\<not> (has_pid \<and> project_id = None))
                  (IntegrityError ''NOT NULL constraint failed: dispatch_attempts.project_id'')) (\<lambda>_.
         bindE (guardE (dispatch_ref_ok s dispatch_id (a_project row))
                  (IntegrityError ''FOREIGN KEY constraint failed'')) (\<lambda>_.
         bindE (guardE (get_attempt s attempt_id = None)
                  (IntegrityError ''UNIQUE constraint failed: dispatch_attempts.attempt_id'')) (\<lambda>_.
         bindE (append_event ''attempt_created'' ''attempt'' attempt_id None (Some ''pending'') actor
                  (Some (''attempt '' @ py_int attempt_number @ '' for dispatch '' @ dispatch_id))
                  (Some [(''dispatch_id'', JStr dispatch_id), (''terminal_id'', JStr terminal_id),
                         (''attempt_number'', JInt attempt_number)]) project_id s1) (\<lambda>s2.
         bindE (fetch_dict (get_attempt s2 attempt_id)) (\<lambda>r. Inr (r, s2)))))))"

definition update_attempt ::
  "string \<Rightarrow> string \<Rightarrow> string option \<Rightarrow> (string \<times> json) list option \<Rightarrow> string \<Rightarrow>
   store \<Rightarrow> exn + (attempt_row \<times> store)" where
  "update_attempt attempt_id state failure_reason metadata actor s =
     (case get_attempt s attempt_id of
        None \<Rightarrow> Inl (KeyError attempt_id)
      | Some row \<Rightarrow>
          let s1 = s\<lparr>attempts := update_where (\<lambda>a. a_id a = attempt_id)
                      (\<lambda>a. a\<lparr>a_state := state, a_ended_at := Some (clock s),
                            a_failure_reason := failure_reason\<rparr>) (attempts s)\<rparr>;
              event_type = (if state = ''failed'' then ''attempt_failed'' else ''attempt_'' @ state)
          in bindE (append_event event_type ''attempt'' attempt_id (Some (a_state row)) (Some state)
                      actor failure_reason metadata None s1) (\<lambda>s2.
             bindE (fetch_dict (get_attempt s2 attempt_id)) (\<lambda>r. Inr (r, s2))))"

section \<open>The queue claim\<close>

text \<open>
  \<^verbatim>\<open>ORDER BY priority ASC, created_at ASC\<close>: SQLite puts NULL first and compares TEXT bytewise.
\<close>

datatype queue_key = QueueKey (qk_priority: "string option") (qk_created_at: int)

instantiation queue_key :: linorder
begin

definition less_eq_queue_key :: "queue_key \<Rightarrow> queue_key \<Rightarrow> bool" where
  "less_eq_queue_key a b = ((qk_priority a, qk_created_at a) \<le> (qk_priority b, qk_created_at b))"

definition less_queue_key :: "queue_key \<Rightarrow> queue_key \<Rightarrow> bool" where
  "less_queue_key a b = ((qk_priority a, qk_created_at a) < (qk_priority b, qk_created_at b))"

instance
proof
  fix a b c :: queue_key
  show "(a < b) = (a \<le> b \<and> \<not> b \<le> a)"
    by (auto simp: less_eq_queue_key_def less_queue_key_def)
  show "a \<le> a" by (simp add: less_eq_queue_key_def)
  show "a \<le> b \<Longrightarrow> b \<le> c \<Longrightarrow> a \<le> c"
    unfolding less_eq_queue_key_def by (rule order_trans)
  show "a \<le> b \<Longrightarrow> b \<le> a \<Longrightarrow> a = b"
    unfolding less_eq_queue_key_def by (cases a; cases b) auto
  show "a \<le> b \<or> b \<le> a"
    unfolding less_eq_queue_key_def by (rule linear)
qed

end

definition queue_key_of :: "dispatch_row \<Rightarrow> queue_key" where
  "queue_key_of d = QueueKey (d_priority d) (d_created_at d)"

definition next_queued :: "store \<Rightarrow> string \<Rightarrow> dispatch_row option" where
  "next_queued s project_id =
     (case sort_key queue_key_of
             (filter (\<lambda>d. d_project d = Some project_id \<and> d_state d = ''queued'') (dispatches s)) of
        [] \<Rightarrow> None
      | d # _ \<Rightarrow> Some d)"

definition claim_next_queued_dispatch ::
  "string \<Rightarrow> string \<Rightarrow> string \<Rightarrow> store \<Rightarrow> exn + (string option \<times> store)" where
  "claim_next_queued_dispatch terminal_id project_id actor s =
     bindE (project_column s (Some project_id)) (\<lambda>_.
      case next_queued s project_id of
        None \<Rightarrow> Inr (None, s)
      | Some row \<Rightarrow>
          let dispatch_id = d_id row;
              now = clock s;
              mine = in_scope dispatch_id (Some project_id);
              s1 = set_dispatch_state dispatch_id (Some project_id) ''claimed'' s
          in bindE (validate_dispatch_transition ''queued'' ''claimed'') (\<lambda>_.
             bindE (append_event ''dispatch_claimed'' ''dispatch'' dispatch_id (Some ''queued'')
                      (Some ''claimed'') actor (Some (''queue claim by terminal '' @ terminal_id))
                      (Some [(''terminal_id'', JStr terminal_id), (''project_id'', JStr project_id)])
                      (Some project_id) s1) (\<lambda>s2.
             let s3 = s2\<lparr>dispatches := update_where mine
                          (\<lambda>d. if has_claim_cols s2
                               then d\<lparr>d_terminal := Some terminal_id, d_claimed_by := Some terminal_id,
                                      d_claimed_at := Some now\<rparr>
                               else d\<lparr>d_terminal := Some terminal_id\<rparr>) (dispatches s2)\<rparr>
             in bindE (append_event ''dispatch_claim_provenance'' ''dispatch'' dispatch_id None None
                         actor (Some (''claim provenance stamped by terminal '' @ terminal_id))
                         (Some [(''terminal_id'', JStr terminal_id), (''claimed_by'', JStr terminal_id),
                                (''claimed_at'', JInt now), (''dispatch_id'', JStr dispatch_id),
                                (''project_id'', JStr project_id)]) (Some project_id) s3)
                  (\<lambda>s4. Inr (Some dispatch_id, s4)))))"

section \<open>The dispatch and lease lifecycles\<close>

lemma dispatch_table_closed: "table_closed DISPATCH_STATES DISPATCH_TRANSITIONS"
  by code_simp

lemma dispatch_stuck: "stuck_exactly DISPATCH_STATES DISPATCH_TRANSITIONS TERMINAL_DISPATCH_STATES"
  by code_simp

lemma lease_table_closed: "table_closed LEASE_STATES LEASE_TRANSITIONS"
  by code_simp

lemma lease_stuck: "stuck_exactly LEASE_STATES LEASE_TRANSITIONS []"
  by code_simp

lemma validate_dispatch_transition_iff:
  "validate_dispatch_transition s t = Inr u \<longleftrightarrow> t \<in> set (allowed_from DISPATCH_TRANSITIONS s)"
  using table_closed_edge [OF dispatch_table_closed, of t s]
  by (auto simp: validate_dispatch_transition_def validate_dispatch_state_def result_iffs)

lemma validate_lease_transition_iff:
  "validate_lease_transition s t = Inr u \<longleftrightarrow> t \<in> set (allowed_from LEASE_TRANSITIONS s)"
  using table_closed_edge [OF lease_table_closed, of t s]
  by (auto simp: validate_lease_transition_def validate_lease_state_def result_iffs)

interpretation dispatch_life: validated_lifecycle
  DISPATCH_STATES TERMINAL_DISPATCH_STATES DISPATCH_TRANSITIONS validate_dispatch_transition
proof unfold_locales
  show "set TERMINAL_DISPATCH_STATES \<subseteq> set DISPATCH_STATES" by code_simp
qed (use validate_dispatch_transition_iff table_closedD [OF dispatch_table_closed]
       stuck_exactlyD [OF dispatch_stuck] in blast)+

interpretation lease_life: validated_lifecycle
  LEASE_STATES "[]" LEASE_TRANSITIONS validate_lease_transition
proof unfold_locales
  show "set [] \<subseteq> set LEASE_STATES" by simp
qed (use validate_lease_transition_iff table_closedD [OF lease_table_closed]
       stuck_exactlyD [OF lease_stuck] in blast)+

section \<open>Effects of the operations\<close>

lemma set_dispatch_state_simps [simp]:
  "dispatches (set_dispatch_state did scope t s) =
     update_where (in_scope did scope) (\<lambda>d. d\<lparr>d_state := t, d_updated_at := clock s\<rparr>) (dispatches s)"
  "attempts (set_dispatch_state did scope t s) = attempts s"
  "leases (set_dispatch_state did scope t s) = leases s"
  "events (set_dispatch_state did scope t s) = events s"
  "workers (set_dispatch_state did scope t s) = workers s"
  "runs (set_dispatch_state did scope t s) = runs s"
  "incidents (set_dispatch_state did scope t s) = incidents s"
  "retries (set_dispatch_state did scope t s) = retries s"
  "escalations (set_dispatch_state did scope t s) = escalations s"
  "budgets (set_dispatch_state did scope t s) = budgets s"
  "inbox (set_dispatch_state did scope t s) = inbox s"
  "pid_tables (set_dispatch_state did scope t s) = pid_tables s"
  "has_claim_cols (set_dispatch_state did scope t s) = has_claim_cols s"
  "env_project (set_dispatch_state did scope t s) = env_project s"
  "env_filter (set_dispatch_state did scope t s) = env_filter s"
  "store_project (set_dispatch_state did scope t s) = store_project s"
  "clock (set_dispatch_state did scope t s) = clock s"
  "uuid_at (set_dispatch_state did scope t s) = uuid_at s"
  "uuid_next (set_dispatch_state did scope t s) = uuid_next s"
  by (simp_all add: set_dispatch_state_def)

lemma event_project_set_dispatch_state [simp]:
  "event_project (set_dispatch_state did scope t s) pid = event_project s pid"
  by (rule event_project_cong) simp_all

lemma in_scope_update [simp]:
  "in_scope did scope (d\<lparr>d_state := t, d_updated_at := c\<rparr>) = in_scope did scope d"
  by (simp add: in_scope_def)

lemma find_scope_update:
  "find (in_scope did scope) (update_where (in_scope did scope) (\<lambda>d. d\<lparr>d_state := t, d_updated_at := c\<rparr>) rows) =
   map_option (\<lambda>d. d\<lparr>d_state := t, d_updated_at := c\<rparr>) (find (in_scope did scope) rows)"
  by (induction rows) auto

lemma dispatch_row_of_some: "dispatch_row_of s did scope = Some row \<Longrightarrow> row \<in> set (dispatches s) \<and> in_scope did scope row"
  by (auto simp: dispatch_row_of_def dest: find_SomeD)

lemma dispatch_row_of_log [simp]: "dispatch_row_of (log_event e s) did scope = dispatch_row_of s did scope"
  by (simp add: dispatch_row_of_def)

lemma dispatch_row_of_set [simp]:
  "dispatch_row_of (set_dispatch_state did scope t s) did scope =
   map_option (\<lambda>d. d\<lparr>d_state := t, d_updated_at := clock s\<rparr>) (dispatch_row_of s did scope)"
  by (simp add: dispatch_row_of_def find_scope_update)

lemma project_column_None [simp]: "project_column s None = Inr ()"
  by (simp add: project_column_def)

lemma project_column_eq [simp]: "project_column s scope = Inr u \<longleftrightarrow> scope = None \<or> has_project_id_col s ''dispatches''"
  by (simp add: project_column_def guardE_eq_Inr)

lemma project_column_ok: "scope = None \<or> has_project_id_col s ''dispatches'' \<Longrightarrow> project_column s scope = Inr ()"
  by simp

text \<open>A transition succeeds exactly along an edge of the table, and this is all it does.\<close>

lemma transition_dispatch_scoped_Inr:
  "transition_dispatch_scoped did t actor reason md scope s = Inr (r, s') \<longleftrightarrow>
   (scope = None \<or> has_project_id_col s ''dispatches'') \<and>
   (\<exists>row pid. dispatch_row_of s did scope = Some row \<and>
      t \<in> set (allowed_from DISPATCH_TRANSITIONS (d_state row)) \<and> event_project s scope = Inr pid \<and>
      r = row\<lparr>d_state := t, d_updated_at := clock s\<rparr> \<and>
      s' = log_event (mk_event (set_dispatch_state did scope t s) (''dispatch_'' @ t) ''dispatch'' did
                        (Some (d_state row)) (Some t) actor reason md pid)
             (set_dispatch_state did scope t s))"
proof (cases "dispatch_row_of s did scope")
  case None
  then show ?thesis by (simp add: transition_dispatch_scoped_def bindE_eq_Inr)
next
  case (Some row)
  then have "list_ex (in_scope did scope) (dispatches s)"
    by (auto simp: list_ex_iff dest!: dispatch_row_of_some)
  with Some show ?thesis
    by (auto simp: transition_dispatch_scoped_def result_iffs validate_dispatch_transition_iff
        append_event_eq_Inr)
qed

section \<open>Frames\<close>

text \<open>
  What every operation on dispatches and attempts leaves alone; the event log only grows.
\<close>

definition dispatch_frame :: "store \<Rightarrow> store \<Rightarrow> bool" where
  "dispatch_frame s s' =
     (same_env s s' \<and> leases s' = leases s \<and> workers s' = workers s \<and> runs s' = runs s \<and>
      incidents s' = incidents s \<and> retries s' = retries s \<and> escalations s' = escalations s \<and>
      budgets s' = budgets s \<and> inbox s' = inbox s \<and> (\<exists>es. events s' = events s @ es))"

lemma dispatch_frame_refl [simp, intro]: "dispatch_frame s s"
  by (simp add: dispatch_frame_def)

lemma dispatch_frame_trans: "dispatch_frame s s1 \<Longrightarrow> dispatch_frame s1 s2 \<Longrightarrow> dispatch_frame s s2"
  by (auto simp: dispatch_frame_def intro: same_env_trans)

lemma dispatch_frame_log: "dispatch_frame s0 s \<Longrightarrow> dispatch_frame s0 (log_event e s)"
  by (auto simp: dispatch_frame_def)

lemma dispatch_frame_set [simp]:
  "dispatch_frame s0 (set_dispatch_state did scope t s) = dispatch_frame s0 s"
  by (simp add: dispatch_frame_def same_env_def)

lemma dispatch_frame_rows [simp]:
  "dispatch_frame s0 (s\<lparr>dispatches := ds\<rparr>) = dispatch_frame s0 s"
  "dispatch_frame s0 (s\<lparr>attempts := rows\<rparr>) = dispatch_frame s0 s"
  "dispatch_frame s0 (s\<lparr>uuid_next := n\<rparr>) = dispatch_frame s0 s"
  by (simp_all add: dispatch_frame_def same_env_def)

lemma dispatch_frame_env: "dispatch_frame s s' \<Longrightarrow> same_env s s'"
  by (simp add: dispatch_frame_def)

text \<open>A legacy transition addresses the rows by the dispatch id alone.\<close>

lemma in_scope_None [simp]: "in_scope did None = (\<lambda>d. d_id d = did)"
  by (simp add: in_scope_def fun_eq_iff)

lemma dispatch_row_of_None [simp]: "dispatch_row_of s did None = get_dispatch s did"
  by (simp add: dispatch_row_of_def get_dispatch_def)

lemma get_dispatch_log [simp]: "get_dispatch (log_event e s) did = get_dispatch s did"
  by (simp add: get_dispatch_def)

lemma get_dispatch_set [simp]:
  "get_dispatch (set_dispatch_state did None t s) did =
   map_option (\<lambda>d. d\<lparr>d_state := t, d_updated_at := clock s\<rparr>) (get_dispatch s did)"
  by (simp add: get_dispatch_def find_update_where)

lemma transition_dispatch_Unset:
  "transition_dispatch did t actor reason md Unset s = Inr (r, s') \<Longrightarrow>
   \<exists>row. get_dispatch s did = Some row \<and> t \<in> set (allowed_from DISPATCH_TRANSITIONS (d_state row)) \<and>
     r = row\<lparr>d_state := t, d_updated_at := clock s\<rparr> \<and>
     dispatches s' = update_where (\<lambda>d. d_id d = did)
        (\<lambda>d. d\<lparr>d_state := t, d_updated_at := clock s\<rparr>) (dispatches s) \<and>
     attempts s' = attempts s \<and> uuid_next s' = Suc (uuid_next s) \<and> dispatch_frame s s' \<and>
     (\<exists>e. events s' = events s @ [e] \<and> e_type e = ''dispatch_'' @ t \<and> e_entity_type e = ''dispatch'' \<and>
          e_entity e = did \<and> e_from e = Some (d_state row) \<and> e_to e = Some t)"
  by (auto simp: transition_dispatch_def transition_dispatch_scoped_Inr dispatch_frame_log)

lemma transition_dispatch_Unset_ok:
  assumes "get_dispatch s did = Some row" and "t \<in> set (allowed_from DISPATCH_TRANSITIONS (d_state row))"
    and "events_ok s"
  shows "\<exists>r s'. transition_dispatch did t actor reason md Unset s = Inr (r, s')"
  using assms events_ok_project [OF assms(3), of None]
  by (auto simp: transition_dispatch_def transition_dispatch_scoped_Inr)

lemma increment_attempt_count_eq:
  "increment_attempt_count did s = (n, s') \<Longrightarrow>
   dispatches s' = update_where (\<lambda>d. d_id d = did)
     (\<lambda>d. d\<lparr>d_attempt_count := d_attempt_count d + 1, d_updated_at := clock s\<rparr>) (dispatches s) \<and>
   attempts s' = attempts s \<and> events s' = events s \<and> uuid_next s' = uuid_next s \<and> dispatch_frame s s'"
  by (auto simp: increment_attempt_count_def Let_def)

lemma get_attempt_log [simp]: "get_attempt (log_event e s) a = get_attempt s a"
  by (simp add: get_attempt_def)

definition fresh_attempt :: "store \<Rightarrow> string \<Rightarrow> string option \<Rightarrow> string \<Rightarrow> int \<Rightarrow> (string \<times> json) list option \<Rightarrow> attempt_row" where
  "fresh_attempt s did project tid n md =
     \<lparr>a_id = new_uuid s, a_dispatch = did,
      a_project = (if has_project_id_col s ''dispatch_attempts'' then project else None), a_number = n,
      a_terminal = tid, a_state = ''pending'', a_started_at = clock s, a_ended_at = None,
      a_failure_reason = None, a_metadata = dump md\<rparr>"

lemma create_attempt_Inr:
  assumes "create_attempt did project tid n md actor s = Inr (r, s')"
  shows "r = fresh_attempt s did project tid n md \<and> attempts s' = attempts s @ [r] \<and>
    get_attempt s (new_uuid s) = None \<and> dispatches s' = dispatches s \<and> dispatch_frame s s' \<and>
    uuid_next s' = Suc (Suc (uuid_next s)) \<and>
    (\<exists>e. events s' = events s @ [e] \<and> e_type e = ''attempt_created'' \<and> e_entity_type e = ''attempt'')"
  using assms
  by (auto simp: create_attempt_def Let_def result_iffs append_event_eq_Inr fresh_attempt_def
      get_attempt_def find_append dispatch_frame_log)

lemma create_attempt_ok:
  assumes "events_ok s" and "get_attempt s (new_uuid s) = None"
    and "has_project_id_col s ''dispatch_attempts'' \<Longrightarrow> project \<noteq> None"
    and "dispatch_ref_ok s did (if has_project_id_col s ''dispatch_attempts'' then project else None)"
  shows "\<exists>r s'. create_attempt did project tid n md actor s = Inr (r, s')"
proof -
  let ?s1 = "s\<lparr>uuid_next := Suc (uuid_next s), attempts := attempts s @ [fresh_attempt s did project tid n md]\<rparr>"
  have "events_ok ?s1" using assms(1) events_ok_cong [of ?s1 s] by simp
  from append_event_any_ok [OF this] obtain p where
    ev: "append_event ''attempt_created'' ''attempt'' (new_uuid s) None (Some ''pending'') actor
      (Some (''attempt '' @ py_int n @ '' for dispatch '' @ did))
      (Some [(''dispatch_id'', JStr did), (''terminal_id'', JStr tid), (''attempt_number'', JInt n)]) project ?s1 =
      Inr p" by blast
  then have p: "attempts p = attempts s @ [fresh_attempt s did project tid n md]"
    by (auto simp: append_event_eq_Inr)
  have "\<exists>r. get_attempt p (new_uuid s) = Some r"
    by (auto simp: get_attempt_def p find_append fresh_attempt_def split: option.splits)
  with ev assms(2-4) show ?thesis
    by (auto simp: create_attempt_def Let_def fresh_attempt_def)
qed

lemma update_attempt_Inr:
  assumes "update_attempt aid state why md actor s = Inr (r, s')"
  shows "\<exists>row. get_attempt s aid = Some row \<and>
    r = row\<lparr>a_state := state, a_ended_at := Some (clock s), a_failure_reason := why\<rparr> \<and>
    attempts s' = update_where (\<lambda>a. a_id a = aid)
      (\<lambda>a. a\<lparr>a_state := state, a_ended_at := Some (clock s), a_failure_reason := why\<rparr>) (attempts s) \<and>
    get_attempt s' aid = Some r \<and>
    dispatches s' = dispatches s \<and> uuid_next s' = Suc (uuid_next s) \<and> dispatch_frame s s' \<and>
    (\<exists>e. events s' = events s @ [e] \<and> e_entity_type e = ''attempt'')"
  using assms
  by (auto simp: update_attempt_def Let_def bindE_eq_Inr fetch_dict_eq_Inr append_event_eq_Inr get_attempt_def
      find_update_where dispatch_frame_log split: option.splits)

lemma update_attempt_ok:
  assumes "get_attempt s aid = Some row" and "events_ok s"
  shows "\<exists>r s'. update_attempt aid state why md actor s = Inr (r, s')"
proof -
  let ?s1 = "s\<lparr>attempts := update_where (\<lambda>a. a_id a = aid)
      (\<lambda>a. a\<lparr>a_state := state, a_ended_at := Some (clock s), a_failure_reason := why\<rparr>) (attempts s)\<rparr>"
  have ok: "events_ok ?s1" using assms(2) events_ok_cong [of ?s1 s] by simp
  show ?thesis
    using assms(1) by (simp add: update_attempt_def Let_def append_event_ok [OF ok] get_attempt_def find_update_where)
qed

section \<open>Correctness of the dispatch lifecycle\<close>

text \<open>A sequence of transitions of one dispatch by one actor.\<close>

definition run_transitions :: "string \<Rightarrow> string \<Rightarrow> string list \<Rightarrow> store \<Rightarrow> exn + store" where
  "run_transitions did actor ts s =
     foldE (\<lambda>t s. bindE (transition_dispatch did t actor None None Unset s) (\<lambda>(r, s'). Inr s')) ts s"

lemma transition_dispatch_Unset_Inr:
  assumes "dispatch_row_of s did None = Some row" and "event_project s None = Inr pid"
  shows "t \<in> set (allowed_from DISPATCH_TRANSITIONS (d_state row)) \<Longrightarrow>
     \<exists>r s'. transition_dispatch did t actor reason md Unset s = Inr (r, s') \<and>
       dispatch_row_of s' did None = Some r \<and> d_state r = t \<and> event_project s' None = Inr pid"
    and "t \<notin> set (allowed_from DISPATCH_TRANSITIONS (d_state row)) \<Longrightarrow>
     \<exists>e. transition_dispatch did t actor reason md Unset s = Inl e"
proof -
  assume "t \<in> set (allowed_from DISPATCH_TRANSITIONS (d_state row))"
  with assms show "\<exists>r s'. transition_dispatch did t actor reason md Unset s = Inr (r, s') \<and>
       dispatch_row_of s' did None = Some r \<and> d_state r = t \<and> event_project s' None = Inr pid"
    by (simp add: transition_dispatch_def transition_dispatch_scoped_Inr)
next
  assume "t \<notin> set (allowed_from DISPATCH_TRANSITIONS (d_state row))"
  with assms(1) have "transition_dispatch did t actor reason md Unset s \<noteq> Inr (r, s')" for r s'
    by (simp add: transition_dispatch_def transition_dispatch_scoped_Inr)
  then show "\<exists>e. transition_dispatch did t actor reason md Unset s = Inl e"
    by (cases "transition_dispatch did t actor reason md Unset s") auto
qed

text \<open>
  C1: A sequence of dispatch transitions is accepted by the runtime exactly when it is a walk
  of the transition table from the dispatch's current state; an accepted sequence leaves the
  dispatch in its last target state.
\<close>

theorem transitions_accept_exactly_the_walks:
  assumes "dispatch_row_of s did None = Some row" and "event_project s None = Inr pid"
  shows "case run_transitions did actor ts s of
           Inl e \<Rightarrow> \<not> walk DISPATCH_TRANSITIONS (d_state row) ts
         | Inr s' \<Rightarrow> walk DISPATCH_TRANSITIONS (d_state row) ts \<and>
             map_option d_state (dispatch_row_of s' did None) = Some (last_state (d_state row) ts)"
  using assms
proof (induction ts arbitrary: s row)
  case Nil
  then show ?case by (simp add: run_transitions_def)
next
  case (Cons t ts)
  show ?case
  proof (cases "t \<in> set (allowed_from DISPATCH_TRANSITIONS (d_state row))")
    case False
    then obtain e where "transition_dispatch did t actor None None Unset s = Inl e"
      using transition_dispatch_Unset_Inr(2) [OF Cons.prems] by blast
    with False show ?thesis by (simp add: run_transitions_def)
  next
    case True
    with Cons.prems obtain r s1 where
      step: "transition_dispatch did t actor None None Unset s = Inr (r, s1)"
      and r: "dispatch_row_of s1 did None = Some r" "d_state r = t" "event_project s1 None = Inr pid"
      using transition_dispatch_Unset_Inr(1) by blast
    from Cons.IH [OF r(1,3)] True step r(2) show ?thesis
      by (auto simp: run_transitions_def last_state_def split: sum.splits)
  qed
qed

definition sample_dispatch :: "string \<Rightarrow> string option \<Rightarrow> string option \<Rightarrow> string \<Rightarrow> int \<Rightarrow> dispatch_row" where
  "sample_dispatch did project priority state created =
     \<lparr>d_id = did, d_project = project, d_state = state, d_terminal = None, d_track = None,
      d_priority = priority, d_pr_ref = None, d_gate = None, d_attempt_count = 0,
      d_bundle_path = None, d_created_at = created, d_updated_at = created, d_expires_after = None,
      d_metadata = JObj [], d_task_class = None, d_channel_origin = None, d_claimed_by = None,
      d_claimed_at = None, d_output_ref = None\<rparr>"

definition demo_store :: store where
  "demo_store = (empty_store [''dispatches'', ''coordination_events''] (Some ''acme'') 100)
     \<lparr>dispatches := [sample_dispatch ''d1'' (Some ''acme'') (Some ''P1'') ''queued'' 10,
                     sample_dispatch ''d1'' (Some ''other'') (Some ''P0'') ''running'' 11,
                     sample_dispatch ''d2'' (Some ''acme'') (Some ''P0'') ''queued'' 12,
                     sample_dispatch ''d3'' (Some ''acme'') None ''completed'' 13]\<rparr>"

lemma transitions_accept_exactly_the_walks_witness:
  "case run_transitions ''d1'' ''broker'' [''claimed'', ''delivering'', ''accepted''] demo_store of
     Inl e \<Rightarrow> False
   | Inr s' \<Rightarrow> map_option d_state (dispatch_row_of s' ''d1'' None) = Some ''accepted''"
proof -
  have row: "dispatch_row_of demo_store ''d1'' None = Some (sample_dispatch ''d1'' (Some ''acme'') (Some ''P1'') ''queued'' 10)"
    by code_simp
  have ev: "event_project demo_store None = Inr (Some ''acme'')" by code_simp
  have "walk DISPATCH_TRANSITIONS ''queued'' [''claimed'', ''delivering'', ''accepted'']" by code_simp
  with transitions_accept_exactly_the_walks [OF row ev, where actor = "''broker''" and ts = "[''claimed'', ''delivering'', ''accepted'']"]
  show ?thesis
    by (simp add: sample_dispatch_def last_state_def split: sum.splits)
qed

text \<open>
  From every dispatch state some accepted sequence of transitions reaches a terminal
  state: no dispatch can be stuck in flight.
\<close>

lemma every_dispatch_can_terminate:
  assumes "s \<in> set DISPATCH_STATES"
  shows "\<exists>ts. walk DISPATCH_TRANSITIONS s ts \<and> is_terminal_dispatch_state (last_state s ts)"
proof -
  have "list_all (\<lambda>s. list_ex (\<lambda>ts. walk DISPATCH_TRANSITIONS s ts \<and>
            is_terminal_dispatch_state (last_state s ts))
          [[], [''expired''], [''withdrawn''], [''dead_letter''], [''timed_out'', ''expired'']]) DISPATCH_STATES"
    by code_simp
  with assms show ?thesis unfolding list_all_iff list_ex_iff by blast
qed

lemma every_dispatch_can_terminate_witness:
  "\<exists>ts. walk DISPATCH_TRANSITIONS ''delivering'' ts \<and>
        is_terminal_dispatch_state (last_state ''delivering'' ts)"
  by (rule every_dispatch_can_terminate) code_simp

text \<open>
  C3: A transition that is given a project moves the rows of that dispatch id in that project
  along an edge of the table and changes nothing else: a row of another project, or of
  another dispatch, is the same row afterwards, every other table is untouched, and one event
  records the state left and the state entered.
\<close>

theorem scoped_transition_isolates_projects:
  assumes "transition_dispatch did t actor reason md (Given (JStr p)) s = Inr (r, s')"
  shows "\<exists>row e. row \<in> set (dispatches s) \<and> d_id row = did \<and> d_project row = Some p \<and>
    t \<in> set (allowed_from DISPATCH_TRANSITIONS (d_state row)) \<and>
    r = row\<lparr>d_state := t, d_updated_at := clock s\<rparr> \<and>
    dispatches s' = map (\<lambda>d. if d_id d = did \<and> d_project d = Some p
                             then d\<lparr>d_state := t, d_updated_at := clock s\<rparr> else d) (dispatches s) \<and>
    events s' = events s @ [e] \<and>
    (e_type e, e_entity e, e_from e, e_to e) = (''dispatch_'' @ t, did, Some (d_state row), Some t) \<and>
    (attempts s', leases s', workers s', runs s', incidents s') =
      (attempts s, leases s, workers s, runs s, incidents s) \<and>
    (retries s', escalations s', budgets s', inbox s') = (retries s, escalations s, budgets s, inbox s)"
proof -
  from assms obtain row pid where
    row: "dispatch_row_of s did (Some p) = Some row" and
    edge: "t \<in> set (allowed_from DISPATCH_TRANSITIONS (d_state row))" and
    r: "r = row\<lparr>d_state := t, d_updated_at := clock s\<rparr>" and
    s': "s' = log_event (mk_event (set_dispatch_state did (Some p) t s) (''dispatch_'' @ t) ''dispatch'' did
                        (Some (d_state row)) (Some t) actor reason md pid)
             (set_dispatch_state did (Some p) t s)"
    by (auto simp: transition_dispatch_def bindE_eq_Inr transition_dispatch_scoped_Inr split: if_splits)
  have "row \<in> set (dispatches s) \<and> d_id row = did \<and> d_project row = Some p"
    using dispatch_row_of_some [OF row] by (simp add: in_scope_def)
  then show ?thesis
    using edge r by (intro exI [of _ row]) (simp add: s' update_where_def in_scope_def)
qed

lemma scoped_transition_isolates_projects_witness:
  "\<exists>r s'. transition_dispatch ''d1'' ''claimed'' ''broker'' None None (Given (JStr ''acme'')) demo_store = Inr (r, s') \<and>
     map d_state (dispatches s') = [''claimed'', ''running'', ''queued'', ''completed'']"
proof -
  have "\<not> isl (transition_dispatch ''d1'' ''claimed'' ''broker'' None None (Given (JStr ''acme'')) demo_store)"
    by code_simp
  then obtain r s' where
    ok: "transition_dispatch ''d1'' ''claimed'' ''broker'' None None (Given (JStr ''acme'')) demo_store = Inr (r, s')"
    by (cases "transition_dispatch ''d1'' ''claimed'' ''broker'' None None (Given (JStr ''acme'')) demo_store") auto
  show ?thesis
    using scoped_transition_isolates_projects [OF ok] ok by (auto simp: demo_store_def sample_dispatch_def)
qed

definition noop_applies :: "string \<Rightarrow> string \<Rightarrow> bool" where
  "noop_applies from_state to_state =
     (from_state = to_state \<or>
      \<not> is_terminal_dispatch_state from_state \<and> to_state = ''accepted'' \<and> is_accepted_or_beyond from_state)"

lemma check_idempotent_noop_Some:
  "check_idempotent_noop did f t actor reason md row scope s = Inr (Some r, s1) \<Longrightarrow>
   r = row \<and> noop_applies f t \<and> (\<exists>e pid. event_project s scope = Inr pid \<and> s1 = log_event e s)"
  by (auto simp: check_idempotent_noop_def noop_applies_def bindE_eq_Inr append_event_eq_Inr split: if_splits)

lemma check_idempotent_noop_None:
  "check_idempotent_noop did f t actor reason md row scope s = Inr (None, s1) \<Longrightarrow>
   s1 = s \<and> \<not> noop_applies f t \<and> \<not> is_terminal_dispatch_state f"
  by (auto simp: check_idempotent_noop_def noop_applies_def bindE_eq_Inr append_event_eq_Inr split: if_splits)

lemma check_idempotent_noop_applies:
  "noop_applies f t \<Longrightarrow> event_project s scope = Inr pid \<Longrightarrow>
   \<exists>e. check_idempotent_noop did f t actor reason md row scope s = Inr (Some row, log_event e s)"
  by (auto simp: check_idempotent_noop_def noop_applies_def append_event_def)

text \<open>A successful idempotent transition either only logs, or is the plain transition.\<close>

lemma transition_dispatch_idempotent_cases:
  assumes "transition_dispatch_idempotent did t actor reason md project s = Inr (r, s1)"
  obtains (noop) scope e pid where "resolve_project_scope project = Inr scope"
      "dispatch_row_of s did scope = Some r" "noop_applies (d_state r) t"
      "event_project s scope = Inr pid" "s1 = log_event e s" "project_column s scope = Inr ()"
  | (move) scope row where "resolve_project_scope project = Inr scope"
      "dispatch_row_of s did scope = Some row" "\<not> is_terminal_dispatch_state (d_state row)"
      "transition_dispatch_scoped did t actor reason md scope s = Inr (r, s1)"
proof -
  from assms obtain scope row noop s' where scope: "resolve_project_scope project = Inr scope"
    and row: "dispatch_row_of s did scope = Some row" "project_column s scope = Inr ()"
    and chk: "check_idempotent_noop did (d_state row) t actor reason md row scope s = Inr (noop, s')"
    and rest: "(case noop of Some r \<Rightarrow> Inr (r, s')
       | None \<Rightarrow> transition_dispatch_scoped did t actor reason md scope s') = Inr (r, s1)"
    by (auto simp: transition_dispatch_idempotent_def bindE_eq_Inr split: option.splits)
  show thesis
  proof (cases noop)
    case None
    with chk rest scope row show thesis
      by (auto dest!: check_idempotent_noop_None intro: move)
  next
    case (Some q)
    with chk rest scope row show thesis
      by (auto dest!: check_idempotent_noop_Some intro: noop)
  qed
qed

text \<open>
  The idempotent transition is idempotent: once it has succeeded it succeeds again, with
  the same row, and the second call changes no row of the table.
\<close>

lemma idempotent_transition_repeats:
  assumes "transition_dispatch_idempotent did t actor reason md project s = Inr (r, s1)"
  shows "\<exists>s2. transition_dispatch_idempotent did t actor' reason' md' project s1 = Inr (r, s2) \<and>
              dispatches s2 = dispatches s1"
proof -
  from assms obtain scope pid where scope: "resolve_project_scope project = Inr scope"
    and row: "dispatch_row_of s1 did scope = Some r" and noop: "noop_applies (d_state r) t"
    and pid: "event_project s1 scope = Inr pid" and col: "project_column s1 scope = Inr ()"
    by (cases rule: transition_dispatch_idempotent_cases)
      (auto simp: transition_dispatch_scoped_Inr noop_applies_def has_project_id_col_def)
  from check_idempotent_noop_applies [OF noop pid] obtain e where
    "check_idempotent_noop did (d_state r) t actor' reason' md' r scope s1 = Inr (Some r, log_event e s1)"
    by blast
  with scope row project_column_ok [OF col [unfolded project_column_eq]] show ?thesis
    by (simp add: transition_dispatch_idempotent_def del: project_column_eq)
qed

lemma idempotent_transition_repeats_witness:
  "\<exists>s1 s2 r. transition_dispatch_idempotent ''d2'' ''claimed'' ''broker'' None None Unset demo_store = Inr (r, s1) \<and>
     transition_dispatch_idempotent ''d2'' ''claimed'' ''retry'' None None Unset s1 = Inr (r, s2) \<and>
     dispatches s2 = dispatches s1"
proof -
  have "\<not> isl (transition_dispatch_idempotent ''d2'' ''claimed'' ''broker'' None None Unset demo_store)"
    by code_simp
  then obtain r s1 where
    "transition_dispatch_idempotent ''d2'' ''claimed'' ''broker'' None None Unset demo_store = Inr (r, s1)"
    by (auto elim: not_isl_obtain)
  with idempotent_transition_repeats [OF this] show ?thesis by blast
qed

text \<open>
  A dispatch in a terminal state never leaves it: a plain transition of it fails, and an
  idempotent one either fails or changes no dispatch row at all.
\<close>

lemma terminal_dispatch_is_final:
  assumes "resolve_project_scope project = Inr scope"
    and "dispatch_row_of s did scope = Some row" and "is_terminal_dispatch_state (d_state row)"
  shows "isl (transition_dispatch did t actor reason md project s) \<and>
    (case transition_dispatch_idempotent did t actor reason md project s of
       Inl e \<Rightarrow> True
     | Inr (r, s') \<Rightarrow> r = row \<and> t = d_state row \<and> dispatches s' = dispatches s)"
proof
  have "allowed_from DISPATCH_TRANSITIONS (d_state row) = []"
    using assms(3) dispatch_life.terminal_stuck dispatch_life.terminal_inside
    by (auto simp: is_terminal_dispatch_state_def)
  then have refused: "transition_dispatch_scoped did t actor reason md scope s \<noteq> Inr (r, s')" for r s'
    using assms(2) by (simp add: transition_dispatch_scoped_Inr)
  with assms(1) show "isl (transition_dispatch did t actor reason md project s)"
    by (cases "transition_dispatch_scoped did t actor reason md scope s") (auto simp: transition_dispatch_def)
  show "case transition_dispatch_idempotent did t actor reason md project s of
       Inl e \<Rightarrow> True
     | Inr (r, s') \<Rightarrow> r = row \<and> t = d_state row \<and> dispatches s' = dispatches s"
  proof (cases "transition_dispatch_idempotent did t actor reason md project s")
    case (Inr b)
    obtain r s' where "b = (r, s')" by (cases b)
    with Inr have "transition_dispatch_idempotent did t actor reason md project s = Inr (r, s')" by simp
    then show ?thesis
      using assms refused
      by (cases rule: transition_dispatch_idempotent_cases) (auto simp: noop_applies_def Inr \<open>b = (r, s')\<close>)
  qed simp
qed

lemma terminal_dispatch_is_final_witness:
  "isl (transition_dispatch ''d3'' ''queued'' ''operator'' None None Unset demo_store)"
proof -
  have row: "dispatch_row_of demo_store ''d3'' None = Some (sample_dispatch ''d3'' (Some ''acme'') None ''completed'' 13)"
    by code_simp
  have terminal: "is_terminal_dispatch_state (d_state (sample_dispatch ''d3'' (Some ''acme'') None ''completed'' 13))"
    by code_simp
  show ?thesis
    using terminal_dispatch_is_final [OF resolve_project_scope.simps(1) row terminal] by blast
qed

section \<open>Correctness of registration\<close>

lemma register_dispatch_existing:
  "get_dispatch s did = Some row \<Longrightarrow>
   register_dispatch did project terminal track prio pr gate bundle expires md actor s = Inr (r, s') \<Longrightarrow>
   r = row \<and> s' = s"
  by (auto simp: register_dispatch_def Let_def split: if_splits)

lemma register_dispatch_fresh:
  assumes "get_dispatch s did = None"
    and "register_dispatch did project terminal track prio pr gate bundle expires md actor s = Inr (r, s')"
  shows "d_id r = did \<and> d_state r = ''queued'' \<and> d_attempt_count r = 0 \<and>
    d_project r = (if has_project_id_col s ''dispatches'' then Some project else None) \<and>
    d_priority r = prio \<and> d_terminal r = terminal \<and> d_bundle_path r = bundle \<and>
    d_track r = track \<and> d_created_at r = clock s \<and>
    (\<exists>e. s' = log_event e (s\<lparr>dispatches := dispatches s @ [r]\<rparr>) \<and>
       e_type e = ''dispatch_queued'' \<and> e_entity_type e = ''dispatch'' \<and> e_entity e = did \<and>
       e_from e = None \<and> e_to e = Some ''queued'')"
  using assms
  by (auto simp: register_dispatch_def Let_def bindE_eq_Inr append_event_eq_Inr get_dispatch_def
      find_append)

text \<open>
  Registration is idempotent and keeps dispatch ids unique: registering a known id returns
  the stored row and changes nothing, a new id adds one queued row with no attempts, and no
  registration ever makes an id occur twice.
\<close>

lemma registration_is_idempotent:
  assumes "register_dispatch did project terminal track prio pr gate bundle expires md actor s = Inr (r, s')"
  shows "get_dispatch s' did = Some r \<and>
    register_dispatch did project terminal' track' prio' pr' gate' bundle' expires' md' actor' s' = Inr (r, s') \<and>
    (case get_dispatch s did of
       Some row \<Rightarrow> r = row \<and> s' = s
     | None \<Rightarrow> dispatches s' = dispatches s @ [r] \<and> d_state r = ''queued'' \<and> d_attempt_count r = 0) \<and>
    (distinct (map d_id (dispatches s)) \<longrightarrow> distinct (map d_id (dispatches s')))"
proof (cases "get_dispatch s did")
  case None
  note new = register_dispatch_fresh [OF None assms]
  have found: "get_dispatch s' did = Some r"
    using None new by (auto simp: get_dispatch_def find_append)
  have fresh: "did \<notin> set (map d_id (dispatches s))"
    using None by (auto simp: get_dispatch_def find_None_all)
  have cols: "has_project_id_col s' t = has_project_id_col s t" for t
    using new by (auto simp: has_project_id_col_def)
  have again: "register_dispatch did project terminal' track' prio' pr' gate' bundle' expires' md' actor' s' = Inr (r, s')"
    using new by (simp add: register_dispatch_def found cols)
  show ?thesis
    unfolding again found None using new fresh by auto
next
  case (Some row)
  then have same: "r = row" "s' = s" using register_dispatch_existing [OF Some assms] by simp_all
  from assms Some have "\<not> (has_project_id_col s ''dispatches'' \<and> truthy (d_project row) \<and> d_project row \<noteq> Some project)"
    by (auto simp: register_dispatch_def split: if_splits)
  then show ?thesis
    using Some by (simp add: same register_dispatch_def)
qed

lemma registration_is_idempotent_witness:
  "\<exists>r s'. register_dispatch ''d9'' ''acme'' None (Some ''A'') (Some ''P1'') None None None None None ''broker'' demo_store
      = Inr (r, s') \<and> get_dispatch s' ''d9'' = Some r \<and> d_state r = ''queued''"
proof -
  have "\<not> isl (register_dispatch ''d9'' ''acme'' None (Some ''A'') (Some ''P1'') None None None None None ''broker'' demo_store)"
    by code_simp
  then obtain r s' where
    ok: "register_dispatch ''d9'' ''acme'' None (Some ''A'') (Some ''P1'') None None None None None ''broker'' demo_store
         = Inr (r, s')"
    by (auto elim: not_isl_obtain)
  have "get_dispatch demo_store ''d9'' = None" by code_simp
  with registration_is_idempotent [OF ok] ok show ?thesis by auto
qed

section \<open>Correctness of the queue\<close>

lemma next_queued_some:
  assumes "next_queued s p = Some d"
  shows "d \<in> set (dispatches s)" and "d_project d = Some p" and "d_state d = ''queued''"
proof -
  obtain ds where "sort_key queue_key_of
      (filter (\<lambda>d. d_project d = Some p \<and> d_state d = ''queued'') (dispatches s)) = d # ds"
    using assms by (auto simp: next_queued_def split: list.splits)
  then have "d \<in> set (sort_key queue_key_of
      (filter (\<lambda>d. d_project d = Some p \<and> d_state d = ''queued'') (dispatches s)))"
    by (metis list.set_intros(1))
  then show "d \<in> set (dispatches s)" "d_project d = Some p" "d_state d = ''queued''" by auto
qed

text \<open>The queue of a project, in claim order.\<close>

definition queue_of :: "string \<Rightarrow> dispatch_row list \<Rightarrow> string list" where
  "queue_of p rows =
     map d_id (sort_key queue_key_of (filter (\<lambda>d. d_project d = Some p \<and> d_state d = ''queued'') rows))"

definition claim_row :: "store \<Rightarrow> string \<Rightarrow> string \<Rightarrow> string \<Rightarrow> dispatch_row \<Rightarrow> dispatch_row" where
  "claim_row s did p terminal d =
     (if d_id d = did \<and> d_project d = Some p
      then (if has_claim_cols s
            then d\<lparr>d_state := ''claimed'', d_updated_at := clock s, d_terminal := Some terminal,
                   d_claimed_by := Some terminal, d_claimed_at := Some (clock s)\<rparr>
            else d\<lparr>d_state := ''claimed'', d_updated_at := clock s, d_terminal := Some terminal\<rparr>)
      else d)"

lemma claim_next_Inr:
  assumes "claim_next_queued_dispatch terminal p actor s = Inr (res, s')"
  shows "case next_queued s p of
      None \<Rightarrow> res = None \<and> s' = s
    | Some row \<Rightarrow> res = Some (d_id row) \<and> dispatches s' = map (claim_row s (d_id row) p terminal) (dispatches s) \<and>
        pid_tables s' = pid_tables s"
  using assms
  by (auto simp: claim_next_queued_dispatch_def Let_def bindE_eq_Inr append_event_eq_Inr
      update_where_def claim_row_def in_scope_def split: option.splits)

lemma claim_next_ok:
  assumes "p \<noteq> []" and "has_project_id_col s ''dispatches''"
  shows "\<exists>res s'. claim_next_queued_dispatch terminal p actor s = Inr (res, s')"
proof -
  have "event_project x (Some p) = Inr (if has_project_id_col x ''coordination_events'' then Some p else None)" for x
    using assms by (auto simp: event_project_def)
  moreover have "validate_dispatch_transition ''queued'' ''claimed'' = Inr ()" by code_simp
  ultimately show ?thesis using assms(2)
    by (auto simp: project_column_ok claim_next_queued_dispatch_def Let_def append_event_def split: option.splits)
qed

text \<open>Distinct keys: the primary key of \<open>dispatches\<close>, alone or with the project.\<close>

definition distinct_keys :: "dispatch_row list \<Rightarrow> bool" where
  "distinct_keys rows = distinct (map (\<lambda>d. (d_id d, d_project d)) rows)"

lemma queue_of_claimed:
  assumes keys: "distinct_keys (dispatches s)" and row: "next_queued s p = Some row"
  shows "queue_of p (dispatches s) = d_id row # queue_of p (map (claim_row s (d_id row) p terminal) (dispatches s))"
proof -
  let ?P = "\<lambda>d. d_project d = Some p \<and> d_state d = ''queued''"
  let ?rows = "dispatches s"
  obtain ds where sorted: "sort_key queue_key_of (filter ?P ?rows) = row # ds"
    using row by (auto simp: next_queued_def split: list.splits)
  have "filter ?P (map (claim_row s (d_id row) p terminal) rows) = filter (\<lambda>d. d_id d \<noteq> d_id row) (filter ?P rows)"
    for rows by (induction rows) (auto simp: claim_row_def)
  moreover have "filter (\<lambda>d. d_id d \<noteq> d_id row) (sort_key queue_key_of (filter ?P ?rows)) =
      sort_key queue_key_of (filter (\<lambda>d. d_id d \<noteq> d_id row) (filter ?P ?rows))"
    by (rule filter_sort)
  ultimately have sorted': "sort_key queue_key_of (filter ?P (map (claim_row s (d_id row) p terminal) ?rows)) =
      filter (\<lambda>d. d_id d \<noteq> d_id row) (row # ds)"
    by (simp only: sorted)
  have "distinct (map d_id (filter ?P rows))" if "distinct_keys rows" for rows
    using that by (simp add: distinct_keys_def distinct_map inj_on_def)
  from this [OF keys] have "distinct (map d_id (sort_key queue_key_of (filter ?P ?rows)))"
    by (simp add: distinct_map)
  then have "filter (\<lambda>d. d_id d \<noteq> d_id row) ds = ds"
    unfolding sorted by (auto simp: filter_id_conv image_iff)
  then show ?thesis
    unfolding queue_of_def sorted sorted' by simp
qed

lemma queue_of_empty: "next_queued s p = None \<longleftrightarrow> queue_of p (dispatches s) = []"
  by (auto simp: next_queued_def queue_of_def split: list.splits)

lemma distinct_keys_claimed: "distinct_keys (map (claim_row s did p terminal) rows) = distinct_keys rows"
proof -
  have "(d_id (claim_row s did p terminal d), d_project (claim_row s did p terminal d)) = (d_id d, d_project d)" for d
    by (simp add: claim_row_def)
  then show ?thesis by (simp add: distinct_keys_def comp_def)
qed

fun claim_many :: "nat \<Rightarrow> string \<Rightarrow> string \<Rightarrow> string \<Rightarrow> store \<Rightarrow> exn + (string option list \<times> store)" where
  "claim_many 0 terminal p actor s = Inr ([], s)"
| "claim_many (Suc n) terminal p actor s =
     bindE (claim_next_queued_dispatch terminal p actor s) (\<lambda>(d, s1).
     bindE (claim_many n terminal p actor s1) (\<lambda>(ds, s2). Inr (d # ds, s2)))"

lemma queue_drained:
  assumes "p \<noteq> []" and "distinct_keys (dispatches s)" and "has_project_id_col s ''dispatches''"
  shows "\<exists>s'. claim_many n terminal p actor s =
      Inr (map Some (take n (queue_of p (dispatches s))) @
           replicate (n - length (queue_of p (dispatches s))) None, s') \<and>
    queue_of p (dispatches s') = drop n (queue_of p (dispatches s))"
  using assms(2,3)
proof (induction n arbitrary: s)
  case 0
  then show ?case by simp
next
  case (Suc n)
  obtain res s1 where claim: "claim_next_queued_dispatch terminal p actor s = Inr (res, s1)"
    using claim_next_ok [OF assms(1) Suc.prems(2)] by blast
  note effect = claim_next_Inr [OF claim]
  show ?case
  proof (cases "next_queued s p")
    case None
    with effect have "res = None" "s1 = s" by simp_all
    moreover have "queue_of p (dispatches s) = []" using None queue_of_empty by simp
    ultimately show ?thesis using Suc.IH [OF Suc.prems] claim by auto
  next
    case (Some row)
    with effect have res: "res = Some (d_id row)" and same: "pid_tables s1 = pid_tables s"
      and rows: "dispatches s1 = map (claim_row s (d_id row) p terminal) (dispatches s)" by simp_all
    have "distinct_keys (dispatches s1)" using Suc.prems(1) rows distinct_keys_claimed by simp
    moreover have "has_project_id_col s1 ''dispatches''" using Suc.prems(2) same by (simp add: has_project_id_col_def)
    ultimately show ?thesis
      using Suc.IH [of s1] queue_of_claimed [OF Suc.prems(1) Some, of terminal] res claim
      by (auto simp flip: rows)
  qed
qed

text \<open>
  C2: In a store whose \<^verbatim>\<open>dispatches\<close> carry a \<^verbatim>\<open>project_id\<close> the queue is drained exactly once and in order:
  repeated claims never fail, hand out the queued dispatches of the project by priority, then age, then
  insertion, each of them once, and answer None from then on; what is left is the rest of the queue. In a
  store without the column every claim raises SQLite's \<^verbatim>\<open>OperationalError\<close>.
\<close>

theorem claims_drain_the_queue:
  assumes "p \<noteq> []" and "distinct_keys (dispatches s)"
  shows "if has_project_id_col s ''dispatches''
    then (\<exists>s'. claim_many n terminal p actor s =
        Inr (map Some (take n (queue_of p (dispatches s))) @
             replicate (n - length (queue_of p (dispatches s))) None, s') \<and>
      queue_of p (dispatches s') = drop n (queue_of p (dispatches s)))
    else claim_many (Suc n) terminal p actor s = Inl (OperationalError ''no such column: project_id'')"
proof (cases "has_project_id_col s ''dispatches''")
  case True
  then show ?thesis using queue_drained [OF assms] by simp
qed (simp add: claim_next_queued_dispatch_def project_column_def)

lemma claims_drain_the_queue_witness:
  "\<exists>s'. claim_many 3 ''T1'' ''acme'' ''router'' demo_store = Inr ([Some ''d2'', Some ''d1'', None], s')"
proof -
  have "distinct_keys (dispatches demo_store)" by code_simp
  moreover have "queue_of ''acme'' (dispatches demo_store) = [''d2'', ''d1'']"
    by (simp add: queue_of_def demo_store_def sample_dispatch_def queue_key_of_def less_eq_queue_key_def)
  moreover have "has_project_id_col demo_store ''dispatches''" by code_simp
  ultimately show ?thesis
    using claims_drain_the_queue [of "''acme''" demo_store 3 "''T1''" "''router''"]
    by (auto simp: numeral_3_eq_3)
qed

text \<open>
  A successful queue claim takes one queued row of the project, stamps the claiming terminal
  on it and leaves every other row, also the same id in another project, unchanged.
\<close>

lemma queue_claim_effect:
  assumes "claim_next_queued_dispatch terminal p actor s = Inr (Some did, s')"
  shows "\<exists>row. row \<in> set (dispatches s) \<and> d_id row = did \<and> d_project row = Some p \<and>
    d_state row = ''queued'' \<and>
    (\<forall>q \<in> set (dispatches s). d_project q = Some p \<and> d_state q = ''queued'' \<longrightarrow>
       queue_key_of row \<le> queue_key_of q) \<and>
    dispatches s' = map (claim_row s did p terminal) (dispatches s)"
proof -
  from claim_next_Inr [OF assms] obtain row where row: "next_queued s p = Some row" "d_id row = did"
    and rows: "dispatches s' = map (claim_row s did p terminal) (dispatches s)"
    by (auto split: option.splits)
  let ?q = "filter (\<lambda>d. d_project d = Some p \<and> d_state d = ''queued'') (dispatches s)"
  obtain ds where sorted: "sort_key queue_key_of ?q = row # ds"
    using row by (auto simp: next_queued_def split: list.splits)
  have "sorted (map queue_key_of (row # ds))" by (simp flip: sorted)
  moreover have "set ?q = set (row # ds)" by (simp flip: sorted)
  ultimately have "\<forall>q \<in> set ?q. queue_key_of row \<le> queue_key_of q" by auto
  then show ?thesis
    using next_queued_some [OF row(1)] row(2) rows by (intro exI [of _ row]) auto
qed

lemma queue_claim_effect_witness:
  "\<exists>s'. claim_next_queued_dispatch ''T1'' ''acme'' ''router'' demo_store = Inr (Some ''d2'', s') \<and>
     map d_terminal (dispatches s') = [None, None, Some ''T1'', None]"
proof -
  have col: "has_project_id_col demo_store ''dispatches''" by code_simp
  have "next_queued demo_store ''acme'' = Some (sample_dispatch ''d2'' (Some ''acme'') (Some ''P0'') ''queued'' 12)"
    by (simp add: next_queued_def demo_store_def sample_dispatch_def queue_key_of_def less_eq_queue_key_def)
  then obtain s' where ok: "claim_next_queued_dispatch ''T1'' ''acme'' ''router'' demo_store = Inr (Some ''d2'', s')"
    using claim_next_ok [of "''acme''" demo_store "''T1''" "''router''"] claim_next_Inr col
    by (fastforce simp: sample_dispatch_def)
  show ?thesis
    using queue_claim_effect [OF ok] ok
    by (auto simp: claim_row_def demo_store_def sample_dispatch_def empty_store_def)
qed

end
