(* ===== verification/Broker.thy ===== *)
theory Broker
  imports Dispatch_Lifecycle
begin

text \<open>
  \<^verbatim>\<open>scripts/lib/dispatch_broker.py\<close>: registration with an immutable bundle on disk, the claim,
  and the three delivery reports.

  The bundle directories are a map from the dispatch id; a bundle file is the JSON value it
  parses to, or \<open>None\<close> for a text that does not parse. A write may fail at any of the three
  points where the code touches the disk; a failed atomic write leaves the old file. The
  intelligence selector, a component of its own, is an argument: it may write to the store
  and answers with the payload to embed, if any.
\<close>

section \<open>Files and requests\<close>

record bundle_dir =
  bd_prompt :: "string option"
  bd_json :: "json option option"

type_synonym bundle_files = "string \<Rightarrow> bundle_dir option"

datatype disk = Disk_Ok | Mkdir_Fails | Prompt_Fails | Bundle_Fails

type_synonym selector = "string \<Rightarrow> store \<Rightarrow> json option \<times> store"

record broker_config =
  bc_dispatch_dir :: string
  bc_shadow :: bool
  bc_intelligence :: bool

record dispatch_request =
  q_prompt :: string
  q_terminal :: "string option"
  q_track :: "string option"
  q_pr_ref :: "string option"
  q_gate :: "string option"
  q_priority :: string
  q_expected :: "json list option"
  q_refs :: "json list option"
  q_profile :: "(string \<times> json) list option"
  q_metadata :: "(string \<times> json) list option"

record register_result =
  rr_row :: dispatch_row
  rr_path :: string
  rr_existed :: bool

text \<open>\<^verbatim>\<open>_read_bundle_json\<close>: a missing file, a text that does not parse and the text null all read as None.\<close>

definition read_bundle_json :: "bundle_dir option \<Rightarrow> json option" where
  "read_bundle_json d =
     (case d of
        None \<Rightarrow> None
      | Some b \<Rightarrow> (case bd_json b of Some (Some j) \<Rightarrow> (if j = JNull then None else Some j) | _ \<Rightarrow> None))"

definition get_bundle_path :: "broker_config \<Rightarrow> string \<Rightarrow> string" where
  "get_bundle_path cfg dispatch_id = bc_dispatch_dir cfg @ ''/'' @ dispatch_id"

definition get_bundle :: "bundle_files \<Rightarrow> string \<Rightarrow> json option" where
  "get_bundle files dispatch_id = read_bundle_json (files dispatch_id)"

section \<open>Registration\<close>

definition register_db_row ::
  "broker_config \<Rightarrow> string \<Rightarrow> dispatch_request \<Rightarrow> store \<Rightarrow> (exn + dispatch_row) \<times> store" where
  "register_db_row cfg dispatch_id q s =
     commit s (bindE (current_project_id s) (\<lambda>project.
       register_dispatch dispatch_id project (q_terminal q) (q_track q) (Some (q_priority q)) (q_pr_ref q)
         (q_gate q) (Some (get_bundle_path cfg dispatch_id)) None (q_metadata q) ''broker'' s))"

fun or_empty :: "'a list option \<Rightarrow> 'a list" where
  "or_empty None = []"
| "or_empty (Some xs) = xs"

definition bundle_data :: "string \<Rightarrow> dispatch_request \<Rightarrow> int \<Rightarrow> json option \<Rightarrow> json" where
  "bundle_data dispatch_id q now intelligence =
     JObj ([(''dispatch_id'', JStr dispatch_id), (''bundle_version'', JInt 1), (''created_at'', JInt now),
            (''terminal_id'', json_opt (q_terminal q)), (''track'', json_opt (q_track q)),
            (''pr_ref'', json_opt (q_pr_ref q)), (''gate'', json_opt (q_gate q)),
            (''priority'', JStr (q_priority q)), (''expected_outputs'', JList (or_empty (q_expected q))),
            (''intelligence_refs'', JList (or_empty (q_refs q))),
            (''target_profile'', JObj (or_empty (q_profile q))), (''metadata'', JObj (or_empty (q_metadata q)))] @
           (case intelligence of None \<Rightarrow> [] | Some p \<Rightarrow> [(''intelligence_payload'', p)]))"

definition dir_or_new :: "bundle_dir option \<Rightarrow> bundle_dir" where
  "dir_or_new d = (case d of None \<Rightarrow> \<lparr>bd_prompt = None, bd_json = None\<rparr> | Some b \<Rightarrow> b)"

definition write_bundle ::
  "disk \<Rightarrow> string \<Rightarrow> dispatch_request \<Rightarrow> json \<Rightarrow> bundle_files \<Rightarrow> (exn + unit) \<times> bundle_files" where
  "write_bundle disk dispatch_id q data files =
     (let dir = dir_or_new (files dispatch_id);
          files1 = files(dispatch_id \<mapsto> dir\<lparr>bd_prompt := Some (q_prompt q)\<rparr>);
          files2 = files(dispatch_id \<mapsto> dir\<lparr>bd_prompt := Some (q_prompt q), bd_json := Some (Some data)\<rparr>)
      in if disk = Prompt_Fails then (Inl (OSError ''prompt.txt''), files)
         else if disk = Bundle_Fails then (Inl (OSError ''bundle.json''), files1)
         else (Inr (), files2))"

definition broker_register ::
  "broker_config \<Rightarrow> selector \<Rightarrow> disk \<Rightarrow> string \<Rightarrow> dispatch_request \<Rightarrow> store \<times> bundle_files \<Rightarrow>
   (exn + register_result) \<times> (store \<times> bundle_files)" where
  "broker_register cfg select disk dispatch_id q st =
     (let s = fst st; files = snd st; path = get_bundle_path cfg dispatch_id in
      case read_bundle_json (files dispatch_id) of
        Some _ \<Rightarrow>
          (case get_dispatch s dispatch_id of
             Some row \<Rightarrow> (Inr \<lparr>rr_row = row, rr_path = path, rr_existed = True\<rparr>, (s, files))
           | None \<Rightarrow>
               (case register_db_row cfg dispatch_id q s of
                  (Inl e, s1) \<Rightarrow> (Inl e, (s1, files))
                | (Inr row, s1) \<Rightarrow> (Inr \<lparr>rr_row = row, rr_path = path, rr_existed = True\<rparr>, (s1, files))))
      | None \<Rightarrow>
          if disk = Mkdir_Fails then (Inl (OSError ''mkdir''), (s, files))
          else
            let files1 = files(dispatch_id \<mapsto> dir_or_new (files dispatch_id)) in
            (case register_db_row cfg dispatch_id q s of
               (Inl e, s1) \<Rightarrow> (Inl e, (s1, files1))
             | (Inr row, s1) \<Rightarrow>
                 let (payload, s2) = (if bc_intelligence cfg then select dispatch_id s1 else (None, s1)) in
                 (case write_bundle disk dispatch_id q (bundle_data dispatch_id q (clock s2) payload) files1 of
                    (Inl e, files2) \<Rightarrow> (Inl e, (s2, files2))
                  | (Inr _, files2) \<Rightarrow>
                      (Inr \<lparr>rr_row = row, rr_path = path, rr_existed = False\<rparr>, (s2, files2)))))"

section \<open>Claim and delivery\<close>

record claim_result =
  cr_row :: dispatch_row
  cr_attempt :: string
  cr_number :: int

definition broker_claim ::
  "string \<Rightarrow> string \<Rightarrow> int \<Rightarrow> string \<Rightarrow> store \<Rightarrow> (exn + claim_result) \<times> store" where
  "broker_claim dispatch_id terminal_id attempt_number actor s =
     commit s
       (case get_dispatch s dispatch_id of
          None \<Rightarrow> Inl (BrokerError (''Cannot claim: dispatch not found: '' @ py_repr dispatch_id))
        | Some row \<Rightarrow>
            bindE (guardE (d_state row \<noteq> ''proposed'')
                     (BrokerError (''Cannot claim dispatch '' @ py_repr dispatch_id @
                        '': state is proposed (deliverable not yet approved). Run: vnx deliverable promote '' @
                        dispatch_id))) (\<lambda>_.
            bindE (guardE (d_state row \<in> {''queued'', ''ready''})
                     (BrokerError (''Cannot claim dispatch '' @ py_repr dispatch_id @
                        '': expected state queued or ready, found '' @ py_repr (d_state row)))) (\<lambda>_.
            bindE (transition_dispatch dispatch_id ''claimed'' actor
                     (Some (''claimed by '' @ terminal_id @ '' attempt '' @ py_int attempt_number))
                     (Some [(''terminal_id'', JStr terminal_id), (''attempt_number'', JInt attempt_number)])
                     Unset s) (\<lambda>(updated_row, s1).
            bindE (create_attempt dispatch_id (d_project row) terminal_id attempt_number
                     (Some [(''actor'', JStr actor)]) actor
                     (snd (increment_attempt_count dispatch_id s1))) (\<lambda>(attempt_row, s3).
            Inr (\<lparr>cr_row = updated_row, cr_attempt = a_id attempt_row, cr_number = attempt_number\<rparr>, s3))))))"

definition deliver_start :: "string \<Rightarrow> string \<Rightarrow> string \<Rightarrow> store \<Rightarrow> (exn + unit) \<times> store" where
  "deliver_start dispatch_id attempt_id actor s =
     commit s
       (case get_dispatch s dispatch_id of
          None \<Rightarrow> Inl (BrokerError (''deliver_start: dispatch not found: '' @ py_repr dispatch_id))
        | Some row \<Rightarrow>
            bindE (transition_dispatch dispatch_id ''delivering'' actor (Some ''delivery started'')
                     (Some [(''attempt_id'', JStr attempt_id)]) Unset s) (\<lambda>(_, s1).
            bindE (update_attempt attempt_id ''delivering'' None None actor s1) (\<lambda>(_, s2). Inr ((), s2))))"

datatype accept_result = Transitioned | Noop string string

definition deliver_success :: "string \<Rightarrow> string \<Rightarrow> string \<Rightarrow> store \<Rightarrow> (exn + accept_result) \<times> store" where
  "deliver_success dispatch_id attempt_id actor s =
     (case get_dispatch s dispatch_id of
        None \<Rightarrow> (Inl (BrokerError (''deliver_success: dispatch not found: '' @ py_repr dispatch_id)), s)
      | Some row \<Rightarrow>
          let current = d_state row in
          if is_accepted_or_beyond current then
            (if is_terminal_dispatch_state current then
               (case append_event ''dispatch_acceptance_rejected'' ''dispatch'' dispatch_id (Some current)
                       (Some ''accepted'') actor
                       (Some (''rejected: dispatch in terminal state '' @ py_repr current))
                       (Some [(''attempt_id'', JStr attempt_id)]) None s of
                  Inl e \<Rightarrow> (Inl e, s)
                | Inr s1 \<Rightarrow> (Inl (DuplicateTransitionError dispatch_id current ''accepted''), s1))
             else
               let reason = (if current = ''accepted''
                             then ''duplicate acceptance no-op: dispatch already in '' @ py_repr current
                             else ''acceptance no-op: dispatch already progressed to '' @ py_repr current) in
               commit s (bindE (append_event ''dispatch_noop'' ''dispatch'' dispatch_id (Some current)
                                  (Some ''accepted'') actor (Some reason)
                                  (Some [(''attempt_id'', JStr attempt_id)]) None s)
                           (\<lambda>s1. Inr (Noop current reason, s1))))
          else
            commit s
              (bindE (transition_dispatch dispatch_id ''accepted'' actor (Some ''delivery succeeded'')
                        (Some [(''attempt_id'', JStr attempt_id)]) Unset s) (\<lambda>(_, s1).
               bindE (update_attempt attempt_id ''succeeded'' None None actor s1)
                 (\<lambda>(_, s2). Inr (Transitioned, s2)))))"

definition deliver_failure :: "string \<Rightarrow> string \<Rightarrow> string \<Rightarrow> string \<Rightarrow> store \<Rightarrow> (exn + unit) \<times> store" where
  "deliver_failure dispatch_id attempt_id reason actor s =
     commit s
       (case get_dispatch s dispatch_id of
          None \<Rightarrow> Inl (BrokerError (''deliver_failure: dispatch not found: '' @ py_repr dispatch_id))
        | Some row \<Rightarrow>
            bindE (transition_dispatch dispatch_id ''failed_delivery'' actor (Some reason)
                     (Some [(''attempt_id'', JStr attempt_id), (''failure_reason'', JStr reason)]) Unset s)
              (\<lambda>(_, s1).
            bindE (update_attempt attempt_id ''failed'' (Some reason) None actor s1) (\<lambda>(_, s2). Inr ((), s2))))"

definition inject_intelligence_on_resume ::
  "broker_config \<Rightarrow> selector \<Rightarrow> string \<Rightarrow> store \<Rightarrow> json option \<times> store" where
  "inject_intelligence_on_resume cfg select dispatch_id s =
     (if \<not> bc_intelligence cfg then (None, s) else select dispatch_id s)"

section \<open>Configuration\<close>

definition flag_on :: "string option \<Rightarrow> bool" where
  "flag_on v = (py_strip (case v of None \<Rightarrow> ''1'' | Some x \<Rightarrow> x) \<noteq> ''0'')"

definition load_broker ::
  "string option \<Rightarrow> string option \<Rightarrow> string option \<Rightarrow> string \<Rightarrow> broker_config option" where
  "load_broker enabled shadow intelligence dispatch_dir =
     (if \<not> flag_on enabled then None
      else Some \<lparr>bc_dispatch_dir = dispatch_dir, bc_shadow = flag_on shadow,
                 bc_intelligence = flag_on intelligence\<rparr>)"

section \<open>Effects of the claim and the delivery reports\<close>

lemma update_where_both:
  assumes "\<And>d. d_id (f d) = d_id d"
  shows "update_where (\<lambda>d. d_id d = did) g (update_where (\<lambda>d. d_id d = did) f rows) =
    update_where (\<lambda>d. d_id d = did) (\<lambda>d. g (f d)) rows"
  using assms by (simp add: update_where_compose comp_def)

lemma broker_claim_Inr:
  assumes "broker_claim did tid n actor s = (Inr cr, s')"
  shows "\<exists>row a. get_dispatch s did = Some row \<and> d_state row \<in> {''queued'', ''ready''} \<and>
    dispatches s' = update_where (\<lambda>d. d_id d = did)
      (\<lambda>d. d\<lparr>d_state := ''claimed'', d_attempt_count := d_attempt_count d + 1, d_updated_at := clock s\<rparr>)
      (dispatches s) \<and>
    attempts s' = attempts s @ [a] \<and> get_attempt s (a_id a) = None \<and>
    a_id a = cr_attempt cr \<and> a_dispatch a = did \<and> a_terminal a = tid \<and> a_number a = n \<and>
    a_state a = ''pending'' \<and> a_ended_at a = None \<and> dispatch_frame s s'"
proof -
  from assms obtain row r1 s1 a s3 where row: "get_dispatch s did = Some row"
    and state: "d_state row \<in> {''queued'', ''ready''}"
    and move: "transition_dispatch did ''claimed'' actor
        (Some (''claimed by '' @ tid @ '' attempt '' @ py_int n))
        (Some [(''terminal_id'', JStr tid), (''attempt_number'', JInt n)]) Unset s = Inr (r1, s1)"
    and attempt: "create_attempt did (d_project row) tid n (Some [(''actor'', JStr actor)]) actor
        (snd (increment_attempt_count did s1)) = Inr (a, s3)"
    and res: "cr = \<lparr>cr_row = r1, cr_attempt = a_id a, cr_number = n\<rparr>" "s' = s3"
    by (auto simp: broker_claim_def commit_eq_Inr result_iffs split: option.splits prod.splits)
  obtain m s2 where count: "increment_attempt_count did s1 = (m, s2)"
    by (cases "increment_attempt_count did s1")
  with attempt have attempt: "create_attempt did (d_project row) tid n (Some [(''actor'', JStr actor)]) actor s2 = Inr (a, s3)"
    by simp
  note move = transition_dispatch_Unset [OF move]
    and count = increment_attempt_count_eq [OF count]
    and attempt = create_attempt_Inr [OF attempt]
  have clk: "clock s1 = clock s" "clock s2 = clock s"
    using move count by (auto dest!: dispatch_frame_env simp: same_env_def)
  have frame: "dispatch_frame s s'"
    using move count attempt res by (auto intro: dispatch_frame_trans)
  from row state move count attempt frame show ?thesis
    by (auto simp: res clk update_where_both fresh_attempt_def get_attempt_def)
qed

text \<open>
  C28: A dispatch is claimed at most once per queueing: a successful claim found it queued or
  ready, moves it to claimed, counts the attempt and records exactly one pending attempt under
  a new id; whoever claims it next is refused and changes nothing.
\<close>

theorem claim_is_exclusive:
  assumes "broker_claim did tid n actor s = (Inr cr, s')"
  shows "(\<exists>row a. get_dispatch s did = Some row \<and> d_state row \<in> {''queued'', ''ready''} \<and>
      get_dispatch s' did = Some (row\<lparr>d_state := ''claimed'', d_attempt_count := d_attempt_count row + 1, d_updated_at := clock s\<rparr>) \<and>
      attempts s' = attempts s @ [a] \<and> a_id a = cr_attempt cr \<and> a_state a = ''pending'' \<and>
      a_dispatch a = did \<and> a_terminal a = tid \<and> (\<forall>b \<in> set (attempts s). a_id b \<noteq> a_id a)) \<and>
    (\<exists>m. broker_claim did tid' n' actor' s' = (Inl (BrokerError m), s'))"
proof -
  from broker_claim_Inr [OF assms] obtain row a where row: "get_dispatch s did = Some row"
    and state: "d_state row \<in> {''queued'', ''ready''}"
    and rows: "dispatches s' = update_where (\<lambda>d. d_id d = did)
      (\<lambda>d. d\<lparr>d_state := ''claimed'', d_attempt_count := d_attempt_count d + 1, d_updated_at := clock s\<rparr>)
      (dispatches s)"
    and a: "attempts s' = attempts s @ [a]" "get_attempt s (a_id a) = None" "a_id a = cr_attempt cr"
      "a_dispatch a = did" "a_terminal a = tid" "a_state a = ''pending''" by blast
  have new: "get_dispatch s' did = Some (row\<lparr>d_state := ''claimed'', d_attempt_count := d_attempt_count row + 1, d_updated_at := clock s\<rparr>)"
    using row by (simp add: get_dispatch_def rows find_update_where)
  have "broker_claim did tid' n' actor' s' = (Inl (BrokerError (''Cannot claim dispatch '' @ py_repr did @
      '': expected state queued or ready, found '' @ py_repr ''claimed'')), s')"
    by (simp add: broker_claim_def new)
  with row state new a show ?thesis by (auto simp: get_attempt_def find_None_all)
qed

lemma claim_is_exclusive_witness:
  "\<exists>cr s' m. broker_claim ''d2'' ''T2'' 1 ''broker'' demo_store = (Inr cr, s') \<and>
     broker_claim ''d2'' ''T1'' 1 ''rival'' s' = (Inl (BrokerError m), s')"
proof -
  have "\<not> isl (fst (broker_claim ''d2'' ''T2'' 1 ''broker'' demo_store))" by code_simp
  then obtain cr s' where "broker_claim ''d2'' ''T2'' 1 ''broker'' demo_store = (Inr cr, s')"
    by (cases "broker_claim ''d2'' ''T2'' 1 ''broker'' demo_store") (auto elim: not_isl_obtain)
  with claim_is_exclusive [OF this] show ?thesis by blast
qed

lemma is_beyond_table:
  "is_accepted_or_beyond ''delivering'' = False" "is_accepted_or_beyond ''claimed'' = False"
  "is_accepted_or_beyond ''accepted'' = True" "is_terminal_dispatch_state ''accepted'' = False"
  by code_simp+

definition fresh_uuids :: "store \<Rightarrow> bool" where
  "fresh_uuids s = (\<forall>n. uuid_next s \<le> n \<longrightarrow> get_attempt s (uuid_at s n) = None)"

lemma deliver_start_ok:
  assumes "get_dispatch s did = Some row" and "d_state row = ''claimed''" and "get_attempt s aid = Some a"
    and "events_ok s"
  shows "\<exists>s' row' a'. deliver_start did aid actor s = (Inr (), s') \<and> get_dispatch s' did = Some row' \<and>
    d_state row' = ''delivering'' \<and> get_attempt s' aid = Some a' \<and> a_state a' = ''delivering'' \<and>
    a_ended_at a' = Some (clock s) \<and> same_env s s'"
proof -
  have "''delivering'' \<in> set (allowed_from DISPATCH_TRANSITIONS (d_state row))"
    unfolding assms(2) by code_simp
  from transition_dispatch_Unset_ok [OF assms(1) this assms(4)] obtain r s1 where
    move: "transition_dispatch did ''delivering'' actor (Some ''delivery started'')
        (Some [(''attempt_id'', JStr aid)]) Unset s = Inr (r, s1)" by blast
  note eff = transition_dispatch_Unset [OF move]
  then have env: "same_env s s1" by (blast dest: dispatch_frame_env)
  have "get_attempt s1 aid = Some a" using eff assms(3) by (auto simp: get_attempt_def)
  with env assms(4) obtain r2 s2 where
    upd: "update_attempt aid ''delivering'' None None actor s1 = Inr (r2, s2)"
    using update_attempt_ok same_env_simps(2) by blast
  note upd_eff = update_attempt_Inr [OF upd]
  then have "same_env s s2" using env by (blast dest: dispatch_frame_env intro: same_env_trans)
  with eff upd_eff env move upd assms(1) show ?thesis
    by (auto simp: deliver_start_def get_dispatch_def find_update_where same_env_simps)
qed

lemma deliver_success_ok:
  assumes "get_dispatch s did = Some row" and "d_state row = ''delivering''" and "get_attempt s aid = Some a"
    and "events_ok s"
  shows "\<exists>s' row' a'. deliver_success did aid actor s = (Inr Transitioned, s') \<and>
    get_dispatch s' did = Some row' \<and> d_state row' = ''accepted'' \<and>
    get_attempt s' aid = Some a' \<and> a_state a' = ''succeeded'' \<and> a_ended_at a' = Some (clock s) \<and> same_env s s'"
proof -
  have "''accepted'' \<in> set (allowed_from DISPATCH_TRANSITIONS (d_state row))"
    unfolding assms(2) by code_simp
  from transition_dispatch_Unset_ok [OF assms(1) this assms(4)] obtain r s1 where
    move: "transition_dispatch did ''accepted'' actor (Some ''delivery succeeded'')
        (Some [(''attempt_id'', JStr aid)]) Unset s = Inr (r, s1)" by blast
  note eff = transition_dispatch_Unset [OF move]
  then have env: "same_env s s1" by (blast dest: dispatch_frame_env)
  have "get_attempt s1 aid = Some a" using eff assms(3) by (auto simp: get_attempt_def)
  with env assms(4) obtain r2 s2 where
    upd: "update_attempt aid ''succeeded'' None None actor s1 = Inr (r2, s2)"
    using update_attempt_ok same_env_simps(2) by blast
  note upd_eff = update_attempt_Inr [OF upd]
  then have "same_env s s2" using env by (blast dest: dispatch_frame_env intro: same_env_trans)
  with eff upd_eff env move upd assms(1,2) show ?thesis
    by (auto simp: deliver_success_def get_dispatch_def find_update_where same_env_simps is_beyond_table)
qed

lemma broker_claim_ok:
  assumes row: "get_dispatch s did = Some row" and state: "d_state row \<in> {''queued'', ''ready''}"
    and ev: "events_ok s" and fresh: "fresh_uuids s"
    and cols: "has_project_id_col s ''dispatch_attempts'' \<Longrightarrow> d_project row \<noteq> None"
  shows "\<exists>cr s'. broker_claim did tid n actor s = (Inr cr, s')"
proof -
  have edge: "''claimed'' \<in> set (allowed_from DISPATCH_TRANSITIONS (d_state row))"
  proof -
    have "''claimed'' \<in> set (allowed_from DISPATCH_TRANSITIONS ''queued'')"
      "''claimed'' \<in> set (allowed_from DISPATCH_TRANSITIONS ''ready'')" by code_simp+
    with state show ?thesis by auto
  qed
  from transition_dispatch_Unset_ok [OF row edge ev] obtain r1 s1 where
    move: "transition_dispatch did ''claimed'' actor
        (Some (''claimed by '' @ tid @ '' attempt '' @ py_int n))
        (Some [(''terminal_id'', JStr tid), (''attempt_number'', JInt n)]) Unset s = Inr (r1, s1)" by blast
  obtain m s2 where count: "increment_attempt_count did s1 = (m, s2)" by (cases "increment_attempt_count did s1")
  note eff1 = transition_dispatch_Unset [OF move] and eff2 = increment_attempt_count_eq [OF count]
  have env: "same_env s s2" using eff1 eff2 by (blast dest: dispatch_frame_env intro: same_env_trans)
  have uuid: "new_uuid s2 = uuid_at s (Suc (uuid_next s))"
    using eff1 eff2 env by (auto simp: new_uuid_def same_env_def)
  have "attempts s2 = attempts s" using eff1 eff2 by auto
  then have unused: "get_attempt s2 (new_uuid s2) = None"
    using fresh uuid by (simp add: fresh_uuids_def get_attempt_def)
  have "\<exists>r. get_dispatch s2 did = Some r \<and> d_project r = d_project row"
    using eff1 eff2 row by (auto simp: get_dispatch_def find_update_where)
  then have ref: "dispatch_ref_ok s2 did (if has_project_id_col s2 ''dispatch_attempts'' then d_project row else None)"
    by (fastforce simp: dispatch_ref_ok_def list_ex_iff dest: find_get_dispatch)
  obtain a s3 where "create_attempt did (d_project row) tid n (Some [(''actor'', JStr actor)]) actor s2 = Inr (a, s3)"
    using create_attempt_ok [OF _ unused _ ref, of tid n "Some [(''actor'', JStr actor)]" actor] ev cols by (auto simp: same_env_simps [OF env])
  with row state move count show ?thesis by (auto simp: broker_claim_def)
qed

text \<open>
  The delivery pipeline is live: a queued dispatch can be claimed, its delivery started
  and its acceptance recorded, each step succeeding with the attempt id of the claim; the
  dispatch ends accepted and the attempt succeeded.
\<close>

lemma delivery_pipeline_completes:
  assumes "get_dispatch s did = Some row" and "d_state row \<in> {''queued'', ''ready''}"
    and "events_ok s" and "fresh_uuids s"
    and "has_project_id_col s ''dispatch_attempts'' \<Longrightarrow> d_project row \<noteq> None"
  shows "\<exists>cr s1 s2 s3 row' a. broker_claim did tid n actor s = (Inr cr, s1) \<and>
    deliver_start did (cr_attempt cr) actor s1 = (Inr (), s2) \<and>
    deliver_success did (cr_attempt cr) actor s2 = (Inr Transitioned, s3) \<and>
    get_dispatch s3 did = Some row' \<and> d_state row' = ''accepted'' \<and>
    get_attempt s3 (cr_attempt cr) = Some a \<and> a_state a = ''succeeded''"
proof -
  from broker_claim_ok [OF assms, of tid n actor] obtain cr s1 where
    claim: "broker_claim did tid n actor s = (Inr cr, s1)" by blast
  from broker_claim_Inr [OF this] obtain row1 a1 where row1: "get_dispatch s did = Some row1"
    and rows: "dispatches s1 = update_where (\<lambda>d. d_id d = did)
      (\<lambda>d. d\<lparr>d_state := ''claimed'', d_attempt_count := d_attempt_count d + 1, d_updated_at := clock s\<rparr>)
      (dispatches s)"
    and a1: "attempts s1 = attempts s @ [a1]" "get_attempt s (a_id a1) = None" "a_id a1 = cr_attempt cr"
    and frame: "dispatch_frame s s1" by blast
  have ev1: "events_ok s1" using assms(3) frame dispatch_frame_env same_env_simps(2) by blast
  have g1: "get_dispatch s1 did = Some (row1\<lparr>d_state := ''claimed'',
      d_attempt_count := d_attempt_count row1 + 1, d_updated_at := clock s\<rparr>)"
    using row1 by (simp add: get_dispatch_def rows find_update_where)
  have "get_attempt s1 (cr_attempt cr) = Some a1"
    using a1 by (simp add: get_attempt_def find_append)
  from deliver_start_ok [OF g1 _ this ev1, of actor] obtain s2 row2 a2 where
    start: "deliver_start did (cr_attempt cr) actor s1 = (Inr (), s2)" and g2: "get_dispatch s2 did = Some row2"
    "d_state row2 = ''delivering''" "get_attempt s2 (cr_attempt cr) = Some a2" "same_env s1 s2" by auto
  have ev2: "events_ok s2" using ev1 g2(4) same_env_simps(2) by blast
  from deliver_success_ok [OF g2(1,2,3) ev2] claim start show ?thesis by blast
qed

lemma delivery_pipeline_completes_witness:
  "\<exists>cr s1. broker_claim ''d2'' ''T2'' 1 ''broker'' demo_store = (Inr cr, s1)"
proof -
  have row: "get_dispatch demo_store ''d2'' = Some (sample_dispatch ''d2'' (Some ''acme'') (Some ''P0'') ''queued'' 12)"
    by code_simp
  have ev: "events_ok demo_store" by code_simp
  have "fresh_uuids demo_store" by (simp add: fresh_uuids_def get_attempt_def demo_store_def empty_store_def)
  then show ?thesis
    using delivery_pipeline_completes [OF row _ ev, of "''T2''" 1 "''broker''"]
    by (fastforce simp: sample_dispatch_def)
qed

text \<open>
  A duplicate acceptance changes no row: for a dispatch already accepted, running or timed
  out the report answers with a no-op, for one that has completed, expired or been
  dead-lettered it is refused; in both cases exactly one event is committed to the log and
  nothing else changes.
\<close>

lemma duplicate_acceptance_changes_no_row:
  assumes "get_dispatch s did = Some row" and "is_accepted_or_beyond (d_state row)" and "events_ok s"
  shows "\<exists>e reason. snd (deliver_success did aid actor s) = log_event e s \<and> e_entity e = did \<and>
    fst (deliver_success did aid actor s) =
      (if d_state row \<in> {''completed'', ''expired'', ''dead_letter''}
       then Inl (DuplicateTransitionError did (d_state row) ''accepted'')
       else Inr (Noop (d_state row) reason))"
proof -
  have "is_terminal_dispatch_state (d_state row) \<longleftrightarrow> d_state row \<in> {''completed'', ''expired'', ''dead_letter''}"
    using assms(2)
    by (auto simp: is_accepted_or_beyond_def ACCEPTED_OR_BEYOND_STATES_def is_terminal_dispatch_state_def
        TERMINAL_DISPATCH_STATES_def)
  with assms show ?thesis
    by (auto simp: deliver_success_def Let_def append_event_ok)
qed

lemma duplicate_acceptance_changes_no_row_witness:
  "fst (deliver_success ''d3'' ''a1'' ''broker'' demo_store) =
     Inl (DuplicateTransitionError ''d3'' ''completed'' ''accepted'')"
proof -
  have row: "get_dispatch demo_store ''d3'' = Some (sample_dispatch ''d3'' (Some ''acme'') None ''completed'' 13)"
    by code_simp
  have beyond: "is_accepted_or_beyond (d_state (sample_dispatch ''d3'' (Some ''acme'') None ''completed'' 13))"
    by code_simp
  have ev: "events_ok demo_store" by code_simp
  from duplicate_acceptance_changes_no_row [OF row beyond ev] show ?thesis by (auto simp: sample_dispatch_def)
qed

section \<open>Bundles\<close>

text \<open>Every bundle on disk has its row in the database.\<close>

definition bundles_anchored :: "store \<times> bundle_files \<Rightarrow> bool" where
  "bundles_anchored st = (\<forall>d. get_bundle (snd st) d \<noteq> None \<longrightarrow> get_dispatch (fst st) d \<noteq> None)"



lemma register_keeps_rows:
  assumes "register_dispatch did project terminal track prio pr gate bundle expires md actor s = Inr (r, s1)"
  shows "get_dispatch s1 did = Some r" and "get_dispatch s d = Some x \<Longrightarrow> get_dispatch s1 d = Some x"
proof -
  have both: "get_dispatch s1 did = Some r \<and> (get_dispatch s d = Some x \<longrightarrow> get_dispatch s1 d = Some x)"
  proof (cases "get_dispatch s did")
    case None
    from register_dispatch_fresh [OF None assms] None show ?thesis
      by (auto simp: get_dispatch_def find_append)
  next
    case (Some row)
    with register_dispatch_existing [OF Some assms] show ?thesis by simp
  qed
  then show "get_dispatch s1 did = Some r" "get_dispatch s d = Some x \<Longrightarrow> get_dispatch s1 d = Some x"
    by simp_all
qed

lemma register_db_row_cases:
  assumes "register_db_row cfg did q s = (res, s1)"
  shows "(isl res \<longrightarrow> s1 = s) \<and> (\<not> isl res \<longrightarrow> get_dispatch s1 did \<noteq> None) \<and>
    (\<forall>d. get_dispatch s d \<noteq> None \<longrightarrow> get_dispatch s1 d \<noteq> None)"
proof (cases res)
  case (Inl e)
  with assms show ?thesis by (auto simp: register_db_row_def commit_eq_Inl)
next
  case (Inr r)
  with assms obtain project where
    "register_dispatch did project (q_terminal q) (q_track q) (Some (q_priority q)) (q_pr_ref q)
       (q_gate q) (Some (get_bundle_path cfg did)) None (q_metadata q) ''broker'' s = Inr (r, s1)"
    by (auto simp: register_db_row_def commit_eq_Inr bindE_eq_Inr)
  from register_keeps_rows [OF this] Inr show ?thesis by auto
qed

lemma read_bundle_new_dir [simp]:
  "read_bundle_json (Some (dir_or_new d)) = read_bundle_json d"
  "read_bundle_json (Some ((dir_or_new d)\<lparr>bd_prompt := p\<rparr>)) = read_bundle_json d"
  by (cases d; simp add: dir_or_new_def read_bundle_json_def)+

lemma write_bundle_other:
  "write_bundle disk did q data files = (res, files') \<Longrightarrow> d \<noteq> did \<Longrightarrow> files' d = files d"
  by (auto simp: write_bundle_def Let_def split: if_splits)

text \<open>
  C29: No bundle without a database row, and no bundle rewritten: whatever the disk does and
  whatever the intelligence selector writes outside the dispatch rows, a registration keeps
  every bundle anchored in the database, and a bundle that could already be read is returned
  as it is, with no file changed.
\<close>

theorem registration_anchors_bundles:
  assumes "\<And>d s. dispatches (snd (select d s)) = dispatches s"
    and "bundles_anchored st"
  shows "bundles_anchored (snd (broker_register cfg select disk did q st)) \<and>
    (get_bundle (snd st) did \<noteq> None \<longrightarrow> snd (snd (broker_register cfg select disk did q st)) = snd st)"
proof -
  obtain s files where st: "st = (s, files)" by (cases st)
  note anchored = assms(2) [unfolded bundles_anchored_def get_bundle_def st fst_conv snd_conv]
  show ?thesis
  proof (cases "read_bundle_json (files did)")
    case (Some j)
    have "bundles_anchored (s1, files)"
      if "register_db_row cfg did q s = (res, s1)" for res s1
      using anchored register_db_row_cases [OF that] by (simp add: bundles_anchored_def get_bundle_def)
    with Some assms(2) st show ?thesis
      by (auto simp: broker_register_def Let_def split: option.splits prod.splits sum.splits)
  next
    case None
    obtain res s1 where reg: "register_db_row cfg did q s = (res, s1)"
      by (cases "register_db_row cfg did q s")
    note kept = register_db_row_cases [OF reg]
    let ?files1 = "files(did \<mapsto> dir_or_new (files did))"
    have early: "bundles_anchored (s1, ?files1)"
      using anchored kept by (auto simp: bundles_anchored_def get_bundle_def)
    have late: "bundles_anchored (s2, files2)"
      if "\<not> isl res" "dispatches s2 = dispatches s1" "write_bundle disk did q data ?files1 = (r2, files2)" for s2 data r2 files2
    proof -
      have "get_dispatch s2 d = get_dispatch s1 d" for d using that(2) by (simp add: get_dispatch_def)
      moreover have "d \<noteq> did \<Longrightarrow> files2 d = files d" for d
        using write_bundle_other [OF that(3)] by simp
      ultimately show ?thesis
        using anchored kept that(1) by (auto simp: bundles_anchored_def get_bundle_def) metis
    qed
    have sel: "dispatches (snd (select did s1)) = dispatches s1" by (rule assms(1))
    show ?thesis
      using st None reg early late assms(2) sel
      by (auto simp: broker_register_def Let_def get_bundle_def split: prod.splits sum.splits if_splits)
  qed
qed

definition demo_request :: dispatch_request where
  "demo_request = \<lparr>q_prompt = ''do it'', q_terminal = None, q_track = Some ''A'', q_pr_ref = None, q_gate = None,
     q_priority = ''P2'', q_expected = None, q_refs = None, q_profile = None, q_metadata = None\<rparr>"

definition demo_config :: broker_config where
  "demo_config = \<lparr>bc_dispatch_dir = ''/data/dispatches'', bc_shadow = True, bc_intelligence = True\<rparr>"

lemma registration_anchors_bundles_witness:
  "bundles_anchored (snd (broker_register demo_config (\<lambda>d s. (Some (JInt 1), s)) Bundle_Fails ''d9'' demo_request
     (demo_store, \<lambda>_. None)))"
proof -
  have "bundles_anchored (demo_store, \<lambda>_. None)"
    by (simp add: bundles_anchored_def get_bundle_def read_bundle_json_def)
  from registration_anchors_bundles [where select = "\<lambda>d s. (Some (JInt 1), s)", OF _ this] show ?thesis by simp
qed

end
