(* ===== verification/Interfaces.thy ===== *)
theory Interfaces
  imports Prelude
begin

text \<open>
  Contracts that components of the runtime rely on, stated over any implementation: a
  resource protected by a fencing token, a retry budget and an append-only log. Each is interpreted on the
  model's own operations, in the theory of the component that provides them.
\<close>

section \<open>Fencing tokens\<close>

text \<open>
  Commands act on a state. A resource has a generation that no command lowers and every
  accepted grant raises; a command that presents a token is accepted only when the token is
  the current generation. The promise for the holders: once somebody else has been granted
  the resource, the token of an earlier holder is refused for ever.
\<close>

locale fenced_resource =
  fixes exec :: "'cmd \<Rightarrow> 's \<Rightarrow> 's"
    and accepted :: "'cmd \<Rightarrow> 's \<Rightarrow> bool"
    and generation :: "'s \<Rightarrow> int"
    and grants :: "'cmd \<Rightarrow> bool"
    and token :: "'cmd \<Rightarrow> int option"
    and inv :: "'s \<Rightarrow> bool"
  assumes inv_exec: "inv s \<Longrightarrow> inv (exec c s)"
    and generation_exec: "inv s \<Longrightarrow> generation s \<le> generation (exec c s)"
    and grant_raises: "inv s \<Longrightarrow> grants c \<Longrightarrow> accepted c s \<Longrightarrow> generation s < generation (exec c s)"
    and token_current: "accepted c s \<Longrightarrow> token c = Some g \<Longrightarrow> g = generation s"
begin

lemma inv_run: "inv s \<Longrightarrow> inv (fold exec cs s)"
  by (induction cs arbitrary: s) (simp_all add: inv_exec)

lemma generation_run: "inv s \<Longrightarrow> generation s \<le> generation (fold exec cs s)"
proof (induction cs arbitrary: s)
  case Nil
  then show ?case by simp
next
  case (Cons c cs)
  have "generation (exec c s) \<le> generation (fold exec cs (exec c s))"
    by (rule Cons.IH) (rule inv_exec [OF Cons.prems])
  with generation_exec [OF Cons.prems, of c] show ?case by simp
qed

lemma old_token_refused:
  assumes "inv s" and "grants c" and "accepted c s" and "token c' = Some g" and "g \<le> generation s"
  shows "\<not> accepted c' (fold exec cs (exec c s))"
proof
  assume "accepted c' (fold exec cs (exec c s))"
  then have "g = generation (fold exec cs (exec c s))" using token_current assms(4) by blast
  moreover have "generation (exec c s) \<le> generation (fold exec cs (exec c s))"
    by (rule generation_run) (rule inv_exec [OF assms(1)])
  ultimately show False using grant_raises [OF assms(1-3)] assms(5) by simp
qed

end

section \<open>Retry budgets\<close>

text \<open>
  Commands act on a state and may grant a retry. A count of used attempts never falls, a
  grant is made only below the limit and raises the count. However the commands are mixed
  and repeated, no more retries are granted than the limit leaves.
\<close>

primrec grants :: "('cmd \<Rightarrow> 's \<Rightarrow> bool \<times> 's) \<Rightarrow> 'cmd list \<Rightarrow> 's \<Rightarrow> nat" where
  "grants step [] s = 0"
| "grants step (c # cs) s = (if fst (step c s) then 1 else 0) + grants step cs (snd (step c s))"

locale bounded_retry =
  fixes step :: "'cmd \<Rightarrow> 's \<Rightarrow> bool \<times> 's"
    and used :: "'s \<Rightarrow> int"
    and limit :: int
    and inv :: "'s \<Rightarrow> bool"
  assumes inv_step: "inv s \<Longrightarrow> inv (snd (step c s))"
    and used_step: "inv s \<Longrightarrow> used s \<le> used (snd (step c s))"
    and grant_below: "inv s \<Longrightarrow> fst (step c s) \<Longrightarrow> used s < limit"
    and grant_counts: "inv s \<Longrightarrow> fst (step c s) \<Longrightarrow> used s < used (snd (step c s))"
begin

lemma granted_at_most: "inv s \<Longrightarrow> int (grants step cs s) \<le> max 0 (limit - used s)"
proof (induction cs arbitrary: s)
  case Nil
  then show ?case by simp
next
  case (Cons c cs)
  let ?s' = "snd (step c s)"
  have rest: "int (grants step cs ?s') \<le> max 0 (limit - used ?s')"
    by (rule Cons.IH) (rule inv_step [OF Cons.prems])
  show ?case
  proof (cases "fst (step c s)")
    case True
    with rest grant_below [OF Cons.prems True] grant_counts [OF Cons.prems True] show ?thesis by simp
  next
    case False
    with rest used_step [OF Cons.prems, of c] show ?thesis by simp
  qed
qed

lemma exhausted_grants_nothing: "inv s \<Longrightarrow> limit \<le> used s \<Longrightarrow> grants step cs s = 0"
  using granted_at_most [of s cs] by simp

end

section \<open>Append-only logs\<close>

text \<open>
  A component that keeps a log under commands: a permitted command keeps the invariant and
  only adds to the log. The promise for its readers: whatever runs, the invariant holds and
  what has been read stays read.
\<close>

locale append_only =
  fixes exec :: "'cmd \<Rightarrow> 's \<Rightarrow> 's"
    and log :: "'s \<Rightarrow> 'e list"
    and inv :: "'s \<Rightarrow> bool"
    and permitted :: "'cmd \<Rightarrow> bool"
  assumes inv_exec: "inv s \<Longrightarrow> permitted c \<Longrightarrow> inv (exec c s)"
    and log_exec: "inv s \<Longrightarrow> permitted c \<Longrightarrow> \<exists>new. log (exec c s) = log s @ new"
begin

lemma history_kept:
  "inv s \<Longrightarrow> list_all permitted cs \<Longrightarrow> inv (fold exec cs s) \<and> (\<exists>new. log (fold exec cs s) = log s @ new)"
proof (induction cs arbitrary: s)
  case (Cons c cs)
  from Cons.prems have c: "permitted c" and cs: "list_all permitted cs" by simp_all
  from Cons.IH [OF inv_exec [OF Cons.prems(1) c] cs] log_exec [OF Cons.prems(1) c]
  show ?case by fastforce
qed simp

end

end
