(* ===== verification/Lease_Ops.thy ===== *)
theory Lease_Ops
  imports Dispatch_Lifecycle Interfaces
begin

text \<open>
  Terminal leases: \<^verbatim>\<open>scripts/lib/lease_operations.py\<close> (the operations on an open connection)
  and the facade \<^verbatim>\<open>scripts/lib/lease_manager.py\<close> that commits each of them.

  The code addresses a lease by its terminal id alone, in a migrated store as well, where the
  key is the pair with the project; the model does the same.
\<close>

section \<open>Operations on an open connection\<close>

definition lease_at :: "store \<Rightarrow> string \<Rightarrow> lease_row option" where
  "lease_at s terminal_id = find (\<lambda>l. l_terminal l = terminal_id) (leases s)"

definition get_lease_row :: "store \<Rightarrow> string \<Rightarrow> exn + lease_row" where
  "get_lease_row s terminal_id =
     (case lease_at s terminal_id of None \<Rightarrow> Inl (KeyError terminal_id) | Some row \<Rightarrow> Inr row)"

definition verify_generation :: "lease_row \<Rightarrow> string \<Rightarrow> int \<Rightarrow> exn + unit" where
  "verify_generation row terminal_id generation =
     guardE (l_generation row = generation)
       (ValueError (''Lease generation mismatch for '' @ py_repr terminal_id @ '': provided '' @
          py_int generation @ '', current '' @ py_int (l_generation row) @
          ''. Stale operation rejected.''))"

text \<open>\<^verbatim>\<open>UPDATE terminal_leases SET ... WHERE terminal_id = ?\<close>.\<close>

definition update_leases :: "string \<Rightarrow> (lease_row \<Rightarrow> lease_row) \<Rightarrow> store \<Rightarrow> store" where
  "update_leases terminal_id f s =
     s\<lparr>leases := update_where (\<lambda>l. l_terminal l = terminal_id) f (leases s)\<rparr>"

text \<open>The foreign key of every lease row the update touched.\<close>

definition lease_refs_ok :: "store \<Rightarrow> string \<Rightarrow> string \<Rightarrow> bool" where
  "lease_refs_ok s terminal_id dispatch_id =
     list_all (\<lambda>l. l_terminal l = terminal_id \<longrightarrow> dispatch_ref_ok s dispatch_id (l_project l)) (leases s)"

text \<open>
  The end of a lease is now plus \<^verbatim>\<open>lease_seconds\<close>. Python raises \<^verbatim>\<open>OverflowError\<close> where no date can hold it
  (after the year 9999); the model's instants have no such end.
\<close>

definition acquire_lease ::
  "string \<Rightarrow> string \<Rightarrow> int \<Rightarrow> string \<Rightarrow> string option \<Rightarrow> store \<Rightarrow> exn + (lease_row \<times> store)" where
  "acquire_lease terminal_id dispatch_id lease_seconds actor reason s =
     bindE (get_lease_row s terminal_id) (\<lambda>row.
     bindE (validate_lease_transition (l_state row) ''leased'') (\<lambda>_.
     let now = clock s;
         new_generation = l_generation row + 1;
         expires_at = now + lease_seconds * sec;
         s1 = update_leases terminal_id
                (\<lambda>l. l\<lparr>l_state := ''leased'', l_dispatch := Some dispatch_id,
                      l_generation := new_generation, l_leased_at := Some (At now),
                      l_expires_at := Some (At expires_at), l_heartbeat_at := Some (At now),
                      l_released_at := None\<rparr>) s
     in bindE (guardE (lease_refs_ok s terminal_id dispatch_id)
                 (IntegrityError ''FOREIGN KEY constraint failed'')) (\<lambda>_.
        bindE (append_event ''lease_acquired'' ''lease'' terminal_id (Some (l_state row)) (Some ''leased'')
                 actor (Some (or_else reason (''dispatch '' @ dispatch_id)))
                 (Some [(''dispatch_id'', JStr dispatch_id), (''generation'', JInt new_generation),
                        (''expires_at'', JInt expires_at)]) None s1) (\<lambda>s2.
        bindE (fetch_dict (lease_at s2 terminal_id)) (\<lambda>r. Inr (r, s2))))))"

definition renew_lease ::
  "string \<Rightarrow> int \<Rightarrow> int \<Rightarrow> string \<Rightarrow> store \<Rightarrow> exn + (lease_row \<times> store)" where
  "renew_lease terminal_id generation lease_seconds actor s =
     bindE (get_lease_row s terminal_id) (\<lambda>row.
     bindE (guardE (l_state row = ''leased'') (InvalidTransitionError (l_state row) ''leased'')) (\<lambda>_.
     bindE (verify_generation row terminal_id generation) (\<lambda>_.
     let now = clock s;
         expires_at = now + lease_seconds * sec;
         s1 = update_leases terminal_id
                (\<lambda>l. l\<lparr>l_expires_at := Some (At expires_at), l_heartbeat_at := Some (At now)\<rparr>) s
     in bindE (append_event ''lease_renewed'' ''lease'' terminal_id (Some ''leased'') (Some ''leased'')
                 actor None
                 (Some [(''generation'', JInt generation), (''new_expires_at'', JInt expires_at)])
                 None s1) (\<lambda>s2.
        bindE (fetch_dict (lease_at s2 terminal_id)) (\<lambda>r. Inr (r, s2))))))"

definition release_lease ::
  "string \<Rightarrow> int \<Rightarrow> string \<Rightarrow> string option \<Rightarrow> store \<Rightarrow> exn + (lease_row \<times> store)" where
  "release_lease terminal_id generation actor reason s =
     bindE (get_lease_row s terminal_id) (\<lambda>row.
     bindE (guardE (l_state row \<in> {''leased'', ''recovering''})
              (InvalidTransitionError (l_state row) ''released'')) (\<lambda>_.
     bindE (verify_generation row terminal_id generation) (\<lambda>_.
     let now = clock s;
         s1 = update_leases terminal_id
                (\<lambda>l. l\<lparr>l_state := ''released'', l_dispatch := None, l_expires_at := None,
                      l_released_at := Some (At now)\<rparr>) s
     in bindE (append_event ''lease_released'' ''lease'' terminal_id (Some (l_state row)) (Some ''released'')
                 actor reason (Some [(''generation'', JInt generation)]) None s1) (\<lambda>s2.
        let s3 = update_leases terminal_id (\<lambda>l. l\<lparr>l_state := ''idle''\<rparr>) s2
        in bindE (append_event ''lease_returned_idle'' ''lease'' terminal_id (Some ''released'') (Some ''idle'')
                    actor None None None s3) (\<lambda>s4.
           bindE (fetch_dict (lease_at s4 terminal_id)) (\<lambda>r. Inr (r, s4)))))))"

definition expire_lease ::
  "string \<Rightarrow> string \<Rightarrow> string option \<Rightarrow> store \<Rightarrow> exn + (lease_row \<times> store)" where
  "expire_lease terminal_id actor reason s =
     bindE (get_lease_row s terminal_id) (\<lambda>row.
     bindE (validate_lease_transition (l_state row) ''expired'') (\<lambda>_.
     let s1 = update_leases terminal_id (\<lambda>l. l\<lparr>l_state := ''expired''\<rparr>) s
     in bindE (append_event ''lease_expired'' ''lease'' terminal_id (Some (l_state row)) (Some ''expired'')
                 actor (Some (or_else reason ''TTL elapsed''))
                 (Some [(''dispatch_id'', json_opt (l_dispatch row)), (''generation'', JInt (l_generation row))])
                 None s1) (\<lambda>s2.
        bindE (fetch_dict (lease_at s2 terminal_id)) (\<lambda>r. Inr (r, s2)))))"

definition recover_lease ::
  "string \<Rightarrow> string \<Rightarrow> string option \<Rightarrow> store \<Rightarrow> exn + (lease_row \<times> store)" where
  "recover_lease terminal_id actor reason s =
     bindE (get_lease_row s terminal_id) (\<lambda>row.
     bindE (validate_lease_transition (l_state row) ''recovering'') (\<lambda>_.
     let s1 = update_leases terminal_id (\<lambda>l. l\<lparr>l_state := ''recovering''\<rparr>) s
     in bindE (append_event ''lease_recovering'' ''lease'' terminal_id (Some (l_state row)) (Some ''recovering'')
                 actor (Some (or_else reason ''expired lease recovery''))
                 (Some [(''dispatch_id'', json_opt (l_dispatch row)), (''generation'', JInt (l_generation row))])
                 None s1) (\<lambda>s2.
        let now = clock s;
            s3 = update_leases terminal_id
                   (\<lambda>l. l\<lparr>l_state := ''idle'', l_dispatch := None, l_expires_at := None,
                         l_leased_at := None, l_released_at := Some (At now)\<rparr>) s2
        in bindE (append_event ''lease_recovered'' ''lease'' terminal_id (Some ''recovering'') (Some ''idle'')
                    actor reason None None s3) (\<lambda>s4.
           bindE (fetch_dict (lease_at s4 terminal_id)) (\<lambda>r. Inr (r, s4))))))"

section \<open>Closeout\<close>

definition force_idle :: "string \<Rightarrow> string \<Rightarrow> lease_row \<Rightarrow> store \<Rightarrow> exn + store" where
  "force_idle actor reason row s =
     append_event ''lease_released'' ''lease'' (l_terminal row) (Some (l_state row)) (Some ''idle'')
       actor (Some reason)
       (Some [(''generation'', JInt (l_generation row)), (''new_generation'', JInt (l_generation row + 1)),
              (''dispatch_id'', json_opt (l_dispatch row))]) None
       (update_leases (l_terminal row)
          (\<lambda>l. l\<lparr>l_state := ''idle'', l_dispatch := None, l_leased_at := None, l_expires_at := None,
                l_heartbeat_at := None, l_released_at := Some (At (clock s)),
                l_generation := l_generation row + 1\<rparr>) s)"

definition release_all_leases_bulk ::
  "string \<Rightarrow> string \<Rightarrow> store \<Rightarrow> exn + ((string list \<times> string list) \<times> store)" where
  "release_all_leases_bulk actor reason s =
     bindE (foldE (force_idle actor reason) (filter (\<lambda>l. l_state l \<noteq> ''idle'') (leases s)) s)
       (\<lambda>s'. Inr ((map l_terminal (filter (\<lambda>l. l_state l \<noteq> ''idle'') (leases s)),
                   map l_terminal (filter (\<lambda>l. l_state l = ''idle'') (leases s))), s'))"

record closeout =
  c_released :: "string list"
  c_already_idle :: "string list"
  c_non_terminal :: "(string \<times> string) list"
  c_blocked :: bool
  c_all_idle :: bool
  c_remaining :: "(string \<times> string) list"

definition release_all_leases ::
  "string \<Rightarrow> string \<Rightarrow> bool \<Rightarrow> store \<Rightarrow> exn + (closeout \<times> store)" where
  "release_all_leases actor reason force s =
     (let non_terminal = map (\<lambda>d. (d_id d, d_state d))
            (filter (\<lambda>d. d_state d \<notin> {''completed'', ''expired'', ''dead_letter''}) (dispatches s))
      in if non_terminal \<noteq> [] \<and> \<not> force
         then Inr (\<lparr>c_released = [], c_already_idle = [], c_non_terminal = non_terminal, c_blocked = True,
                    c_all_idle = False, c_remaining = []\<rparr>, s)
         else bindE (release_all_leases_bulk actor reason s) (\<lambda>((released, already_idle), s').
                let remaining = map (\<lambda>l. (l_terminal l, l_state l))
                                  (filter (\<lambda>l. l_state l \<noteq> ''idle'') (leases s'))
                in Inr (\<lparr>c_released = released, c_already_idle = already_idle,
                         c_non_terminal = non_terminal, c_blocked = False,
                         c_all_idle = (remaining = []), c_remaining = remaining\<rparr>, s')))"

section \<open>The facade\<close>

record lease_result =
  lr_terminal :: string
  lr_state :: string
  lr_generation :: int
  lr_dispatch :: "string option"
  lr_leased_at :: "stamp option"
  lr_expires_at :: "stamp option"
  lr_heartbeat_at :: "stamp option"

definition lease_result_of :: "lease_row \<Rightarrow> lease_result" where
  "lease_result_of r =
     \<lparr>lr_terminal = l_terminal r, lr_state = l_state r, lr_generation = l_generation r,
      lr_dispatch = l_dispatch r, lr_leased_at = l_leased_at r, lr_expires_at = l_expires_at r,
      lr_heartbeat_at = l_heartbeat_at r\<rparr>"

definition committed_lease :: "store \<Rightarrow> exn + (lease_row \<times> store) \<Rightarrow> (exn + lease_result) \<times> store" where
  "committed_lease s m = commit s (bindE m (\<lambda>(row, s'). Inr (lease_result_of row, s')))"

definition mgr_acquire where
  "mgr_acquire terminal_id dispatch_id lease_seconds actor reason s =
     committed_lease s (acquire_lease terminal_id dispatch_id lease_seconds actor reason s)"

definition mgr_renew where
  "mgr_renew terminal_id generation lease_seconds actor s =
     committed_lease s (renew_lease terminal_id generation lease_seconds actor s)"

definition mgr_release where
  "mgr_release terminal_id generation actor reason s =
     committed_lease s (release_lease terminal_id generation actor reason s)"

definition mgr_expire where
  "mgr_expire terminal_id actor reason s = committed_lease s (expire_lease terminal_id actor reason s)"

definition mgr_recover where
  "mgr_recover terminal_id actor reason s = committed_lease s (recover_lease terminal_id actor reason s)"

definition mgr_get :: "store \<Rightarrow> string \<Rightarrow> exn + lease_result option" where
  "mgr_get s terminal_id = bindE (get_lease s terminal_id) (\<lambda>row. Inr (map_option lease_result_of row))"

definition mgr_list_all :: "store \<Rightarrow> lease_result list" where
  "mgr_list_all s = map lease_result_of (sort_key l_terminal (leases s))"

definition track_map :: "(string \<times> string) list" where
  "track_map = [(''A'', ''T1''), (''B'', ''T2''), (''C'', ''T3'')]"

definition find_available :: "store \<Rightarrow> string option \<Rightarrow> string option" where
  "find_available s prefer_track =
     (let idle = sort_key l_terminal (filter (\<lambda>l. l_state l = ''idle'') (leases s)) in
      case idle of
        [] \<Rightarrow> None
      | first # _ \<Rightarrow>
          if truthy prefer_track
          then (case find (\<lambda>r. map_of track_map (py_upper (the prefer_track)) = Some (l_terminal r)) idle of
                  Some r \<Rightarrow> Some (l_terminal r)
                | None \<Rightarrow> Some (l_terminal first))
          else Some (l_terminal first))"

definition is_expired_by_ttl :: "store \<Rightarrow> string \<Rightarrow> exn + bool" where
  "is_expired_by_ttl s terminal_id =
     bindE (mgr_get s terminal_id) (\<lambda>lease.
       Inr (case lease of
              None \<Rightarrow> False
            | Some l \<Rightarrow> lr_state l = ''leased'' \<and>
                (case parse_stamp (lr_expires_at l) of None \<Rightarrow> False | Some t \<Rightarrow> t \<le> clock s)))"

definition ttl_elapsed :: "int \<Rightarrow> lease_row \<Rightarrow> bool" where
  "ttl_elapsed now l = (case parse_stamp (l_expires_at l) of None \<Rightarrow> False | Some t \<Rightarrow> t \<le> now)"

fun expire_rows ::
  "string \<Rightarrow> string option \<Rightarrow> int \<Rightarrow> lease_row list \<Rightarrow> string list \<Rightarrow> store \<Rightarrow> (exn + string list) \<times> store" where
  "expire_rows actor reason now [] expired s = (Inr expired, s)"
| "expire_rows actor reason now (l # ls) expired s =
     (if ttl_elapsed now l
      then (case mgr_expire (l_terminal l) actor reason s of
              (Inr _, s') \<Rightarrow> expire_rows actor reason now ls (expired @ [l_terminal l]) s'
            | (Inl e, s') \<Rightarrow>
                if transition_or_key_error e then expire_rows actor reason now ls expired s'
                else (Inl e, s'))
      else expire_rows actor reason now ls expired s)"

definition expire_stale :: "string \<Rightarrow> string option \<Rightarrow> store \<Rightarrow> (exn + string list) \<times> store" where
  "expire_stale actor reason s =
     expire_rows actor reason (clock s) (filter (\<lambda>l. l_state l = ''leased'') (leases s)) [] s"

section \<open>Effects of the operations\<close>

lemma update_leases_simps [simp]:
  "dispatches (update_leases tid f s) = dispatches s"
  "attempts (update_leases tid f s) = attempts s"
  "leases (update_leases tid f s) = update_where (\<lambda>l. l_terminal l = tid) f (leases s)"
  "events (update_leases tid f s) = events s"
  "workers (update_leases tid f s) = workers s"
  "runs (update_leases tid f s) = runs s"
  "incidents (update_leases tid f s) = incidents s"
  "retries (update_leases tid f s) = retries s"
  "escalations (update_leases tid f s) = escalations s"
  "budgets (update_leases tid f s) = budgets s"
  "inbox (update_leases tid f s) = inbox s"
  "clock (update_leases tid f s) = clock s"
  "same_env s0 (update_leases tid f s) = same_env s0 s"
  by (simp_all add: update_leases_def same_env_def)

lemma events_ok_update_leases [simp]: "events_ok (update_leases tid f s) = events_ok s"
  by (rule events_ok_cong) (simp_all add: update_leases_def)

text \<open>What a lease operation leaves alone: every other table; it logs lease events only.\<close>

definition lease_frame :: "store \<Rightarrow> store \<Rightarrow> bool" where
  "lease_frame s s' =
     (same_env s s' \<and> dispatches s' = dispatches s \<and> attempts s' = attempts s \<and>
      workers s' = workers s \<and> runs s' = runs s \<and> incidents s' = incidents s \<and>
      retries s' = retries s \<and> escalations s' = escalations s \<and> budgets s' = budgets s \<and>
      inbox s' = inbox s \<and>
      (\<exists>es. events s' = events s @ es \<and> list_all (\<lambda>e. e_entity_type e = ''lease'') es))"

lemma lease_frame_refl [simp, intro]: "lease_frame s s"
  by (simp add: lease_frame_def)

lemma lease_frame_update [simp]: "lease_frame s0 (update_leases tid f s) = lease_frame s0 s"
  by (simp add: lease_frame_def)

lemma lease_frame_log: "lease_frame s0 s \<Longrightarrow> e_entity_type e = ''lease'' \<Longrightarrow> lease_frame s0 (log_event e s)"
  by (auto simp: lease_frame_def)

lemma lease_frame_trans: "lease_frame s s1 \<Longrightarrow> lease_frame s1 s2 \<Longrightarrow> lease_frame s s2"
  by (auto simp: lease_frame_def intro: same_env_trans)

lemma lease_frame_env: "lease_frame s s' \<Longrightarrow> same_env s s'"
  by (simp add: lease_frame_def)

lemma lease_at_log [simp]: "lease_at (log_event e s) tid = lease_at s tid"
  by (simp add: lease_at_def)

lemma lease_at_update:
  assumes "\<And>l. l_terminal (f l) = l_terminal l"
  shows "lease_at (update_leases tid f s) t = (if t = tid then map_option f (lease_at s t) else lease_at s t)"
  using assms by (simp add: lease_at_def find_update_where find_update_where_other)

text \<open>The new row of each operation.\<close>

definition acquired :: "string \<Rightarrow> int \<Rightarrow> int \<Rightarrow> int \<Rightarrow> lease_row \<Rightarrow> lease_row" where
  "acquired did gen now expires l =
     l\<lparr>l_state := ''leased'', l_dispatch := Some did, l_generation := gen, l_leased_at := Some (At now),
       l_expires_at := Some (At expires), l_heartbeat_at := Some (At now), l_released_at := None\<rparr>"

definition renewed :: "int \<Rightarrow> int \<Rightarrow> lease_row \<Rightarrow> lease_row" where
  "renewed now expires l = l\<lparr>l_expires_at := Some (At expires), l_heartbeat_at := Some (At now)\<rparr>"

definition released :: "int \<Rightarrow> lease_row \<Rightarrow> lease_row" where
  "released now l = l\<lparr>l_dispatch := None, l_expires_at := None, l_released_at := Some (At now),
     l_state := ''idle''\<rparr>"

definition lapsed :: "lease_row \<Rightarrow> lease_row" where
  "lapsed l = l\<lparr>l_state := ''expired''\<rparr>"

definition recovered :: "int \<Rightarrow> lease_row \<Rightarrow> lease_row" where
  "recovered now l = l\<lparr>l_state := ''idle'', l_dispatch := None, l_expires_at := None,
     l_leased_at := None, l_released_at := Some (At now)\<rparr>"

definition freed :: "int \<Rightarrow> int \<Rightarrow> lease_row \<Rightarrow> lease_row" where
  "freed now gen l = l\<lparr>l_state := ''idle'', l_dispatch := None, l_leased_at := None,
     l_expires_at := None, l_heartbeat_at := None, l_released_at := Some (At now), l_generation := gen\<rparr>"

lemmas new_row_defs = acquired_def renewed_def released_def lapsed_def recovered_def freed_def

lemma new_row_terminal [simp]:
  "l_terminal (acquired did gen now expires l) = l_terminal l"
  "l_terminal (renewed now expires l) = l_terminal l"
  "l_terminal (released now l) = l_terminal l"
  "l_terminal (lapsed l) = l_terminal l"
  "l_terminal (recovered now l) = l_terminal l"
  "l_terminal (freed now gen l) = l_terminal l"
  by (simp_all add: new_row_defs)

text \<open>
  An operation that changes the lease of a terminal with \<open>f\<close>: the row it found, the new table,
  the row it returns, and the frame.
\<close>

definition lease_change ::
  "string \<Rightarrow> (lease_row \<Rightarrow> lease_row) \<Rightarrow> lease_row \<Rightarrow> store \<Rightarrow> lease_row \<Rightarrow> store \<Rightarrow> bool" where
  "lease_change tid f row s r s' =
     (lease_at s tid = Some row \<and> r = f row \<and> lease_at s' tid = Some r \<and>
      leases s' = update_where (\<lambda>l. l_terminal l = tid) f (leases s) \<and> lease_frame s s')"

lemma get_lease_row_eq_Inr: "get_lease_row s tid = Inr row \<longleftrightarrow> lease_at s tid = Some row"
  by (auto simp: get_lease_row_def split: option.splits)

lemma get_lease_row_simps [simp]:
  "lease_at s tid = Some row \<Longrightarrow> get_lease_row s tid = Inr row"
  "lease_at s tid = None \<Longrightarrow> get_lease_row s tid = Inl (KeyError tid)"
  by (simp_all add: get_lease_row_def)

lemma lease_edges:
  "''leased'' \<in> set (allowed_from LEASE_TRANSITIONS q) \<longleftrightarrow> q \<in> {''idle'', ''recovering''}"
  "''expired'' \<in> set (allowed_from LEASE_TRANSITIONS q) \<longleftrightarrow> q = ''leased''"
  "''recovering'' \<in> set (allowed_from LEASE_TRANSITIONS q) \<longleftrightarrow> q = ''expired''"
  by (auto simp: lease_table_defs split: if_splits option.splits)

lemma acquire_lease_Inr:
  "acquire_lease tid did n actor reason s = Inr (r, s') \<Longrightarrow>
   \<exists>row. l_state row \<in> {''idle'', ''recovering''} \<and> lease_refs_ok s tid did \<and>
     lease_change tid (acquired did (l_generation row + 1) (clock s) (clock s + n * sec)) row s r s'"
  unfolding acquire_lease_def Let_def result_iffs get_lease_row_eq_Inr validate_lease_transition_iff
    lease_edges append_event_None_eq_Inr lease_change_def acquired_def
  by (auto simp: lease_at_update lease_frame_log)

lemma renew_lease_Inr:
  "renew_lease tid g n actor s = Inr (r, s') \<Longrightarrow>
   \<exists>row. l_state row = ''leased'' \<and> l_generation row = g \<and>
     lease_change tid (renewed (clock s) (clock s + n * sec)) row s r s'"
  unfolding renew_lease_def Let_def result_iffs get_lease_row_eq_Inr verify_generation_def
    append_event_None_eq_Inr lease_change_def renewed_def
  by (auto simp: lease_at_update lease_frame_log)

lemma update_leases_twice:
  assumes "\<And>l. l_terminal (f l) = l_terminal l"
  shows "update_where (\<lambda>l. l_terminal l = tid) g (update_where (\<lambda>l. l_terminal l = tid) f rows) =
    update_where (\<lambda>l. l_terminal l = tid) (\<lambda>l. g (f l)) rows"
  using assms by (simp add: update_where_compose comp_def)

lemma release_lease_Inr:
  "release_lease tid g actor reason s = Inr (r, s') \<Longrightarrow>
   \<exists>row. l_state row \<in> {''leased'', ''recovering''} \<and> l_generation row = g \<and>
     lease_change tid (released (clock s)) row s r s'"
  unfolding release_lease_def Let_def result_iffs get_lease_row_eq_Inr verify_generation_def
    append_event_None_eq_Inr lease_change_def released_def
  by (auto simp: lease_at_update lease_frame_log update_leases_twice)

lemma expire_lease_Inr:
  "expire_lease tid actor reason s = Inr (r, s') \<Longrightarrow>
   \<exists>row. l_state row = ''leased'' \<and> lease_change tid lapsed row s r s'"
  unfolding expire_lease_def Let_def result_iffs get_lease_row_eq_Inr validate_lease_transition_iff
    lease_edges append_event_None_eq_Inr lease_change_def lapsed_def
  by (auto simp: lease_at_update lease_frame_log)

lemma recover_lease_Inr:
  "recover_lease tid actor reason s = Inr (r, s') \<Longrightarrow>
   \<exists>row. l_state row = ''expired'' \<and> lease_change tid (recovered (clock s)) row s r s'"
  unfolding recover_lease_def Let_def result_iffs get_lease_row_eq_Inr validate_lease_transition_iff
    lease_edges append_event_None_eq_Inr lease_change_def recovered_def
  by (auto simp: lease_at_update lease_frame_log update_leases_twice)

text \<open>When they succeed.\<close>

lemma validate_lease_ok: "t \<in> set (allowed_from LEASE_TRANSITIONS q) \<Longrightarrow> validate_lease_transition q t = Inr ()"
  by (simp add: validate_lease_transition_iff)

lemma acquire_lease_ok:
  assumes "lease_at s tid = Some row" and "l_state row \<in> {''idle'', ''recovering''}"
    and "lease_refs_ok s tid did" and "events_ok s"
  shows "\<exists>r s'. acquire_lease tid did n actor reason s = Inr (r, s')"
  using assms by (simp add: acquire_lease_def Let_def validate_lease_ok lease_edges append_event_ok lease_at_update)

lemma renew_lease_ok:
  assumes "lease_at s tid = Some row" and "l_state row = ''leased''" and "l_generation row = g" and "events_ok s"
  shows "\<exists>r s'. renew_lease tid g n actor s = Inr (r, s')"
  using assms by (simp add: renew_lease_def Let_def verify_generation_def append_event_ok lease_at_update)

lemma release_lease_ok:
  assumes "lease_at s tid = Some row" and "l_state row \<in> {''leased'', ''recovering''}"
    and "l_generation row = g" and "events_ok s"
  shows "\<exists>r s'. release_lease tid g actor reason s = Inr (r, s')"
  using assms by (auto simp: release_lease_def Let_def verify_generation_def append_event_ok lease_at_update)

lemma expire_lease_ok:
  assumes "lease_at s tid = Some row" and "l_state row = ''leased''" and "events_ok s"
  shows "\<exists>r s'. expire_lease tid actor reason s = Inr (r, s')"
  using assms by (simp add: expire_lease_def Let_def validate_lease_ok lease_edges append_event_ok lease_at_update)

lemma recover_lease_ok:
  assumes "lease_at s tid = Some row" and "l_state row = ''expired''" and "events_ok s"
  shows "\<exists>r s'. recover_lease tid actor reason s = Inr (r, s')"
  using assms by (simp add: recover_lease_def Let_def validate_lease_ok lease_edges append_event_ok lease_at_update)

section \<open>Closeout\<close>

definition sample_lease :: "string \<Rightarrow> string \<Rightarrow> string option \<Rightarrow> int \<Rightarrow> stamp option \<Rightarrow> lease_row" where
  "sample_lease tid state did gen expires =
     \<lparr>l_terminal = tid, l_project = None, l_state = state, l_dispatch = did, l_generation = gen,
      l_leased_at = expires, l_expires_at = expires, l_heartbeat_at = expires, l_released_at = None\<rparr>"

definition lease_store :: store where
  "lease_store = (empty_store [] None (1000 * sec))
     \<lparr>dispatches := [sample_dispatch ''d1'' None None ''claimed'' 10],
      leases := [sample_lease ''T1'' ''idle'' None 3 None,
                 sample_lease ''T2'' ''leased'' (Some ''d1'') 7 (Some (At (900 * sec))),
                 sample_lease ''T3'' ''leased'' (Some ''d1'') 2 (Some (At (2000 * sec)))]\<rparr>"

lemma force_idle_eq:
  "force_idle actor reason row s = Inr s' \<longleftrightarrow>
   events_ok s \<and> (\<exists>e. e_entity_type e = ''lease'' \<and>
     mk_event (update_leases (l_terminal row) (freed (clock s) (l_generation row + 1)) s)
       ''lease_released'' ''lease'' (l_terminal row) (Some (l_state row)) (Some ''idle'') actor (Some reason)
       (Some [(''generation'', JInt (l_generation row)), (''new_generation'', JInt (l_generation row + 1)),
              (''dispatch_id'', json_opt (l_dispatch row))]) (default_project s) = e \<and>
     s' = log_event e (update_leases (l_terminal row) (freed (clock s) (l_generation row + 1)) s))"
proof -
  have "default_project (update_leases t f s) = default_project s" for t f
    by (rule same_env_simps) simp
  then show ?thesis
    unfolding force_idle_def append_event_None_eq_Inr freed_def by simp
qed

lemma force_idle_Inr:
  "force_idle actor reason row s = Inr s' \<Longrightarrow>
   events_ok s \<and> lease_frame s s' \<and>
   leases s' = update_where (\<lambda>l. l_terminal l = l_terminal row) (freed (clock s) (l_generation row + 1)) (leases s)"
  by (auto simp: force_idle_eq lease_frame_log)

lemma force_idle_ok: "events_ok s \<Longrightarrow> \<exists>s'. force_idle actor reason row s = Inr s'"
  by (auto simp: force_idle_eq)

text \<open>The new row of each lease of a closeout.\<close>

definition closed_row :: "int \<Rightarrow> lease_row \<Rightarrow> lease_row" where
  "closed_row now l = (if l_state l = ''idle'' then l else freed now (l_generation l + 1) l)"

lemma update_unique_row:
  assumes "distinct (map l_terminal (pre @ l # post))"
  shows "update_where (\<lambda>x. l_terminal x = l_terminal l) f (pre @ l # post) = pre @ f l # post"
proof -
  have "update_where (\<lambda>x. l_terminal x = l_terminal l) f pre = pre"
    and "update_where (\<lambda>x. l_terminal x = l_terminal l) f post = post"
    using assms by (auto intro!: update_where_none simp: image_iff)
  then show ?thesis by simp
qed

lemma foldE_force_idle:
  assumes "foldE (force_idle actor reason) (filter (\<lambda>l. l_state l \<noteq> ''idle'') rows) s = Inr s'"
    and "leases s = pre @ rows" and "distinct (map l_terminal (pre @ rows))"
  shows "leases s' = pre @ map (closed_row (clock s)) rows \<and> lease_frame s s'"
  using assms
proof (induction rows arbitrary: s pre)
  case Nil
  then show ?case by simp
next
  case (Cons l rows)
  show ?case
  proof (cases "l_state l = ''idle''")
    case True
    with Cons.IH [of s "pre @ [l]"] Cons.prems show ?thesis by (simp add: closed_row_def)
  next
    case False
    with Cons.prems(1) obtain s1 where s1: "force_idle actor reason l s = Inr s1"
      "foldE (force_idle actor reason) (filter (\<lambda>l. l_state l \<noteq> ''idle'') rows) s1 = Inr s'"
      by (auto simp: bindE_eq_Inr)
    note step = force_idle_Inr [OF s1(1)]
    have rows1: "leases s1 = (pre @ [closed_row (clock s) l]) @ rows"
      using step False Cons.prems(2) update_unique_row [OF Cons.prems(3)] by (simp add: closed_row_def)
    have clk: "clock s1 = clock s" using step by (auto dest!: lease_frame_env simp: same_env_def)
    from Cons.IH [OF s1(2) rows1] Cons.prems(3) step
    show ?thesis by (auto simp: clk closed_row_def intro: lease_frame_trans split: if_splits)
  qed
qed

lemma foldE_force_idle_ok:
  "events_ok s \<Longrightarrow> \<exists>s'. foldE (force_idle actor reason) rows s = Inr s'"
proof (induction rows arbitrary: s)
  case Nil
  then show ?case by simp
next
  case (Cons l rows)
  from force_idle_ok [OF Cons.prems] obtain s1 where s1: "force_idle actor reason l s = Inr s1" by blast
  then have "events_ok s1"
    using Cons.prems force_idle_Inr [OF s1] lease_frame_env same_env_simps(2) by blast
  from Cons.IH [OF this] s1 show ?case by auto
qed

lemma update_where_length [simp]: "length (leases (update_leases tid f s)) = length (leases s)"
  by simp

text \<open>
  A forced chain closeout, in a store whose terminals are distinct, frees every lease: all
  of them are idle afterwards with no dispatch, every lease that was held or lapsed has its
  generation raised by one so that its holder's token is dead, idle leases are untouched, and
  the report lists exactly the terminals that were freed.
\<close>

lemma closeout_frees_every_lease:
  assumes "events_ok s" and "distinct (map l_terminal (leases s))"
  shows "\<exists>rep s'. release_all_leases actor reason True s = Inr (rep, s') \<and>
    leases s' = map (closed_row (clock s)) (leases s) \<and> lease_frame s s' \<and>
    c_all_idle rep \<and> \<not> c_blocked rep \<and> c_remaining rep = [] \<and>
    c_released rep = map l_terminal (filter (\<lambda>l. l_state l \<noteq> ''idle'') (leases s)) \<and>
    (\<forall>l' \<in> set (leases s'). l_state l' = ''idle'')"
proof -
  from foldE_force_idle_ok [OF assms(1)] obtain s' where
    run: "foldE (force_idle actor reason) (filter (\<lambda>l. l_state l \<noteq> ''idle'') (leases s)) s = Inr s'" by blast
  with foldE_force_idle [OF run, of "[]"] assms(2)
  have rows: "leases s' = map (closed_row (clock s)) (leases s)" and frame: "lease_frame s s'" by simp_all
  have idle: "\<forall>l' \<in> set (leases s'). l_state l' = ''idle''"
    by (auto simp: rows closed_row_def freed_def)
  then have none: "filter (\<lambda>l. l_state l \<noteq> ''idle'') (leases s') = []" by (auto simp: filter_empty_conv)
  obtain rep where rep: "release_all_leases actor reason True s = Inr (rep, s')"
    and "c_all_idle rep" "\<not> c_blocked rep" "c_remaining rep = []"
    and "c_released rep = map l_terminal (filter (\<lambda>l. l_state l \<noteq> ''idle'') (leases s))"
    by (simp add: release_all_leases_def release_all_leases_bulk_def Let_def run none)
  then show ?thesis using rows frame idle by blast
qed

lemma closeout_frees_every_lease_witness:
  "\<exists>rep s'. release_all_leases ''chain_closeout'' ''cleanup'' True lease_store = Inr (rep, s') \<and>
     c_released rep = [''T2'', ''T3''] \<and> map l_generation (leases s') = [3, 8, 3]"
proof -
  have "events_ok lease_store" and "distinct (map l_terminal (leases lease_store))" by code_simp+
  from closeout_frees_every_lease [OF this, of "''chain_closeout''" "''cleanup''"] show ?thesis
    by (auto simp: closed_row_def freed_def lease_store_def sample_lease_def)
qed

text \<open>
  A closeout that finds dispatches outside completed, expired and dead_letter and is not
  forced changes nothing and says so.
\<close>

lemma closeout_blocked_changes_nothing:
  assumes "d \<in> set (dispatches s)" and "d_state d \<notin> {''completed'', ''expired'', ''dead_letter''}"
  shows "\<exists>rep. release_all_leases actor reason False s = Inr (rep, s) \<and> c_blocked rep \<and>
    \<not> c_all_idle rep \<and> c_released rep = [] \<and> (d_id d, d_state d) \<in> set (c_non_terminal rep)"
proof -
  have "(d_id d, d_state d) \<in> set (map (\<lambda>d. (d_id d, d_state d))
      (filter (\<lambda>d. d_state d \<notin> {''completed'', ''expired'', ''dead_letter''}) (dispatches s)))"
    using assms by auto
  then show ?thesis
    unfolding release_all_leases_def Let_def by (auto simp del: set_map set_filter)
qed

lemma closeout_blocked_changes_nothing_witness:
  "\<exists>rep. release_all_leases ''chain_closeout'' ''cleanup'' False lease_store = Inr (rep, lease_store) \<and>
     c_blocked rep"
proof -
  have "sample_dispatch ''d1'' None None ''claimed'' 10 \<in> set (dispatches lease_store)"
    and "d_state (sample_dispatch ''d1'' None None ''claimed'' 10) \<notin> {''completed'', ''expired'', ''dead_letter''}"
    by (simp_all add: lease_store_def sample_dispatch_def)
  from closeout_blocked_changes_nothing [OF this] show ?thesis by blast
qed

text \<open>
  Two places where the closeout is stricter, or looser, than the rest of the code: a withdrawn
  dispatch is terminal everywhere else but blocks it, and with one terminal id in two projects
  it frees both leases and can move a generation backwards.
\<close>

lemma closeout_blocked_by_withdrawn:
  "is_terminal_dispatch_state ''withdrawn'' \<and>
   (\<exists>rep. release_all_leases ''chain_closeout'' ''cleanup'' False
      (lease_store\<lparr>dispatches := [sample_dispatch ''d1'' None None ''withdrawn'' 10]\<rparr>) =
      Inr (rep, lease_store\<lparr>dispatches := [sample_dispatch ''d1'' None None ''withdrawn'' 10]\<rparr>) \<and> c_blocked rep)"
proof
  show "is_terminal_dispatch_state ''withdrawn''" by code_simp
  show "\<exists>rep. release_all_leases ''chain_closeout'' ''cleanup'' False
      (lease_store\<lparr>dispatches := [sample_dispatch ''d1'' None None ''withdrawn'' 10]\<rparr>) =
      Inr (rep, lease_store\<lparr>dispatches := [sample_dispatch ''d1'' None None ''withdrawn'' 10]\<rparr>) \<and> c_blocked rep"
    by (simp add: release_all_leases_def sample_dispatch_def)
qed

definition two_project_leases :: store where
  "two_project_leases = (empty_store [''terminal_leases''] (Some ''acme'') 5)
     \<lparr>leases := [(sample_lease ''T1'' ''leased'' (Some ''d1'') 9 (Some (At 1)))\<lparr>l_project := Some ''acme''\<rparr>,
                 (sample_lease ''T1'' ''leased'' (Some ''d2'') 2 (Some (At 1)))\<lparr>l_project := Some ''other''\<rparr>]\<rparr>"

lemma closeout_rewinds_generation_across_projects:
  "case release_all_leases ''chain_closeout'' ''cleanup'' True two_project_leases of
     Inl e \<Rightarrow> False
   | Inr (rep, s') \<Rightarrow> map (\<lambda>l. (l_project l, l_generation l)) (leases s') = [(Some ''acme'', 3), (Some ''other'', 3)]"
  by code_simp

section \<open>The lock that the operations implement\<close>

text \<open>Every way the lease manager and the closeout change the leases, as commands.\<close>

datatype lease_cmd =
    Acquire string string int
  | Renew string int int
  | Release string int
  | Expire string
  | Recover string
  | Closeout bool
  | Expire_Stale

definition no_value :: "(exn + 'a) \<times> store \<Rightarrow> (exn + unit) \<times> store" where
  "no_value rs = (map_sum id (\<lambda>_. ()) (fst rs), snd rs)"

fun lease_run :: "string \<Rightarrow> string option \<Rightarrow> lease_cmd \<Rightarrow> store \<Rightarrow> (exn + unit) \<times> store" where
  "lease_run actor reason (Acquire tid did n) s = no_value (mgr_acquire tid did n actor reason s)"
| "lease_run actor reason (Renew tid g n) s = no_value (mgr_renew tid g n actor s)"
| "lease_run actor reason (Release tid g) s = no_value (mgr_release tid g actor reason s)"
| "lease_run actor reason (Expire tid) s = no_value (mgr_expire tid actor reason s)"
| "lease_run actor reason (Recover tid) s = no_value (mgr_recover tid actor reason s)"
| "lease_run actor reason (Closeout force) s =
     no_value (commit s (release_all_leases actor (or_else reason ''chain_boundary_cleanup'') force s))"
| "lease_run actor reason Expire_Stale s = no_value (expire_stale actor reason s)"

fun cmd_terminal :: "lease_cmd \<Rightarrow> string option" where
  "cmd_terminal (Acquire tid _ _) = Some tid"
| "cmd_terminal (Renew tid _ _) = Some tid"
| "cmd_terminal (Release tid _) = Some tid"
| "cmd_terminal (Expire tid) = Some tid"
| "cmd_terminal (Recover tid) = Some tid"
| "cmd_terminal _ = None"

fun grants_lease :: "string \<Rightarrow> lease_cmd \<Rightarrow> bool" where
  "grants_lease tid (Acquire t _ _) = (t = tid)"
| "grants_lease tid _ = False"

text \<open>The foreign key an acquisition needs: the dispatch exists.\<close>

fun refs_hold :: "lease_cmd \<Rightarrow> store \<Rightarrow> bool" where
  "refs_hold (Acquire tid did _) s = lease_refs_ok s tid did"
| "refs_hold _ s = True"

fun lease_token :: "string \<Rightarrow> lease_cmd \<Rightarrow> int option" where
  "lease_token tid (Renew t g _) = (if t = tid then Some g else None)"
| "lease_token tid (Release t g) = (if t = tid then Some g else None)"
| "lease_token tid _ = None"

text \<open>The abstract lock: free, held by a dispatch, or lapsed; each with its generation.\<close>

datatype lock = Free int | Held int string | Lapsed int string

fun lock_step :: "lease_cmd \<Rightarrow> lock \<Rightarrow> lock option" where
  "lock_step (Acquire _ did _) (Free g) = Some (Held (g + 1) did)"
| "lock_step (Renew _ t _) (Held g did) = (if t = g then Some (Held g did) else None)"
| "lock_step (Release _ t) (Held g did) = (if t = g then Some (Free g) else None)"
| "lock_step (Expire _) (Held g did) = Some (Lapsed g did)"
| "lock_step (Recover _) (Lapsed g did) = Some (Free g)"
| "lock_step _ _ = None"

definition lock_of :: "lease_row \<Rightarrow> lock" where
  "lock_of l = (if l_state l = ''leased'' then Held (l_generation l) (the (l_dispatch l))
                else if l_state l = ''expired'' then Lapsed (l_generation l) (the (l_dispatch l))
                else Free (l_generation l))"

text \<open>The rows at rest: no transient state is ever committed.\<close>

definition lease_ok :: "lease_row \<Rightarrow> bool" where
  "lease_ok l = (l_state l \<in> {''idle'', ''leased'', ''expired''} \<and>
     (l_dispatch l = None \<longleftrightarrow> l_state l = ''idle'') \<and>
     (l_state l \<noteq> ''idle'' \<longrightarrow> l_expires_at l \<noteq> None \<and> l_leased_at l \<noteq> None) \<and>
     (l_state l = ''idle'' \<longrightarrow> l_expires_at l = None))"

lemma no_value_simps [simp]:
  "fst (no_value (Inr x, s)) = Inr ()" "fst (no_value (Inl e, s)) = Inl e" "snd (no_value rs) = snd rs"
  by (simp_all add: no_value_def)

lemma committed_lease_cases:
  "committed_lease s m = (case m of Inl e \<Rightarrow> (Inl e, s) | Inr (r, s') \<Rightarrow> (Inr (lease_result_of r), s'))"
  by (auto simp: committed_lease_def bindE_def split: sum.splits prod.splits)

lemma mgr_cases:
  "no_value (committed_lease s m) = (case m of Inl e \<Rightarrow> (Inl e, s) | Inr (r, s') \<Rightarrow> (Inr (), s'))"
  by (auto simp: committed_lease_cases no_value_def split: sum.splits)

lemma mgr_failed: "isl (fst (no_value (committed_lease s m))) \<Longrightarrow> snd (no_value (committed_lease s m)) = s"
  by (auto simp: mgr_cases split: sum.splits)

lemma mgr_accepted:
  assumes "\<not> isl (fst (no_value (committed_lease s m)))"
  shows "\<exists>r. m = Inr (r, snd (no_value (committed_lease s m)))"
  using assms by (auto simp: mgr_cases split: sum.splits)

lemmas mgr_defs = mgr_acquire_def mgr_renew_def mgr_release_def mgr_expire_def mgr_recover_def

lemma lease_run_failed:
  "cmd_terminal c = Some tid \<Longrightarrow> isl (fst (lease_run actor reason c s)) \<Longrightarrow> snd (lease_run actor reason c s) = s"
  by (cases c) (auto simp: mgr_defs dest: mgr_failed)

text \<open>One accepted command on one terminal.\<close>

lemma lease_run_change:
  assumes "cmd_terminal c = Some tid" and "\<not> isl (fst (lease_run actor reason c s))"
  shows "\<exists>row f r. lease_change tid f row s r (snd (lease_run actor reason c s)) \<and>
    (\<forall>l. l_terminal (f l) = l_terminal l) \<and> l_generation row \<le> l_generation (f row) \<and>
    (grants_lease tid c \<longrightarrow> l_generation row < l_generation (f row)) \<and>
    (\<forall>g. lease_token tid c = Some g \<longrightarrow> g = l_generation row) \<and>
    (lease_ok row \<longrightarrow> lease_ok (f row) \<and> lock_step c (lock_of row) = Some (lock_of (f row)))"
proof (cases c)
  case (Acquire t did n)
  then obtain r where "acquire_lease tid did n actor reason s = Inr (r, snd (lease_run actor reason c s))"
    using assms mgr_accepted by (fastforce simp: mgr_defs)
  from acquire_lease_Inr [OF this] obtain row where ch:
    "lease_change tid (acquired did (l_generation row + 1) (clock s) (clock s + n * sec)) row s r (snd (lease_run actor reason c s))"
    and row: "l_state row = ''idle'' \<or> l_state row = ''recovering''" by auto
  show ?thesis
    by (intro exI conjI, rule ch) (use row Acquire assms(1) in \<open>auto simp: acquired_def lease_ok_def lock_of_def\<close>)
next
  case (Renew t g n)
  then obtain r where "renew_lease tid g n actor s = Inr (r, snd (lease_run actor reason c s))"
    using assms mgr_accepted by (fastforce simp: mgr_defs)
  from renew_lease_Inr [OF this] obtain row where ch:
    "lease_change tid (renewed (clock s) (clock s + n * sec)) row s r (snd (lease_run actor reason c s))"
    and row: "l_state row = ''leased'' \<and> l_generation row = g" by auto
  show ?thesis
    by (intro exI conjI, rule ch) (use row Renew assms(1) in \<open>auto simp: renewed_def lease_ok_def lock_of_def\<close>)
next
  case (Release t g)
  then obtain r where "release_lease tid g actor reason s = Inr (r, snd (lease_run actor reason c s))"
    using assms mgr_accepted by (fastforce simp: mgr_defs)
  from release_lease_Inr [OF this] obtain row where ch:
    "lease_change tid (released (clock s)) row s r (snd (lease_run actor reason c s))"
    and row: "(l_state row = ''leased'' \<or> l_state row = ''recovering'') \<and> l_generation row = g" by auto
  show ?thesis
    by (intro exI conjI, rule ch) (use row Release assms(1) in \<open>auto simp: released_def lease_ok_def lock_of_def\<close>)
next
  case (Expire t)
  then obtain r where "expire_lease tid actor reason s = Inr (r, snd (lease_run actor reason c s))"
    using assms mgr_accepted by (fastforce simp: mgr_defs)
  from expire_lease_Inr [OF this] obtain row where ch:
    "lease_change tid (lapsed) row s r (snd (lease_run actor reason c s))"
    and row: "l_state row = ''leased''" by auto
  show ?thesis
    by (intro exI conjI, rule ch) (use row Expire assms(1) in \<open>auto simp: lapsed_def lease_ok_def lock_of_def\<close>)
next
  case (Recover t)
  then obtain r where "recover_lease tid actor reason s = Inr (r, snd (lease_run actor reason c s))"
    using assms mgr_accepted by (fastforce simp: mgr_defs)
  from recover_lease_Inr [OF this] obtain row where ch:
    "lease_change tid (recovered (clock s)) row s r (snd (lease_run actor reason c s))"
    and row: "l_state row = ''expired''" by auto
  show ?thesis
    by (intro exI conjI, rule ch) (use row Recover assms(1) in \<open>auto simp: recovered_def lease_ok_def lock_of_def\<close>)
qed (use assms in simp_all)

lemma lease_change_other:
  assumes "lease_change tid f row s r s'" and "\<And>l. l_terminal (f l) = l_terminal l" and "t \<noteq> tid"
  shows "lease_at s' t = lease_at s t"
  using assms by (auto simp: lease_change_def lease_at_def find_update_where_other)

text \<open>When the abstract lock makes the step, the command is accepted.\<close>

lemma lease_run_accepts:
  assumes "cmd_terminal c = Some tid" and "lease_at s tid = Some row" and "lease_ok row" and "events_ok s"
    and "refs_hold c s"
    and "lock_step c (lock_of row) \<noteq> None"
  shows "\<not> isl (fst (lease_run actor reason c s))"
  using assms
proof (cases c)
  case (Acquire t did n)
  with assms have "\<exists>r s'. acquire_lease t did n actor reason s = Inr (r, s')"
    by (intro acquire_lease_ok) (auto simp: lock_of_def lease_ok_def split: if_splits)
  with Acquire show ?thesis by (auto simp: mgr_defs mgr_cases)
next
  case (Renew t g n)
  with assms have "\<exists>r s'. renew_lease t g n actor s = Inr (r, s')"
    by (intro renew_lease_ok) (auto simp: lock_of_def lease_ok_def split: if_splits)
  with Renew show ?thesis by (auto simp: mgr_defs mgr_cases)
next
  case (Release t g)
  with assms have "\<exists>r s'. release_lease t g actor reason s = Inr (r, s')"
    by (intro release_lease_ok) (auto simp: lock_of_def lease_ok_def split: if_splits)
  with Release show ?thesis by (auto simp: mgr_defs mgr_cases)
next
  case (Expire t)
  with assms have "\<exists>r s'. expire_lease t actor reason s = Inr (r, s')"
    by (intro expire_lease_ok) (auto simp: lock_of_def lease_ok_def split: if_splits)
  with Expire show ?thesis by (auto simp: mgr_defs mgr_cases)
next
  case (Recover t)
  with assms have "\<exists>r s'. recover_lease t actor reason s = Inr (r, s')"
    by (intro recover_lease_ok) (auto simp: lock_of_def lease_ok_def split: if_splits)
  with Recover show ?thesis by (auto simp: mgr_defs mgr_cases)
qed simp_all

text \<open>
  C5: The five lease operations implement the abstract lock: from a row at rest, an operation
  on a terminal succeeds exactly when the lock makes the step, the stored row is then the
  lock's new value and again at rest, no other terminal's lease changes, and a refused
  operation leaves the store as it was.
\<close>

theorem lease_operations_refine_lock:
  assumes "cmd_terminal c = Some tid" and "lease_at s tid = Some row" and "lease_ok row" and "events_ok s"
    and "refs_hold c s"
  shows "case lease_run actor reason c s of
      (Inl e, s') \<Rightarrow> lock_step c (lock_of row) = None \<and> s' = s
    | (Inr u, s') \<Rightarrow> (\<exists>row'. lease_at s' tid = Some row' \<and> lease_ok row' \<and>
          lock_step c (lock_of row) = Some (lock_of row')) \<and>
        (\<forall>t. t \<noteq> tid \<longrightarrow> lease_at s' t = lease_at s t)"
proof (cases "isl (fst (lease_run actor reason c s))")
  case True
  from lease_run_accepts [OF assms, where actor = actor and reason = reason] True have "lock_step c (lock_of row) = None" by blast
  with lease_run_failed [OF assms(1) True] True show ?thesis
    by (cases "lease_run actor reason c s") (auto split: sum.splits)
next
  case False
  from lease_run_change [OF assms(1) False] obtain row1 f r where
    ch: "lease_change tid f row1 s r (snd (lease_run actor reason c s))"
    and key: "\<And>l. l_terminal (f l) = l_terminal l"
    and ok: "lease_ok row1 \<longrightarrow> lease_ok (f row1) \<and> lock_step c (lock_of row1) = Some (lock_of (f row1))"
    by blast
  have "row1 = row" using ch assms(2) by (simp add: lease_change_def)
  with ok ch assms(3) lease_change_other [OF ch key] False show ?thesis
    by (cases "lease_run actor reason c s") (auto simp: lease_change_def split: sum.splits)
qed

lemma lease_operations_refine_lock_witness:
  "\<not> isl (fst (lease_run ''broker'' None (Acquire ''T1'' ''d1'' 600) lease_store)) \<and>
   lock_step (Acquire ''T1'' ''d1'' 600) (Free 3) = Some (Held 4 ''d1'')"
proof -
  have row: "lease_at lease_store ''T1'' = Some (sample_lease ''T1'' ''idle'' None 3 None)" by code_simp
  have ok: "lease_ok (sample_lease ''T1'' ''idle'' None 3 None)" by code_simp
  have lock: "lock_of (sample_lease ''T1'' ''idle'' None 3 None) = Free 3" by code_simp
  have refs: "refs_hold (Acquire ''T1'' ''d1'' 600) lease_store" by code_simp
  have ev: "events_ok lease_store" by code_simp
  show ?thesis
    using lease_operations_refine_lock [OF _ row ok ev refs, where actor = "''broker''" and reason = None]
    by (cases "lease_run ''broker'' None (Acquire ''T1'' ''d1'' 600) lease_store")
      (auto simp: lock split: sum.splits)
qed

section \<open>Stale expiry\<close>

lemma expire_rows_keeps:
  assumes "P s" and "\<And>t s. P s \<Longrightarrow> P (snd (mgr_expire t actor reason s))"
  shows "P (snd (expire_rows actor reason now rows expired s))"
  using assms(1)
proof (induction rows arbitrary: s expired)
  case Nil
  then show ?case by simp
next
  case (Cons l rows)
  from assms(2) [OF Cons.prems, of "l_terminal l"] Cons.IH Cons.prems show ?case
    by (auto split: prod.splits sum.splits)
qed

lemma expire_stale_keeps:
  assumes "P s" and "\<And>t s. P s \<Longrightarrow> P (snd (lease_run actor reason (Expire t) s))"
  shows "P (snd (lease_run actor reason Expire_Stale s))"
  using expire_rows_keeps [where P = P and reason = reason and actor = actor] assms
  by (simp add: expire_stale_def)

section \<open>Fencing\<close>

definition distinct_terminals :: "store \<Rightarrow> bool" where
  "distinct_terminals s = distinct (map l_terminal (leases s))"

definition lease_generation :: "string \<Rightarrow> store \<Rightarrow> int" where
  "lease_generation tid s = (case lease_at s tid of None \<Rightarrow> 0 | Some l \<Rightarrow> l_generation l)"

lemma release_all_Inr:
  assumes "release_all_leases actor reason force s = Inr (rep, s')" and "distinct_terminals s"
  shows "s' = s \<or> leases s' = map (closed_row (clock s)) (leases s) \<and> lease_frame s s'"
proof (cases "s' = s")
  case False
  with assms(1) obtain x where
    "foldE (force_idle actor reason) (filter (\<lambda>l. l_state l \<noteq> ''idle'') (leases s)) s = Inr s'"
    by (auto simp: release_all_leases_def release_all_leases_bulk_def Let_def bindE_eq_Inr split: if_splits)
  from foldE_force_idle [OF this, of "[]"] assms(2) show ?thesis
    by (simp add: distinct_terminals_def)
qed simp

lemma closeout_cases:
  assumes "distinct_terminals s"
  shows "snd (lease_run actor reason (Closeout force) s) = s \<or>
    leases (snd (lease_run actor reason (Closeout force) s)) = map (closed_row (clock s)) (leases s)"
  using release_all_Inr [OF _ assms]
  by (fastforce simp: commit_def split: sum.splits prod.splits)

lemma closed_row_simps [simp]:
  "l_terminal (closed_row now l) = l_terminal l"
  "l_generation l \<le> l_generation (closed_row now l)"
  "lease_ok l \<Longrightarrow> lease_ok (closed_row now l)"
  by (auto simp: closed_row_def freed_def lease_ok_def)

lemma lease_at_closed:
  "leases s' = map (closed_row now) (leases s) \<Longrightarrow> lease_at s' t = map_option (closed_row now) (lease_at s t)"
proof -
  have "find (\<lambda>l. l_terminal l = t) (map (closed_row now) rows) =
      map_option (closed_row now) (find (\<lambda>l. l_terminal l = t) rows)" for rows
    by (induction rows) auto
  then show "leases s' = map (closed_row now) (leases s) \<Longrightarrow> ?thesis" by (simp add: lease_at_def)
qed

lemma single_cmd_terminals:
  assumes "cmd_terminal c = Some tid"
  shows "map l_terminal (leases (snd (lease_run actor reason c s))) = map l_terminal (leases s)"
proof (cases "isl (fst (lease_run actor reason c s))")
  case True
  then show ?thesis using lease_run_failed [OF assms True] by simp
next
  case False
  from lease_run_change [OF assms False] show ?thesis
    by (auto simp: lease_change_def map_update_where)
qed

lemma single_cmd_generation:
  assumes "cmd_terminal c = Some t"
  shows "lease_generation tid s \<le> lease_generation tid (snd (lease_run actor reason c s))"
proof (cases "isl (fst (lease_run actor reason c s))")
  case True
  then show ?thesis using lease_run_failed [OF assms True] by simp
next
  case False
  from lease_run_change [OF assms False] obtain row f r where
    ch: "lease_change t f row s r (snd (lease_run actor reason c s))"
    and key: "\<And>l. l_terminal (f l) = l_terminal l" and le: "l_generation row \<le> l_generation (f row)" by blast
  show ?thesis
  proof (cases "tid = t")
    case True
    with ch le show ?thesis by (simp add: lease_change_def lease_generation_def)
  next
    case False
    with lease_change_other [OF ch key] show ?thesis by (simp add: lease_generation_def)
  qed
qed

lemma lease_run_terminals:
  assumes inv: "distinct_terminals s"
  shows "distinct_terminals (snd (lease_run actor reason c s))"
proof -
  have single: "distinct_terminals (snd (lease_run actor reason c s))"
    if "distinct_terminals s" "cmd_terminal c = Some t" for c t s
    using that single_cmd_terminals [OF that(2), of actor reason s] by (simp add: distinct_terminals_def)
  consider t where "cmd_terminal c = Some t" | force where "c = Closeout force" | "c = Expire_Stale"
    by (cases c) auto
  then show ?thesis
  proof cases
    case 1
    with inv single show ?thesis by blast
  next
    case 2
    with closeout_cases [OF inv, of actor reason force] inv show ?thesis
      by (auto simp: distinct_terminals_def comp_def simp del: lease_run.simps)
  next
    case 3
    show ?thesis unfolding 3
      by (rule expire_stale_keeps [where P = distinct_terminals, OF inv]) (rule single, simp_all)
  qed
qed

lemma lease_run_generation:
  assumes inv: "distinct_terminals s"
  shows "lease_generation tid s \<le> lease_generation tid (snd (lease_run actor reason c s))"
proof -
  consider t where "cmd_terminal c = Some t" | force where "c = Closeout force" | "c = Expire_Stale"
    by (cases c) auto
  then show ?thesis
  proof cases
    case 1
    then show ?thesis by (rule single_cmd_generation)
  next
    case 2
    with closeout_cases [OF inv, of actor reason force] show ?thesis
      by (auto simp: lease_generation_def lease_at_closed simp del: lease_run.simps split: option.splits)
  next
    case 3
    show ?thesis unfolding 3
      by (rule expire_stale_keeps [where P = "\<lambda>s'. lease_generation tid s \<le> lease_generation tid s'"])
        (use single_cmd_generation [of "Expire t" t for t] in \<open>auto simp del: lease_run.simps intro: order_trans\<close>)
  qed
qed

lemma lease_run_grant:
  assumes "grants_lease tid c" and "\<not> isl (fst (lease_run actor reason c s))"
  shows "lease_generation tid s < lease_generation tid (snd (lease_run actor reason c s))"
proof -
  have "cmd_terminal c = Some tid" using assms(1) by (cases c) auto
  from lease_run_change [OF this assms(2)] assms(1) show ?thesis
    by (auto simp: lease_change_def lease_generation_def)
qed

lemma lease_run_token:
  assumes "lease_token tid c = Some g" and "\<not> isl (fst (lease_run actor reason c s))"
  shows "g = lease_generation tid s"
proof -
  have "cmd_terminal c = Some tid" using assms(1) by (cases c) (auto split: if_splits)
  from lease_run_change [OF this assms(2)] assms(1) show ?thesis
    by (auto simp: lease_change_def lease_generation_def)
qed

text \<open>A call of the lease manager: who calls, why, when, and what.\<close>

type_synonym lease_call = "string \<times> string option \<times> int \<times> lease_cmd"

fun call_cmd :: "lease_call \<Rightarrow> lease_cmd" where
  "call_cmd (actor, reason, now, c) = c"

fun lease_call :: "lease_call \<Rightarrow> store \<Rightarrow> (exn + unit) \<times> store" where
  "lease_call (actor, reason, now, c) s = lease_run actor reason c (s\<lparr>clock := now\<rparr>)"

definition lease_calls :: "lease_call list \<Rightarrow> store \<Rightarrow> store" where
  "lease_calls = fold (\<lambda>c s. snd (lease_call c s))"

lemma clock_irrelevant [simp]:
  "distinct_terminals (s\<lparr>clock := now\<rparr>) = distinct_terminals s"
  "lease_generation tid (s\<lparr>clock := now\<rparr>) = lease_generation tid s"
  "lease_at (s\<lparr>clock := now\<rparr>) tid = lease_at s tid"
  "refs_hold c (s\<lparr>clock := now\<rparr>) = refs_hold c s"
  by (cases c; simp add: distinct_terminals_def lease_generation_def lease_at_def lease_refs_ok_def
      dispatch_ref_ok_def)+

text \<open>The lease of a terminal is a fenced resource, whoever acts, at any time, on any terminal.\<close>

interpretation lease_fence: fenced_resource
  "\<lambda>c s. snd (lease_call c s)" "\<lambda>c s. \<not> isl (fst (lease_call c s))"
  "lease_generation tid" "grants_lease tid \<circ> call_cmd" "lease_token tid \<circ> call_cmd" distinct_terminals
  for tid
proof unfold_locales
  fix s :: store and c :: lease_call and g
  obtain actor reason now cmd where c: "c = (actor, reason, now, cmd)" by (cases c) auto
  let ?s = "s\<lparr>clock := now\<rparr>"
  show "distinct_terminals s \<Longrightarrow> distinct_terminals (snd (lease_call c s))"
    using lease_run_terminals [of ?s] by (simp add: c del: lease_run.simps)
  show "distinct_terminals s \<Longrightarrow> lease_generation tid s \<le> lease_generation tid (snd (lease_call c s))"
    using lease_run_generation [of ?s tid] by (simp add: c del: lease_run.simps)
  show "(grants_lease tid \<circ> call_cmd) c \<Longrightarrow> \<not> isl (fst (lease_call c s)) \<Longrightarrow>
      lease_generation tid s < lease_generation tid (snd (lease_call c s))"
    using lease_run_grant [of tid cmd actor reason ?s] by (simp add: c del: lease_run.simps)
  show "\<not> isl (fst (lease_call c s)) \<Longrightarrow> (lease_token tid \<circ> call_cmd) c = Some g \<Longrightarrow> g = lease_generation tid s"
    using lease_run_token [of tid cmd g actor reason ?s] by (simp add: c del: lease_run.simps)
qed

text \<open>
  C4: Stale holders are fenced off: once the terminal has been acquired anew, a renewal or a
  release with a token from before is refused, whatever calls of the lease manager, closeouts
  and expiry sweeps on any terminals happen in between and whenever they happen.
\<close>

theorem stale_holder_is_fenced_off:
  assumes "distinct_terminals s" and "grant = (actor, reason, now, Acquire tid did n)"
    and "\<not> isl (fst (lease_call grant s))" and "g \<le> lease_generation tid s"
    and "cmd = Renew tid g m \<or> cmd = Release tid g"
  shows "isl (fst (lease_call (actor', reason', now', cmd) (lease_calls calls (snd (lease_call grant s)))))"
  using lease_fence.old_token_refused [of s tid grant "(actor', reason', now', cmd)" g calls] assms
  by (auto simp: lease_calls_def comp_def simp del: lease_call.simps)

lemma stale_holder_is_fenced_off_witness:
  "isl (fst (lease_call (''worker'', None, 2000, Renew ''T1'' 3 600)
     (lease_calls [(''reconciler'', None, 1500, Expire_Stale)]
       (snd (lease_call (''broker'', None, 1000, Acquire ''T1'' ''d1'' 600) lease_store)))))"
proof -
  have "distinct_terminals lease_store" by code_simp
  moreover have "\<not> isl (fst (lease_call (''broker'', None, 1000, Acquire ''T1'' ''d1'' 600) lease_store))" by code_simp
  moreover have "(3::int) \<le> lease_generation ''T1'' lease_store" by code_simp
  ultimately show ?thesis by (rule stale_holder_is_fenced_off [OF _ refl]) (rule disjI1, rule refl)
qed

text \<open>The row invariant.\<close>

definition leases_ok :: "store \<Rightarrow> bool" where
  "leases_ok s = (distinct_terminals s \<and> list_all lease_ok (leases s))"

lemma leases_ok_clock [simp]: "leases_ok (s\<lparr>clock := now\<rparr>) = leases_ok s"
  by (simp add: leases_ok_def)

lemma leases_ok_run: "leases_ok s \<Longrightarrow> leases_ok (snd (lease_run actor reason c s))"
proof -
  assume inv: "leases_ok s"
  have single: "leases_ok (snd (lease_run actor reason c s))"
    if ok: "leases_ok s" and c: "cmd_terminal c = Some t" for c t s
  proof (cases "isl (fst (lease_run actor reason c s))")
    case True
    then show ?thesis using lease_run_failed [OF c True] ok by simp
  next
    case False
    from lease_run_change [OF c False] obtain row f r where
      ch: "lease_change t f row s r (snd (lease_run actor reason c s))"
      and fok: "lease_ok row \<longrightarrow> lease_ok (f row)" by blast
    have "l = row" if "l \<in> set (leases s)" "l_terminal l = t" for l
      using find_key_unique [of l_terminal "leases s" l] that ok ch
      by (simp add: leases_ok_def distinct_terminals_def lease_change_def lease_at_def)
    with ch fok ok have "list_all lease_ok (leases (snd (lease_run actor reason c s)))"
      by (auto simp: lease_change_def leases_ok_def list_all_iff in_update_where)
    with ok show ?thesis using lease_run_terminals by (simp add: leases_ok_def)
  qed
  consider t where "cmd_terminal c = Some t" | force where "c = Closeout force" | "c = Expire_Stale"
    by (cases c) auto
  then show "leases_ok (snd (lease_run actor reason c s))"
  proof cases
    case 1
    with inv single show ?thesis by blast
  next
    case 2
    have "distinct_terminals s" using inv by (simp add: leases_ok_def)
    from closeout_cases [OF this, of actor reason force] lease_run_terminals [OF this, of actor reason c] inv 2
    show ?thesis
      by (auto simp: leases_ok_def list_all_iff simp del: lease_run.simps)
  next
    case 3
    show ?thesis unfolding 3
      by (rule expire_stale_keeps [where P = leases_ok, OF inv]) (rule single, simp_all)
  qed
qed

text \<open>
  C6: Every lease row stays well formed under every sequence of calls: it rests in idle,
  leased or expired, it names a dispatch exactly when it is not idle, and a lease that is held
  or lapsed has its times, an idle one no expiry; terminals stay distinct.
\<close>

theorem lease_rows_stay_well_formed:
  assumes "leases_ok s"
  shows "leases_ok (lease_calls calls s)"
  using assms
proof (induction calls arbitrary: s)
  case Nil
  then show ?case by (simp add: lease_calls_def)
next
  case (Cons c calls)
  obtain actor reason now cmd where c: "c = (actor, reason, now, cmd)" by (cases c) auto
  have "leases_ok (snd (lease_call c s))"
    using Cons.prems leases_ok_run [of "s\<lparr>clock := now\<rparr>"] by (simp add: c del: lease_run.simps)
  from Cons.IH [OF this] show ?case by (simp add: lease_calls_def)
qed

lemma lease_rows_stay_well_formed_witness:
  "leases_ok (lease_calls [(''b'', None, 5, Acquire ''T1'' ''d1'' 600), (''b'', None, 6, Closeout True)] lease_store)"
  by (rule lease_rows_stay_well_formed) code_simp

section \<open>The expiry sweep\<close>

definition stale_lease :: "int \<Rightarrow> lease_row \<Rightarrow> bool" where
  "stale_lease now l = (l_state l = ''leased'' \<and> ttl_elapsed now l)"

lemma lease_at_member:
  assumes "l \<in> set (leases s)" and "distinct_terminals s"
  shows "lease_at s (l_terminal l) = Some l"
  using find_key_unique [of l_terminal "leases s" l] assms by (simp add: lease_at_def distinct_terminals_def)

lemma mgr_expire_ok:
  assumes "l \<in> set (leases s)" and "distinct_terminals s" and "l_state l = ''leased''" and "events_ok s"
  shows "\<exists>res s'. mgr_expire (l_terminal l) actor reason s = (Inr res, s') \<and>
    leases s' = update_where (\<lambda>x. l_terminal x = l_terminal l) lapsed (leases s) \<and> lease_frame s s'"
proof -
  from expire_lease_ok [OF lease_at_member [OF assms(1,2)] assms(3,4)] obtain r s' where
    step: "expire_lease (l_terminal l) actor reason s = Inr (r, s')" by blast
  from expire_lease_Inr [OF step] step show ?thesis
    by (auto simp: lease_change_def mgr_expire_def committed_lease_cases)
qed

lemma mgr_recover_ok:
  assumes "l \<in> set (leases s)" and "distinct_terminals s" and "l_state l = ''expired''" and "events_ok s"
  shows "\<exists>res s'. mgr_recover (l_terminal l) actor reason s = (Inr res, s') \<and>
    leases s' = update_where (\<lambda>x. l_terminal x = l_terminal l) (recovered (clock s)) (leases s) \<and>
    lease_frame s s'"
proof -
  from recover_lease_ok [OF lease_at_member [OF assms(1,2)] assms(3,4)] obtain r s' where
    step: "recover_lease (l_terminal l) actor reason s = Inr (r, s')" by blast
  from recover_lease_Inr [OF step] step show ?thesis
    by (auto simp: lease_change_def mgr_recover_def committed_lease_cases)
qed

lemma mgr_expire_step:
  assumes "leases s = pre @ l # post" and "distinct_terminals s" and "l_state l = ''leased''" and "events_ok s"
  shows "\<exists>res s'. mgr_expire (l_terminal l) actor reason s = (Inr res, s') \<and>
    leases s' = pre @ lapsed l # post \<and> lease_frame s s'"
  using mgr_expire_ok [of l s actor reason] update_unique_row [of pre l post lapsed] assms
  by (fastforce simp: distinct_terminals_def)

lemma expire_rows_exact:
  assumes "leases s = pre @ rows" and "distinct_terminals s" and "events_ok s"
  shows "\<exists>s'. expire_rows actor reason now (filter (\<lambda>l. l_state l = ''leased'') rows) expired s =
      (Inr (expired @ map l_terminal (filter (stale_lease now) rows)), s') \<and>
    leases s' = pre @ map (\<lambda>l. if stale_lease now l then lapsed l else l) rows \<and> lease_frame s s'"
  using assms
proof (induction rows arbitrary: s pre expired)
  case Nil
  then show ?case by simp
next
  case (Cons l rows)
  show ?case
  proof (cases "stale_lease now l")
    case False
    with Cons.IH [of s "pre @ [l]" expired] Cons.prems show ?thesis
      by (auto simp: stale_lease_def)
  next
    case True
    then have "l_state l = ''leased''" by (simp add: stale_lease_def)
    from mgr_expire_step [OF Cons.prems(1,2) this Cons.prems(3), of actor reason] obtain res s1 where
      s1: "mgr_expire (l_terminal l) actor reason s = (Inr res, s1)"
      "leases s1 = pre @ lapsed l # rows" "lease_frame s s1" by blast
    then have inv: "distinct_terminals s1" "events_ok s1" "leases s1 = (pre @ [lapsed l]) @ rows"
      using Cons.prems lease_frame_env [OF s1(3)]
      by (simp_all add: distinct_terminals_def same_env_simps)
    from Cons.IH [OF inv(3,1,2), of "expired @ [l_terminal l]"] True s1 show ?thesis
      by (auto simp: stale_lease_def intro: lease_frame_trans)
  qed
qed

text \<open>
  The expiry sweep expires exactly the leases whose time has run out: it reports their
  terminals in table order, marks each of them expired, leaves every other lease as it was,
  touches no other table and cannot fail.
\<close>

lemma sweep_expires_exactly_the_elapsed:
  assumes "distinct_terminals s" and "events_ok s"
  shows "\<exists>s'. expire_stale actor reason s =
      (Inr (map l_terminal (filter (stale_lease (clock s)) (leases s))), s') \<and>
    leases s' = map (\<lambda>l. if stale_lease (clock s) l then lapsed l else l) (leases s) \<and>
    lease_frame s s'"
  using expire_rows_exact [of s "[]" "leases s", OF _ assms, of actor reason "clock s" "[]"]
  by (simp add: expire_stale_def)

lemma sweep_expires_exactly_the_elapsed_witness:
  "\<exists>s'. expire_stale ''reconciler'' None lease_store = (Inr [''T2''], s') \<and>
     map l_state (leases s') = [''idle'', ''expired'', ''leased'']"
proof -
  have "distinct_terminals lease_store" and "events_ok lease_store" by code_simp+
  from sweep_expires_exactly_the_elapsed [OF this, of "''reconciler''" None] show ?thesis
    by (auto simp: stale_lease_def ttl_elapsed_def lease_store_def sample_lease_def empty_store_def sec_def lapsed_def)
qed

section \<open>Routing and projection\<close>

lemma find_available_None: "find_available s track = None \<longleftrightarrow> (\<forall>l \<in> set (leases s). l_state l \<noteq> ''idle'')"
proof -
  have "sort_key l_terminal (filter (\<lambda>l. l_state l = ''idle'') (leases s)) = [] \<longleftrightarrow>
      (\<forall>l \<in> set (leases s). l_state l \<noteq> ''idle'')"
    by (auto simp: filter_empty_conv simp flip: set_empty)
  then show ?thesis
    by (auto simp: find_available_def Let_def split: list.splits option.splits)
qed

text \<open>
  Routing picks an idle terminal whenever there is one: the track's own terminal when it
  is idle, otherwise the first idle terminal by name.
\<close>

lemma routing_picks_an_idle_terminal:
  "case find_available s track of
     None \<Rightarrow> \<forall>l \<in> set (leases s). l_state l \<noteq> ''idle''
   | Some tid \<Rightarrow> (\<exists>l \<in> set (leases s). l_terminal l = tid \<and> l_state l = ''idle'') \<and>
       (let own = (if truthy track then map_of track_map (py_upper (the track)) else None) in
        own = Some tid \<or>
        (\<forall>l \<in> set (leases s). l_state l = ''idle'' \<longrightarrow> own \<noteq> Some (l_terminal l) \<and> tid \<le> l_terminal l))"
proof (cases "sort_key l_terminal (filter (\<lambda>l. l_state l = ''idle'') (leases s))")
  case Nil
  then have none: "find_available s track = None" by (simp add: find_available_def)
  with find_available_None [of s track] show ?thesis unfolding none by simp
next
  case (Cons first rest)
  let ?idle = "sort_key l_terminal (filter (\<lambda>l. l_state l = ''idle'') (leases s))"
  have mem: "l \<in> set (first # rest) \<longleftrightarrow> l \<in> set (leases s) \<and> l_state l = ''idle''" for l
    by (simp flip: Cons)
  have "sorted (map l_terminal (first # rest))" by (simp flip: Cons)
  then have least: "l \<in> set (first # rest) \<Longrightarrow> l_terminal first \<le> l_terminal l" for l by auto
  show ?thesis
  proof (cases "truthy track")
    case False
    then have "find_available s track = Some (l_terminal first)"
      by (simp add: find_available_def Cons)
    with False mem least show ?thesis by (auto simp: Let_def)
  next
    case True
    let ?own = "map_of track_map (py_upper (the track))"
    show ?thesis
    proof (cases "find (\<lambda>r. ?own = Some (l_terminal r)) (first # rest)")
      case None
      with True have "find_available s track = Some (l_terminal first)"
        by (simp add: find_available_def Cons)
      moreover have "\<forall>l \<in> set (first # rest). ?own \<noteq> Some (l_terminal l)"
        using None by (simp only: find_None_all)
      then have "\<forall>l \<in> set (leases s). l_state l = ''idle'' \<longrightarrow>
          ?own \<noteq> Some (l_terminal l) \<and> l_terminal first \<le> l_terminal l"
        using mem least by blast
      moreover have "\<exists>l \<in> set (leases s). l_terminal l = l_terminal first \<and> l_state l = ''idle''"
        using mem [of first] by auto
      ultimately show ?thesis using True by (simp add: Let_def)
    next
      case (Some r)
      with True have "find_available s track = Some (l_terminal r)"
        by (auto simp: find_available_def Cons split: if_splits)
      with True mem find_SomeD [OF Some] show ?thesis by (auto simp: Let_def)
    qed
  qed
qed

definition idle_terminals :: store where
  "idle_terminals = (empty_store [] None 0)
     \<lparr>leases := [sample_lease ''T3'' ''idle'' None 1 None, sample_lease ''T2'' ''idle'' None 4 None,
                 sample_lease ''T1'' ''leased'' (Some ''d1'') 2 (Some (At 9))]\<rparr>"

text \<open>Track A owns T1, which is busy: the first idle terminal by name is T2.\<close>

lemma routing_picks_an_idle_terminal_witness:
  "find_available idle_terminals (Some ''A'') = Some ''T2'' \<and>
   ''T2'' \<le> l_terminal (sample_lease ''T3'' ''idle'' None 1 None)"
proof -
  have "find_available idle_terminals (Some ''A'') = Some ''T2''" by code_simp
  moreover have "map_of track_map (py_upper (the (Some ''A''))) = Some ''T1''" by code_simp
  ultimately show ?thesis
    using routing_picks_an_idle_terminal [of idle_terminals "Some ''A''"]
    by (simp add: Let_def idle_terminals_def sample_lease_def)
qed

end
