(* ===== verification/Reconciler.thy ===== *)
theory Reconciler
  imports Lease_Ops
begin

text \<open>
  \<^verbatim>\<open>scripts/lib/runtime_reconciler.py\<close>: the pass that expires and recovers leases, fails
  orphaned attempts, and times out, expires, recovers or flags dispatches.

  The lease phase commits each operation on its own, the other two phases are one transaction
  each. A timestamp inside a reason is its number of microseconds. An error entry is the text
  in front of the colon with the exception behind it.
\<close>

section \<open>Configuration and report\<close>

record reconciler_config =
  lease_ttl_grace_seconds :: int
  attempt_stale_seconds :: int
  dispatch_stuck_seconds :: int
  auto_recover_expired_leases :: bool
  auto_recover_dispatches :: bool
  max_dispatch_attempts :: int

definition default_reconciler_config :: reconciler_config where
  "default_reconciler_config =
     \<lparr>lease_ttl_grace_seconds = 0, attempt_stale_seconds = 300, dispatch_stuck_seconds = 600,
      auto_recover_expired_leases = True, auto_recover_dispatches = False, max_dispatch_attempts = 3\<rparr>"

record reconciliation_action =
  ra_entity_type :: string
  ra_entity :: string
  ra_action :: string
  ra_from :: string
  ra_to :: string
  ra_reason :: string
  ra_at :: int
  ra_metadata :: "(string \<times> json) list"

record reconciliation_result =
  rr_run_at :: int
  rr_dry_run :: bool
  rr_expired_leases :: "reconciliation_action list"
  rr_recovered_leases :: "reconciliation_action list"
  rr_timed_out_dispatches :: "reconciliation_action list"
  rr_recovered_dispatches :: "reconciliation_action list"
  rr_expired_dispatches :: "reconciliation_action list"
  rr_failed_attempts :: "reconciliation_action list"
  rr_needs_review :: "reconciliation_action list"
  rr_errors :: "(string \<times> exn) list"

definition total_actions :: "reconciliation_result \<Rightarrow> nat" where
  "total_actions r =
     length (rr_expired_leases r) + length (rr_recovered_leases r) + length (rr_timed_out_dispatches r) +
     length (rr_recovered_dispatches r) + length (rr_expired_dispatches r) + length (rr_failed_attempts r)"

definition is_clean :: "reconciliation_result \<Rightarrow> bool" where
  "is_clean r = (total_actions r = 0 \<and> length (rr_needs_review r) = 0)"

fun show_stamp :: "stamp option \<Rightarrow> string" where
  "show_stamp None = ''None''"
| "show_stamp (Some (At t)) = py_int t"
| "show_stamp (Some (Garbled s)) = s"

fun stamp_json :: "stamp option \<Rightarrow> json" where
  "stamp_json None = JNull"
| "stamp_json (Some (At t)) = JInt t"
| "stamp_json (Some (Garbled s)) = JStr s"

definition add_error :: "string \<Rightarrow> exn \<Rightarrow> reconciliation_result \<Rightarrow> reconciliation_result" where
  "add_error msg e r = r\<lparr>rr_errors := rr_errors r @ [(msg, e)]\<rparr>"

section \<open>Leases\<close>

definition reconcile_lease ::
  "bool \<Rightarrow> int \<Rightarrow> int \<Rightarrow> lease_row \<Rightarrow> reconciliation_result \<Rightarrow> store \<Rightarrow> (exn + reconciliation_result) \<times> store" where
  "reconcile_lease dry_run grace now l res s =
     (case parse_stamp (l_expires_at l) of
        None \<Rightarrow> (Inr res, s)
      | Some expires_at \<Rightarrow>
          if expires_at + grace > now then (Inr res, s)
          else
            let terminal_id = l_terminal l;
                reason = ''Lease TTL elapsed: expires_at='' @ show_stamp (l_expires_at l) @
                  '', last_heartbeat_at='' @ show_stamp (l_heartbeat_at l) @
                  '', dispatch_id='' @ py_opt (l_dispatch l);
                action = \<lparr>ra_entity_type = ''lease'', ra_entity = terminal_id, ra_action = ''expired'',
                  ra_from = ''leased'', ra_to = ''expired'', ra_reason = reason, ra_at = clock s,
                  ra_metadata = [(''dispatch_id'', json_opt (l_dispatch l)),
                    (''generation'', JInt (l_generation l)), (''expires_at'', stamp_json (l_expires_at l)),
                    (''last_heartbeat_at'', stamp_json (l_heartbeat_at l))]\<rparr>;
                done = res\<lparr>rr_expired_leases := rr_expired_leases res @ [action]\<rparr>
            in if dry_run then (Inr done, s)
               else (case mgr_expire terminal_id ''reconciler'' (Some reason) s of
                       (Inr _, s') \<Rightarrow> (Inr done, s')
                     | (Inl e, s') \<Rightarrow>
                         if transition_or_key_error e
                         then (Inr (add_error (''Failed to expire lease '' @ terminal_id) e res), s')
                         else (Inl e, s')))"

definition recover_expired_lease ::
  "bool \<Rightarrow> lease_row \<Rightarrow> reconciliation_result \<Rightarrow> store \<Rightarrow> (exn + reconciliation_result) \<times> store" where
  "recover_expired_lease dry_run l res s =
     (let terminal_id = l_terminal l;
          reason = ''Auto-recovered expired lease: dispatch_id='' @ py_opt (l_dispatch l) @
            '', generation='' @ py_int (l_generation l);
          action = \<lparr>ra_entity_type = ''lease'', ra_entity = terminal_id, ra_action = ''recovered'',
            ra_from = ''expired'', ra_to = ''idle'', ra_reason = reason, ra_at = clock s,
            ra_metadata = [(''dispatch_id'', json_opt (l_dispatch l)), (''generation'', JInt (l_generation l))]\<rparr>;
          done = res\<lparr>rr_recovered_leases := rr_recovered_leases res @ [action]\<rparr>
      in if dry_run then (Inr done, s)
         else (case mgr_recover terminal_id ''reconciler'' (Some reason) s of
                 (Inr _, s') \<Rightarrow> (Inr done, s')
               | (Inl e, s') \<Rightarrow>
                   if transition_or_key_error e
                   then (Inr (add_error (''Failed to recover lease '' @ terminal_id) e res), s')
                   else (Inl e, s')))"

definition recover_expired_leases ::
  "bool \<Rightarrow> reconciliation_result \<Rightarrow> store \<Rightarrow> (exn + reconciliation_result) \<times> store" where
  "recover_expired_leases dry_run res s =
     each_committed (recover_expired_lease dry_run) (filter (\<lambda>l. l_state l = ''expired'') (leases s)) res s"

definition reconcile_leases ::
  "reconciler_config \<Rightarrow> bool \<Rightarrow> int \<Rightarrow> reconciliation_result \<Rightarrow> store \<Rightarrow> (exn + reconciliation_result) \<times> store" where
  "reconcile_leases cfg dry_run now res s =
     (case each_committed (reconcile_lease dry_run (lease_ttl_grace_seconds cfg * sec) now)
             (filter (\<lambda>l. l_state l = ''leased'') (leases s)) res s of
        (Inl e, s1) \<Rightarrow> (Inl e, s1)
      | (Inr res1, s1) \<Rightarrow>
          if auto_recover_expired_leases cfg then recover_expired_leases dry_run res1 s1
          else (Inr res1, s1))"

section \<open>Attempts\<close>

fun is_key_error :: "exn \<Rightarrow> bool" where
  "is_key_error (KeyError _) = True"
| "is_key_error _ = False"

definition orphaned :: "int \<Rightarrow> attempt_row \<Rightarrow> bool" where
  "orphaned threshold a =
     (a_state a \<in> {''pending'', ''delivering''} \<and> a_started_at a < threshold \<and> a_ended_at a = None)"

definition reconcile_attempt ::
  "bool \<Rightarrow> attempt_row \<Rightarrow> reconciliation_result \<times> store \<Rightarrow> exn + (reconciliation_result \<times> store)" where
  "reconcile_attempt dry_run a st =
     (let (res, s) = st;
          attempt_id = a_id a;
          from_state = a_state a;
          reason = ''Orphaned attempt: state='' @ from_state @ '', started_at='' @ py_int (a_started_at a) @
            '', dispatch_id='' @ a_dispatch a @ '', terminal_id='' @ a_terminal a;
          action = \<lparr>ra_entity_type = ''attempt'', ra_entity = attempt_id, ra_action = ''failed'',
            ra_from = from_state, ra_to = ''failed'', ra_reason = reason, ra_at = clock s,
            ra_metadata = [(''dispatch_id'', JStr (a_dispatch a)), (''terminal_id'', JStr (a_terminal a)),
              (''attempt_number'', JInt (a_number a)), (''started_at'', JInt (a_started_at a))]\<rparr>;
          done = res\<lparr>rr_failed_attempts := rr_failed_attempts res @ [action]\<rparr>
      in if dry_run then Inr (done, s)
         else (case update_attempt attempt_id ''failed''
                      (Some (''reconciler: orphaned '' @ from_state @ '' attempt past threshold''))
                      None ''reconciler'' s of
                 Inr (_, s') \<Rightarrow> Inr (done, s')
               | Inl e \<Rightarrow>
                   if is_key_error e
                   then Inr (add_error (''Failed to mark attempt '' @ attempt_id @ '' as failed'') e res, s)
                   else Inl e))"

definition reconcile_attempts ::
  "reconciler_config \<Rightarrow> bool \<Rightarrow> int \<Rightarrow> reconciliation_result \<Rightarrow> store \<Rightarrow> (exn + reconciliation_result) \<times> store" where
  "reconcile_attempts cfg dry_run now res s =
     (let threshold = now - attempt_stale_seconds cfg * sec in
      commit s (foldE (reconcile_attempt dry_run)
                  (sort_key a_started_at (filter (orphaned threshold) (attempts s))) (res, s)))"

section \<open>Dispatches\<close>

definition stuck :: "int \<Rightarrow> dispatch_row \<Rightarrow> bool" where
  "stuck threshold d =
     (d_state d \<in> {''claimed'', ''delivering'', ''accepted'', ''running''} \<and> d_updated_at d < threshold)"

definition resolve_stuck_target_state :: "string \<Rightarrow> string option" where
  "resolve_stuck_target_state from_state =
     (let allowed = allowed_from DISPATCH_TRANSITIONS from_state in
      if ''timed_out'' \<in> set allowed then Some ''timed_out''
      else if ''expired'' \<in> set allowed then Some ''expired''
      else None)"

definition handle_stuck_dispatch ::
  "bool \<Rightarrow> dispatch_row \<Rightarrow> reconciliation_result \<times> store \<Rightarrow> exn + (reconciliation_result \<times> store)" where
  "handle_stuck_dispatch dry_run r st =
     (let (res, s) = st;
          dispatch_id = d_id r;
          from_state = d_state r in
      case resolve_stuck_target_state from_state of
        None \<Rightarrow>
          Inr (res\<lparr>rr_needs_review := rr_needs_review res @
                 [\<lparr>ra_entity_type = ''dispatch'', ra_entity = dispatch_id, ra_action = ''flagged'',
                   ra_from = from_state, ra_to = from_state,
                   ra_reason = ''Dispatch stuck in '' @ [CHR 39] @ from_state @ [CHR 39] @
                     '' past threshold but no valid recovery transition. Updated at: '' @ py_int (d_updated_at r),
                   ra_at = clock s,
                   ra_metadata = [(''terminal_id'', json_opt (d_terminal r)),
                     (''updated_at'', JInt (d_updated_at r))]\<rparr>]\<rparr>, s)
      | Some target_state \<Rightarrow>
          let reason = ''Dispatch stuck in '' @ [CHR 39] @ from_state @ [CHR 39] @ '': updated_at='' @
                py_int (d_updated_at r) @ '', terminal_id='' @ py_opt (d_terminal r);
              action = \<lparr>ra_entity_type = ''dispatch'', ra_entity = dispatch_id,
                ra_action = (if target_state = ''timed_out'' then ''timed_out'' else ''expired''),
                ra_from = from_state, ra_to = target_state, ra_reason = reason, ra_at = clock s,
                ra_metadata = [(''terminal_id'', json_opt (d_terminal r)),
                  (''attempt_count'', JInt (d_attempt_count r)), (''updated_at'', JInt (d_updated_at r))]\<rparr>;
              done = (if target_state = ''timed_out''
                      then res\<lparr>rr_timed_out_dispatches := rr_timed_out_dispatches res @ [action]\<rparr>
                      else res\<lparr>rr_expired_dispatches := rr_expired_dispatches res @ [action]\<rparr>)
          in if dry_run then Inr (done, s)
             else (case transition_dispatch dispatch_id target_state ''reconciler'' (Some reason)
                          (Some [(''reconciler_action'', JStr ''timeout_stuck_dispatch''),
                                 (''original_state'', JStr from_state)]) Unset s of
                     Inr (_, s') \<Rightarrow> Inr (done, s')
                   | Inl e \<Rightarrow>
                       if transition_or_key_error e
                       then Inr (add_error (''Failed to transition dispatch '' @ dispatch_id) e res, s)
                       else Inl e))"

definition expire_over_attempted ::
  "reconciler_config \<Rightarrow> bool \<Rightarrow> dispatch_row \<Rightarrow> reconciliation_result \<times> store \<Rightarrow>
   exn + (reconciliation_result \<times> store)" where
  "expire_over_attempted cfg dry_run r st =
     (let (res, s) = st;
          dispatch_id = d_id r;
          reason = ''Dispatch exceeded max attempts ('' @ py_int (d_attempt_count r) @ ''/'' @
            py_int (max_dispatch_attempts cfg) @ ''): state='' @ d_state r @ '', terminal_id='' @
            py_opt (d_terminal r);
          action = \<lparr>ra_entity_type = ''dispatch'', ra_entity = dispatch_id, ra_action = ''expired'',
            ra_from = d_state r, ra_to = ''expired'', ra_reason = reason, ra_at = clock s,
            ra_metadata = [(''terminal_id'', json_opt (d_terminal r)),
              (''attempt_count'', JInt (d_attempt_count r))]\<rparr>;
          done = res\<lparr>rr_expired_dispatches := rr_expired_dispatches res @ [action]\<rparr>
      in if dry_run then Inr (done, s)
         else (case transition_dispatch dispatch_id ''expired'' ''reconciler'' (Some reason)
                      (Some [(''reconciler_action'', JStr ''expire_over_attempted''),
                             (''attempt_count'', JInt (d_attempt_count r)),
                             (''max_attempts'', JInt (max_dispatch_attempts cfg))]) Unset s of
                 Inr (_, s') \<Rightarrow> Inr (done, s')
               | Inl e \<Rightarrow>
                   if transition_or_key_error e
                   then Inr (add_error (''Failed to expire dispatch '' @ dispatch_id) e res, s)
                   else Inl e))"

definition auto_recover_dispatch ::
  "reconciler_config \<Rightarrow> bool \<Rightarrow> dispatch_row \<Rightarrow> reconciliation_result \<times> store \<Rightarrow>
   exn + (reconciliation_result \<times> store)" where
  "auto_recover_dispatch cfg dry_run r st =
     (let (res, s) = st;
          dispatch_id = d_id r;
          reason = ''Auto-recovered dispatch from '' @ [CHR 39] @ d_state r @ [CHR 39] @ '': attempts='' @
            py_int (d_attempt_count r) @ ''/'' @ py_int (max_dispatch_attempts cfg) @ '', terminal_id='' @
            py_opt (d_terminal r);
          action = \<lparr>ra_entity_type = ''dispatch'', ra_entity = dispatch_id, ra_action = ''recovered'',
            ra_from = d_state r, ra_to = ''recovered'', ra_reason = reason, ra_at = clock s,
            ra_metadata = [(''terminal_id'', json_opt (d_terminal r)),
              (''attempt_count'', JInt (d_attempt_count r))]\<rparr>;
          done = res\<lparr>rr_recovered_dispatches := rr_recovered_dispatches res @ [action]\<rparr>
      in if dry_run then Inr (done, s)
         else (case transition_dispatch dispatch_id ''recovered'' ''reconciler'' (Some reason)
                      (Some [(''reconciler_action'', JStr ''auto_recover''),
                             (''attempt_count'', JInt (d_attempt_count r))]) Unset s of
                 Inr (_, s') \<Rightarrow> Inr (done, s')
               | Inl e \<Rightarrow>
                   if transition_or_key_error e
                   then Inr (add_error (''Failed to recover dispatch '' @ dispatch_id) e res, s)
                   else Inl e))"

definition flag_dispatch_for_review ::
  "dispatch_row \<Rightarrow> reconciliation_result \<times> store \<Rightarrow> exn + (reconciliation_result \<times> store)" where
  "flag_dispatch_for_review r st =
     (let (res, s) = st in
      Inr (res\<lparr>rr_needs_review := rr_needs_review res @
             [\<lparr>ra_entity_type = ''dispatch'', ra_entity = d_id r, ra_action = ''flagged'',
               ra_from = d_state r, ra_to = d_state r,
               ra_reason = ''Dispatch in '' @ [CHR 39] @ d_state r @ [CHR 39] @ '' with '' @
                 py_int (d_attempt_count r) @ '' attempts '' @ [CHR 0xE2, CHR 0x80, CHR 0x94] @
                 '' requires operator review (auto_recover_dispatches=False)'',
               ra_at = clock s,
               ra_metadata = [(''terminal_id'', json_opt (d_terminal r)),
                 (''attempt_count'', JInt (d_attempt_count r))]\<rparr>]\<rparr>, s))"

definition recoverable :: "dispatch_row \<Rightarrow> bool" where
  "recoverable d = (d_state d \<in> {''timed_out'', ''failed_delivery''})"

definition handle_recoverable_dispatch ::
  "reconciler_config \<Rightarrow> bool \<Rightarrow> dispatch_row \<Rightarrow> reconciliation_result \<times> store \<Rightarrow>
   exn + (reconciliation_result \<times> store)" where
  "handle_recoverable_dispatch cfg dry_run r st =
     (if d_attempt_count r \<ge> max_dispatch_attempts cfg then expire_over_attempted cfg dry_run r st
      else if auto_recover_dispatches cfg then auto_recover_dispatch cfg dry_run r st
      else flag_dispatch_for_review r st)"

definition reconcile_stuck_dispatches ::
  "bool \<Rightarrow> int \<Rightarrow> reconciliation_result \<times> store \<Rightarrow> exn + (reconciliation_result \<times> store)" where
  "reconcile_stuck_dispatches dry_run threshold st =
     foldE (handle_stuck_dispatch dry_run)
       (sort_key d_updated_at (filter (stuck threshold) (dispatches (snd st)))) st"

definition reconcile_recoverable_dispatches ::
  "reconciler_config \<Rightarrow> bool \<Rightarrow> reconciliation_result \<times> store \<Rightarrow> exn + (reconciliation_result \<times> store)" where
  "reconcile_recoverable_dispatches cfg dry_run st =
     foldE (handle_recoverable_dispatch cfg dry_run)
       (sort_key d_updated_at (filter recoverable (dispatches (snd st)))) st"

definition reconcile_dispatches ::
  "reconciler_config \<Rightarrow> bool \<Rightarrow> int \<Rightarrow> reconciliation_result \<Rightarrow> store \<Rightarrow> (exn + reconciliation_result) \<times> store" where
  "reconcile_dispatches cfg dry_run now res s =
     commit s (bindE (reconcile_stuck_dispatches dry_run (now - dispatch_stuck_seconds cfg * sec) (res, s))
                 (reconcile_recoverable_dispatches cfg dry_run))"

section \<open>The run\<close>

definition empty_result :: "int \<Rightarrow> bool \<Rightarrow> reconciliation_result" where
  "empty_result now dry_run =
     \<lparr>rr_run_at = now, rr_dry_run = dry_run, rr_expired_leases = [], rr_recovered_leases = [],
      rr_timed_out_dispatches = [], rr_recovered_dispatches = [], rr_expired_dispatches = [],
      rr_failed_attempts = [], rr_needs_review = [], rr_errors = []\<rparr>"

definition run_time :: "int option \<Rightarrow> store \<Rightarrow> int" where
  "run_time now s = (case now of None \<Rightarrow> clock s | Some t \<Rightarrow> t)"

definition reconciler_run ::
  "reconciler_config \<Rightarrow> bool \<Rightarrow> int option \<Rightarrow> store \<Rightarrow> (exn + reconciliation_result) \<times> store" where
  "reconciler_run cfg dry_run now_opt s =
     (let now = run_time now_opt s in
      case reconcile_leases cfg dry_run now (empty_result now dry_run) s of
        (Inl e, s1) \<Rightarrow> (Inl e, s1)
      | (Inr res1, s1) \<Rightarrow>
          (case reconcile_attempts cfg dry_run now res1 s1 of
             (Inl e, s2) \<Rightarrow> (Inl e, s2)
           | (Inr res2, s2) \<Rightarrow> reconcile_dispatches cfg dry_run now res2 s2))"

section \<open>A dry run\<close>

lemma each_committed_id:
  assumes "\<And>r a s. r \<in> set rs \<Longrightarrow> \<exists>a'. f r a s = (Inr a', s)"
  shows "\<exists>a'. each_committed f rs a s = (Inr a', s)"
  using assms
proof (induction rs arbitrary: a)
  case Nil
  then show ?case by simp
next
  case (Cons r rs)
  from Cons.prems [of r a s] obtain a1 where "f r a s = (Inr a1, s)" by auto
  with Cons.IH [of a1] Cons.prems show ?case by auto
qed

lemma foldE_id:
  assumes "\<And>r a s. r \<in> set rs \<Longrightarrow> \<exists>a'. f r (a, s) = Inr (a', s)"
  shows "\<exists>a'. foldE f rs (a, s) = Inr (a', s)"
  using assms
proof (induction rs arbitrary: a)
  case Nil
  then show ?case by simp
next
  case (Cons r rs)
  from Cons.prems [of r a s] obtain a1 where "f r (a, s) = Inr (a1, s)" by auto
  with Cons.IH [of a1] Cons.prems show ?case by auto
qed

lemma dry_lease: "\<exists>res'. reconcile_lease True grace now l res s = (Inr res', s)"
  by (auto simp: reconcile_lease_def Let_def split: option.splits)

lemma dry_recover: "\<exists>res'. recover_expired_lease True l res s = (Inr res', s)"
  by (simp add: recover_expired_lease_def Let_def)

lemma dry_attempt: "\<exists>res'. reconcile_attempt True a (res, s) = Inr (res', s)"
  by (simp add: reconcile_attempt_def Let_def)

lemma dry_stuck: "\<exists>res'. handle_stuck_dispatch True d (res, s) = Inr (res', s)"
  by (auto simp: handle_stuck_dispatch_def Let_def split: option.splits)

lemma dry_recoverable: "\<exists>res'. handle_recoverable_dispatch cfg True d (res, s) = Inr (res', s)"
  by (simp add: handle_recoverable_dispatch_def expire_over_attempted_def auto_recover_dispatch_def
      flag_dispatch_for_review_def Let_def)

text \<open>
  A dry run cannot fail and leaves the store, its event log included, exactly as it was.
\<close>

lemma dry_run_changes_nothing: "\<exists>res. reconciler_run cfg True now s = (Inr res, s)"
proof -
  have leases: "\<exists>res'. reconcile_leases cfg True t res s = (Inr res', s)" for t res
  proof -
    obtain r1 where "each_committed (reconcile_lease True (lease_ttl_grace_seconds cfg * sec) t)
        (filter (\<lambda>l. l_state l = ''leased'') (leases s)) res s = (Inr r1, s)"
      using each_committed_id [of "filter (\<lambda>l. l_state l = ''leased'') (leases s)"
          "reconcile_lease True (lease_ttl_grace_seconds cfg * sec) t" res s] dry_lease by blast
    moreover obtain r2 where "recover_expired_leases True r1 s = (Inr r2, s)"
      using each_committed_id [of "filter (\<lambda>l. l_state l = ''expired'') (leases s)"
          "recover_expired_lease True" r1 s] dry_recover by (auto simp: recover_expired_leases_def)
    ultimately show ?thesis by (auto simp: reconcile_leases_def)
  qed
  have attempts: "\<exists>res'. reconcile_attempts cfg True t res s = (Inr res', s)" for t res
  proof -
    have "\<exists>res'. foldE (reconcile_attempt True) rows (res, s) = Inr (res', s)" for rows
      by (rule foldE_id) (rule dry_attempt)
    then obtain res' where "foldE (reconcile_attempt True)
        (sort_key a_started_at (filter (orphaned (t - attempt_stale_seconds cfg * sec)) (attempts s))) (res, s) =
        Inr (res', s)" by blast
    then show ?thesis by (simp add: reconcile_attempts_def)
  qed
  have dispatches: "\<exists>res'. reconcile_dispatches cfg True t res s = (Inr res', s)" for t res
  proof -
    obtain r1 where "reconcile_stuck_dispatches True (t - dispatch_stuck_seconds cfg * sec) (res, s) = Inr (r1, s)"
      unfolding reconcile_stuck_dispatches_def snd_conv
      using foldE_id [of _ "handle_stuck_dispatch True" res s, OF dry_stuck] by blast
    moreover obtain r2 where "reconcile_recoverable_dispatches cfg True (r1, s) = Inr (r2, s)"
      unfolding reconcile_recoverable_dispatches_def snd_conv
      using foldE_id [of _ "handle_recoverable_dispatch cfg True" r1 s, OF dry_recoverable] by blast
    ultimately show ?thesis by (simp add: reconcile_dispatches_def)
  qed
  let ?now = "run_time now s"
  obtain r1 where r1: "reconcile_leases cfg True ?now (empty_result ?now True) s = (Inr r1, s)" using leases by blast
  obtain r2 where r2: "reconcile_attempts cfg True ?now r1 s = (Inr r2, s)" using attempts by blast
  obtain r3 where "reconcile_dispatches cfg True ?now r2 s = (Inr r3, s)" using dispatches by blast
  with r1 r2 show ?thesis by (simp add: reconciler_run_def Let_def)
qed

section \<open>A live run\<close>

text \<open>What a run makes of each row.\<close>

definition lease_due :: "reconciler_config \<Rightarrow> int \<Rightarrow> lease_row \<Rightarrow> bool" where
  "lease_due cfg now l =
     (l_state l = ''leased'' \<and>
      (case parse_stamp (l_expires_at l) of None \<Rightarrow> False
       | Some t \<Rightarrow> t + lease_ttl_grace_seconds cfg * sec \<le> now))"

definition expire_due :: "reconciler_config \<Rightarrow> int \<Rightarrow> lease_row \<Rightarrow> lease_row" where
  "expire_due cfg now l = (if lease_due cfg now l then lapsed l else l)"

definition recover_due :: "reconciler_config \<Rightarrow> int \<Rightarrow> lease_row \<Rightarrow> lease_row" where
  "recover_due cfg at_time l =
     (if auto_recover_expired_leases cfg \<and> l_state l = ''expired'' then recovered at_time l else l)"

definition fail_orphan :: "reconciler_config \<Rightarrow> int \<Rightarrow> int \<Rightarrow> attempt_row \<Rightarrow> attempt_row" where
  "fail_orphan cfg now at_time a =
     (if orphaned (now - attempt_stale_seconds cfg * sec) a
      then a\<lparr>a_state := ''failed'', a_ended_at := Some at_time,
             a_failure_reason := Some (''reconciler: orphaned '' @ a_state a @ '' attempt past threshold'')\<rparr>
      else a)"

definition time_out_stuck :: "reconciler_config \<Rightarrow> int \<Rightarrow> int \<Rightarrow> dispatch_row \<Rightarrow> dispatch_row" where
  "time_out_stuck cfg now at_time d =
     (if stuck (now - dispatch_stuck_seconds cfg * sec) d
      then d\<lparr>d_state := (if d_state d = ''claimed'' then ''expired'' else ''timed_out''), d_updated_at := at_time\<rparr>
      else d)"

definition settle_recoverable :: "reconciler_config \<Rightarrow> int \<Rightarrow> dispatch_row \<Rightarrow> dispatch_row" where
  "settle_recoverable cfg at_time d =
     (if \<not> recoverable d then d
      else if d_attempt_count d \<ge> max_dispatch_attempts cfg then d\<lparr>d_state := ''expired'', d_updated_at := at_time\<rparr>
      else if auto_recover_dispatches cfg then d\<lparr>d_state := ''recovered'', d_updated_at := at_time\<rparr>
      else d)"

text \<open>The keys of the tables a run visits.\<close>

definition keys_unique :: "store \<Rightarrow> bool" where
  "keys_unique s = (distinct_terminals s \<and> distinct (map a_id (attempts s)) \<and> distinct (map d_id (dispatches s)))"

text \<open>What the loops keep: no error so far, and everything but the one table.\<close>

definition on_leases :: "store \<Rightarrow> reconciliation_result \<times> store \<Rightarrow> bool" where
  "on_leases s0 st = (rr_errors (fst st) = [] \<and> lease_frame s0 (snd st) \<and> distinct_terminals (snd st) \<and> events_ok (snd st))"

definition on_attempts :: "store \<Rightarrow> reconciliation_result \<times> store \<Rightarrow> bool" where
  "on_attempts s0 st = (rr_errors (fst st) = [] \<and> dispatch_frame s0 (snd st) \<and>
     dispatches (snd st) = dispatches s0 \<and> distinct (map a_id (attempts (snd st))) \<and> events_ok (snd st))"

definition on_dispatches :: "store \<Rightarrow> reconciliation_result \<times> store \<Rightarrow> bool" where
  "on_dispatches s0 st = (rr_errors (fst st) = [] \<and> dispatch_frame s0 (snd st) \<and>
     attempts (snd st) = attempts s0 \<and> distinct (map d_id (dispatches (snd st))) \<and> events_ok (snd st))"

lemma lease_frame_keeps:
  assumes "lease_frame s s1" "events_ok s"
  shows "events_ok s1" "clock s1 = clock s"
  using assms lease_frame_env same_env_simps(1,2) by blast+

lemma dispatch_frame_keeps:
  assumes "dispatch_frame s s1" "events_ok s"
  shows "events_ok s1" "clock s1 = clock s"
  using assms dispatch_frame_env same_env_simps(1,2) by blast+

lemma reconcile_lease_step:
  assumes inv: "on_leases s0 (res, s)" and l: "l \<in> set (leases s)" and leased: "l_state l = ''leased''"
  shows "\<exists>res' s'. reconcile_lease False (lease_ttl_grace_seconds cfg * sec) now l res s = (Inr res', s') \<and>
    on_leases s0 (res', s') \<and>
    leases s' = update_where (\<lambda>x. l_terminal x = l_terminal l) (expire_due cfg now) (leases s)"
proof (cases "lease_due cfg now l")
  case False
  then have "expire_due cfg now l = l" by (simp add: expire_due_def)
  from update_where_key_id [of l_terminal "leases s" l "expire_due cfg now", OF _ l this] inv have
    "update_where (\<lambda>x. l_terminal x = l_terminal l) (expire_due cfg now) (leases s) = leases s"
    by (simp add: on_leases_def distinct_terminals_def)
  with False inv leased show ?thesis
    by (auto simp: reconcile_lease_def lease_due_def Let_def split: option.splits)
next
  case True
  then obtain t where t: "parse_stamp (l_expires_at l) = Some t" "t + lease_ttl_grace_seconds cfg * sec \<le> now"
    by (auto simp: lease_due_def split: option.splits)
  define why where "why = ''Lease TTL elapsed: expires_at='' @ show_stamp (l_expires_at l) @
      '', last_heartbeat_at='' @ show_stamp (l_heartbeat_at l) @ '', dispatch_id='' @ py_opt (l_dispatch l)"
  have "distinct_terminals s" "events_ok s" using inv by (simp_all add: on_leases_def)
  from mgr_expire_ok [OF l this(1) leased this(2), of "''reconciler''" "Some why"] obtain r s' where
    step: "mgr_expire (l_terminal l) ''reconciler'' (Some why) s = (Inr r, s')"
    and rows: "leases s' = update_where (\<lambda>x. l_terminal x = l_terminal l) lapsed (leases s)"
    and frame: "lease_frame s s'" by blast
  have same: "lapsed l = expire_due cfg now l" using True by (simp add: expire_due_def)
  have keys: "distinct (map l_terminal (leases s))" using inv by (simp add: on_leases_def distinct_terminals_def)
  have "leases s' = update_where (\<lambda>x. l_terminal x = l_terminal l) (expire_due cfg now) (leases s)"
    unfolding rows by (rule update_where_key_cong [where f = lapsed and g = "expire_due cfg now", OF keys l same])
  moreover have "distinct_terminals s'"
    using inv rows by (simp add: on_leases_def distinct_terminals_def map_update_where)
  ultimately show ?thesis
    using t step inv frame lease_frame_keeps [OF frame]
    by (auto simp: reconcile_lease_def Let_def on_leases_def why_def intro: lease_frame_trans)
qed

lemma recover_expired_lease_step:
  assumes inv: "on_leases s0 (res, s)" and l: "l \<in> set (leases s)" and expired: "l_state l = ''expired''"
  shows "\<exists>res' s'. recover_expired_lease False l res s = (Inr res', s') \<and> on_leases s0 (res', s') \<and>
    leases s' = update_where (\<lambda>x. l_terminal x = l_terminal l) (recovered (clock s0)) (leases s)"
proof -
  define why where "why = ''Auto-recovered expired lease: dispatch_id='' @ py_opt (l_dispatch l) @
      '', generation='' @ py_int (l_generation l)"
  have "distinct_terminals s" "events_ok s" "clock s = clock s0"
    using inv lease_frame_env by (auto simp: on_leases_def same_env_def)
  from mgr_recover_ok [OF l this(1) expired this(2), of "''reconciler''" "Some why"] this(3) obtain r s' where
    step: "mgr_recover (l_terminal l) ''reconciler'' (Some why) s = (Inr r, s')"
    and rows: "leases s' = update_where (\<lambda>x. l_terminal x = l_terminal l) (recovered (clock s0)) (leases s)"
    and frame: "lease_frame s s'" by auto
  moreover have "distinct_terminals s'"
    using inv rows by (simp add: on_leases_def distinct_terminals_def map_update_where)
  ultimately show ?thesis
    using inv lease_frame_keeps [OF frame]
    by (auto simp: recover_expired_lease_def Let_def on_leases_def why_def intro: lease_frame_trans)
qed

lemma leases_phase:
  assumes keys: "distinct_terminals s" and ev: "events_ok s" and noerr: "rr_errors res = []"
  shows "\<exists>res' s'. reconcile_leases cfg False now res s = (Inr res', s') \<and> rr_errors res' = [] \<and>
    lease_frame s s' \<and> leases s' = map (\<lambda>l. recover_due cfg (clock s) (expire_due cfg now l)) (leases s)"
proof -
  let ?held = "filter (\<lambda>l. l_state l = ''leased'') (leases s)"
  have rows: "distinct (leases s)" using keys by (simp add: distinct_terminals_def distinct_map)
  have inv: "on_leases s (res, s)" using assms by (simp add: on_leases_def)
  have g: "l_terminal (expire_due cfg now l) = l_terminal l" for l by (simp add: expire_due_def)
  have "\<exists>res1 s1. each_committed (reconcile_lease False (lease_ttl_grace_seconds cfg * sec) now) ?held res s =
      (Inr res1, s1) \<and> on_leases s (res1, s1) \<and>
      leases s1 = map (\<lambda>l. if l \<in> set ?held then expire_due cfg now l else l) (leases s)"
    by (rule each_committed_sweep [where Inv = "on_leases s" and k = l_terminal])
      (use inv g reconcile_lease_step rows keys in \<open>auto simp: distinct_terminals_def\<close>)
  then obtain res1 s1 where
    first: "each_committed (reconcile_lease False (lease_ttl_grace_seconds cfg * sec) now) ?held res s = (Inr res1, s1)"
      "on_leases s (res1, s1)" "leases s1 = map (\<lambda>l. if l \<in> set ?held then expire_due cfg now l else l) (leases s)"
    by blast
  have rows1: "leases s1 = map (expire_due cfg now) (leases s)"
    unfolding first(3) by (auto simp: expire_due_def lease_due_def)
  show ?thesis
  proof (cases "auto_recover_expired_leases cfg")
    case False
    have "(\<lambda>l. recover_due cfg (clock s) (expire_due cfg now l)) = expire_due cfg now"
      using False by (simp add: recover_due_def)
    with False first rows1 show ?thesis by (auto simp: reconcile_leases_def on_leases_def)
  next
    case True
    let ?expired = "filter (\<lambda>l. l_state l = ''expired'') (leases s1)"
    have keys1: "distinct (map l_terminal (leases s1))"
      using first(2) by (simp add: on_leases_def distinct_terminals_def)
    have "\<exists>res2 s2. each_committed (recover_expired_lease False) ?expired res1 s1 = (Inr res2, s2) \<and>
        on_leases s (res2, s2) \<and>
        leases s2 = map (\<lambda>l. if l \<in> set ?expired then recovered (clock s) l else l) (leases s1)"
      by (rule each_committed_sweep [where Inv = "on_leases s" and k = l_terminal])
        (use first(2) recover_expired_lease_step keys1 in \<open>auto simp: distinct_map\<close>)
    then obtain res2 s2 where
      second: "each_committed (recover_expired_lease False) ?expired res1 s1 = (Inr res2, s2)"
        "on_leases s (res2, s2)"
        "leases s2 = map (\<lambda>l. if l \<in> set ?expired then recovered (clock s) l else l) (leases s1)" by blast
    have "leases s2 = map (recover_due cfg (clock s)) (leases s1)"
      unfolding second(3) using True by (auto simp: recover_due_def)
    then have "leases s2 = map (\<lambda>l. recover_due cfg (clock s) (expire_due cfg now l)) (leases s)"
      by (simp add: rows1 comp_def)
    with True first(1) second(1,2) show ?thesis
      by (auto simp: reconcile_leases_def recover_expired_leases_def on_leases_def)
  qed
qed

lemma fail_orphan_id [simp]: "a_id (fail_orphan cfg now at_time a) = a_id a"
  by (simp add: fail_orphan_def)

lemma attempt_step:
  assumes inv: "on_attempts s0 (res, s)" and a: "a \<in> set (attempts s)"
    and orphan: "orphaned (now - attempt_stale_seconds cfg * sec) a"
  shows "\<exists>st'. reconcile_attempt False a (res, s) = Inr st' \<and> on_attempts s0 st' \<and>
    attempts (snd st') = update_where (\<lambda>x. a_id x = a_id a) (fail_orphan cfg now (clock s0)) (attempts s)"
proof -
  define why where "why = ''reconciler: orphaned '' @ a_state a @ '' attempt past threshold''"
  let ?f = "\<lambda>x. x\<lparr>a_state := ''failed'', a_ended_at := Some (clock s0), a_failure_reason := Some why\<rparr>"
  have keys: "distinct (map a_id (attempts s))" and ev: "events_ok s" and clk: "clock s = clock s0"
    using inv dispatch_frame_env by (auto simp: on_attempts_def same_env_def)
  have "get_attempt s (a_id a) = Some a"
    using find_key_unique [OF keys a] by (simp add: get_attempt_def)
  from update_attempt_ok [OF this ev, of "''failed''" "Some why" None "''reconciler''"] obtain r s' where
    step: "update_attempt (a_id a) ''failed'' (Some why) None ''reconciler'' s = Inr (r, s')" by blast
  from update_attempt_Inr [OF step] clk have
    rows: "attempts s' = update_where (\<lambda>x. a_id x = a_id a) ?f (attempts s)"
    and frame: "dispatch_frame s s'" "dispatches s' = dispatches s" by auto
  have same: "?f a = fail_orphan cfg now (clock s0) a" using orphan by (simp add: fail_orphan_def why_def)
  have rows': "attempts s' = update_where (\<lambda>x. a_id x = a_id a) (fail_orphan cfg now (clock s0)) (attempts s)"
    unfolding rows by (rule update_where_key_cong [where f = ?f and g = "fail_orphan cfg now (clock s0)", OF keys a same])
  have keys': "map a_id (attempts s') = map a_id (attempts s)"
    unfolding rows by (simp add: map_update_where)
  show ?thesis
    using inv step frame keys keys' rows' dispatch_frame_keeps [OF frame(1) ev]
    by (auto simp: reconcile_attempt_def Let_def on_attempts_def why_def intro: dispatch_frame_trans)
qed

lemma attempts_phase:
  assumes keys: "distinct (map a_id (attempts s))" and ev: "events_ok s" and noerr: "rr_errors res = []"
  shows "\<exists>res' s'. reconcile_attempts cfg False now res s = (Inr res', s') \<and> rr_errors res' = [] \<and>
    dispatch_frame s s' \<and> dispatches s' = dispatches s \<and>
    attempts s' = map (fail_orphan cfg now (clock s)) (attempts s)"
proof -
  let ?rows = "sort_key a_started_at (filter (orphaned (now - attempt_stale_seconds cfg * sec)) (attempts s))"
  have inv: "on_attempts s (res, s)" using assms by (simp add: on_attempts_def)
  have step: "\<exists>st'. reconcile_attempt False a st = Inr st' \<and> on_attempts s st' \<and>
      attempts (snd st') = update_where (\<lambda>x. a_id x = a_id a) (fail_orphan cfg now (clock s)) (attempts (snd st))"
    if "on_attempts s st" "a \<in> set ?rows" "a \<in> set (attempts (snd st))" for a st
    using attempt_step [of s "fst st" "snd st" a] that by (cases st) auto
  have "\<exists>st'. foldE (reconcile_attempt False) ?rows (res, s) = Inr st' \<and> on_attempts s st' \<and>
      attempts (snd st') = map (\<lambda>x. if x \<in> set ?rows then fail_orphan cfg now (clock s) x else x) (attempts (snd (res, s)))"
    by (rule foldE_sweep [where Inv = "on_attempts s" and k = a_id and tab = "\<lambda>st. attempts (snd st)"])
      (use step inv keys in \<open>auto simp: distinct_map\<close>)
  then obtain res' s' where swept: "foldE (reconcile_attempt False) ?rows (res, s) = Inr (res', s')"
    "on_attempts s (res', s')"
    "attempts s' = map (\<lambda>x. if x \<in> set ?rows then fail_orphan cfg now (clock s) x else x) (attempts s)"
    by auto
  have "attempts s' = map (fail_orphan cfg now (clock s)) (attempts s)"
    unfolding swept(3) by (auto simp: fail_orphan_def)
  with swept(1,2) show ?thesis by (simp add: reconcile_attempts_def Let_def on_attempts_def)
qed

lemma settle_ids [simp]:
  "d_id (time_out_stuck cfg now at_time d) = d_id d"
  "d_id (settle_recoverable cfg at_time d) = d_id d"
  by (simp_all add: time_out_stuck_def settle_recoverable_def)

lemma reconciler_transition:
  assumes inv: "on_dispatches s0 (res, s)" and d: "d \<in> set (dispatches s)"
    and edge: "t \<in> set (allowed_from DISPATCH_TRANSITIONS (d_state d))"
    and g: "d\<lparr>d_state := t, d_updated_at := clock s0\<rparr> = g d"
  shows "\<exists>r s'. transition_dispatch (d_id d) t actor why md Unset s = Inr (r, s') \<and>
    on_dispatches s0 (res, s') \<and>
    dispatches s' = update_where (\<lambda>x. d_id x = d_id d) g (dispatches s)"
proof -
  let ?f = "\<lambda>x. x\<lparr>d_state := t, d_updated_at := clock s0\<rparr>"
  have keys: "distinct (map d_id (dispatches s))" and ev: "events_ok s" and clk: "clock s = clock s0"
    using inv dispatch_frame_env by (auto simp: on_dispatches_def same_env_def)
  have row: "get_dispatch s (d_id d) = Some d"
    using find_key_unique [OF keys d] by (simp add: get_dispatch_def)
  from transition_dispatch_Unset_ok [OF row edge ev] obtain r s' where
    step: "transition_dispatch (d_id d) t actor why md Unset s = Inr (r, s')" by blast
  from transition_dispatch_Unset [OF step] clk have
    rows: "dispatches s' = update_where (\<lambda>x. d_id x = d_id d) ?f (dispatches s)"
    and frame: "attempts s' = attempts s" "dispatch_frame s s'" by auto
  have rows': "dispatches s' = update_where (\<lambda>x. d_id x = d_id d) g (dispatches s)"
    unfolding rows by (rule update_where_key_cong [where f = ?f and g = g, OF keys d g])
  have "map d_id (dispatches s') = map d_id (dispatches s)"
    unfolding rows by (simp add: map_update_where)
  with step rows' frame inv keys dispatch_frame_keeps [OF frame(2) ev] show ?thesis
    by (auto simp: on_dispatches_def intro: dispatch_frame_trans)
qed

lemma stuck_targets:
  "resolve_stuck_target_state ''claimed'' = Some ''expired''"
  "resolve_stuck_target_state ''delivering'' = Some ''timed_out''"
  "resolve_stuck_target_state ''accepted'' = Some ''timed_out''"
  "resolve_stuck_target_state ''running'' = Some ''timed_out''"
  by code_simp+

lemma stuck_target:
  assumes "stuck threshold d"
  shows "resolve_stuck_target_state (d_state d) = Some (if d_state d = ''claimed'' then ''expired'' else ''timed_out'')"
    and "(if d_state d = ''claimed'' then ''expired'' else ''timed_out'') \<in>
      set (allowed_from DISPATCH_TRANSITIONS (d_state d))"
proof -
  show *: "resolve_stuck_target_state (d_state d) = Some (if d_state d = ''claimed'' then ''expired'' else ''timed_out'')"
    using assms by (auto simp: stuck_def stuck_targets)
  then show "(if d_state d = ''claimed'' then ''expired'' else ''timed_out'') \<in>
      set (allowed_from DISPATCH_TRANSITIONS (d_state d))"
    by (auto simp: resolve_stuck_target_state_def Let_def split: if_splits)
qed

lemma stuck_step:
  assumes inv: "on_dispatches s0 (res, s)" and d: "d \<in> set (dispatches s)"
    and stuck: "stuck (now - dispatch_stuck_seconds cfg * sec) d"
  shows "\<exists>st'. handle_stuck_dispatch False d (res, s) = Inr st' \<and> on_dispatches s0 st' \<and>
    dispatches (snd st') = update_where (\<lambda>x. d_id x = d_id d) (time_out_stuck cfg now (clock s0)) (dispatches s)"
proof -
  let ?t = "if d_state d = ''claimed'' then ''expired'' else ''timed_out''"
  have g: "d\<lparr>d_state := ?t, d_updated_at := clock s0\<rparr> = time_out_stuck cfg now (clock s0) d"
    using stuck by (simp add: time_out_stuck_def)
  define why where "why = ''Dispatch stuck in '' @ [CHR 39] @ d_state d @ [CHR 39] @ '': updated_at='' @
      py_int (d_updated_at d) @ '', terminal_id='' @ py_opt (d_terminal d)"
  define md where "md = [(''reconciler_action'', JStr ''timeout_stuck_dispatch''), (''original_state'', JStr (d_state d))]"
  obtain r s' where step: "transition_dispatch (d_id d) ?t ''reconciler'' (Some why) (Some md) Unset s = Inr (r, s')"
    "on_dispatches s0 (res, s')"
    "dispatches s' = update_where (\<lambda>x. d_id x = d_id d) (time_out_stuck cfg now (clock s0)) (dispatches s)"
    using reconciler_transition [where g = "time_out_stuck cfg now (clock s0)", OF inv d stuck_target(2) [OF stuck] g]
    by blast
  have "\<exists>res'. handle_stuck_dispatch False d (res, s) = Inr (res', s') \<and> rr_errors res' = rr_errors res"
    using step(1) by (simp add: handle_stuck_dispatch_def Let_def stuck_target(1) [OF stuck] why_def md_def)
  with step(2,3) show ?thesis by (auto simp: on_dispatches_def)
qed

lemma recoverable_edges:
  assumes "recoverable d"
  shows "''expired'' \<in> set (allowed_from DISPATCH_TRANSITIONS (d_state d))"
    and "''recovered'' \<in> set (allowed_from DISPATCH_TRANSITIONS (d_state d))"
proof -
  have "''expired'' \<in> set (allowed_from DISPATCH_TRANSITIONS ''timed_out'')"
    "''expired'' \<in> set (allowed_from DISPATCH_TRANSITIONS ''failed_delivery'')"
    "''recovered'' \<in> set (allowed_from DISPATCH_TRANSITIONS ''timed_out'')"
    "''recovered'' \<in> set (allowed_from DISPATCH_TRANSITIONS ''failed_delivery'')" by code_simp+
  with assms show "''expired'' \<in> set (allowed_from DISPATCH_TRANSITIONS (d_state d))"
    "''recovered'' \<in> set (allowed_from DISPATCH_TRANSITIONS (d_state d))"
    by (auto simp: recoverable_def)
qed

text \<open>The shape the two settling handlers share.\<close>

lemma settle_form:
  "\<exists>why md res' msg. rr_errors res' = rr_errors res \<and>
     expire_over_attempted cfg False d (res, s) =
       (case transition_dispatch (d_id d) ''expired'' ''reconciler'' why md Unset s of
          Inr (_, s') \<Rightarrow> Inr (res', s')
        | Inl e \<Rightarrow> if transition_or_key_error e then Inr (add_error msg e res, s) else Inl e)"
  "\<exists>why md res' msg. rr_errors res' = rr_errors res \<and>
     auto_recover_dispatch cfg False d (res, s) =
       (case transition_dispatch (d_id d) ''recovered'' ''reconciler'' why md Unset s of
          Inr (_, s') \<Rightarrow> Inr (res', s')
        | Inl e \<Rightarrow> if transition_or_key_error e then Inr (add_error msg e res, s) else Inl e)"
  unfolding expire_over_attempted_def auto_recover_dispatch_def Let_def prod.case if_False simp_thms
  by (intro exI conjI, rule_tac [2] refl, simp)+

lemma recoverable_step:
  assumes inv: "on_dispatches s0 (res, s)" and d: "d \<in> set (dispatches s)" and rec: "recoverable d"
  shows "\<exists>st'. handle_recoverable_dispatch cfg False d (res, s) = Inr st' \<and> on_dispatches s0 st' \<and>
    dispatches (snd st') = update_where (\<lambda>x. d_id x = d_id d) (settle_recoverable cfg (clock s0)) (dispatches s)"
proof -
  let ?g = "settle_recoverable cfg (clock s0)"
  consider (over) "d_attempt_count d \<ge> max_dispatch_attempts cfg"
    | (recover) "\<not> d_attempt_count d \<ge> max_dispatch_attempts cfg" "auto_recover_dispatches cfg"
    | (flag) "\<not> d_attempt_count d \<ge> max_dispatch_attempts cfg" "\<not> auto_recover_dispatches cfg" by blast
  then show ?thesis
  proof cases
    case over
    obtain why md res' msg where form: "rr_errors res' = rr_errors res"
      "expire_over_attempted cfg False d (res, s) =
       (case transition_dispatch (d_id d) ''expired'' ''reconciler'' why md Unset s of
          Inr (_, s') \<Rightarrow> Inr (res', s')
        | Inl e \<Rightarrow> if transition_or_key_error e then Inr (add_error msg e res, s) else Inl e)"
      using settle_form(1) by blast
    have "d\<lparr>d_state := ''expired'', d_updated_at := clock s0\<rparr> = ?g d"
      using over rec by (simp add: settle_recoverable_def)
    from reconciler_transition [where g = ?g, OF inv d recoverable_edges(1) [OF rec] this, of "''reconciler''" why md]
    show ?thesis using form over by (auto simp: handle_recoverable_dispatch_def on_dispatches_def)
  next
    case recover
    obtain why md res' msg where form: "rr_errors res' = rr_errors res"
      "auto_recover_dispatch cfg False d (res, s) =
       (case transition_dispatch (d_id d) ''recovered'' ''reconciler'' why md Unset s of
          Inr (_, s') \<Rightarrow> Inr (res', s')
        | Inl e \<Rightarrow> if transition_or_key_error e then Inr (add_error msg e res, s) else Inl e)"
      using settle_form(2) by blast
    have "d\<lparr>d_state := ''recovered'', d_updated_at := clock s0\<rparr> = ?g d"
      using recover rec by (simp add: settle_recoverable_def)
    from reconciler_transition [where g = ?g, OF inv d recoverable_edges(2) [OF rec] this, of "''reconciler''" why md]
    show ?thesis using form recover by (auto simp: handle_recoverable_dispatch_def on_dispatches_def)
  next
    case flag
    have "distinct (map d_id (dispatches s))" using inv by (simp add: on_dispatches_def)
    moreover have "?g d = d" using flag by (simp add: settle_recoverable_def)
    ultimately have "update_where (\<lambda>x. d_id x = d_id d) ?g (dispatches s) = dispatches s"
      by (rule update_where_key_id [where g = ?g, OF _ d])
    with flag inv show ?thesis
      by (auto simp: handle_recoverable_dispatch_def flag_dispatch_for_review_def on_dispatches_def)
  qed
qed

lemma dispatches_phase:
  assumes keys: "distinct (map d_id (dispatches s))" and ev: "events_ok s" and noerr: "rr_errors res = []"
  shows "\<exists>res' s'. reconcile_dispatches cfg False now res s = (Inr res', s') \<and> rr_errors res' = [] \<and>
    dispatch_frame s s' \<and> attempts s' = attempts s \<and>
    dispatches s' = map (\<lambda>d. settle_recoverable cfg (clock s) (time_out_stuck cfg now (clock s) d)) (dispatches s)"
proof -
  let ?th = "now - dispatch_stuck_seconds cfg * sec"
  let ?rows = "sort_key d_updated_at (filter (stuck ?th) (dispatches s))"
  let ?tab = "\<lambda>st :: reconciliation_result \<times> store. dispatches (snd st)"
  have inv: "on_dispatches s (res, s)" using assms by (simp add: on_dispatches_def)
  have step1: "\<exists>st'. handle_stuck_dispatch False d st = Inr st' \<and> on_dispatches s st' \<and>
      ?tab st' = update_where (\<lambda>x. d_id x = d_id d) (time_out_stuck cfg now (clock s)) (?tab st)"
    if "on_dispatches s st" "d \<in> set ?rows" "d \<in> set (?tab st)" for d st
    using stuck_step [of s "fst st" "snd st" d] that by (cases st) auto
  have "\<exists>st'. foldE (handle_stuck_dispatch False) ?rows (res, s) = Inr st' \<and> on_dispatches s st' \<and>
      ?tab st' = map (\<lambda>x. if x \<in> set ?rows then time_out_stuck cfg now (clock s) x else x) (?tab (res, s))"
    by (rule foldE_sweep [where Inv = "on_dispatches s" and k = d_id and tab = ?tab])
      (use step1 inv keys in \<open>auto simp: distinct_map\<close>)
  then obtain res1 s1 where first: "foldE (handle_stuck_dispatch False) ?rows (res, s) = Inr (res1, s1)"
    "on_dispatches s (res1, s1)"
    "dispatches s1 = map (\<lambda>x. if x \<in> set ?rows then time_out_stuck cfg now (clock s) x else x) (dispatches s)"
    by auto
  have rows1: "dispatches s1 = map (time_out_stuck cfg now (clock s)) (dispatches s)"
    unfolding first(3) by (auto simp: time_out_stuck_def)
  let ?rows2 = "sort_key d_updated_at (filter recoverable (dispatches s1))"
  have keys1: "distinct (map d_id (dispatches s1))" using first(2) by (simp add: on_dispatches_def)
  have step2: "\<exists>st'. handle_recoverable_dispatch cfg False d st = Inr st' \<and> on_dispatches s st' \<and>
      ?tab st' = update_where (\<lambda>x. d_id x = d_id d) (settle_recoverable cfg (clock s)) (?tab st)"
    if "on_dispatches s st" "d \<in> set ?rows2" "d \<in> set (?tab st)" for d st
    using recoverable_step [of s "fst st" "snd st" d] that by (cases st) auto
  have "\<exists>st'. foldE (handle_recoverable_dispatch cfg False) ?rows2 (res1, s1) = Inr st' \<and> on_dispatches s st' \<and>
      ?tab st' = map (\<lambda>x. if x \<in> set ?rows2 then settle_recoverable cfg (clock s) x else x) (?tab (res1, s1))"
    by (rule foldE_sweep [where Inv = "on_dispatches s" and k = d_id and tab = ?tab])
      (use step2 first(2) keys1 in \<open>auto simp: distinct_map\<close>)
  then obtain res2 s2 where second:
    "foldE (handle_recoverable_dispatch cfg False) ?rows2 (res1, s1) = Inr (res2, s2)" "on_dispatches s (res2, s2)"
    "dispatches s2 = map (\<lambda>x. if x \<in> set ?rows2 then settle_recoverable cfg (clock s) x else x) (dispatches s1)"
    by auto
  have "dispatches s2 = map (settle_recoverable cfg (clock s)) (dispatches s1)"
    unfolding second(3) by (auto simp: settle_recoverable_def)
  then have "dispatches s2 = map (\<lambda>d. settle_recoverable cfg (clock s) (time_out_stuck cfg now (clock s) d)) (dispatches s)"
    by (simp add: rows1)
  with first(1) second(1,2) show ?thesis
    by (simp add: reconcile_dispatches_def reconcile_stuck_dispatches_def reconcile_recoverable_dispatches_def
        on_dispatches_def)
qed

text \<open>
  C30: A live run does to every row exactly what the configuration asks for, whatever the order
  of the rows, without failing and without an entry in its error list: due leases expire and,
  if so configured, expired leases return to idle; orphaned attempts fail; stuck dispatches
  time out or expire; then recoverable dispatches that have used up their attempts expire and
  the others are recovered or left for review. No row appears or disappears.
\<close>

theorem run_reconciles_every_row:
  assumes "keys_unique s" and "events_ok s"
    and "now = run_time now_opt s"
  shows "\<exists>res s'. reconciler_run cfg False now_opt s = (Inr res, s') \<and> rr_errors res = [] \<and>
    leases s' = map (\<lambda>l. recover_due cfg (clock s) (expire_due cfg now l)) (leases s) \<and>
    attempts s' = map (fail_orphan cfg now (clock s)) (attempts s) \<and>
    dispatches s' = map (\<lambda>d. settle_recoverable cfg (clock s) (time_out_stuck cfg now (clock s) d)) (dispatches s) \<and>
    same_env s s'"
proof -
  have keys: "distinct_terminals s" "distinct (map a_id (attempts s))" "distinct (map d_id (dispatches s))"
    using assms(1) by (simp_all add: keys_unique_def)
  have "rr_errors (empty_result now False) = []" by (simp add: empty_result_def)
  from leases_phase [OF keys(1) assms(2) this, of cfg now] obtain res1 s1 where
    one: "reconcile_leases cfg False now (empty_result now False) s = (Inr res1, s1)" "rr_errors res1 = []"
      "lease_frame s s1" "leases s1 = map (\<lambda>l. recover_due cfg (clock s) (expire_due cfg now l)) (leases s)" by blast
  have s1: "attempts s1 = attempts s" "dispatches s1 = dispatches s" "events_ok s1" "clock s1 = clock s" "same_env s s1"
    using one(3) lease_frame_keeps [OF one(3) assms(2)] by (simp_all add: lease_frame_def)
  from attempts_phase [of s1 res1 cfg now] keys(2) s1 one(2) obtain res2 s2 where
    two: "reconcile_attempts cfg False now res1 s1 = (Inr res2, s2)" "rr_errors res2 = []" "dispatch_frame s1 s2"
      "dispatches s2 = dispatches s1" "attempts s2 = map (fail_orphan cfg now (clock s)) (attempts s)" by auto
  have s2: "leases s2 = leases s1" "events_ok s2" "clock s2 = clock s" "same_env s1 s2"
    using two(3) s1 dispatch_frame_keeps [OF two(3) s1(3)] by (simp_all add: dispatch_frame_def)
  from dispatches_phase [of s2 res2 cfg now] keys(3) s1 s2 two(2,4) obtain res3 s3 where
    three: "reconcile_dispatches cfg False now res2 s2 = (Inr res3, s3)" "rr_errors res3 = []" "dispatch_frame s2 s3"
      "attempts s3 = attempts s2"
      "dispatches s3 = map (\<lambda>d. settle_recoverable cfg (clock s) (time_out_stuck cfg now (clock s) d)) (dispatches s)"
    by auto
  have "same_env s s3" "leases s3 = leases s2"
    using s1(5) s2(4) three(3) same_env_trans by (auto simp: dispatch_frame_def)
  with one three two s2(1) show ?thesis by (simp add: reconciler_run_def assms(3))
qed

definition reconciler_demo :: store where
  "reconciler_demo = lease_store
     \<lparr>dispatches := [sample_dispatch ''d1'' None None ''claimed'' 10, sample_dispatch ''d2'' None None ''running'' 20,
                     sample_dispatch ''d3'' None None ''running'' (990 * sec)]\<rparr>"

lemma run_reconciles_every_row_witness:
  "\<exists>res s'. reconciler_run default_reconciler_config False None reconciler_demo = (Inr res, s') \<and>
     map d_state (dispatches s') = [''expired'', ''timed_out'', ''running''] \<and>
     map l_state (leases s') = [''idle'', ''idle'', ''leased'']"
proof -
  have "keys_unique reconciler_demo" and "events_ok reconciler_demo" by code_simp+
  from run_reconciles_every_row [OF this refl, of default_reconciler_config None] show ?thesis
    by (auto simp: reconciler_demo_def lease_store_def sample_dispatch_def sample_lease_def empty_store_def run_time_def
        default_reconciler_config_def recover_due_def expire_due_def lease_due_def lapsed_def recovered_def sec_def
        settle_recoverable_def time_out_stuck_def stuck_def recoverable_def)
qed

section \<open>A second run\<close>

definition settled :: "reconciler_config \<Rightarrow> int \<Rightarrow> store \<Rightarrow> bool" where
  "settled cfg now s =
     (list_all (\<lambda>l. \<not> lease_due cfg now l \<and> (auto_recover_expired_leases cfg \<longrightarrow> l_state l \<noteq> ''expired'')) (leases s) \<and>
      list_all (\<lambda>a. \<not> orphaned (now - attempt_stale_seconds cfg * sec) a) (attempts s) \<and>
      list_all (\<lambda>d. \<not> stuck (now - dispatch_stuck_seconds cfg * sec) d \<and>
         (recoverable d \<longrightarrow> d_attempt_count d < max_dispatch_attempts cfg \<and> \<not> auto_recover_dispatches cfg)) (dispatches s))"

lemma row_settled:
  "\<not> lease_due cfg now (recover_due cfg c (expire_due cfg now l))"
  "auto_recover_expired_leases cfg \<Longrightarrow> l_state (recover_due cfg c (expire_due cfg now l)) \<noteq> ''expired''"
  "\<not> orphaned (now - attempt_stale_seconds cfg * sec) (fail_orphan cfg now c a)"
  "\<not> stuck (now - dispatch_stuck_seconds cfg * sec) (settle_recoverable cfg c (time_out_stuck cfg now c d))"
  "recoverable (settle_recoverable cfg c d) \<Longrightarrow>
     d_attempt_count (settle_recoverable cfg c d) < max_dispatch_attempts cfg \<and> \<not> auto_recover_dispatches cfg"
  by (auto simp: recover_due_def expire_due_def lease_due_def lapsed_def recovered_def fail_orphan_def orphaned_def
      settle_recoverable_def time_out_stuck_def stuck_def recoverable_def split: if_splits)

lemma each_committed_noop:
  assumes "\<And>r. r \<in> set rs \<Longrightarrow> f r a s = (Inr a, s)"
  shows "each_committed f rs a s = (Inr a, s)"
  using assms by (induction rs) auto

lemma foldE_same_total:
  assumes "\<And>r a. r \<in> set rs \<Longrightarrow> \<exists>a'. f r (a, s) = Inr (a', s) \<and> total_actions a' = total_actions a"
  shows "\<exists>a'. foldE f rs (a, s) = Inr (a', s) \<and> total_actions a' = total_actions a"
  using assms
proof (induction rs arbitrary: a)
  case Nil
  then show ?case by simp
next
  case (Cons r rs)
  from Cons.prems [of r a] obtain a1 where "f r (a, s) = Inr (a1, s)" "total_actions a1 = total_actions a" by auto
  with Cons.IH [of a1] Cons.prems show ?case by auto
qed

lemma settled_run:
  assumes "settled cfg (run_time now_opt s) s"
  shows "\<exists>res. reconciler_run cfg dry_run now_opt s = (Inr res, s) \<and> total_actions res = 0"
proof -
  let ?now = "run_time now_opt s"
  let ?res = "empty_result ?now dry_run"
  have quiet: "reconcile_lease dry_run (lease_ttl_grace_seconds cfg * sec) ?now l ?res s = (Inr ?res, s)"
    if "l \<in> set (filter (\<lambda>l. l_state l = ''leased'') (leases s))" for l
    using that assms by (auto simp: settled_def list_all_iff lease_due_def reconcile_lease_def split: option.splits)
  have none: "auto_recover_expired_leases cfg \<Longrightarrow> filter (\<lambda>l. l_state l = ''expired'') (leases s) = []"
    using assms by (auto simp: settled_def list_all_iff filter_empty_conv)
  have "each_committed (reconcile_lease dry_run (lease_ttl_grace_seconds cfg * sec) ?now)
      (filter (\<lambda>l. l_state l = ''leased'') (leases s)) ?res s = (Inr ?res, s)"
    by (rule each_committed_noop) (rule quiet)
  then have one: "reconcile_leases cfg dry_run ?now ?res s = (Inr ?res, s)"
    by (simp add: reconcile_leases_def recover_expired_leases_def none)
  have "filter (orphaned (?now - attempt_stale_seconds cfg * sec)) (attempts s) = []"
    using assms by (auto simp: settled_def list_all_iff filter_empty_conv)
  then have two: "reconcile_attempts cfg dry_run ?now ?res s = (Inr ?res, s)"
    by (simp add: reconcile_attempts_def)
  have stuck: "filter (stuck (?now - dispatch_stuck_seconds cfg * sec)) (dispatches s) = []"
    using assms by (auto simp: settled_def list_all_iff filter_empty_conv)
  have "\<exists>res'. foldE (handle_recoverable_dispatch cfg dry_run) (sort_key d_updated_at (filter recoverable (dispatches s)))
      (?res, s) = Inr (res', s) \<and> total_actions res' = total_actions ?res"
    by (rule foldE_same_total)
      (use assms in \<open>auto simp: settled_def list_all_iff handle_recoverable_dispatch_def flag_dispatch_for_review_def
        total_actions_def\<close>)
  then obtain res' where "foldE (handle_recoverable_dispatch cfg dry_run)
      (sort_key d_updated_at (filter recoverable (dispatches s))) (?res, s) = Inr (res', s)"
    "total_actions res' = total_actions ?res" by blast
  then have "reconcile_dispatches cfg dry_run ?now ?res s = (Inr res', s)" "total_actions res' = 0"
    by (simp_all add: reconcile_dispatches_def reconcile_stuck_dispatches_def reconcile_recoverable_dispatches_def
        stuck total_actions_def empty_result_def)
  with one two show ?thesis by (simp add: reconciler_run_def)
qed

text \<open>
  Reconciliation is idempotent: after a live run there is nothing left to do, and a second
  run at the same reference time takes no action and leaves the store as it is.
\<close>

lemma second_run_takes_no_action:
  assumes "keys_unique s" and "events_ok s"
    and "reconciler_run cfg False (Some now) s = (res, s1)"
  shows "settled cfg now s1 \<and>
    (\<exists>res'. reconciler_run cfg False (Some now) s1 = (Inr res', s1) \<and> total_actions res' = 0)"
proof -
  have now: "now = run_time (Some now) s" by (simp add: run_time_def)
  from run_reconciles_every_row [OF assms(1,2) now, of cfg] assms(3) have
    "leases s1 = map (\<lambda>l. recover_due cfg (clock s) (expire_due cfg now l)) (leases s)"
    "attempts s1 = map (fail_orphan cfg now (clock s)) (attempts s)"
    "dispatches s1 = map (\<lambda>d. settle_recoverable cfg (clock s) (time_out_stuck cfg now (clock s) d)) (dispatches s)"
    by auto
  then have "settled cfg now s1"
    by (auto simp: settled_def list_all_iff row_settled)
  moreover from this settled_run [of cfg "Some now" s1 False] have
    "\<exists>res'. reconciler_run cfg False (Some now) s1 = (Inr res', s1) \<and> total_actions res' = 0"
    by (simp add: run_time_def)
  ultimately show ?thesis ..
qed

lemma second_run_takes_no_action_witness:
  "\<exists>res'. reconciler_run default_reconciler_config False (Some (1000 * sec))
      (snd (reconciler_run default_reconciler_config False (Some (1000 * sec)) reconciler_demo)) =
    (Inr res', snd (reconciler_run default_reconciler_config False (Some (1000 * sec)) reconciler_demo)) \<and>
    total_actions res' = 0"
proof -
  have "keys_unique reconciler_demo" and "events_ok reconciler_demo" by code_simp+
  from second_run_takes_no_action [OF this] show ?thesis by (metis prod.collapse)
qed

text \<open>
  An attempt in delivery is never found orphaned: \<^verbatim>\<open>update_attempt\<close> stamps the end time for every
  state it writes, also for delivering, and the query asks for attempts without one.
\<close>

lemma delivering_attempt_never_orphaned:
  assumes "update_attempt aid ''delivering'' why md actor s = Inr (r, s')"
  shows "\<not> orphaned threshold r"
  using update_attempt_Inr [OF assms] by (auto simp: orphaned_def)

end
