(* ===== verification/Worker_States.thy ===== *)
theory Worker_States
  imports Dispatch_Lifecycle
begin

text \<open>
  \<^verbatim>\<open>scripts/lib/worker_state_manager.py\<close>: the worker lifecycle on a leased terminal, with one row
  per terminal, its heartbeat classification and the summary that T0 reads.

  The result type of the code, \<^verbatim>\<open>WorkerStateResult\<close>, has exactly the columns of the row; the
  operations return the row. The component writes its own events, without a project.
\<close>

section \<open>States and validation\<close>

definition WORKER_STATES :: "string list" where
  "WORKER_STATES =
     [''initializing'', ''working'', ''idle_between_tasks'', ''stalled'', ''blocked'', ''awaiting_input'',
      ''exited_clean'', ''exited_bad'', ''resume_unsafe'']"

definition TERMINAL_WORKER_STATES :: "string list" where
  "TERMINAL_WORKER_STATES = [''exited_clean'', ''exited_bad'', ''resume_unsafe'']"

definition ACTIVE_WORKER_STATES :: "string list" where
  "ACTIVE_WORKER_STATES = filter (\<lambda>s. s \<notin> set TERMINAL_WORKER_STATES) WORKER_STATES"

definition WORKER_TRANSITIONS :: "(string \<times> string list) list" where
  "WORKER_TRANSITIONS =
     [(''initializing'', [''working'', ''stalled'', ''blocked'', ''exited_clean'', ''exited_bad'', ''resume_unsafe'']),
      (''working'', [''idle_between_tasks'', ''stalled'', ''blocked'', ''awaiting_input'', ''exited_clean'',
                     ''exited_bad'', ''resume_unsafe'']),
      (''idle_between_tasks'', [''working'', ''stalled'', ''exited_clean'', ''exited_bad'', ''resume_unsafe'']),
      (''stalled'', [''working'', ''exited_bad'', ''resume_unsafe'']),
      (''blocked'', [''working'', ''exited_bad'', ''resume_unsafe'']),
      (''awaiting_input'', [''working'', ''exited_bad'', ''resume_unsafe'']),
      (''exited_clean'', []),
      (''exited_bad'', []),
      (''resume_unsafe'', [])]"

definition DEFAULT_HEARTBEAT_STALE_THRESHOLD :: int where
  "DEFAULT_HEARTBEAT_STALE_THRESHOLD = 90"

definition DEFAULT_HEARTBEAT_DEAD_THRESHOLD :: int where
  "DEFAULT_HEARTBEAT_DEAD_THRESHOLD = 300"

definition validate_worker_state :: "string \<Rightarrow> exn + unit" where
  "validate_worker_state state = guardE (state \<in> set WORKER_STATES) (InvalidWorkerStateError state)"

definition validate_worker_transition :: "string \<Rightarrow> string \<Rightarrow> exn + unit" where
  "validate_worker_transition from_state to_state =
     bindE (validate_worker_state from_state) (\<lambda>_.
     bindE (validate_worker_state to_state) (\<lambda>_.
     guardE (to_state \<in> set (allowed_from WORKER_TRANSITIONS from_state))
       (InvalidWorkerTransitionError from_state to_state)))"

definition is_terminal_worker_state :: "string \<Rightarrow> bool" where
  "is_terminal_worker_state state = (state \<in> set TERMINAL_WORKER_STATES)"

section \<open>Heartbeats\<close>

definition classify_heartbeat :: "stamp option \<Rightarrow> int \<Rightarrow> int \<Rightarrow> int \<Rightarrow> string" where
  "classify_heartbeat last_heartbeat_at now stale_threshold dead_threshold =
     (case last_heartbeat_at of
        None \<Rightarrow> ''dead''
      | Some (Garbled _) \<Rightarrow> ''dead''
      | Some (At hb) \<Rightarrow>
          let age = now - hb in
          if age < stale_threshold * sec then ''fresh''
          else if age < dead_threshold * sec then ''stale''
          else ''dead'')"

section \<open>Operations\<close>

definition append_worker_event ::
  "string \<Rightarrow> string \<Rightarrow> string option \<Rightarrow> string option \<Rightarrow> string \<Rightarrow> string option \<Rightarrow>
   (string \<times> json) list option \<Rightarrow> store \<Rightarrow> store" where
  "append_worker_event event_type terminal_id from_state to_state actor reason metadata s =
     log_event (mk_event s event_type ''worker'' terminal_id from_state to_state actor reason metadata
                  (column_default s ''coordination_events'')) s"

definition event_type_for_transition :: "string \<Rightarrow> string \<Rightarrow> string" where
  "event_type_for_transition from_state to_state =
     (if to_state = ''stalled'' then ''worker_stall_detected''
      else if to_state = ''working'' \<and>
              from_state \<in> {''stalled'', ''initializing'', ''blocked'', ''awaiting_input''}
      then ''worker_output_detected''
      else if to_state = ''blocked'' then ''worker_blocked''
      else if to_state \<in> set TERMINAL_WORKER_STATES then ''worker_exited''
      else ''worker_state_changed'')"

definition worker_at :: "store \<Rightarrow> string \<Rightarrow> worker_row option" where
  "worker_at s terminal_id = find (\<lambda>w. w_terminal w = terminal_id) (workers s)"

text \<open>The two foreign keys of a worker row, under the project its column defaults to.\<close>

definition worker_refs_ok :: "store \<Rightarrow> string \<Rightarrow> string \<Rightarrow> bool" where
  "worker_refs_ok s terminal_id dispatch_id =
     (let project = column_default s ''worker_states'' in
      list_ex (\<lambda>l. l_terminal l = terminal_id \<and> (project = None \<or> l_project l = project)) (leases s) \<and>
      dispatch_ref_ok s dispatch_id project)"

definition worker_initialize ::
  "string \<Rightarrow> string \<Rightarrow> string \<Rightarrow> string option \<Rightarrow> store \<Rightarrow> (exn + worker_row) \<times> store" where
  "worker_initialize terminal_id dispatch_id actor reason s =
     (let now = clock s;
          row = \<lparr>w_terminal = terminal_id, w_dispatch = dispatch_id, w_state = ''initializing'',
                 w_last_output_at = None, w_entered_at = now, w_stall_count = 0, w_blocked_reason = None,
                 w_created_at = now, w_updated_at = now\<rparr>;
          s1 = s\<lparr>workers := filter (\<lambda>w. w_terminal w \<noteq> terminal_id) (workers s) @ [row]\<rparr>;
          s2 = append_worker_event ''worker_state_changed'' terminal_id None (Some ''initializing'') actor
                 (Some (or_else reason (''worker initialized for dispatch '' @ dispatch_id)))
                 (Some [(''dispatch_id'', JStr dispatch_id)]) s1
      in commit s
           (bindE (guardE (worker_refs_ok s terminal_id dispatch_id)
                     (IntegrityError ''FOREIGN KEY constraint failed'')) (\<lambda>_.
            bindE (fetch_dict (worker_at s2 terminal_id)) (\<lambda>r. Inr (r, s2)))))"

definition update_workers :: "string \<Rightarrow> (worker_row \<Rightarrow> worker_row) \<Rightarrow> store \<Rightarrow> store" where
  "update_workers terminal_id f s =
     s\<lparr>workers := update_where (\<lambda>w. w_terminal w = terminal_id) f (workers s)\<rparr>"

definition apply_worker_transition ::
  "worker_row \<Rightarrow> string \<Rightarrow> string \<Rightarrow> string \<Rightarrow> string option \<Rightarrow> string option \<Rightarrow> store \<Rightarrow>
   exn + (worker_row \<times> store)" where
  "apply_worker_transition current terminal_id to_state actor reason blocked_reason s =
     (let from_state = w_state current;
          now = clock s;
          stall_count = (if to_state = ''stalled'' then w_stall_count current + 1 else w_stall_count current);
          new_blocked_reason = (if to_state = ''blocked'' then blocked_reason else None);
          s1 = update_workers terminal_id
                 (\<lambda>w. w\<lparr>w_state := to_state, w_entered_at := now, w_stall_count := stall_count,
                       w_blocked_reason := new_blocked_reason, w_updated_at := now\<rparr>) s;
          s2 = append_worker_event (event_type_for_transition from_state to_state) terminal_id
                 (Some from_state) (Some to_state) actor reason
                 (Some [(''dispatch_id'', JStr (w_dispatch current)), (''stall_count'', JInt stall_count),
                        (''blocked_reason'', json_opt new_blocked_reason)]) s1
      in bindE (fetch_dict (worker_at s2 terminal_id)) (\<lambda>r. Inr (r, s2)))"

definition worker_transition ::
  "string \<Rightarrow> string \<Rightarrow> string \<Rightarrow> string option \<Rightarrow> string option \<Rightarrow> store \<Rightarrow> (exn + worker_row) \<times> store" where
  "worker_transition terminal_id to_state actor reason blocked_reason s =
     commit s
       (bindE (validate_worker_state to_state) (\<lambda>_.
        case worker_at s terminal_id of
          None \<Rightarrow> Inl (KeyError terminal_id)
        | Some current \<Rightarrow>
            bindE (validate_worker_transition (w_state current) to_state) (\<lambda>_.
            apply_worker_transition current terminal_id to_state actor reason blocked_reason s)))"

definition worker_record_output :: "string \<Rightarrow> string \<Rightarrow> store \<Rightarrow> (exn + worker_row) \<times> store" where
  "worker_record_output terminal_id actor s =
     commit s
       (case worker_at s terminal_id of
          None \<Rightarrow> Inl (KeyError terminal_id)
        | Some row \<Rightarrow>
            let now = clock s;
                s1 = update_workers terminal_id (\<lambda>w. w\<lparr>w_last_output_at := Some now, w_updated_at := now\<rparr>) s;
                s2 = append_worker_event ''worker_output_detected'' terminal_id (Some (w_state row))
                       (Some (w_state row)) actor (Some ''output event detected'')
                       (Some [(''dispatch_id'', JStr (w_dispatch row)), (''last_output_at'', JInt now)]) s1
            in bindE (fetch_dict (worker_at s2 terminal_id)) (\<lambda>r. Inr (r, s2)))"

definition worker_cleanup :: "string \<Rightarrow> string \<Rightarrow> string option \<Rightarrow> store \<Rightarrow> store" where
  "worker_cleanup terminal_id actor reason s =
     (case worker_at s terminal_id of
        None \<Rightarrow> s
      | Some current \<Rightarrow>
          append_worker_event ''worker_state_cleaned'' terminal_id (Some (w_state current)) None actor
            (Some (or_else reason ''lease released, worker state cleaned up''))
            (Some [(''dispatch_id'', JStr (w_dispatch current)), (''final_state'', JStr (w_state current)),
                   (''stall_count'', JInt (w_stall_count current))])
            (s\<lparr>workers := filter (\<lambda>w. w_terminal w \<noteq> terminal_id) (workers s)\<rparr>))"

section \<open>Queries\<close>

definition worker_get :: "store \<Rightarrow> string \<Rightarrow> worker_row option" where
  "worker_get s terminal_id = worker_at s terminal_id"

definition get_all_states :: "store \<Rightarrow> worker_row list" where
  "get_all_states s = sort_key w_terminal (workers s)"

record worker_summary =
  ws_terminal :: string
  ws_dispatch :: string
  ws_state :: string
  ws_entered_at :: int
  ws_last_output_at :: "int option"
  ws_heartbeat_at :: "stamp option"
  ws_heartbeat_class :: string
  ws_stall_count :: int
  ws_blocked_reason :: "string option"
  ws_is_terminal :: bool

text \<open>The dictionary of heartbeats: a later lease row of the same terminal overwrites an earlier one.\<close>

definition heartbeat_map :: "store \<Rightarrow> string \<Rightarrow> stamp option" where
  "heartbeat_map s terminal_id =
     (case find (\<lambda>l. l_terminal l = terminal_id) (rev (leases s)) of
        None \<Rightarrow> None | Some l \<Rightarrow> l_heartbeat_at l)"

definition summarize_worker :: "store \<Rightarrow> worker_row \<Rightarrow> worker_summary" where
  "summarize_worker s r =
     (let hb = heartbeat_map s (w_terminal r) in
      \<lparr>ws_terminal = w_terminal r, ws_dispatch = w_dispatch r, ws_state = w_state r,
       ws_entered_at = w_entered_at r, ws_last_output_at = w_last_output_at r, ws_heartbeat_at = hb,
       ws_heartbeat_class = classify_heartbeat hb (clock s) DEFAULT_HEARTBEAT_STALE_THRESHOLD
                              DEFAULT_HEARTBEAT_DEAD_THRESHOLD,
       ws_stall_count = w_stall_count r, ws_blocked_reason = w_blocked_reason r,
       ws_is_terminal = is_terminal_worker_state (w_state r)\<rparr>)"

definition get_state_summary :: "store \<Rightarrow> (string \<times> worker_summary) list" where
  "get_state_summary s =
     fold (\<lambda>r terminals. AList.update (w_terminal r) (summarize_worker s r) terminals)
       (sort_key w_terminal (workers s)) []"

section \<open>The worker lifecycle\<close>

lemma worker_table_closed: "table_closed WORKER_STATES WORKER_TRANSITIONS"
  by code_simp

lemma worker_stuck: "stuck_exactly WORKER_STATES WORKER_TRANSITIONS TERMINAL_WORKER_STATES"
  by code_simp

lemma validate_worker_transition_iff:
  "validate_worker_transition s t = Inr u \<longleftrightarrow> t \<in> set (allowed_from WORKER_TRANSITIONS s)"
  using table_closed_edge [OF worker_table_closed, of t s]
  by (auto simp: validate_worker_transition_def validate_worker_state_def result_iffs)

interpretation worker_life: validated_lifecycle
  WORKER_STATES TERMINAL_WORKER_STATES WORKER_TRANSITIONS validate_worker_transition
proof unfold_locales
  show "set TERMINAL_WORKER_STATES \<subseteq> set WORKER_STATES" by code_simp
qed (use validate_worker_transition_iff table_closedD [OF worker_table_closed]
       stuck_exactlyD [OF worker_stuck] in blast)+

section \<open>Effects of the operations\<close>

lemma append_worker_event_simps [simp]:
  "workers (append_worker_event ty tid f t a r md s) = workers s"
  "leases (append_worker_event ty tid f t a r md s) = leases s"
  "dispatches (append_worker_event ty tid f t a r md s) = dispatches s"
  "clock (append_worker_event ty tid f t a r md s) = clock s"
  "worker_at (append_worker_event ty tid f t a r md s) x = worker_at s x"
  by (simp_all add: append_worker_event_def worker_at_def)

lemma update_workers_simps [simp]:
  "workers (update_workers tid f s) = update_where (\<lambda>w. w_terminal w = tid) f (workers s)"
  "events (update_workers tid f s) = events s"
  "clock (update_workers tid f s) = clock s"
  by (simp_all add: update_workers_def)

lemma worker_at_update:
  assumes "\<And>w. w_terminal (f w) = w_terminal w"
  shows "worker_at (update_workers tid f s) t = (if t = tid then map_option f (worker_at s t) else worker_at s t)"
  using assms by (simp add: worker_at_def find_update_where find_update_where_other)

text \<open>The events of a store that report a stall of a terminal's worker.\<close>

definition stalls :: "string \<Rightarrow> store \<Rightarrow> int" where
  "stalls tid s = int (length (filter (\<lambda>e. e_type e = ''worker_stall_detected'' \<and> e_entity e = tid) (events s)))"

lemma stalls_append:
  "stalls tid (append_worker_event ty x f t a r md s) =
     stalls tid s + (if ty = ''worker_stall_detected'' \<and> x = tid then 1 else 0)"
  by (simp add: stalls_def append_worker_event_def)

lemma stalls_same_events:
  "stalls tid (update_workers x f s) = stalls tid s" "stalls tid (s\<lparr>workers := ws\<rparr>) = stalls tid s"
  by (simp_all add: stalls_def)

lemma stall_event_type: "event_type_for_transition f t = ''worker_stall_detected'' \<longleftrightarrow> t = ''stalled''"
  by (auto simp: event_type_for_transition_def)

text \<open>The new row of a transition.\<close>

definition moved_worker :: "int \<Rightarrow> string \<Rightarrow> string option \<Rightarrow> worker_row \<Rightarrow> worker_row" where
  "moved_worker now to_state blocked w =
     w\<lparr>w_state := to_state, w_entered_at := now,
       w_stall_count := (if to_state = ''stalled'' then w_stall_count w + 1 else w_stall_count w),
       w_blocked_reason := (if to_state = ''blocked'' then blocked else None), w_updated_at := now\<rparr>"

lemma worker_transition_Inr:
  assumes "worker_transition tid t actor reason blocked s = (Inr r, s')"
  shows "\<exists>w. worker_at s tid = Some w \<and> t \<in> set (allowed_from WORKER_TRANSITIONS (w_state w)) \<and>
    r = moved_worker (clock s) t blocked w \<and> worker_at s' tid = Some r \<and>
    (\<forall>x. x \<noteq> tid \<longrightarrow> worker_at s' x = worker_at s x) \<and>
    (\<forall>x. stalls x s' = stalls x s + (if t = ''stalled'' \<and> x = tid then 1 else 0)) \<and>
    (\<exists>f. (\<forall>x. w_terminal (f x) = w_terminal x) \<and> f w = r \<and>
       workers s' = update_where (\<lambda>w. w_terminal w = tid) f (workers s))"
proof -
  from assms obtain w where w: "worker_at s tid = Some w"
    and edge: "t \<in> set (allowed_from WORKER_TRANSITIONS (w_state w))"
    and apply': "apply_worker_transition w tid t actor reason blocked s = Inr (r, s')"
    by (auto simp: worker_transition_def commit_eq_Inr bindE_eq_Inr validate_worker_transition_iff split: option.splits)
  define f where "f = (\<lambda>x :: worker_row. x\<lparr>w_state := t, w_entered_at := clock s,
      w_stall_count := (if t = ''stalled'' then w_stall_count w + 1 else w_stall_count w),
      w_blocked_reason := (if t = ''blocked'' then blocked else None), w_updated_at := clock s\<rparr>)"
  have key: "w_terminal (f x) = w_terminal x" for x by (simp add: f_def)
  from apply' w have r: "r = f w" and s': "\<exists>md. s' = append_worker_event (event_type_for_transition (w_state w) t) tid
      (Some (w_state w)) (Some t) actor reason md (update_workers tid f s)"
    by (auto simp: apply_worker_transition_def Let_def bindE_eq_Inr fetch_dict_eq_Inr worker_at_update f_def)
  have "f w = moved_worker (clock s) t blocked w" by (simp add: f_def moved_worker_def)
  moreover have "\<exists>f. (\<forall>x. w_terminal (f x) = w_terminal x) \<and> f w = r \<and>
       workers s' = update_where (\<lambda>w. w_terminal w = tid) f (workers s)"
    using s' r key by (intro exI [of _ f]) auto
  moreover have "worker_at s' tid = Some r" "\<forall>x. x \<noteq> tid \<longrightarrow> worker_at s' x = worker_at s x"
    "\<forall>x. stalls x s' = stalls x s + (if t = ''stalled'' \<and> x = tid then 1 else 0)"
    using s' r w key by (auto simp: worker_at_update stalls_append stall_event_type stalls_same_events)
  ultimately show ?thesis using w edge r by auto
qed

lemma worker_transition_failed: "worker_transition tid t actor reason blocked s = (Inl e, s') \<Longrightarrow> s' = s"
  by (simp add: worker_transition_def commit_eq_Inl)

lemma worker_record_output_Inr:
  assumes "worker_record_output tid actor s = (Inr r, s')"
  shows "\<exists>w. worker_at s tid = Some w \<and> r = w\<lparr>w_last_output_at := Some (clock s), w_updated_at := clock s\<rparr> \<and>
    worker_at s' tid = Some r \<and> (\<forall>x. x \<noteq> tid \<longrightarrow> worker_at s' x = worker_at s x) \<and>
    (\<forall>x. stalls x s' = stalls x s) \<and>
    workers s' = update_where (\<lambda>w. w_terminal w = tid)
      (\<lambda>w. w\<lparr>w_last_output_at := Some (clock s), w_updated_at := clock s\<rparr>) (workers s)"
  using assms
  by (auto simp: worker_record_output_def commit_eq_Inr Let_def bindE_eq_Inr fetch_dict_eq_Inr worker_at_update
      stalls_append stalls_same_events split: option.splits)

lemma worker_record_output_failed: "worker_record_output tid actor s = (Inl e, s') \<Longrightarrow> s' = s"
  by (simp add: worker_record_output_def commit_eq_Inl)

lemma worker_at_filter_other:
  assumes "x \<noteq> tid"
  shows "find (\<lambda>w. w_terminal w = x) (filter (\<lambda>w. w_terminal w \<noteq> tid) rows @ xs) =
    (case find (\<lambda>w. w_terminal w = x) rows of None \<Rightarrow> find (\<lambda>w. w_terminal w = x) xs | Some w \<Rightarrow> Some w)"
  using assms by (induction rows) auto

lemma worker_at_filter_same:
  "find (\<lambda>w. w_terminal w = tid) (filter (\<lambda>w. w_terminal w \<noteq> tid) rows @ xs) = find (\<lambda>w. w_terminal w = tid) xs"
  by (induction rows) auto

definition fresh_worker :: "string \<Rightarrow> string \<Rightarrow> int \<Rightarrow> worker_row" where
  "fresh_worker tid did now =
     \<lparr>w_terminal = tid, w_dispatch = did, w_state = ''initializing'', w_last_output_at = None, w_entered_at = now,
      w_stall_count = 0, w_blocked_reason = None, w_created_at = now, w_updated_at = now\<rparr>"

lemma worker_initialize_Inr:
  assumes "worker_initialize tid did actor reason s = (Inr r, s')"
  shows "r = fresh_worker tid did (clock s) \<and> worker_at s' tid = Some r \<and>
    workers s' = filter (\<lambda>w. w_terminal w \<noteq> tid) (workers s) @ [r] \<and>
    (\<forall>x. x \<noteq> tid \<longrightarrow> worker_at s' x = worker_at s x) \<and> (\<forall>x. stalls x s' = stalls x s)"
proof -
  let ?s1 = "s\<lparr>workers := filter (\<lambda>w. w_terminal w \<noteq> tid) (workers s) @ [fresh_worker tid did (clock s)]\<rparr>"
  from assms obtain md why where "s' = append_worker_event ''worker_state_changed'' tid None (Some ''initializing'')
      actor why md ?s1" "worker_at ?s1 tid = Some r"
    by (auto simp: worker_initialize_def commit_eq_Inr Let_def bindE_eq_Inr fetch_dict_eq_Inr fresh_worker_def)
  then show ?thesis
    by (auto simp: worker_at_def worker_at_filter_same worker_at_filter_other fresh_worker_def stalls_append
        stalls_same_events split: option.splits)
qed

lemma worker_initialize_failed: "worker_initialize tid did actor reason s = (Inl e, s') \<Longrightarrow> s' = s"
  by (simp add: worker_initialize_def Let_def commit_eq_Inl)

lemma worker_cleanup_effect:
  "workers (worker_cleanup tid actor reason s) = filter (\<lambda>w. w_terminal w \<noteq> tid) (workers s) \<and>
   stalls x (worker_cleanup tid actor reason s) = stalls x s \<and>
   (x \<noteq> tid \<longrightarrow> worker_at (worker_cleanup tid actor reason s) x = worker_at s x)"
proof (cases "worker_at s tid")
  case None
  then have "filter (\<lambda>w. w_terminal w \<noteq> tid) (workers s) = workers s"
    by (auto simp: worker_at_def find_None_all filter_id_conv)
  with None show ?thesis by (simp add: worker_cleanup_def)
next
  case (Some w)
  have "x \<noteq> tid \<Longrightarrow> find (\<lambda>w. w_terminal w = x) (filter (\<lambda>w. w_terminal w \<noteq> tid) rows) = find (\<lambda>w. w_terminal w = x) rows"
    for rows using worker_at_filter_other [of x tid rows "[]"] by (simp split: option.splits)
  with Some show ?thesis
    by (auto simp: worker_cleanup_def stalls_append stalls_same_events worker_at_def)
qed

section \<open>Correctness\<close>

text \<open>The calls of the component that change the store.\<close>

datatype worker_cmd =
    W_Init string string string "string option"
  | W_Move string string string "string option" "string option"
  | W_Output string string
  | W_Cleanup string string "string option"

fun worker_exec :: "worker_cmd \<Rightarrow> store \<Rightarrow> store" where
  "worker_exec (W_Init tid did actor reason) s = snd (worker_initialize tid did actor reason s)"
| "worker_exec (W_Move tid t actor reason blocked) s = snd (worker_transition tid t actor reason blocked s)"
| "worker_exec (W_Output tid actor) s = snd (worker_record_output tid actor s)"
| "worker_exec (W_Cleanup tid actor reason) s = worker_cleanup tid actor reason s"

definition worker_ok :: "worker_row \<Rightarrow> bool" where
  "worker_ok w = (w_state w \<in> set WORKER_STATES \<and> 0 \<le> w_stall_count w \<and>
     (w_blocked_reason w \<noteq> None \<longrightarrow> w_state w = ''blocked''))"

definition workers_ok :: "store \<Rightarrow> bool" where
  "workers_ok s = (distinct (map w_terminal (workers s)) \<and> list_all worker_ok (workers s))"

lemma worker_cmd_cases:
  obtains (same) "worker_exec c s = s"
  | (init) tid did r where "workers (worker_exec c s) = filter (\<lambda>w. w_terminal w \<noteq> tid) (workers s) @ [r]"
      "r = fresh_worker tid did (clock s)"
  | (change) tid f w where "workers (worker_exec c s) = update_where (\<lambda>w. w_terminal w = tid) f (workers s)"
      "\<And>x. w_terminal (f x) = w_terminal x" "worker_at s tid = Some w" "worker_ok w \<Longrightarrow> worker_ok (f w)"
  | (cleanup) tid where "workers (worker_exec c s) = filter (\<lambda>w. w_terminal w \<noteq> tid) (workers s)"
proof (cases c)
  case (W_Init tid did actor reason)
  show thesis
  proof (cases "worker_initialize tid did actor reason s")
    case (Pair res s')
    show thesis
    proof (cases res)
      case (Inl e)
      with Pair W_Init worker_initialize_failed same show thesis by fastforce
    next
      case (Inr r)
      with Pair have "worker_initialize tid did actor reason s = (Inr r, s')" by simp
      from worker_initialize_Inr [OF this] Pair W_Init init [of tid r did] show thesis by simp
    qed
  qed
next
  case (W_Move tid t actor reason blocked)
  show thesis
  proof (cases "worker_transition tid t actor reason blocked s")
    case (Pair res s')
    show thesis
    proof (cases res)
      case (Inl e)
      with Pair W_Move worker_transition_failed same show thesis by fastforce
    next
      case (Inr r)
      from worker_transition_Inr [of tid t actor reason blocked s r s'] Pair Inr obtain w f where
        w: "worker_at s tid = Some w" "t \<in> set (allowed_from WORKER_TRANSITIONS (w_state w))"
        "r = moved_worker (clock s) t blocked w" "\<forall>x. w_terminal (f x) = w_terminal x" "f w = r"
        "workers s' = update_where (\<lambda>w. w_terminal w = tid) f (workers s)" by auto
      have "t \<in> set WORKER_STATES" using worker_life.edge_inside [OF w(2)] by simp
      then have "worker_ok w \<Longrightarrow> worker_ok (f w)" using w(3,5) by (simp add: worker_ok_def moved_worker_def)
      with w Pair W_Move change show thesis by simp
    qed
  qed
next
  case (W_Output tid actor)
  show thesis
  proof (cases "worker_record_output tid actor s")
    case (Pair res s')
    show thesis
    proof (cases res)
      case (Inl e)
      with Pair W_Output worker_record_output_failed same show thesis by fastforce
    next
      case (Inr r)
      let ?f = "\<lambda>w :: worker_row. w\<lparr>w_last_output_at := Some (clock s), w_updated_at := clock s\<rparr>"
      from worker_record_output_Inr [of tid actor s r s'] Pair Inr obtain w where
        "worker_at s tid = Some w" "workers s' = update_where (\<lambda>w. w_terminal w = tid) ?f (workers s)" by auto
      then show thesis
        using change [of tid ?f w] Pair W_Output by (simp add: worker_ok_def)
    qed
  qed
next
  case (W_Cleanup tid actor reason)
  then show thesis using cleanup [of tid] worker_cleanup_effect by simp
qed

lemma worker_exec_ok: "workers_ok s \<Longrightarrow> workers_ok (worker_exec c s)"
proof -
  assume ok: "workers_ok s"
  show ?thesis
  proof (cases rule: worker_cmd_cases [of c s])
    case same
    with ok show ?thesis by simp
  next
    case (init tid did r)
    have "''initializing'' \<in> set WORKER_STATES" by code_simp
    with init ok show ?thesis
      by (auto simp: workers_ok_def list_all_iff worker_ok_def fresh_worker_def distinct_map_filter)
  next
    case (change tid f w)
    have "x = w" if "x \<in> set (workers s)" "w_terminal x = tid" for x
      using find_key_unique [of w_terminal "workers s" x] that ok change(3)
      by (simp add: workers_ok_def worker_at_def)
    with change ok show ?thesis
      by (auto simp: workers_ok_def list_all_iff in_update_where map_update_where)
  next
    case (cleanup tid)
    with ok show ?thesis by (auto simp: workers_ok_def list_all_iff distinct_map_filter)
  qed
qed

text \<open>
  Every sequence of worker operations, accepted or refused, keeps one row per terminal,
  every state canonical, every stall count non-negative, and a blocked reason only on a worker
  that is blocked.
\<close>

lemma worker_rows_stay_well_formed:
  assumes "workers_ok s"
  shows "workers_ok (fold worker_exec cs s)"
  using assms by (induction cs arbitrary: s) (simp_all add: worker_exec_ok)

definition worker_demo :: store where
  "worker_demo = (empty_store [] None 1000)
     \<lparr>dispatches := [sample_dispatch ''d1'' None None ''running'' 10],
      leases := [\<lparr>l_terminal = ''T1'', l_project = None, l_state = ''leased'', l_dispatch = Some ''d1'', l_generation = 2,
                  l_leased_at = Some (At 900), l_expires_at = Some (At 9000), l_heartbeat_at = Some (At 950),
                  l_released_at = None\<rparr>]\<rparr>"

lemma worker_rows_stay_well_formed_witness:
  "workers_ok (fold worker_exec [W_Init ''T1'' ''d1'' ''sup'' None, W_Move ''T1'' ''blocked'' ''sup'' None (Some ''no network''),
     W_Move ''T1'' ''working'' ''sup'' None None] worker_demo)"
  by (rule worker_rows_stay_well_formed) code_simp

fun replaces_row :: "string \<Rightarrow> worker_cmd \<Rightarrow> bool" where
  "replaces_row tid (W_Init t _ _ _) = (t = tid)"
| "replaces_row tid (W_Cleanup t _ _) = (t = tid)"
| "replaces_row tid _ = False"

definition stall_balance :: "string \<Rightarrow> int \<Rightarrow> store \<Rightarrow> bool" where
  "stall_balance tid base s =
     (case worker_at s tid of None \<Rightarrow> False | Some w \<Rightarrow> w_stall_count w = stalls tid s - base)"

lemma worker_exec_balance:
  assumes "stall_balance tid base s" and "\<not> replaces_row tid c"
  shows "stall_balance tid base (worker_exec c s)"
proof -
  obtain w where w: "worker_at s tid = Some w" "w_stall_count w = stalls tid s - base"
    using assms(1) by (auto simp: stall_balance_def split: option.splits)
  show ?thesis
  proof (cases c)
    case (W_Init t did actor reason)
    show ?thesis
    proof (cases "fst (worker_initialize t did actor reason s)")
      case (Inl e)
      with worker_initialize_failed [of t did actor reason s e] W_Init assms(1) show ?thesis
        by (cases "worker_initialize t did actor reason s") auto
    next
      case (Inr r)
      then have "worker_initialize t did actor reason s = (Inr r, snd (worker_initialize t did actor reason s))"
        by (cases "worker_initialize t did actor reason s") simp
      from worker_initialize_Inr [OF this] W_Init assms w show ?thesis
        by (auto simp: stall_balance_def)
    qed
  next
    case (W_Move t to actor reason blocked)
    show ?thesis
    proof (cases "fst (worker_transition t to actor reason blocked s)")
      case (Inl e)
      with worker_transition_failed [of t to actor reason blocked s e] W_Move assms(1) show ?thesis
        by (cases "worker_transition t to actor reason blocked s") auto
    next
      case (Inr r)
      then have "worker_transition t to actor reason blocked s = (Inr r, snd (worker_transition t to actor reason blocked s))"
        by (cases "worker_transition t to actor reason blocked s") simp
      from worker_transition_Inr [OF this] W_Move w show ?thesis
        by (cases "t = tid") (auto simp: stall_balance_def moved_worker_def)
    qed
  next
    case (W_Output t actor)
    show ?thesis
    proof (cases "fst (worker_record_output t actor s)")
      case (Inl e)
      with worker_record_output_failed [of t actor s e] W_Output assms(1) show ?thesis
        by (cases "worker_record_output t actor s") auto
    next
      case (Inr r)
      then have "worker_record_output t actor s = (Inr r, snd (worker_record_output t actor s))"
        by (cases "worker_record_output t actor s") simp
      from worker_record_output_Inr [OF this] W_Output w show ?thesis
        by (cases "t = tid") (auto simp: stall_balance_def)
    qed
  next
    case (W_Cleanup t actor reason)
    with assms(2) have "tid \<noteq> t" by simp
    with worker_cleanup_effect [of t actor reason s tid] W_Cleanup w show ?thesis
      by (auto simp: stall_balance_def)
  qed
qed

lemma fold_balance:
  "stall_balance tid base s \<Longrightarrow> list_all (\<lambda>c. \<not> replaces_row tid c) cs \<Longrightarrow> stall_balance tid base (fold worker_exec cs s)"
  by (induction cs arbitrary: s) (simp_all add: worker_exec_balance)

text \<open>
  The stall count counts: from the moment a worker is initialized, and as long as its row is
  neither initialized again nor cleaned up, its stall count is the number of stall events
  logged for its terminal since, whatever else happens on this or other terminals.
\<close>

lemma stall_count_counts_stalls:
  assumes "worker_initialize tid did actor reason s = (Inr r, s1)"
    and "list_all (\<lambda>c. \<not> replaces_row tid c) cs"
  shows "\<exists>w. worker_at (fold worker_exec cs s1) tid = Some w \<and>
    w_stall_count w = stalls tid (fold worker_exec cs s1) - stalls tid s1"
proof -
  have "stall_balance tid (stalls tid s1) s1"
    using worker_initialize_Inr [OF assms(1)] by (simp add: stall_balance_def fresh_worker_def)
  from fold_balance [OF this assms(2)] show ?thesis
    by (auto simp: stall_balance_def split: option.splits)
qed

lemma stall_count_counts_stalls_witness:
  "\<exists>w. worker_at (fold worker_exec [W_Move ''T1'' ''stalled'' ''sup'' None None, W_Move ''T1'' ''working'' ''sup'' None None,
       W_Move ''T1'' ''stalled'' ''sup'' None None] (snd (worker_initialize ''T1'' ''d1'' ''sup'' None worker_demo))) ''T1'' = Some w"
proof -
  have "\<not> isl (fst (worker_initialize ''T1'' ''d1'' ''sup'' None worker_demo))" by code_simp
  then obtain r s1 where ok: "worker_initialize ''T1'' ''d1'' ''sup'' None worker_demo = (Inr r, s1)"
    by (cases "worker_initialize ''T1'' ''d1'' ''sup'' None worker_demo") (auto elim: not_isl_obtain)
  from stall_count_counts_stalls [OF ok, of "[W_Move ''T1'' ''stalled'' ''sup'' None None,
      W_Move ''T1'' ''working'' ''sup'' None None, W_Move ''T1'' ''stalled'' ''sup'' None None]"] ok
  show ?thesis by auto
qed

definition heartbeat_rank :: "string \<Rightarrow> nat" where
  "heartbeat_rank c = (if c = ''fresh'' then 0 else if c = ''stale'' then 1 else 2)"

text \<open>
  Heartbeats only age: with the default thresholds a heartbeat is fresh below 90 seconds,
  stale from 90 to below 300 and dead from 300 on, a missing or unreadable one is dead, and
  for any thresholds a heartbeat that is not renewed never looks fresher later.
\<close>

lemma heartbeats_only_age:
  "(classify_heartbeat (Some (At hb)) now DEFAULT_HEARTBEAT_STALE_THRESHOLD DEFAULT_HEARTBEAT_DEAD_THRESHOLD =
      (if now - hb < 90000000 then ''fresh'' else if now - hb < 300000000 then ''stale'' else ''dead'')) \<and>
   (parse_stamp h = None \<longrightarrow> classify_heartbeat h now stale dead = ''dead'') \<and>
   (now \<le> later \<longrightarrow> heartbeat_rank (classify_heartbeat h now stale dead) \<le>
      heartbeat_rank (classify_heartbeat h later stale dead))"
  by (cases h rule: parse_stamp.cases)
    (auto simp: classify_heartbeat_def Let_def DEFAULT_HEARTBEAT_STALE_THRESHOLD_def
      DEFAULT_HEARTBEAT_DEAD_THRESHOLD_def heartbeat_rank_def sec_def)

lemma heartbeats_only_age_witness:
  "heartbeat_rank (classify_heartbeat (Some (At 0)) 5 90 300) \<le> heartbeat_rank (classify_heartbeat (Some (At 0)) 95000000 90 300)"
  using heartbeats_only_age [where h = "Some (At 0)" and now = 5 and later = 95000000 and stale = 90 and dead = 300] by simp

end
