(* ===== verification/Run_Registry.thy ===== *)
theory Run_Registry
  imports Dispatch_Lifecycle
begin

text \<open>
  \<^verbatim>\<open>scripts/lib/headless_run_registry.py\<close>: durable identity, lifecycle, heartbeat and output
  tracking of headless command line runs.

  Every method commits first and builds its \<^verbatim>\<open>HeadlessRun\<close> from the row afterwards. The class has
  no \<open>project_id\<close> field, so in a store whose \<open>headless_runs\<close> table has that column building the
  value raises \<^verbatim>\<open>TypeError\<close> after the commit; the model keeps the order.
\<close>

section \<open>States and validation\<close>

definition RUN_STATES :: "string list" where
  "RUN_STATES = [''init'', ''running'', ''completing'', ''failing'', ''succeeded'', ''failed'']"

definition TERMINAL_STATES :: "string list" where
  "TERMINAL_STATES = [''succeeded'', ''failed'']"

definition RUN_TRANSITIONS :: "(string \<times> string list) list" where
  "RUN_TRANSITIONS =
     [(''init'', [''running'']), (''running'', [''completing'', ''failing'']), (''completing'', [''succeeded'']),
      (''failing'', [''failed'']), (''succeeded'', []), (''failed'', [])]"

definition FAILURE_CLASSES :: "string list" where
  "FAILURE_CLASSES =
     [''SUCCESS'', ''TOOL_FAIL'', ''INFRA_FAIL'', ''TIMEOUT'', ''NO_OUTPUT'', ''INTERRUPTED'', ''PROMPT_ERR'', ''UNKNOWN'']"

definition DEFAULT_HEARTBEAT_INTERVAL :: int where
  "DEFAULT_HEARTBEAT_INTERVAL = 30"

definition DEFAULT_OUTPUT_HANG_THRESHOLD :: int where
  "DEFAULT_OUTPUT_HANG_THRESHOLD = 120"

definition validate_run_state :: "string \<Rightarrow> exn + unit" where
  "validate_run_state state = guardE (state \<in> set RUN_STATES) (InvalidRunStateError state)"

definition validate_run_transition :: "string \<Rightarrow> string \<Rightarrow> exn + unit" where
  "validate_run_transition from_state to_state =
     bindE (validate_run_state from_state) (\<lambda>_.
     bindE (validate_run_state to_state) (\<lambda>_.
     guardE (to_state \<in> set (allowed_from RUN_TRANSITIONS from_state))
       (InvalidRunTransitionError from_state to_state)))"

definition validate_failure_class :: "string \<Rightarrow> exn + unit" where
  "validate_failure_class fc = guardE (fc \<in> set FAILURE_CLASSES) (InvalidFailureClassError fc)"

section \<open>The record\<close>

definition run_is_terminal :: "run_row \<Rightarrow> bool" where
  "run_is_terminal r = (r_state r \<in> set TERMINAL_STATES)"

definition seconds_since_exceed :: "int \<Rightarrow> int \<Rightarrow> int \<Rightarrow> bool" where
  "seconds_since_exceed now t seconds = (now - t > seconds * sec)"

definition run_is_stale :: "int \<Rightarrow> run_row \<Rightarrow> bool" where
  "run_is_stale now r =
     (case r_heartbeat_at r of
        None \<Rightarrow> False
      | Some t \<Rightarrow> r_state r = ''running'' \<and> seconds_since_exceed now t (DEFAULT_HEARTBEAT_INTERVAL * 2))"

definition run_is_hung :: "int \<Rightarrow> run_row \<Rightarrow> bool" where
  "run_is_hung now r =
     (case r_last_output_at r of
        None \<Rightarrow> False
      | Some t \<Rightarrow> r_state r = ''running'' \<and> seconds_since_exceed now t DEFAULT_OUTPUT_HANG_THRESHOLD)"

definition row_to_run :: "store \<Rightarrow> run_row \<Rightarrow> exn + run_row" where
  "row_to_run s r = (if has_project_id_col s ''headless_runs'' then Inl TypeError else Inr r)"

definition rows_to_runs :: "store \<Rightarrow> run_row list \<Rightarrow> exn + run_row list" where
  "rows_to_runs s rows = foldE (\<lambda>r acc. bindE (row_to_run s r) (\<lambda>x. Inr (acc @ [x]))) rows []"

definition run_at :: "store \<Rightarrow> string \<Rightarrow> run_row option" where
  "run_at s run_id = find (\<lambda>r. r_id r = run_id) (runs s)"

text \<open>What a method returns once its transaction is committed.\<close>

definition committed_run :: "store \<Rightarrow> string \<Rightarrow> exn + store \<Rightarrow> (exn + run_row) \<times> store" where
  "committed_run s run_id m =
     (case m of
        Inl e \<Rightarrow> (Inl e, s)
      | Inr s' \<Rightarrow> (bindE (fetch_dict (run_at s' run_id)) (row_to_run s'), s'))"

section \<open>Creation and transitions\<close>

definition run_refs_ok :: "store \<Rightarrow> string \<Rightarrow> string \<Rightarrow> bool" where
  "run_refs_ok s dispatch_id attempt_id =
     (let project = column_default s ''headless_runs'' in
      dispatch_ref_ok s dispatch_id project \<and>
      list_ex (\<lambda>a. a_id a = attempt_id \<and> (project = None \<or> a_project a = project)) (attempts s))"

definition create_run ::
  "string \<Rightarrow> string \<Rightarrow> string \<Rightarrow> string \<Rightarrow> string \<Rightarrow> string option \<Rightarrow> (string \<times> json) list option \<Rightarrow>
   store \<Rightarrow> (exn + run_row) \<times> store" where
  "create_run dispatch_id attempt_id target_id target_type task_class terminal_id metadata s =
     (let run_id = new_uuid s;
          row = \<lparr>r_id = run_id, r_dispatch = dispatch_id, r_attempt = attempt_id, r_target = target_id,
                 r_target_type = target_type, r_task_class = task_class, r_terminal = terminal_id, r_pid = None,
                 r_pgid = None, r_state = ''init'', r_failure_class = None, r_exit_code = None,
                 r_started_at = clock s, r_subprocess_started_at = None, r_heartbeat_at = None,
                 r_last_output_at = None, r_completed_at = None, r_duration = None, r_log_path = None,
                 r_output_path = None, r_receipt = None, r_metadata = dump metadata\<rparr>;
          s1 = s\<lparr>uuid_next := Suc (uuid_next s), runs := runs s @ [row]\<rparr>
      in committed_run s run_id
           (bindE (guardE (run_refs_ok s dispatch_id attempt_id)
                     (IntegrityError ''FOREIGN KEY constraint failed'')) (\<lambda>_.
            bindE (guardE (run_at s run_id = None)
                     (IntegrityError ''UNIQUE constraint failed: headless_runs.run_id'')) (\<lambda>_.
            append_event ''headless_run_transition'' ''headless_run'' run_id None (Some ''init'')
              ''headless_adapter'' (Some ''run created'')
              (Some [(''dispatch_id'', JStr dispatch_id), (''attempt_id'', JStr attempt_id),
                     (''target_id'', JStr target_id), (''target_type'', JStr target_type),
                     (''task_class'', JStr task_class)]) None s1))))"

text \<open>The optional keywords of \<^verbatim>\<open>transition\<close> that write a column.\<close>

record run_fields =
  rf_pid :: "int option"
  rf_pgid :: "int option"
  rf_exit_code :: "int option"
  rf_failure_class :: "string option"
  rf_log_path :: "string option"
  rf_output_path :: "string option"
  rf_receipt :: "string option"
  rf_duration :: "rat option"

definition no_fields :: run_fields where
  "no_fields = \<lparr>rf_pid = None, rf_pgid = None, rf_exit_code = None, rf_failure_class = None, rf_log_path = None,
     rf_output_path = None, rf_receipt = None, rf_duration = None\<rparr>"

fun if_given :: "'a option \<Rightarrow> 'a option \<Rightarrow> 'a option" where
  "if_given None old = old"
| "if_given (Some v) old = Some v"

definition apply_run_update :: "int \<Rightarrow> string \<Rightarrow> run_fields \<Rightarrow> run_row \<Rightarrow> run_row" where
  "apply_run_update now to_state f r =
     r\<lparr>r_state := to_state,
       r_subprocess_started_at := (if to_state = ''running'' then Some now else r_subprocess_started_at r),
       r_heartbeat_at := (if to_state = ''running'' then Some now else r_heartbeat_at r),
       r_last_output_at := (if to_state = ''running'' then Some now else r_last_output_at r),
       r_pid := if_given (rf_pid f) (r_pid r), r_pgid := if_given (rf_pgid f) (r_pgid r),
       r_exit_code := if_given (rf_exit_code f) (r_exit_code r),
       r_failure_class := if_given (rf_failure_class f) (r_failure_class r),
       r_log_path := if_given (rf_log_path f) (r_log_path r),
       r_output_path := if_given (rf_output_path f) (r_output_path r),
       r_receipt := if_given (rf_receipt f) (r_receipt r),
       r_duration := if_given (rf_duration f) (r_duration r),
       r_completed_at := (if to_state \<in> set TERMINAL_STATES then Some now else r_completed_at r)\<rparr>"

definition run_event_metadata ::
  "run_row \<Rightarrow> run_fields \<Rightarrow> (string \<times> json) list option \<Rightarrow> (string \<times> json) list" where
  "run_event_metadata r f metadata =
     fold (\<lambda>(k, v) m. AList.update k v m) (case metadata of None \<Rightarrow> [] | Some m \<Rightarrow> m)
       ([(''dispatch_id'', JStr (r_dispatch r)), (''attempt_id'', JStr (r_attempt r))] @
        (case rf_pid f of None \<Rightarrow> [] | Some p \<Rightarrow> [(''pid'', JInt p)]) @
        (case rf_exit_code f of None \<Rightarrow> [] | Some c \<Rightarrow> [(''exit_code'', JInt c)]) @
        (case rf_failure_class f of None \<Rightarrow> [] | Some c \<Rightarrow> [(''failure_class'', JStr c)]) @
        (case rf_duration f of None \<Rightarrow> [] | Some d \<Rightarrow> [(''duration_seconds'', JNum d)]))"

definition update_runs :: "string \<Rightarrow> (run_row \<Rightarrow> run_row) \<Rightarrow> store \<Rightarrow> store" where
  "update_runs run_id f s = s\<lparr>runs := update_where (\<lambda>r. r_id r = run_id) f (runs s)\<rparr>"

definition run_transition ::
  "string \<Rightarrow> string \<Rightarrow> run_fields \<Rightarrow> string \<Rightarrow> string option \<Rightarrow> (string \<times> json) list option \<Rightarrow>
   store \<Rightarrow> (exn + run_row) \<times> store" where
  "run_transition run_id to_state f actor reason metadata s =
     committed_run s run_id
       (case run_at s run_id of
          None \<Rightarrow> Inl (RunNotFoundError run_id)
        | Some row \<Rightarrow>
            bindE (validate_run_transition (r_state row) to_state) (\<lambda>_.
            bindE (case rf_failure_class f of None \<Rightarrow> Inr () | Some fc \<Rightarrow> validate_failure_class fc) (\<lambda>_.
            append_event ''headless_run_transition'' ''headless_run'' run_id (Some (r_state row)) (Some to_state)
              actor (Some (or_else reason (''transition to '' @ to_state)))
              (Some (run_event_metadata row f metadata)) None
              (update_runs run_id (apply_run_update (clock s) to_state f) s))))"

section \<open>Heartbeat and output\<close>

definition update_heartbeat :: "string \<Rightarrow> store \<Rightarrow> (exn + run_row) \<times> store" where
  "update_heartbeat run_id s =
     committed_run s run_id
       (case run_at s run_id of
          None \<Rightarrow> Inl (RunNotFoundError run_id)
        | Some row \<Rightarrow>
            bindE (guardE (r_state row = ''running'') (InvalidRunStateError (r_state row))) (\<lambda>_.
            Inr (update_runs run_id (\<lambda>r. r\<lparr>r_heartbeat_at := Some (clock s)\<rparr>) s)))"

definition update_last_output :: "string \<Rightarrow> store \<Rightarrow> (exn + run_row) \<times> store" where
  "update_last_output run_id s =
     committed_run s run_id
       (case run_at s run_id of
          None \<Rightarrow> Inl (RunNotFoundError run_id)
        | Some row \<Rightarrow>
            bindE (guardE (r_state row = ''running'') (InvalidRunStateError (r_state row))) (\<lambda>_.
            Inr (update_runs run_id (\<lambda>r. r\<lparr>r_last_output_at := Some (clock s)\<rparr>) s)))"

section \<open>Queries\<close>

definition run_get :: "store \<Rightarrow> string \<Rightarrow> exn + run_row option" where
  "run_get s run_id =
     (case run_at s run_id of None \<Rightarrow> Inr None | Some r \<Rightarrow> bindE (row_to_run s r) (\<lambda>x. Inr (Some x)))"

definition run_get_or_raise :: "store \<Rightarrow> string \<Rightarrow> exn + run_row" where
  "run_get_or_raise s run_id =
     bindE (run_get s run_id) (\<lambda>r. case r of None \<Rightarrow> Inl (RunNotFoundError run_id) | Some x \<Rightarrow> Inr x)"

definition list_active :: "store \<Rightarrow> exn + run_row list" where
  "list_active s = rows_to_runs s (sort_key (\<lambda>r. - r_started_at r) (filter (\<lambda>r. r_state r = ''running'') (runs s)))"

definition list_by_state :: "store \<Rightarrow> string \<Rightarrow> exn + run_row list" where
  "list_by_state s state =
     bindE (validate_run_state state)
       (\<lambda>_. rows_to_runs s (sort_key (\<lambda>r. - r_started_at r) (filter (\<lambda>r. r_state r = state) (runs s))))"

definition list_by_dispatch :: "store \<Rightarrow> string \<Rightarrow> exn + run_row list" where
  "list_by_dispatch s dispatch_id =
     rows_to_runs s (sort_key (\<lambda>r. - r_started_at r) (filter (\<lambda>r. r_dispatch r = dispatch_id) (runs s)))"

definition older_than :: "int \<Rightarrow> int option \<Rightarrow> int \<Rightarrow> bool" where
  "older_than now t seconds = (case t of None \<Rightarrow> False | Some x \<Rightarrow> seconds_since_exceed now x seconds)"

definition list_stale :: "store \<Rightarrow> int \<Rightarrow> exn + run_row list" where
  "list_stale s heartbeat_interval =
     rows_to_runs s (sort_key (\<lambda>r. the (r_heartbeat_at r))
       (filter (\<lambda>r. r_state r = ''running'' \<and> older_than (clock s) (r_heartbeat_at r) (heartbeat_interval * 2))
         (runs s)))"

definition list_hung :: "store \<Rightarrow> int \<Rightarrow> exn + run_row list" where
  "list_hung s output_hang_threshold =
     rows_to_runs s (sort_key (\<lambda>r. the (r_last_output_at r))
       (filter (\<lambda>r. r_state r = ''running'' \<and> older_than (clock s) (r_last_output_at r) output_hang_threshold)
         (runs s)))"

definition list_recent :: "store \<Rightarrow> int \<Rightarrow> exn + run_row list" where
  "list_recent s limit = rows_to_runs s (sql_limit limit (sort_key (\<lambda>r. - r_started_at r) (runs s)))"

section \<open>The run lifecycle\<close>

lemma run_table_closed: "table_closed RUN_STATES RUN_TRANSITIONS"
  by code_simp

lemma run_stuck: "stuck_exactly RUN_STATES RUN_TRANSITIONS TERMINAL_STATES"
  by code_simp

lemma validate_run_transition_iff:
  "validate_run_transition s t = Inr u \<longleftrightarrow> t \<in> set (allowed_from RUN_TRANSITIONS s)"
  using table_closed_edge [OF run_table_closed, of t s]
  by (auto simp: validate_run_transition_def validate_run_state_def result_iffs)

interpretation run_life: validated_lifecycle RUN_STATES TERMINAL_STATES RUN_TRANSITIONS validate_run_transition
proof unfold_locales
  show "set TERMINAL_STATES \<subseteq> set RUN_STATES" by code_simp
qed (use validate_run_transition_iff table_closedD [OF run_table_closed]
       stuck_exactlyD [OF run_stuck] in blast)+

section \<open>Effects\<close>

lemma update_runs_simps [simp]:
  "runs (update_runs rid f s) = update_where (\<lambda>r. r_id r = rid) f (runs s)"
  "events (update_runs rid f s) = events s"
  "clock (update_runs rid f s) = clock s"
  "has_project_id_col (update_runs rid f s) t = has_project_id_col s t"
  by (simp_all add: update_runs_def has_project_id_col_def)

lemma run_at_log [simp]: "run_at (log_event e s) rid = run_at s rid"
  by (simp add: run_at_def)

lemma has_project_id_col_log [simp]: "has_project_id_col (log_event e s) t = has_project_id_col s t"
  by (simp add: has_project_id_col_def)

lemma row_to_run_log [simp]:
  "row_to_run (log_event e s) = row_to_run s" "row_to_run (update_runs rid f s) = row_to_run s"
  by (simp_all add: row_to_run_def fun_eq_iff)

lemma run_at_update:
  assumes "\<And>r. r_id (f r) = r_id r"
  shows "run_at (update_runs rid f s) x = (if x = rid then map_option f (run_at s x) else run_at s x)"
  using assms by (simp add: run_at_def find_update_where find_update_where_other)

lemma apply_run_update_id [simp]: "r_id (apply_run_update now t f r) = r_id r"
  by (simp add: apply_run_update_def)

lemma events_ok_update_runs [simp]: "events_ok (update_runs rid f s) = events_ok s"
  by (rule events_ok_cong) (simp_all add: update_runs_def)

text \<open>The store after a transition, whether or not the value can be built.\<close>

lemma run_transition_store:
  "(snd (run_transition rid t f actor reason md s) = s \<and> isl (fst (run_transition rid t f actor reason md s))) \<or>
   (\<exists>row e. run_at s rid = Some row \<and> t \<in> set (allowed_from RUN_TRANSITIONS (r_state row)) \<and>
      (\<forall>fc. rf_failure_class f = Some fc \<longrightarrow> fc \<in> set FAILURE_CLASSES) \<and>
      snd (run_transition rid t f actor reason md s) =
        log_event e (update_runs rid (apply_run_update (clock s) t f) s) \<and>
      fst (run_transition rid t f actor reason md s) = row_to_run s (apply_run_update (clock s) t f row))"
proof (cases "run_at s rid")
  case None
  then show ?thesis by (simp add: run_transition_def committed_run_def)
next
  case (Some row)
  let ?m = "case run_at s rid of
          None \<Rightarrow> Inl (RunNotFoundError rid)
        | Some row \<Rightarrow>
            bindE (validate_run_transition (r_state row) t) (\<lambda>_.
            bindE (case rf_failure_class f of None \<Rightarrow> Inr () | Some fc \<Rightarrow> validate_failure_class fc) (\<lambda>_.
            append_event ''headless_run_transition'' ''headless_run'' rid (Some (r_state row)) (Some t)
              actor (Some (or_else reason (''transition to '' @ t)))
              (Some (run_event_metadata row f md)) None
              (update_runs rid (apply_run_update (clock s) t f) s)))"
  show ?thesis
  proof (cases ?m)
    case (Inl e)
    then show ?thesis by (simp add: run_transition_def committed_run_def)
  next
    case (Inr s')
    with Some have "t \<in> set (allowed_from RUN_TRANSITIONS (r_state row))"
      "\<forall>fc. rf_failure_class f = Some fc \<longrightarrow> fc \<in> set FAILURE_CLASSES"
      "\<exists>e. s' = log_event e (update_runs rid (apply_run_update (clock s) t f) s)"
      by (auto simp: bindE_eq_Inr validate_run_transition_iff append_event_None_eq_Inr validate_failure_class_def
          guardE_eq_Inr split: option.splits)
    with Inr Some show ?thesis
      by (auto simp: run_transition_def committed_run_def run_at_update)
  qed
qed

lemma create_run_store:
  "snd (create_run did aid target ttype cls tid md s) = s \<or>
   (\<exists>row e. run_at s (r_id row) = None \<and> r_state row = ''init'' \<and> r_completed_at row = None \<and>
      r_subprocess_started_at row = None \<and> r_heartbeat_at row = None \<and> r_last_output_at row = None \<and>
      r_failure_class row = None \<and> r_dispatch row = did \<and> r_attempt row = aid \<and>
      snd (create_run did aid target ttype cls tid md s) =
        log_event e (s\<lparr>uuid_next := Suc (uuid_next s), runs := runs s @ [row]\<rparr>))"
proof -
  define row where "row = \<lparr>r_id = new_uuid s, r_dispatch = did, r_attempt = aid, r_target = target,
       r_target_type = ttype, r_task_class = cls, r_terminal = tid, r_pid = None,
       r_pgid = None, r_state = ''init'', r_failure_class = None, r_exit_code = None,
       r_started_at = clock s, r_subprocess_started_at = None, r_heartbeat_at = None,
       r_last_output_at = None, r_completed_at = None, r_duration = None, r_log_path = None,
       r_output_path = None, r_receipt = None, r_metadata = dump md\<rparr>"
  let ?s1 = "s\<lparr>uuid_next := Suc (uuid_next s), runs := runs s @ [row]\<rparr>"
  have "snd (create_run did aid target ttype cls tid md s) = s \<or>
    run_at s (new_uuid s) = None \<and> (\<exists>e. snd (create_run did aid target ttype cls tid md s) = log_event e ?s1)"
    by (auto simp: create_run_def Let_def committed_run_def row_def [symmetric] append_event_None_eq_Inr bindE_def
        guardE_def split: sum.splits)
  then show ?thesis by (auto simp: row_def intro: exI [of _ row])
qed

lemma update_row_store:
  "(snd (update_heartbeat rid s) = s) \<or>
   (\<exists>row. run_at s rid = Some row \<and> r_state row = ''running'' \<and>
      snd (update_heartbeat rid s) = update_runs rid (\<lambda>r. r\<lparr>r_heartbeat_at := Some (clock s)\<rparr>) s \<and>
      fst (update_heartbeat rid s) = row_to_run s (row\<lparr>r_heartbeat_at := Some (clock s)\<rparr>))"
  "(snd (update_last_output rid s) = s) \<or>
   (\<exists>row. run_at s rid = Some row \<and> r_state row = ''running'' \<and>
      snd (update_last_output rid s) = update_runs rid (\<lambda>r. r\<lparr>r_last_output_at := Some (clock s)\<rparr>) s)"
  by (auto simp: update_heartbeat_def update_last_output_def committed_run_def bindE_def guardE_def run_at_update
      split: option.splits)

section \<open>Correctness\<close>

datatype run_cmd =
    R_Create string string string string string "string option" "(string \<times> json) list option"
  | R_Move string string run_fields string "string option" "(string \<times> json) list option"
  | R_Beat string
  | R_Output string

fun run_exec :: "run_cmd \<Rightarrow> store \<Rightarrow> store" where
  "run_exec (R_Create did aid target ttype cls tid md) s = snd (create_run did aid target ttype cls tid md s)"
| "run_exec (R_Move rid t f actor reason md) s = snd (run_transition rid t f actor reason md s)"
| "run_exec (R_Beat rid) s = snd (update_heartbeat rid s)"
| "run_exec (R_Output rid) s = snd (update_last_output rid s)"

definition run_ok :: "run_row \<Rightarrow> bool" where
  "run_ok r = (r_state r \<in> set RUN_STATES \<and>
     (r_completed_at r \<noteq> None \<longleftrightarrow> run_is_terminal r) \<and>
     (r_subprocess_started_at r \<noteq> None \<longleftrightarrow> r_state r \<noteq> ''init'') \<and>
     (r_heartbeat_at r \<noteq> None \<longleftrightarrow> r_state r \<noteq> ''init'') \<and>
     (r_last_output_at r \<noteq> None \<longleftrightarrow> r_state r \<noteq> ''init'') \<and>
     (case r_failure_class r of None \<Rightarrow> True | Some fc \<Rightarrow> fc \<in> set FAILURE_CLASSES))"

definition runs_ok :: "store \<Rightarrow> bool" where
  "runs_ok s = (distinct (map r_id (runs s)) \<and> list_all run_ok (runs s))"

lemma run_edges:
  assumes "t \<in> set (allowed_from RUN_TRANSITIONS q)"
  shows "(q, t) \<in> {(''init'', ''running''), (''running'', ''completing''), (''running'', ''failing''),
     (''completing'', ''succeeded''), (''failing'', ''failed'')}"
  using assms by (auto simp: RUN_TRANSITIONS_def allowed_from_def split: if_splits)

lemma apply_run_update_ok:
  assumes "run_ok r" and "t \<in> set (allowed_from RUN_TRANSITIONS (r_state r))"
    and "\<forall>fc. rf_failure_class f = Some fc \<longrightarrow> fc \<in> set FAILURE_CLASSES"
  shows "run_ok (apply_run_update now t f r)"
proof -
  have "case if_given (rf_failure_class f) (r_failure_class r) of None \<Rightarrow> True | Some fc \<Rightarrow> fc \<in> set FAILURE_CLASSES"
    using assms(1,3) by (cases "rf_failure_class f") (auto simp: run_ok_def)
  moreover have sets: "t \<in> set RUN_STATES"
    using run_life.edge_inside [OF assms(2)] by simp
  moreover have "t \<noteq> ''init''" "r_state r \<notin> set TERMINAL_STATES" "r_state r = ''init'' \<longleftrightarrow> t = ''running''"
  proof -
    have "t \<noteq> ''init'' \<and> r_state r \<notin> {''succeeded'', ''failed''} \<and> (r_state r = ''init'' \<longleftrightarrow> t = ''running'')"
      using run_edges [OF assms(2)] by fastforce
    then show "t \<noteq> ''init''" "r_state r \<notin> set TERMINAL_STATES" "r_state r = ''init'' \<longleftrightarrow> t = ''running''"
      by (auto simp: TERMINAL_STATES_def)
  qed
  ultimately show ?thesis
    using assms(1) by (auto simp: run_ok_def apply_run_update_def run_is_terminal_def)
qed

lemma update_runs_ok:
  assumes "runs_ok s" and "run_at s rid = Some row" and "\<And>r. r_id (f r) = r_id r" and "run_ok row \<Longrightarrow> run_ok (f row)"
  shows "distinct (map r_id (update_where (\<lambda>r. r_id r = rid) f (runs s))) \<and>
    list_all run_ok (update_where (\<lambda>r. r_id r = rid) f (runs s))"
proof -
  have "r = row" if "r \<in> set (runs s)" "r_id r = rid" for r
    using find_key_unique [of r_id "runs s" r] that assms(1,2) by (simp add: runs_ok_def run_at_def)
  with assms show ?thesis
    by (auto simp: runs_ok_def list_all_iff in_update_where map_update_where)
qed

lemma run_exec_ok:
  assumes "runs_ok s"
  shows "runs_ok (run_exec c s)"
proof (cases c)
  case (R_Create did aid target ttype cls tid md)
  have init: "''init'' \<in> set RUN_STATES" "''init'' \<notin> set TERMINAL_STATES" by code_simp+
  from create_run_store [of did aid target ttype cls tid md s] show ?thesis
  proof (elim disjE exE conjE)
    fix row e
    assume new: "run_at s (r_id row) = None" and row: "r_state row = ''init''" "r_completed_at row = None"
      "r_subprocess_started_at row = None" "r_heartbeat_at row = None" "r_last_output_at row = None"
      "r_failure_class row = None"
      and step: "snd (create_run did aid target ttype cls tid md s) =
        log_event e (s\<lparr>uuid_next := Suc (uuid_next s), runs := runs s @ [row]\<rparr>)"
    have "r_id row \<notin> r_id ` set (runs s)" using new by (auto simp: run_at_def find_None_all)
    moreover have "run_ok row" using row init by (simp add: run_ok_def run_is_terminal_def)
    ultimately show ?thesis using R_Create step assms by (simp add: runs_ok_def)
  qed (use R_Create assms in simp)
next
  case (R_Move rid t f actor reason md)
  from run_transition_store [of rid t f actor reason md s] show ?thesis
  proof
    assume "snd (run_transition rid t f actor reason md s) = s \<and> isl (fst (run_transition rid t f actor reason md s))"
    with R_Move assms show ?thesis by simp
  next
    assume "\<exists>row e. run_at s rid = Some row \<and> t \<in> set (allowed_from RUN_TRANSITIONS (r_state row)) \<and>
      (\<forall>fc. rf_failure_class f = Some fc \<longrightarrow> fc \<in> set FAILURE_CLASSES) \<and>
      snd (run_transition rid t f actor reason md s) = log_event e (update_runs rid (apply_run_update (clock s) t f) s) \<and>
      fst (run_transition rid t f actor reason md s) = row_to_run s (apply_run_update (clock s) t f row)"
    then obtain row e where *: "run_at s rid = Some row" "t \<in> set (allowed_from RUN_TRANSITIONS (r_state row))"
      "\<forall>fc. rf_failure_class f = Some fc \<longrightarrow> fc \<in> set FAILURE_CLASSES"
      "snd (run_transition rid t f actor reason md s) = log_event e (update_runs rid (apply_run_update (clock s) t f) s)"
      by blast
    from update_runs_ok [OF assms *(1), of "apply_run_update (clock s) t f"] apply_run_update_ok [OF _ *(2,3)] *(4) R_Move
    show ?thesis by (simp add: runs_ok_def)
  qed
next
  case (R_Beat rid)
  from update_row_store(1) [of rid s] show ?thesis
  proof
    assume "\<exists>row. run_at s rid = Some row \<and> r_state row = ''running'' \<and>
      snd (update_heartbeat rid s) = update_runs rid (\<lambda>r. r\<lparr>r_heartbeat_at := Some (clock s)\<rparr>) s \<and>
      fst (update_heartbeat rid s) = row_to_run s (row\<lparr>r_heartbeat_at := Some (clock s)\<rparr>)"
    then obtain row where *: "run_at s rid = Some row" "r_state row = ''running''"
      "snd (update_heartbeat rid s) = update_runs rid (\<lambda>r. r\<lparr>r_heartbeat_at := Some (clock s)\<rparr>) s" by blast
    have "run_ok row \<Longrightarrow> run_ok (row\<lparr>r_heartbeat_at := Some (clock s)\<rparr>)"
      using *(2) by (simp add: run_ok_def run_is_terminal_def)
    with update_runs_ok [OF assms *(1), of "\<lambda>r. r\<lparr>r_heartbeat_at := Some (clock s)\<rparr>"] *(3) R_Beat
    show ?thesis by (simp add: runs_ok_def)
  qed (use R_Beat assms in simp)
next
  case (R_Output rid)
  from update_row_store(2) [of rid s] show ?thesis
  proof
    assume "\<exists>row. run_at s rid = Some row \<and> r_state row = ''running'' \<and>
      snd (update_last_output rid s) = update_runs rid (\<lambda>r. r\<lparr>r_last_output_at := Some (clock s)\<rparr>) s"
    then obtain row where *: "run_at s rid = Some row" "r_state row = ''running''"
      "snd (update_last_output rid s) = update_runs rid (\<lambda>r. r\<lparr>r_last_output_at := Some (clock s)\<rparr>) s" by blast
    have "run_ok row \<Longrightarrow> run_ok (row\<lparr>r_last_output_at := Some (clock s)\<rparr>)"
      using *(2) by (simp add: run_ok_def run_is_terminal_def)
    with update_runs_ok [OF assms *(1), of "\<lambda>r. r\<lparr>r_last_output_at := Some (clock s)\<rparr>"] *(3) R_Output
    show ?thesis by (simp add: runs_ok_def)
  qed (use R_Output assms in simp)
qed

text \<open>
  C31: Every sequence of registry calls keeps every run record consistent: its state is
  canonical, it has a completion time exactly when it is in a terminal state, it has start,
  heartbeat and output times exactly once its subprocess runs, a recorded failure class is one
  of the declared classes, and run ids stay unique.
\<close>

theorem run_records_stay_consistent:
  assumes "runs_ok s"
  shows "runs_ok (fold run_exec cs s)"
  using assms by (induction cs arbitrary: s) (simp_all add: run_exec_ok)

definition run_demo :: store where
  "run_demo = (empty_store [] None 1000)
     \<lparr>dispatches := [sample_dispatch ''d1'' None None ''running'' 10],
      attempts := [\<lparr>a_id = ''a1'', a_dispatch = ''d1'', a_project = None, a_number = 1, a_terminal = ''T1'',
                    a_state = ''pending'', a_started_at = 20, a_ended_at = None, a_failure_reason = None,
                    a_metadata = JObj []\<rparr>]\<rparr>"

lemma run_records_stay_consistent_witness:
  "runs_ok (fold run_exec [R_Create ''d1'' ''a1'' ''t'' ''cli'' ''c'' None None, R_Move ''uuid-0'' ''running'' no_fields ''h'' None None,
     R_Beat ''uuid-0'', R_Move ''uuid-0'' ''failing'' no_fields ''h'' None None] run_demo)"
  by (rule run_records_stay_consistent) code_simp

section \<open>The length of a run\<close>

definition run_rank :: "string \<Rightarrow> nat" where
  "run_rank q = (if q = ''init'' then 3 else if q = ''running'' then 2
                 else if q \<in> {''completing'', ''failing''} then 1 else 0)"

definition run_moves :: "string \<Rightarrow> string list \<Rightarrow> store \<Rightarrow> exn + store" where
  "run_moves rid ts s =
     foldE (\<lambda>t s. case run_transition rid t no_fields ''headless_adapter'' None None s of
                   (Inl e, _) \<Rightarrow> Inl e | (Inr _, s') \<Rightarrow> Inr s') ts s"

lemma run_transition_ok:
  assumes "run_at s rid = Some row" and "events_ok s" and "\<not> has_project_id_col s ''headless_runs''"
    and "t \<in> set (allowed_from RUN_TRANSITIONS (r_state row))"
  shows "\<exists>r s'. run_transition rid t no_fields actor reason md s = (Inr r, s') \<and> run_at s' rid = Some r \<and>
    r_state r = t \<and> events_ok s' \<and> \<not> has_project_id_col s' ''headless_runs''"
proof -
  let ?s1 = "update_runs rid (apply_run_update (clock s) t no_fields) s"
  have "validate_run_transition (r_state row) t = Inr ()" using assms(4) by (simp add: validate_run_transition_iff)
  then obtain e where "run_transition rid t no_fields actor reason md s =
      committed_run s rid (Inr (log_event e ?s1))"
    using assms(1,2) append_event_ok [of ?s1]
    by (simp add: run_transition_def no_fields_def)
  with assms show ?thesis
    by (simp add: committed_run_def run_at_update row_to_run_def apply_run_update_def)
qed

lemma run_transition_refused:
  assumes "run_at s rid = Some row" and "t \<notin> set (allowed_from RUN_TRANSITIONS (r_state row))"
  shows "\<exists>e. run_transition rid t f actor reason md s = (Inl e, s)"
proof -
  have "validate_run_transition (r_state row) t \<noteq> Inr ()" using assms(2) by (simp add: validate_run_transition_iff)
  then obtain e where "validate_run_transition (r_state row) t = Inl e"
    by (cases "validate_run_transition (r_state row) t") auto
  with assms(1) show ?thesis by (simp add: run_transition_def committed_run_def)
qed

lemma run_rank_edge: "t \<in> set (allowed_from RUN_TRANSITIONS q) \<Longrightarrow> run_rank q = Suc (run_rank t)"
  using run_edges [of t q] by (auto simp: run_rank_def)

text \<open>
  The registry accepts exactly the walks of the run table, and no run goes backwards or on
  for ever: the number of accepted transitions is the drop in rank, so a run is over after
  exactly three of them.
\<close>

lemma runs_move_forward_and_end:
  assumes "run_at s rid = Some row" and "events_ok s" and "\<not> has_project_id_col s ''headless_runs''"
  shows "case run_moves rid ts s of
      Inl e \<Rightarrow> \<not> walk RUN_TRANSITIONS (r_state row) ts
    | Inr s' \<Rightarrow> walk RUN_TRANSITIONS (r_state row) ts \<and>
        (\<exists>r. run_at s' rid = Some r \<and> r_state r = last_state (r_state row) ts \<and>
             length ts + run_rank (r_state r) = run_rank (r_state row))"
  using assms
proof (induction ts arbitrary: s row)
  case Nil
  then show ?case by (simp add: run_moves_def)
next
  case (Cons t ts)
  show ?case
  proof (cases "t \<in> set (allowed_from RUN_TRANSITIONS (r_state row))")
    case False
    from run_transition_refused [OF Cons.prems(1) this] obtain e where
      "run_transition rid t no_fields ''headless_adapter'' None None s = (Inl e, s)" by blast
    with False show ?thesis by (simp add: run_moves_def)
  next
    case True
    from run_transition_ok [OF Cons.prems True] obtain r s1 where
      step: "run_transition rid t no_fields ''headless_adapter'' None None s = (Inr r, s1)"
      and r: "run_at s1 rid = Some r" "r_state r = t" "events_ok s1" "\<not> has_project_id_col s1 ''headless_runs''"
      by blast
    from Cons.IH [OF r(1,3,4)] True step r(2) run_rank_edge [OF True] show ?thesis
      by (auto simp: run_moves_def last_state_def split: sum.splits)
  qed
qed

lemma runs_move_forward_and_end_witness:
  "case run_moves ''uuid-0'' [''running'', ''failing'', ''failed'']
        (snd (create_run ''d1'' ''a1'' ''t'' ''cli'' ''c'' None None run_demo)) of
     Inl e \<Rightarrow> False | Inr s' \<Rightarrow> map_option r_state (run_at s' ''uuid-0'') = Some ''failed''"
proof -
  let ?s = "snd (create_run ''d1'' ''a1'' ''t'' ''cli'' ''c'' None None run_demo)"
  have "map_option r_state (run_at ?s ''uuid-0'') = Some ''init''" by code_simp
  then obtain row where row: "run_at ?s ''uuid-0'' = Some row" "r_state row = ''init''" by auto
  have ok: "events_ok ?s" "\<not> has_project_id_col ?s ''headless_runs''" by code_simp+
  have "walk RUN_TRANSITIONS ''init'' [''running'', ''failing'', ''failed'']" by code_simp
  with runs_move_forward_and_end [OF row(1) ok, of "[''running'', ''failing'', ''failed'']"] row(2) show ?thesis
    by (auto simp: last_state_def split: sum.splits)
qed

section \<open>Stale and hung runs\<close>

lemma rows_to_runs_eq:
  "rows_to_runs s rows = (if rows \<noteq> [] \<and> has_project_id_col s ''headless_runs'' then Inl TypeError else Inr rows)"
proof -
  have "foldE (\<lambda>r acc. bindE (row_to_run s r) (\<lambda>x. Inr (acc @ [x]))) rows acc =
      (if rows \<noteq> [] \<and> has_project_id_col s ''headless_runs'' then Inl TypeError else Inr (acc @ rows))" for acc
    by (induction rows arbitrary: acc) (auto simp: row_to_run_def)
  then show ?thesis by (simp add: rows_to_runs_def)
qed

lemma list_stale_exact:
  assumes "\<not> has_project_id_col s ''headless_runs''"
  shows "\<exists>stale. list_stale s interval = Inr stale \<and>
      set stale = {r \<in> set (runs s). r_state r = ''running'' \<and>
                    (\<exists>t. r_heartbeat_at r = Some t \<and> clock s - t > interval * 2 * sec)} \<and>
      sorted (map (\<lambda>r. the (r_heartbeat_at r)) stale)"
  using assms
  by (auto simp: list_stale_def rows_to_runs_eq older_than_def seconds_since_exceed_def split: option.splits)

lemma heartbeat_outcome:
  assumes "\<not> has_project_id_col s ''headless_runs''"
  shows "(\<exists>e. update_heartbeat rid s = (Inl e, s)) \<or>
    (\<exists>r. update_heartbeat rid s =
       (Inr r, update_runs rid (\<lambda>r. r\<lparr>r_heartbeat_at := Some (clock s)\<rparr>) s))"
proof (cases "run_at s rid")
  case None
  then show ?thesis by (simp add: update_heartbeat_def committed_run_def)
next
  case (Some row)
  then show ?thesis using assms
    by (cases "r_state row = ''running''")
       (simp_all add: update_heartbeat_def committed_run_def run_at_update row_to_run_def)
qed

text \<open>
  Stale detection is exact and a heartbeat clears it: the stale runs are precisely the
  running ones whose heartbeat is older than two intervals, the longest silent first, and a run
  whose heartbeat has just been recorded is not among them.
\<close>

lemma stale_runs_are_the_silent_ones:
  assumes "\<not> has_project_id_col s ''headless_runs''" and "0 \<le> interval"
  shows "(\<exists>stale. list_stale s interval = Inr stale \<and>
      set stale = {r \<in> set (runs s). r_state r = ''running'' \<and>
                    (\<exists>t. r_heartbeat_at r = Some t \<and> clock s - t > interval * 2 * sec)} \<and>
      sorted (map (\<lambda>r. the (r_heartbeat_at r)) stale)) \<and>
    (case update_heartbeat rid s of
       (Inl e, s') \<Rightarrow> s' = s
     | (Inr r, s') \<Rightarrow> \<exists>stale. list_stale s' interval = Inr stale \<and> rid \<notin> r_id ` set stale)"
proof
  have "\<exists>stale. list_stale s' interval = Inr stale \<and> rid \<notin> r_id ` set stale"
    if s': "s' = update_runs rid (\<lambda>r. r\<lparr>r_heartbeat_at := Some (clock s)\<rparr>) s" for s'
  proof -
    have "\<not> has_project_id_col s' ''headless_runs''" using assms(1) s' by simp
    from list_stale_exact [OF this, of interval] obtain stale where st: "list_stale s' interval = Inr stale"
        "set stale = {r \<in> set (runs s'). r_state r = ''running'' \<and>
           (\<exists>t. r_heartbeat_at r = Some t \<and> clock s' - t > interval * 2 * sec)}"
      by blast
    have "r_heartbeat_at r = Some (clock s)" if "r \<in> set (runs s')" "r_id r = rid" for r
    proof -
      have "r \<in> set (update_where (\<lambda>r. r_id r = rid) (\<lambda>r. r\<lparr>r_heartbeat_at := Some (clock s)\<rparr>) (runs s))"
        using that(1) unfolding s' by simp
      then obtain q where "r = (if r_id q = rid then q\<lparr>r_heartbeat_at := Some (clock s)\<rparr> else q)"
        unfolding in_update_where by blast
      with that(2) show ?thesis by (cases "r_id q = rid") simp_all
    qed
    moreover have "clock s' = clock s" by (simp add: s')
    ultimately have "rid \<notin> r_id ` set stale" using assms(2) st(2) by (auto simp: sec_def)
    with st(1) show ?thesis by blast
  qed
  then show "case update_heartbeat rid s of
       (Inl e, s') \<Rightarrow> s' = s
     | (Inr r, s') \<Rightarrow> \<exists>stale. list_stale s' interval = Inr stale \<and> rid \<notin> r_id ` set stale"
    using heartbeat_outcome [OF assms(1), of rid] by (auto split: sum.splits)
qed (rule list_stale_exact [OF assms(1)])

lemma stale_runs_are_the_silent_ones_witness: "\<exists>stale. list_stale run_demo 30 = Inr stale \<and> stale = []"
proof -
  have "\<not> has_project_id_col run_demo ''headless_runs''" by code_simp
  from stale_runs_are_the_silent_ones [OF this, of 30] show ?thesis
    by (auto simp: run_demo_def empty_store_def)
qed

text \<open>
  In a store migrated to one \<open>project_id\<close> per run no method can return a run: the transition is
  committed, and then building the value fails.
\<close>

lemma migrated_store_commits_and_raises:
  assumes "run_at s rid = Some row" and "events_ok s" and "has_project_id_col s ''headless_runs''"
    and "t \<in> set (allowed_from RUN_TRANSITIONS (r_state row))"
  shows "\<exists>s' row'. run_transition rid t no_fields actor reason md s = (Inl TypeError, s') \<and>
    run_at s' rid = Some row' \<and> r_state row' = t"
proof -
  let ?s1 = "update_runs rid (apply_run_update (clock s) t no_fields) s"
  have "validate_run_transition (r_state row) t = Inr ()" using assms(4) by (simp add: validate_run_transition_iff)
  then obtain e where "run_transition rid t no_fields actor reason md s =
      committed_run s rid (Inr (log_event e ?s1))"
    using assms(1,2) append_event_ok [of ?s1]
    by (simp add: run_transition_def no_fields_def)
  with assms show ?thesis
    by (simp add: committed_run_def run_at_update row_to_run_def apply_run_update_def)
qed

end
