(* ===== verification/Incident_Taxonomy.thy ===== *)
theory Incident_Taxonomy
  imports Prelude
begin

text \<open>
  \<^verbatim>\<open>scripts/lib/incident_taxonomy.py\<close>: the incident classes, their severities and recovery
  contracts, the escalation and dead-letter rules, the cooldown computation and the
  classification of provider failures. The enums are datatypes with their \<^verbatim>\<open>value\<close>; a backoff
  factor is the rational number its float denotes; the prose \<^verbatim>\<open>description\<close> of a contract is
  left out.
\<close>

section \<open>Enumerations\<close>

datatype severity =
    INFO
  | WARNING
  | ERROR
  | CRITICAL

fun severity_value :: "severity \<Rightarrow> string" where
  "severity_value INFO = ''info''"
| "severity_value WARNING = ''warning''"
| "severity_value ERROR = ''error''"
| "severity_value CRITICAL = ''critical''"

datatype incident_class =
    PROCESS_CRASH
  | TERMINAL_UNRESPONSIVE
  | DELIVERY_FAILURE
  | ACK_TIMEOUT
  | LEASE_CONFLICT
  | PROVIDER_RATE_LIMIT
  | PROVIDER_QUOTA_EXHAUSTED
  | PROVIDER_AUTH_FAILURE
  | RESUME_FAILED
  | REPEATED_FAILURE_LOOP

fun class_value :: "incident_class \<Rightarrow> string" where
  "class_value PROCESS_CRASH = ''process_crash''"
| "class_value TERMINAL_UNRESPONSIVE = ''terminal_unresponsive''"
| "class_value DELIVERY_FAILURE = ''delivery_failure''"
| "class_value ACK_TIMEOUT = ''ack_timeout''"
| "class_value LEASE_CONFLICT = ''lease_conflict''"
| "class_value PROVIDER_RATE_LIMIT = ''provider_rate_limit''"
| "class_value PROVIDER_QUOTA_EXHAUSTED = ''provider_quota_exhausted''"
| "class_value PROVIDER_AUTH_FAILURE = ''provider_auth_failure''"
| "class_value RESUME_FAILED = ''resume_failed''"
| "class_value REPEATED_FAILURE_LOOP = ''repeated_failure_loop''"

text \<open>The members in their declaration order, as iterating over the enum yields them.\<close>

definition ALL_CLASSES :: "incident_class list" where
  "ALL_CLASSES = [PROCESS_CRASH, TERMINAL_UNRESPONSIVE, DELIVERY_FAILURE, ACK_TIMEOUT,
     LEASE_CONFLICT, PROVIDER_RATE_LIMIT, PROVIDER_QUOTA_EXHAUSTED, PROVIDER_AUTH_FAILURE,
     RESUME_FAILED, REPEATED_FAILURE_LOOP]"

definition INCIDENT_CLASSES :: "string list" where
  "INCIDENT_CLASSES = map class_value ALL_CLASSES"

datatype recovery_action =
    RESTART_PROCESS
  | REDELIVER_DISPATCH
  | EXPIRE_LEASE
  | RECOVER_LEASE
  | REMAP_PANE
  | TIMEOUT_DISPATCH
  | RECOVER_DISPATCH
  | DEAD_LETTER_DISPATCH
  | ESCALATE_TO_OPERATOR
  | HALT_TERMINAL

fun action_value :: "recovery_action \<Rightarrow> string" where
  "action_value RESTART_PROCESS = ''restart_process''"
| "action_value REDELIVER_DISPATCH = ''redeliver_dispatch''"
| "action_value EXPIRE_LEASE = ''expire_lease''"
| "action_value RECOVER_LEASE = ''recover_lease''"
| "action_value REMAP_PANE = ''remap_pane''"
| "action_value TIMEOUT_DISPATCH = ''timeout_dispatch''"
| "action_value RECOVER_DISPATCH = ''recover_dispatch''"
| "action_value DEAD_LETTER_DISPATCH = ''dead_letter_dispatch''"
| "action_value ESCALATE_TO_OPERATOR = ''escalate_to_operator''"
| "action_value HALT_TERMINAL = ''halt_terminal''"

section \<open>Recovery contracts\<close>

record retry_budget =
  rb_max_retries :: int
  rb_cooldown_seconds :: int
  rb_backoff_factor :: rat
  rb_max_cooldown_seconds :: int

record escalation_rule =
  er_escalate_after_retries :: int
  er_escalate_to :: string
  er_halt_auto_recovery :: bool
  er_dead_letter_eligible :: bool

record recovery_contract =
  rc_incident_class :: incident_class
  rc_default_severity :: severity
  rc_retry_budget :: retry_budget
  rc_escalation :: escalation_rule
  rc_permitted_actions :: "recovery_action list"
  rc_requires_incident_trail :: bool

text \<open>\<^verbatim>\<open>RecoveryContract.__post_init__\<close>, run when a contract is built.\<close>

definition contract_post_init :: "recovery_contract \<Rightarrow> exn + unit" where
  "contract_post_init k =
     (let name = class_value (rc_incident_class k);
          after = er_escalate_after_retries (rc_escalation k);
          most = rb_max_retries (rc_retry_budget k)
      in bindE (guardE (rc_requires_incident_trail k)
                  (ValueError (''G-R3 violation: requires_incident_trail must be True for incident class '' @ name)))
           (\<lambda>_. guardE (after \<le> most)
                  (ValueError (''escalate_after_retries ('' @ py_int after @ '') cannot exceed max_retries ('' @
                     py_int most @ '') for incident class '' @ name))))"

definition PROCESS_CRASH_contract :: recovery_contract where
  "PROCESS_CRASH_contract =
     \<lparr>rc_incident_class = PROCESS_CRASH, rc_default_severity = WARNING,
      rc_retry_budget =
        \<lparr>rb_max_retries = 3, rb_cooldown_seconds = 10,
         rb_backoff_factor = 2, rb_max_cooldown_seconds = 120\<rparr>,
      rc_escalation =
        \<lparr>er_escalate_after_retries = 2, er_escalate_to = ''T0'',
         er_halt_auto_recovery = False, er_dead_letter_eligible = False\<rparr>,
      rc_permitted_actions = [RESTART_PROCESS, EXPIRE_LEASE, ESCALATE_TO_OPERATOR],
      rc_requires_incident_trail = True\<rparr>"

definition TERMINAL_UNRESPONSIVE_contract :: recovery_contract where
  "TERMINAL_UNRESPONSIVE_contract =
     \<lparr>rc_incident_class = TERMINAL_UNRESPONSIVE, rc_default_severity = ERROR,
      rc_retry_budget =
        \<lparr>rb_max_retries = 2, rb_cooldown_seconds = 30,
         rb_backoff_factor = 2, rb_max_cooldown_seconds = 120\<rparr>,
      rc_escalation =
        \<lparr>er_escalate_after_retries = 1, er_escalate_to = ''T0'',
         er_halt_auto_recovery = False, er_dead_letter_eligible = True\<rparr>,
      rc_permitted_actions = [EXPIRE_LEASE, RECOVER_LEASE, REMAP_PANE, HALT_TERMINAL, ESCALATE_TO_OPERATOR],
      rc_requires_incident_trail = True\<rparr>"

definition DELIVERY_FAILURE_contract :: recovery_contract where
  "DELIVERY_FAILURE_contract =
     \<lparr>rc_incident_class = DELIVERY_FAILURE, rc_default_severity = WARNING,
      rc_retry_budget =
        \<lparr>rb_max_retries = 3, rb_cooldown_seconds = 5,
         rb_backoff_factor = 2, rb_max_cooldown_seconds = 60\<rparr>,
      rc_escalation =
        \<lparr>er_escalate_after_retries = 2, er_escalate_to = ''T0'',
         er_halt_auto_recovery = False, er_dead_letter_eligible = True\<rparr>,
      rc_permitted_actions = [REDELIVER_DISPATCH, REMAP_PANE, TIMEOUT_DISPATCH, ESCALATE_TO_OPERATOR],
      rc_requires_incident_trail = True\<rparr>"

definition ACK_TIMEOUT_contract :: recovery_contract where
  "ACK_TIMEOUT_contract =
     \<lparr>rc_incident_class = ACK_TIMEOUT, rc_default_severity = WARNING,
      rc_retry_budget =
        \<lparr>rb_max_retries = 2, rb_cooldown_seconds = 30,
         rb_backoff_factor = 3 / 2, rb_max_cooldown_seconds = 120\<rparr>,
      rc_escalation =
        \<lparr>er_escalate_after_retries = 1, er_escalate_to = ''T0'',
         er_halt_auto_recovery = False, er_dead_letter_eligible = True\<rparr>,
      rc_permitted_actions = [REDELIVER_DISPATCH, TIMEOUT_DISPATCH, RECOVER_DISPATCH, ESCALATE_TO_OPERATOR],
      rc_requires_incident_trail = True\<rparr>"

definition LEASE_CONFLICT_contract :: recovery_contract where
  "LEASE_CONFLICT_contract =
     \<lparr>rc_incident_class = LEASE_CONFLICT, rc_default_severity = ERROR,
      rc_retry_budget =
        \<lparr>rb_max_retries = 1, rb_cooldown_seconds = 15,
         rb_backoff_factor = 1, rb_max_cooldown_seconds = 15\<rparr>,
      rc_escalation =
        \<lparr>er_escalate_after_retries = 0, er_escalate_to = ''T0'',
         er_halt_auto_recovery = True, er_dead_letter_eligible = False\<rparr>,
      rc_permitted_actions = [EXPIRE_LEASE, RECOVER_LEASE, ESCALATE_TO_OPERATOR],
      rc_requires_incident_trail = True\<rparr>"

definition PROVIDER_RATE_LIMIT_contract :: recovery_contract where
  "PROVIDER_RATE_LIMIT_contract =
     \<lparr>rc_incident_class = PROVIDER_RATE_LIMIT, rc_default_severity = WARNING,
      rc_retry_budget =
        \<lparr>rb_max_retries = 4, rb_cooldown_seconds = 60,
         rb_backoff_factor = 2, rb_max_cooldown_seconds = 600\<rparr>,
      rc_escalation =
        \<lparr>er_escalate_after_retries = 3, er_escalate_to = ''T0'',
         er_halt_auto_recovery = False, er_dead_letter_eligible = False\<rparr>,
      rc_permitted_actions = [ESCALATE_TO_OPERATOR],
      rc_requires_incident_trail = True\<rparr>"

definition PROVIDER_QUOTA_EXHAUSTED_contract :: recovery_contract where
  "PROVIDER_QUOTA_EXHAUSTED_contract =
     \<lparr>rc_incident_class = PROVIDER_QUOTA_EXHAUSTED, rc_default_severity = WARNING,
      rc_retry_budget =
        \<lparr>rb_max_retries = 3, rb_cooldown_seconds = 3600,
         rb_backoff_factor = 2, rb_max_cooldown_seconds = 14400\<rparr>,
      rc_escalation =
        \<lparr>er_escalate_after_retries = 2, er_escalate_to = ''T0'',
         er_halt_auto_recovery = False, er_dead_letter_eligible = False\<rparr>,
      rc_permitted_actions = [ESCALATE_TO_OPERATOR],
      rc_requires_incident_trail = True\<rparr>"

definition PROVIDER_AUTH_FAILURE_contract :: recovery_contract where
  "PROVIDER_AUTH_FAILURE_contract =
     \<lparr>rc_incident_class = PROVIDER_AUTH_FAILURE, rc_default_severity = ERROR,
      rc_retry_budget =
        \<lparr>rb_max_retries = 0, rb_cooldown_seconds = 0,
         rb_backoff_factor = 1, rb_max_cooldown_seconds = 0\<rparr>,
      rc_escalation =
        \<lparr>er_escalate_after_retries = 0, er_escalate_to = ''operator'',
         er_halt_auto_recovery = True, er_dead_letter_eligible = False\<rparr>,
      rc_permitted_actions = [ESCALATE_TO_OPERATOR],
      rc_requires_incident_trail = True\<rparr>"

definition RESUME_FAILED_contract :: recovery_contract where
  "RESUME_FAILED_contract =
     \<lparr>rc_incident_class = RESUME_FAILED, rc_default_severity = ERROR,
      rc_retry_budget =
        \<lparr>rb_max_retries = 1, rb_cooldown_seconds = 60,
         rb_backoff_factor = 1, rb_max_cooldown_seconds = 60\<rparr>,
      rc_escalation =
        \<lparr>er_escalate_after_retries = 0, er_escalate_to = ''T0'',
         er_halt_auto_recovery = False, er_dead_letter_eligible = True\<rparr>,
      rc_permitted_actions = [REDELIVER_DISPATCH, DEAD_LETTER_DISPATCH, ESCALATE_TO_OPERATOR],
      rc_requires_incident_trail = True\<rparr>"

definition REPEATED_FAILURE_LOOP_contract :: recovery_contract where
  "REPEATED_FAILURE_LOOP_contract =
     \<lparr>rc_incident_class = REPEATED_FAILURE_LOOP, rc_default_severity = CRITICAL,
      rc_retry_budget =
        \<lparr>rb_max_retries = 0, rb_cooldown_seconds = 0,
         rb_backoff_factor = 1, rb_max_cooldown_seconds = 0\<rparr>,
      rc_escalation =
        \<lparr>er_escalate_after_retries = 0, er_escalate_to = ''T0'',
         er_halt_auto_recovery = True, er_dead_letter_eligible = True\<rparr>,
      rc_permitted_actions = [DEAD_LETTER_DISPATCH, HALT_TERMINAL, ESCALATE_TO_OPERATOR],
      rc_requires_incident_trail = True\<rparr>"

definition RECOVERY_CONTRACTS :: "(incident_class \<times> recovery_contract) list" where
  "RECOVERY_CONTRACTS =
     [(PROCESS_CRASH, PROCESS_CRASH_contract),
      (TERMINAL_UNRESPONSIVE, TERMINAL_UNRESPONSIVE_contract),
      (DELIVERY_FAILURE, DELIVERY_FAILURE_contract),
      (ACK_TIMEOUT, ACK_TIMEOUT_contract),
      (LEASE_CONFLICT, LEASE_CONFLICT_contract),
      (PROVIDER_RATE_LIMIT, PROVIDER_RATE_LIMIT_contract),
      (PROVIDER_QUOTA_EXHAUSTED, PROVIDER_QUOTA_EXHAUSTED_contract),
      (PROVIDER_AUTH_FAILURE, PROVIDER_AUTH_FAILURE_contract),
      (RESUME_FAILED, RESUME_FAILED_contract),
      (REPEATED_FAILURE_LOOP, REPEATED_FAILURE_LOOP_contract)]"

section \<open>Escalation, dead letters and cooldown\<close>

definition DEAD_LETTER_ELIGIBLE_CLASSES :: "incident_class list" where
  "DEAD_LETTER_ELIGIBLE_CLASSES =
     map fst (filter (\<lambda>(c, k). er_dead_letter_eligible (rc_escalation k)) RECOVERY_CONTRACTS)"

definition DEAD_LETTER_SOURCE_STATES :: "string list" where
  "DEAD_LETTER_SOURCE_STATES = [''timed_out'', ''failed_delivery'', ''recovered'']"

definition should_escalate :: "incident_class \<Rightarrow> int \<Rightarrow> bool" where
  "should_escalate c retry_count =
     (case map_of RECOVERY_CONTRACTS c of
        None \<Rightarrow> True
      | Some k \<Rightarrow> er_escalate_after_retries (rc_escalation k) \<le> retry_count)"

definition should_dead_letter :: "incident_class \<Rightarrow> int \<Rightarrow> string \<Rightarrow> bool" where
  "should_dead_letter c retry_count dispatch_state =
     (if c \<notin> set DEAD_LETTER_ELIGIBLE_CLASSES then False
      else if dispatch_state \<notin> set DEAD_LETTER_SOURCE_STATES then False
      else case map_of RECOVERY_CONTRACTS c of
             None \<Rightarrow> False
           | Some k \<Rightarrow> rb_max_retries (rc_retry_budget k) \<le> retry_count)"

text \<open>
  \<^verbatim>\<open>cooldown_seconds * backoff_factor ** retry_count\<close> is a double. The power raises
  \<^verbatim>\<open>OverflowError\<close> from \<open>2 ^ 1024\<close> on, and \<^verbatim>\<open>int\<close> raises it for an infinite product. Below that
  the doubles are exact for the factors 1 and 2; for 3/2 they are exact until long after the
  cap of the contract has been reached, so the rational value is the one computed.
\<close>

definition float_overflow :: "rat \<Rightarrow> bool" where
  "float_overflow x = (2 ^ 1024 \<le> x)"

lemma float_overflow_code [code]: "float_overflow x = (if x < 1048576 then False else 2 ^ 1024 \<le> x)"
proof -
  have "(1048576 :: rat) = 2 ^ 20" by simp
  also have "\<dots> \<le> 2 ^ 1024" by (rule power_increasing) simp_all
  finally have "x < 1048576 \<Longrightarrow> x < 2 ^ 1024" by (rule less_le_trans [rotated])
  then show ?thesis by (auto simp: float_overflow_def not_le)
qed

definition get_cooldown_seconds :: "incident_class \<Rightarrow> int \<Rightarrow> exn + int" where
  "get_cooldown_seconds c retry_count =
     (case map_of RECOVERY_CONTRACTS c of
        None \<Rightarrow> Inr 60
      | Some k \<Rightarrow>
          let budget = rc_retry_budget k;
              scale = rb_backoff_factor budget ^ nat retry_count;
              cooldown = of_int (rb_cooldown_seconds budget) * scale
          in if float_overflow scale \<or> float_overflow cooldown then Inl OverflowError
             else Inr (min \<lfloor>cooldown\<rfloor> (rb_max_cooldown_seconds budget)))"

section \<open>Provider failures\<close>

definition AUTH_FAILURE_MARKERS :: "string list" where
  "AUTH_FAILURE_MARKERS =
     [''401'', ''403'', ''unauthorized'', ''forbidden'', ''not authenticated'',
      ''invalid api key'', ''invalid_api_key'', ''authentication'', ''auth'', ''access denied'',
      ''bad credentials'']"

definition RATE_LIMIT_MARKERS :: "string list" where
  "RATE_LIMIT_MARKERS = [''429'', ''rate limit'', ''rate_limit'', ''ratelimit'', ''too many requests'']"

definition QUOTA_SIGNAL_MARKERS :: "string list" where
  "QUOTA_SIGNAL_MARKERS = [''quota'', ''balance'', ''402'', ''insufficient credit'']"

definition classify_provider_failure :: "string option \<Rightarrow> incident_class" where
  "classify_provider_failure reason =
     (let lowered = py_lower (or_else reason []);
          has_quota_signal = list_ex (\<lambda>m. contains m lowered) QUOTA_SIGNAL_MARKERS;
          has_auth_signal = list_ex (\<lambda>m. contains m lowered) AUTH_FAILURE_MARKERS
      in if has_quota_signal \<and> has_auth_signal then PROVIDER_QUOTA_EXHAUSTED
         else if has_auth_signal then PROVIDER_AUTH_FAILURE
         else if list_ex (\<lambda>m. contains m lowered) RATE_LIMIT_MARKERS then PROVIDER_RATE_LIMIT
         else PROVIDER_QUOTA_EXHAUSTED)"

section \<open>Validation helpers\<close>

definition REPEATED_FAILURE_THRESHOLD :: int where
  "REPEATED_FAILURE_THRESHOLD = 3"

definition validate_incident_class :: "string \<Rightarrow> exn + incident_class" where
  "validate_incident_class v =
     (case find (\<lambda>c. class_value c = v) ALL_CLASSES of
        Some c \<Rightarrow> Inr c
      | None \<Rightarrow> Inl (ValueError (''Unknown incident class: '' @ py_repr v @ ''. Valid classes: '' @
                py_repr_list (sort INCIDENT_CLASSES))))"

definition get_contract :: "incident_class \<Rightarrow> exn + recovery_contract" where
  "get_contract c =
     (case map_of RECOVERY_CONTRACTS c of
        None \<Rightarrow> Inl (KeyError (class_value c))
      | Some k \<Rightarrow> Inr k)"

section \<open>Lemmas\<close>

lemmas contract_defs =
  PROCESS_CRASH_contract_def TERMINAL_UNRESPONSIVE_contract_def DELIVERY_FAILURE_contract_def
  ACK_TIMEOUT_contract_def LEASE_CONFLICT_contract_def PROVIDER_RATE_LIMIT_contract_def
  PROVIDER_QUOTA_EXHAUSTED_contract_def PROVIDER_AUTH_FAILURE_contract_def RESUME_FAILED_contract_def
  REPEATED_FAILURE_LOOP_contract_def

lemma class_value_inject [simp]: "class_value c = class_value c' \<longleftrightarrow> c = c'"
  by (cases c; cases c') simp_all

text \<open>The contract of a class, which is always found.\<close>

definition contract_of :: "incident_class \<Rightarrow> recovery_contract" where
  "contract_of c = the (map_of RECOVERY_CONTRACTS c)"

lemma contract_found [simp]: "map_of RECOVERY_CONTRACTS c = Some (contract_of c)"
  by (cases c) (simp_all add: contract_of_def RECOVERY_CONTRACTS_def)

lemma get_contract_of [simp]: "get_contract c = Inr (contract_of c)"
  by (simp add: get_contract_def)

lemma contract_of_simps:
  "contract_of PROCESS_CRASH = PROCESS_CRASH_contract"
  "contract_of TERMINAL_UNRESPONSIVE = TERMINAL_UNRESPONSIVE_contract"
  "contract_of DELIVERY_FAILURE = DELIVERY_FAILURE_contract"
  "contract_of ACK_TIMEOUT = ACK_TIMEOUT_contract"
  "contract_of LEASE_CONFLICT = LEASE_CONFLICT_contract"
  "contract_of PROVIDER_RATE_LIMIT = PROVIDER_RATE_LIMIT_contract"
  "contract_of PROVIDER_QUOTA_EXHAUSTED = PROVIDER_QUOTA_EXHAUSTED_contract"
  "contract_of PROVIDER_AUTH_FAILURE = PROVIDER_AUTH_FAILURE_contract"
  "contract_of RESUME_FAILED = RESUME_FAILED_contract"
  "contract_of REPEATED_FAILURE_LOOP = REPEATED_FAILURE_LOOP_contract"
  by (simp_all add: contract_of_def RECOVERY_CONTRACTS_def)

abbreviation max_retries_of :: "incident_class \<Rightarrow> int" where
  "max_retries_of c \<equiv> rb_max_retries (rc_retry_budget (contract_of c))"

abbreviation escalate_after :: "incident_class \<Rightarrow> int" where
  "escalate_after c \<equiv> er_escalate_after_retries (rc_escalation (contract_of c))"

abbreviation halts :: "incident_class \<Rightarrow> bool" where
  "halts c \<equiv> er_halt_auto_recovery (rc_escalation (contract_of c))"

lemma should_escalate_iff: "should_escalate c n \<longleftrightarrow> escalate_after c \<le> n"
  by (simp add: should_escalate_def)

lemma eligible_iff:
  "c \<in> set DEAD_LETTER_ELIGIBLE_CLASSES \<longleftrightarrow> er_dead_letter_eligible (rc_escalation (contract_of c))"
  by (cases c)
     (simp_all add: DEAD_LETTER_ELIGIBLE_CLASSES_def RECOVERY_CONTRACTS_def contract_of_simps contract_defs)

lemma should_dead_letter_iff:
  "should_dead_letter c n st \<longleftrightarrow> er_dead_letter_eligible (rc_escalation (contract_of c)) \<and>
     st \<in> set DEAD_LETTER_SOURCE_STATES \<and> max_retries_of c \<le> n"
  by (simp add: should_dead_letter_def eligible_iff)

text \<open>The halting classes escalate at once, and only they and the loop have nothing to retry.\<close>

lemma halts_iff: "halts c \<longleftrightarrow> c \<in> {LEASE_CONFLICT, PROVIDER_AUTH_FAILURE, REPEATED_FAILURE_LOOP}"
  by (cases c) (simp_all add: contract_of_simps contract_defs)

lemma halts_at_once: "halts c \<Longrightarrow> escalate_after c = 0"
  by (cases c) (simp_all add: contract_of_simps contract_defs)

lemma max_retries_bounds: "0 \<le> max_retries_of c" "max_retries_of c \<le> 4"
  by (cases c; simp add: contract_of_simps contract_defs)+

lemma escalate_after_bounds: "0 \<le> escalate_after c" "escalate_after c \<le> max_retries_of c"
  by (cases c; simp add: contract_of_simps contract_defs)+

lemma validate_incident_class_iff: "validate_incident_class v = Inr c \<longleftrightarrow> v = class_value c"
proof
  assume "validate_incident_class v = Inr c"
  then have "find (\<lambda>c. class_value c = v) ALL_CLASSES = Some c"
    by (simp add: validate_incident_class_def split: option.splits)
  from find_SomeD [OF this] show "v = class_value c" by simp
next
  assume "v = class_value c"
  then show "validate_incident_class v = Inr c"
    by (cases c) (simp_all add: validate_incident_class_def ALL_CLASSES_def)
qed

section \<open>Correctness\<close>

text \<open>
  Every incident class has a contract of its own that its constructor accepts: bounded
  retries, an escalation to an operator that the contract permits and that is reached at the
  latest when the retries are used up, and a class name that parses back to the class.
\<close>

lemma every_class_has_a_bounded_contract:
  "\<exists>k. get_contract c = Inr k \<and> rc_incident_class k = c \<and> contract_post_init k = Inr () \<and>
     rb_max_retries (rc_retry_budget k) \<in> {0..4} \<and>
     rb_cooldown_seconds (rc_retry_budget k) \<in> {0..rb_max_cooldown_seconds (rc_retry_budget k)} \<and>
     ESCALATE_TO_OPERATOR \<in> set (rc_permitted_actions k) \<and> distinct (rc_permitted_actions k) \<and>
     should_escalate c (rb_max_retries (rc_retry_budget k) + int extra) \<and>
     validate_incident_class (class_value c) = Inr c"
proof -
  have "should_escalate c (max_retries_of c + int extra)"
    using escalate_after_bounds(2) [of c] by (simp add: should_escalate_iff)
  moreover have "contract_post_init (contract_of c) = Inr ()" "rc_incident_class (contract_of c) = c"
    "rb_cooldown_seconds (rc_retry_budget (contract_of c)) \<in>
       {0..rb_max_cooldown_seconds (rc_retry_budget (contract_of c))}"
    "ESCALATE_TO_OPERATOR \<in> set (rc_permitted_actions (contract_of c))"
    "distinct (rc_permitted_actions (contract_of c))"
    by (cases c; simp add: contract_of_simps contract_defs contract_post_init_def)+
  ultimately show ?thesis
    using max_retries_bounds [of c] by (simp add: validate_incident_class_iff)
qed

lemma backoff_bounds:
  "1 \<le> rb_backoff_factor (rc_retry_budget (contract_of c))"
  "rb_backoff_factor (rc_retry_budget (contract_of c)) \<le> 2"
  "0 \<le> rb_cooldown_seconds (rc_retry_budget (contract_of c))"
  "rb_cooldown_seconds (rc_retry_budget (contract_of c)) \<le> 2 ^ 12"
  by (cases c; simp add: contract_of_simps contract_defs)+

text \<open>The cap is reached with the fourth retry, whatever the class.\<close>

lemma cap_reached:
  "of_int (rb_max_cooldown_seconds (rc_retry_budget (contract_of c))) \<le>
   of_int (rb_cooldown_seconds (rc_retry_budget (contract_of c))) *
     rb_backoff_factor (rc_retry_budget (contract_of c)) ^ 4"
  by (cases c) (simp_all add: contract_of_simps contract_defs power_divide)

lemma get_cooldown_seconds_eq:
  assumes "n \<le> 1000"
  shows "get_cooldown_seconds c n =
    Inr (min \<lfloor>of_int (rb_cooldown_seconds (rc_retry_budget (contract_of c))) *
               rb_backoff_factor (rc_retry_budget (contract_of c)) ^ nat n\<rfloor>
             (rb_max_cooldown_seconds (rc_retry_budget (contract_of c))))"
proof -
  let ?b = "rb_backoff_factor (rc_retry_budget (contract_of c))"
  let ?c = "of_int (rb_cooldown_seconds (rc_retry_budget (contract_of c))) :: rat"
  have "?b ^ nat n \<le> 2 ^ nat n" using backoff_bounds [of c] by (intro power_mono) auto
  also have "\<dots> \<le> (2::rat) ^ 1000" using assms by (intro power_increasing) auto
  finally have b: "?b ^ nat n \<le> 2 ^ 1000" .
  have "?c \<le> of_int (2 ^ 12)" using backoff_bounds(4) [of c] by (simp only: of_int_le_iff)
  then have c: "?c \<le> 2 ^ 12" by simp
  have "?c * ?b ^ nat n \<le> 2 ^ 12 * 2 ^ 1000"
    using b c backoff_bounds [of c] by (intro mult_mono) auto
  also have "\<dots> = (2::rat) ^ 1012" by (simp only: power_add [symmetric]) simp
  finally have p: "?c * ?b ^ nat n \<le> 2 ^ 1012" .
  have "(2::rat) ^ 1012 < 2 ^ 1024" "(2::rat) ^ 1000 < 2 ^ 1024"
    by (rule power_strict_increasing, simp, simp)+
  with b p have "\<not> float_overflow (?b ^ nat n)" "\<not> float_overflow (?c * ?b ^ nat n)"
    unfolding float_overflow_def by linarith+
  then show ?thesis by (simp add: get_cooldown_seconds_def Let_def)
qed

text \<open>
  The cooldown never shrinks with the retry count, never exceeds the cap of its contract
  and has reached the cap from the fourth retry on; below a thousand retries its computation
  does not overflow.
\<close>

lemma cooldown_grows_to_its_cap:
  assumes "0 \<le> n" and "n \<le> m" and "m \<le> 1000"
  shows "\<exists>x y. get_cooldown_seconds c n = Inr x \<and> get_cooldown_seconds c m = Inr y \<and>
    0 \<le> x \<and> x \<le> y \<and> y \<le> rb_max_cooldown_seconds (rc_retry_budget (contract_of c)) \<and>
    (4 \<le> m \<longrightarrow> y = rb_max_cooldown_seconds (rc_retry_budget (contract_of c)))"
proof -
  let ?b = "rb_backoff_factor (rc_retry_budget (contract_of c))"
  let ?c = "rb_cooldown_seconds (rc_retry_budget (contract_of c))"
  let ?cap = "rb_max_cooldown_seconds (rc_retry_budget (contract_of c))"
  let ?x = "\<lambda>k. of_int ?c * ?b ^ nat k :: rat"
  have b: "1 \<le> ?b" and c: "0 \<le> ?c" by (rule backoff_bounds)+
  have mono: "?x j \<le> ?x k" if "j \<le> k" for j k
    using b c that by (intro mult_left_mono power_increasing) auto
  have "0 \<le> ?x n" using b c by simp
  moreover have "\<lfloor>?x n\<rfloor> \<le> \<lfloor>?x m\<rfloor>" by (rule floor_mono) (rule mono [OF assms(2)])
  moreover have "?cap \<le> \<lfloor>?x m\<rfloor>" if "4 \<le> m"
    using cap_reached [of c] mono [OF that] by (simp add: le_floor_iff)
  moreover have "0 \<le> ?cap" by (cases c) (simp_all add: contract_of_simps contract_defs)
  ultimately show ?thesis
    using assms by (auto simp: get_cooldown_seconds_eq min_def)
qed

lemma cooldown_grows_to_its_cap_witness:
  "\<exists>x y. get_cooldown_seconds ACK_TIMEOUT 1 = Inr x \<and> get_cooldown_seconds ACK_TIMEOUT 5 = Inr y \<and>
     x \<le> y \<and> y = 120"
  using cooldown_grows_to_its_cap [of 1 5 ACK_TIMEOUT] by (auto simp: contract_of_simps contract_defs)

lemma lower_upper_char: "lower_char (upper_char c) = lower_char c"
proof (cases "97 \<le> (of_char c :: nat) \<and> (of_char c :: nat) \<le> 122")
  case True
  have "of_char (char_of ((of_char c :: nat) - 32) :: char) = ((of_char c :: nat) - 32) mod 256"
    by (simp add: of_char_of)
  also have "\<dots> = (of_char c :: nat) - 32" by (rule mod_less) (use True in arith)
  finally have up: "of_char (upper_char c) = (of_char c :: nat) - 32" using True by (simp add: upper_char_def)
  have "lower_char (upper_char c) = char_of (of_char c :: nat)"
  proof -
    have "65 \<le> (of_char c :: nat) - 32" "(of_char c :: nat) - 32 \<le> 90" "(of_char c :: nat) - 32 + 32 = of_char c"
      using True by arith+
    with up show ?thesis unfolding lower_char_def up by simp
  qed
  moreover have "lower_char c = c" using True by (simp add: lower_char_def)
  ultimately show ?thesis by simp
qed (auto simp: upper_char_def)

lemma lower_upper: "py_lower (py_upper r) = py_lower r"
  by (simp add: py_lower_def py_upper_def lower_upper_char)

text \<open>
  A failure that mentions a quota is never taken for an authentication failure, whatever
  else the text says and in whatever case it is written: its class may be retried and does not
  halt recovery.
\<close>

lemma quota_failures_stay_recoverable:
  assumes "q \<in> set QUOTA_SIGNAL_MARKERS" and "contains q (py_lower reason)"
  shows "let c = classify_provider_failure (Some (before @ py_upper reason @ after)) in
    c \<in> {PROVIDER_QUOTA_EXHAUSTED, PROVIDER_RATE_LIMIT} \<and> \<not> halts c \<and> 0 < max_retries_of c \<and>
    c = classify_provider_failure (Some (before @ reason @ after))"
proof -
  have low: "py_lower (before @ py_upper reason @ after) = py_lower (before @ reason @ after)"
    using lower_upper [of reason] by (simp add: py_lower_def)
  have any: "or_else (Some x) [] = x" for x by (simp add: or_else_def)
  let ?c = "classify_provider_failure (Some (before @ py_upper reason @ after))"
  have same: "?c = classify_provider_failure (Some (before @ reason @ after))"
    unfolding classify_provider_failure_def any low ..
  have "contains q (py_lower (before @ py_upper reason @ after))"
    unfolding low using contains_inside [OF assms(2)] by (simp add: py_lower_def)
  then have "list_ex (\<lambda>m. contains m (py_lower (before @ py_upper reason @ after))) QUOTA_SIGNAL_MARKERS"
    using assms(1) by (auto simp: list_ex_iff)
  then have c: "?c \<in> {PROVIDER_QUOTA_EXHAUSTED, PROVIDER_RATE_LIMIT}"
    by (simp add: classify_provider_failure_def any Let_def)
  then have "\<not> halts ?c \<and> 0 < max_retries_of ?c"
    by (auto simp: contract_of_simps contract_defs)
  with c same show ?thesis unfolding Let_def by blast
qed

lemma quota_failures_stay_recoverable_witness:
  "let c = classify_provider_failure (Some (''401 '' @ py_upper ''quota_or_auth'' @ [])) in
    c \<in> {PROVIDER_QUOTA_EXHAUSTED, PROVIDER_RATE_LIMIT} \<and> \<not> halts c"
proof -
  have "''quota'' \<in> set QUOTA_SIGNAL_MARKERS" by (simp add: QUOTA_SIGNAL_MARKERS_def)
  moreover have "contains ''quota'' (py_lower ''quota_or_auth'')" by code_simp
  ultimately show ?thesis
    using quota_failures_stay_recoverable [of "''quota''" "''quota_or_auth''" "''401 ''" "[]"] unfolding Let_def by blast
qed

end
