(* ===== verification/Workflow.thy ===== *)
theory Workflow
  imports Incident_Taxonomy Dispatch_Lifecycle Interfaces
begin

text \<open>
  The workflow supervisor: \<^verbatim>\<open>scripts/lib/workflow_supervisor.py\<close> and its helpers in
  \<^verbatim>\<open>scripts/lib/workflow_incident_handler.py\<close>. An incident is evaluated against the contract of
  its class and the retry state of its dispatch; the decision is recorded in \<^verbatim>\<open>incident_log\<close>,
  \<^verbatim>\<open>retry_state\<close>, \<^verbatim>\<open>escalation_log\<close> and the event log, and may move the dispatch to dead_letter.

  Theorems: retries stay within the budget whatever is reported in whatever order, only an
  eligible dispatch is dead-lettered, every handled incident leaves its trail, and a halt
  keeps a dispatch from resuming until an operator clears it.
\<close>

section \<open>Records\<close>

record incident_record =
  ir_incident_id :: string
  ir_incident_class :: string
  ir_severity :: string
  ir_dispatch_id :: "string option"
  ir_terminal_id :: "string option"
  ir_component :: "string option"
  ir_attempt_number :: "int option"
  ir_recovery_action :: "string option"
  ir_recovery_outcome :: "string option"
  ir_reason :: string
  ir_budget_remaining :: "int option"
  ir_escalated :: bool
  ir_dead_lettered :: bool
  ir_created_at :: int
  ir_metadata :: "(string \<times> json) list"

record escalation_record =
  er_escalation_id :: string
  er_incident_id :: string
  er_dispatch_id :: "string option"
  er_terminal_id :: "string option"
  er_incident_class :: string
  er_severity :: string
  er_escalated_to :: string
  er_reason :: string
  er_retry_count :: int
  er_budget_exhausted :: bool
  er_auto_recovery_halted :: bool
  er_created_at :: int
  er_metadata :: "(string \<times> json) list"

section \<open>Recording\<close>

text \<open>
  The insert helpers stamp the project of the store and fail when it cannot be resolved; the
  id columns are unique.
\<close>

definition insert_incident_row :: "incident_row \<Rightarrow> store \<Rightarrow> exn + store" where
  "insert_incident_row row s =
     bindE (project_id_stamp s ''incident_log'') (\<lambda>stamp.
     bindE (guardE (list_all (\<lambda>i. i_id i \<noteq> i_id row) (incidents s))
              (IntegrityError ''UNIQUE constraint failed: incident_log.incident_id'')) (\<lambda>_.
     Inr (s\<lparr>incidents := incidents s @ [row\<lparr>i_project := stamp\<rparr>]\<rparr>)))"

definition insert_escalation_row :: "escalation_row \<Rightarrow> store \<Rightarrow> exn + store" where
  "insert_escalation_row row s =
     bindE (project_id_stamp s ''escalation_log'') (\<lambda>stamp.
     bindE (guardE (list_all (\<lambda>x. x_id x \<noteq> x_id row) (escalations s))
              (IntegrityError ''UNIQUE constraint failed: escalation_log.escalation_id'')) (\<lambda>_.
     Inr (s\<lparr>escalations := escalations s @ [row\<lparr>x_project := stamp\<rparr>]\<rparr>)))"

definition take_uuid :: "store \<Rightarrow> string \<times> store" where
  "take_uuid s = (new_uuid s, s\<lparr>uuid_next := Suc (uuid_next s)\<rparr>)"

definition incident_entity :: "string option \<Rightarrow> string option \<Rightarrow> string option \<Rightarrow> string \<times> string" where
  "incident_entity dispatch_id terminal_id component =
     (if truthy dispatch_id then (''dispatch'', the dispatch_id)
      else if truthy terminal_id then (''terminal'', the terminal_id)
      else if truthy component then (''component'', the component)
      else (''unknown'', ''unknown''))"

definition incident_metadata ::
  "string option \<Rightarrow> string option \<Rightarrow> int option \<Rightarrow> (string \<times> json) list option \<Rightarrow> (string \<times> json) list" where
  "incident_metadata recovery_action recovery_outcome budget_remaining metadata =
     (let given = (case metadata of None \<Rightarrow> [] | Some m \<Rightarrow> m);
          m1 = (if truthy recovery_action
                then AList.update ''recovery_action'' (JStr (the recovery_action)) given else given);
          m2 = (if truthy recovery_outcome
                then AList.update ''recovery_outcome'' (JStr (the recovery_outcome)) m1 else m1)
      in case budget_remaining of None \<Rightarrow> m2 | Some b \<Rightarrow> AList.update ''budget_remaining'' (JInt b) m2)"

definition incident_row_of :: "incident_record \<Rightarrow> (string \<times> json) list option \<Rightarrow> incident_row" where
  "incident_row_of r metadata =
     (let (entity_type, entity_id) = incident_entity (ir_dispatch_id r) (ir_terminal_id r) (ir_component r) in
      \<lparr>i_id = ir_incident_id r, i_class = ir_incident_class r, i_severity = ir_severity r,
       i_entity_type = entity_type, i_entity = entity_id, i_dispatch = ir_dispatch_id r,
       i_terminal = ir_terminal_id r, i_component = ir_component r,
       i_state = (if ir_dead_lettered r then ''dead_lettered''
                  else if ir_escalated r then ''escalated'' else ''open''),
       i_attempt_count = (case ir_attempt_number r of None \<Rightarrow> 0 | Some n \<Rightarrow> n),
       i_budget_exhausted = (ir_budget_remaining r = Some 0), i_escalated = ir_escalated r,
       i_halted = False, i_failure_detail = Some (ir_reason r), i_actor = ''workflow_supervisor'',
       i_occurred_at = ir_created_at r, i_resolved_at = None,
       i_metadata = JObj (incident_metadata (ir_recovery_action r) (ir_recovery_outcome r)
                            (ir_budget_remaining r) metadata),
       i_project = None\<rparr>)"

definition record_incident ::
  "incident_class \<Rightarrow> severity \<Rightarrow> string option \<Rightarrow> string option \<Rightarrow> string option \<Rightarrow> int option \<Rightarrow>
   string option \<Rightarrow> string option \<Rightarrow> string \<Rightarrow> int option \<Rightarrow> bool \<Rightarrow> bool \<Rightarrow>
   (string \<times> json) list option \<Rightarrow> store \<Rightarrow> exn + (incident_record \<times> store)" where
  "record_incident c severity dispatch_id terminal_id component attempt_number recovery_action
      recovery_outcome reason budget_remaining escalated dead_lettered metadata s =
     (let (incident_id, s0) = take_uuid s;
          record =
            \<lparr>ir_incident_id = incident_id, ir_incident_class = class_value c,
             ir_severity = severity_value severity, ir_dispatch_id = dispatch_id,
             ir_terminal_id = terminal_id, ir_component = component,
             ir_attempt_number = attempt_number, ir_recovery_action = recovery_action,
             ir_recovery_outcome = recovery_outcome, ir_reason = reason,
             ir_budget_remaining = budget_remaining, ir_escalated = escalated,
             ir_dead_lettered = dead_lettered, ir_created_at = clock s,
             ir_metadata = (case metadata of None \<Rightarrow> [] | Some m \<Rightarrow> m)\<rparr>
      in bindE (insert_incident_row (incident_row_of record metadata) s0) (\<lambda>s1.
         bindE (append_event ''incident_recorded'' ''incident'' incident_id None None ''workflow_supervisor''
                  (Some reason)
                  (Some [(''incident_class'', JStr (class_value c)), (''severity'', JStr (severity_value severity)),
                         (''dispatch_id'', json_opt dispatch_id), (''terminal_id'', json_opt terminal_id),
                         (''recovery_action'', json_opt recovery_action), (''escalated'', JBool escalated),
                         (''dead_lettered'', JBool dead_lettered)]) None s1) (\<lambda>s2.
         Inr (record, s2))))"

definition escalation_row_of :: "escalation_record \<Rightarrow> escalation_row" where
  "escalation_row_of r =
     \<lparr>x_id = er_escalation_id r, x_incident = er_incident_id r, x_dispatch = er_dispatch_id r,
      x_terminal = er_terminal_id r, x_class = er_incident_class r, x_severity = er_severity r,
      x_escalated_to = er_escalated_to r, x_reason = er_reason r, x_retry_count = er_retry_count r,
      x_budget_exhausted = er_budget_exhausted r, x_halted = er_auto_recovery_halted r,
      x_acknowledged = False, x_acknowledged_at = None, x_metadata = JObj (er_metadata r),
      x_created_at = er_created_at r, x_project = None\<rparr>"

definition record_escalation ::
  "string \<Rightarrow> string option \<Rightarrow> string option \<Rightarrow> incident_class \<Rightarrow> severity \<Rightarrow> string \<Rightarrow> int \<Rightarrow> bool \<Rightarrow> bool \<Rightarrow>
   (string \<times> json) list option \<Rightarrow> store \<Rightarrow> exn + (escalation_record \<times> store)" where
  "record_escalation incident_id dispatch_id terminal_id c severity reason retry_count budget_exhausted
      auto_recovery_halted metadata s =
     (let (escalation_id, s0) = take_uuid s in
      bindE (get_contract c) (\<lambda>k.
      let escalated_to = er_escalate_to (rc_escalation k);
          record =
            \<lparr>er_escalation_id = escalation_id, er_incident_id = incident_id,
             er_dispatch_id = dispatch_id, er_terminal_id = terminal_id,
             er_incident_class = class_value c, er_severity = severity_value severity,
             er_escalated_to = escalated_to, er_reason = reason, er_retry_count = retry_count,
             er_budget_exhausted = budget_exhausted, er_auto_recovery_halted = auto_recovery_halted,
             er_created_at = clock s, er_metadata = (case metadata of None \<Rightarrow> [] | Some m \<Rightarrow> m)\<rparr>
      in bindE (insert_escalation_row (escalation_row_of record) s0) (\<lambda>s1.
         bindE (append_event ''escalation_emitted'' ''escalation'' escalation_id None None
                  ''workflow_supervisor'' (Some reason)
                  (Some [(''incident_class'', JStr (class_value c)), (''dispatch_id'', json_opt dispatch_id),
                         (''escalated_to'', JStr escalated_to),
                         (''auto_recovery_halted'', JBool auto_recovery_halted)]) None s1) (\<lambda>s2.
         Inr (record, s2)))))"

section \<open>Dead letters and the recovery action\<close>

definition apply_dead_letter :: "string \<Rightarrow> incident_class \<Rightarrow> string \<Rightarrow> string \<Rightarrow> store \<Rightarrow> exn + store" where
  "apply_dead_letter dispatch_id c reason incident_id s =
     (case get_dispatch s dispatch_id of
        None \<Rightarrow> Inr s
      | Some d \<Rightarrow>
          let current = d_state d;
              text = ''Dead-letter: '' @ class_value c @ '' '' @ [CHR 0xE2, CHR 0x80, CHR 0x94] @ '' '' @ reason
          in if current \<notin> set DEAD_LETTER_SOURCE_STATES then Inr s
             else if ''dead_letter'' \<notin> set (allowed_from DISPATCH_TRANSITIONS current) then Inr s
             else bindE (transition_dispatch dispatch_id ''dead_letter'' ''workflow_supervisor'' (Some text)
                           (Some [(''incident_class'', JStr (class_value c)), (''incident_id'', JStr incident_id),
                                  (''from_state'', JStr current)]) Unset s) (\<lambda>(_, s1).
                  append_event ''dispatch_dead_lettered'' ''dispatch'' dispatch_id (Some current)
                    (Some ''dead_letter'') ''workflow_supervisor'' (Some text)
                    (Some [(''incident_class'', JStr (class_value c)), (''incident_id'', JStr incident_id)])
                    None s1))"

definition retry_actions :: "recovery_action list" where
  "retry_actions =
     [RESTART_PROCESS, REDELIVER_DISPATCH, RECOVER_DISPATCH, EXPIRE_LEASE, RECOVER_LEASE, REMAP_PANE,
      TIMEOUT_DISPATCH]"

definition select_recovery_action :: "recovery_contract \<Rightarrow> bool \<Rightarrow> bool \<Rightarrow> bool \<Rightarrow> bool \<Rightarrow> string" where
  "select_recovery_action k do_retry do_dead_letter do_escalate halt =
     (if do_dead_letter then action_value DEAD_LETTER_DISPATCH
      else if halt then
        (if HALT_TERMINAL \<in> set (rc_permitted_actions k) then action_value HALT_TERMINAL
         else action_value ESCALATE_TO_OPERATOR)
      else if do_escalate \<and> \<not> do_retry then action_value ESCALATE_TO_OPERATOR
      else if do_retry then
        (case find (\<lambda>a. a \<in> set (rc_permitted_actions k)) retry_actions of
           Some a \<Rightarrow> action_value a
         | None \<Rightarrow> action_value ESCALATE_TO_OPERATOR)
      else action_value ESCALATE_TO_OPERATOR)"

section \<open>The supervisor\<close>

record supervision_decision =
  sd_dispatch_id :: string
  sd_incident_class :: string
  sd_action_taken :: string
  sd_should_retry :: bool
  sd_should_escalate :: bool
  sd_should_dead_letter :: bool
  sd_auto_recovery_halted :: bool
  sd_budget_remaining :: int
  sd_cooldown_seconds :: int
  sd_incident_record :: incident_record
  sd_escalation_record :: "escalation_record option"
  sd_reason :: string

text \<open>The dictionary that \<^verbatim>\<open>_get_or_create_retry_state\<close> returns.\<close>

record retry_state =
  rs_dispatch_id :: "string option"
  rs_incident_class :: string
  rs_attempts_used :: int
  rs_last_attempt_at :: "int option"
  rs_next_eligible_at :: "stamp option"
  rs_budget_exhausted :: bool
  rs_escalated :: bool
  rs_halted :: bool

definition fresh_retry :: "string option \<Rightarrow> string \<Rightarrow> retry_state" where
  "fresh_retry dispatch_id cls =
     \<lparr>rs_dispatch_id = dispatch_id, rs_incident_class = cls, rs_attempts_used = 0,
      rs_last_attempt_at = None, rs_next_eligible_at = None, rs_budget_exhausted = False,
      rs_escalated = False, rs_halted = False\<rparr>"

definition retry_of_row :: "retry_row \<Rightarrow> retry_state" where
  "retry_of_row y =
     \<lparr>rs_dispatch_id = Some (y_dispatch y), rs_incident_class = y_class y,
      rs_attempts_used = y_attempts_used y, rs_last_attempt_at = y_last_attempt_at y,
      rs_next_eligible_at = y_next_eligible_at y, rs_budget_exhausted = y_budget_exhausted y,
      rs_escalated = y_escalated y, rs_halted = y_halted y\<rparr>"

definition retry_at :: "store \<Rightarrow> string \<Rightarrow> string \<Rightarrow> retry_row option" where
  "retry_at s dispatch_id cls = find (\<lambda>y. y_dispatch y = dispatch_id \<and> y_class y = cls) (retries s)"

definition blank_retry :: "string \<Rightarrow> incident_class \<Rightarrow> string option \<Rightarrow> store \<Rightarrow> retry_row" where
  "blank_retry dispatch_id c stamp s =
     \<lparr>y_dispatch = dispatch_id, y_class = class_value c, y_attempts_used = 0,
      y_last_attempt_at = None, y_next_eligible_at = None, y_budget_exhausted = False,
      y_escalated = False, y_halted = False, y_created_at = clock s, y_updated_at = clock s,
      y_project = stamp\<rparr>"

definition get_or_create_retry_state ::
  "string option \<Rightarrow> incident_class \<Rightarrow> store \<Rightarrow> exn + (retry_state \<times> store)" where
  "get_or_create_retry_state dispatch_id c s =
     (if \<not> truthy dispatch_id then Inr (fresh_retry None (class_value c), s)
      else case retry_at s (the dispatch_id) (class_value c) of
        Some y \<Rightarrow> Inr (retry_of_row y, s)
      | None \<Rightarrow>
          bindE (project_id_stamp s ''retry_state'') (\<lambda>stamp.
          Inr (fresh_retry dispatch_id (class_value c),
               s\<lparr>retries := retries s @ [blank_retry (the dispatch_id) c stamp s]\<rparr>)))"

text \<open>
  \<^verbatim>\<open>_increment_retry\<close>: the cooldown is always the one of retry 0, whatever has been used.
\<close>

definition bump_retry :: "int \<Rightarrow> int \<Rightarrow> bool \<Rightarrow> bool \<Rightarrow> bool \<Rightarrow> retry_row \<Rightarrow> retry_row" where
  "bump_retry now cooldown budget_exhausted escalated halted y =
     y\<lparr>y_attempts_used := y_attempts_used y + 1, y_last_attempt_at := Some now,
       y_next_eligible_at := Some (At (now + cooldown * sec)), y_budget_exhausted := budget_exhausted,
       y_escalated := escalated, y_halted := halted, y_updated_at := now\<rparr>"

definition increment_retry ::
  "string \<Rightarrow> incident_class \<Rightarrow> bool \<Rightarrow> bool \<Rightarrow> bool \<Rightarrow> store \<Rightarrow> exn + store" where
  "increment_retry dispatch_id c budget_exhausted escalated halted s =
     bindE (get_cooldown_seconds c 0) (\<lambda>cooldown.
     Inr (s\<lparr>retries := update_where (\<lambda>y. y_dispatch y = dispatch_id \<and> y_class y = class_value c)
            (bump_retry (clock s) cooldown budget_exhausted escalated halted) (retries s)\<rparr>))"

definition cooldown_elapsed :: "retry_state \<Rightarrow> store \<Rightarrow> bool" where
  "cooldown_elapsed r s =
     (case parse_stamp (rs_next_eligible_at r) of None \<Rightarrow> True | Some t \<Rightarrow> t \<le> clock s)"

definition incident_count :: "store \<Rightarrow> string \<Rightarrow> string \<Rightarrow> int" where
  "incident_count s dispatch_id cls =
     int (length (filter (\<lambda>i. i_dispatch i = Some dispatch_id \<and> i_class i = cls) (incidents s)))"

definition detect_failure_loop :: "store \<Rightarrow> string \<Rightarrow> incident_class \<Rightarrow> bool" where
  "detect_failure_loop s dispatch_id c =
     (REPEATED_FAILURE_THRESHOLD \<le> incident_count s dispatch_id (class_value c))"

text \<open>
  The evaluation of an incident against the retry state, before anything is written: the
  class that counts (a repeated failure loop takes over), what the budget leaves, and the
  decision.
\<close>

record verdict =
  vd_class :: incident_class
  vd_can_retry :: bool
  vd_remaining :: int
  vd_escalate :: bool
  vd_halt :: bool
  vd_dead_letter :: bool
  vd_retry :: bool
  vd_action :: string

definition effective_class :: "store \<Rightarrow> string option \<Rightarrow> int \<Rightarrow> incident_class \<Rightarrow> incident_class" where
  "effective_class s dispatch_id attempts_used c =
     (if truthy dispatch_id \<and> REPEATED_FAILURE_THRESHOLD \<le> attempts_used \<and>
         c \<in> set DEAD_LETTER_ELIGIBLE_CLASSES \<and> detect_failure_loop s (the dispatch_id) c
      then REPEATED_FAILURE_LOOP else c)"

definition evaluate_incident ::
  "incident_class \<Rightarrow> string option \<Rightarrow> retry_state \<Rightarrow> store \<Rightarrow> exn + verdict" where
  "evaluate_incident c dispatch_id retry s =
     (let attempts_used = rs_attempts_used retry;
          eff = effective_class s dispatch_id attempts_used c
      in bindE (get_contract eff) (\<lambda>k.
         let effective_max = rb_max_retries (rc_retry_budget k);
             can_retry = (attempts_used < effective_max);
             do_escalate = should_escalate eff attempts_used;
             halt = (er_halt_auto_recovery (rc_escalation k) \<and> do_escalate);
             do_dead_letter =
               (truthy dispatch_id \<and>
                (case get_dispatch s (the dispatch_id) of None \<Rightarrow> False
                 | Some d \<Rightarrow> \<not> can_retry \<and> should_dead_letter eff attempts_used (d_state d)));
             do_retry = (can_retry \<and> \<not> halt \<and> \<not> do_dead_letter \<and> cooldown_elapsed retry s)
         in Inr \<lparr>vd_class = eff, vd_can_retry = can_retry,
                 vd_remaining = (if can_retry then max 0 (effective_max - attempts_used - 1) else 0),
                 vd_escalate = do_escalate, vd_halt = halt, vd_dead_letter = do_dead_letter,
                 vd_retry = do_retry,
                 vd_action = select_recovery_action k do_retry do_dead_letter do_escalate halt\<rparr>))"

text \<open>Carrying out the verdict: the trail, the retry state, the dead letter and the escalation.\<close>

definition decision_of ::
  "verdict \<Rightarrow> string option \<Rightarrow> string \<Rightarrow> incident_record \<Rightarrow> escalation_record option \<Rightarrow> int \<Rightarrow>
   supervision_decision" where
  "decision_of v dispatch_id reason incident escalation cooldown =
     \<lparr>sd_dispatch_id = or_else dispatch_id [], sd_incident_class = class_value (vd_class v),
      sd_action_taken = vd_action v, sd_should_retry = vd_retry v,
      sd_should_escalate = vd_escalate v, sd_should_dead_letter = vd_dead_letter v,
      sd_auto_recovery_halted = vd_halt v,
      sd_budget_remaining = (if \<not> vd_dead_letter v then vd_remaining v else 0),
      sd_cooldown_seconds = cooldown, sd_incident_record = incident,
      sd_escalation_record = escalation, sd_reason = reason\<rparr>"

definition escalate_if ::
  "verdict \<Rightarrow> string \<Rightarrow> string option \<Rightarrow> string option \<Rightarrow> string \<Rightarrow> int \<Rightarrow> (string \<times> json) list option \<Rightarrow>
   store \<Rightarrow> exn + (escalation_record option \<times> store)" where
  "escalate_if v incident_id dispatch_id terminal_id reason attempts_used metadata s =
     (if vd_escalate v
      then bindE (record_escalation incident_id dispatch_id terminal_id (vd_class v)
                    (rc_default_severity (contract_of (vd_class v))) reason attempts_used
                    (\<not> vd_can_retry v) (vd_halt v) metadata s)
             (\<lambda>(x, s'). Inr (Some x, s'))
      else Inr (None, s))"

definition apply_verdict ::
  "incident_class \<Rightarrow> string option \<Rightarrow> string option \<Rightarrow> string option \<Rightarrow> string \<Rightarrow>
   (string \<times> json) list option \<Rightarrow> int \<Rightarrow> verdict \<Rightarrow> store \<Rightarrow> exn + (supervision_decision \<times> store)" where
  "apply_verdict c dispatch_id terminal_id component reason metadata attempts_used v s =
     bindE (record_incident (vd_class v) (rc_default_severity (contract_of (vd_class v))) dispatch_id
              terminal_id component (Some (attempts_used + 1)) (Some (vd_action v)) (Some ''pending'') reason
              (Some (vd_remaining v)) (vd_escalate v) (vd_dead_letter v) metadata s) (\<lambda>(incident, s2).
     bindE (if truthy dispatch_id
            then increment_retry (the dispatch_id) c (\<not> vd_can_retry v) (vd_escalate v) (vd_halt v) s2
            else Inr s2) (\<lambda>s3.
     bindE (if vd_dead_letter v \<and> truthy dispatch_id
            then apply_dead_letter (the dispatch_id) (vd_class v) reason (ir_incident_id incident) s3
            else Inr s3) (\<lambda>s4.
     bindE (escalate_if v (ir_incident_id incident) dispatch_id terminal_id reason attempts_used metadata s4)
       (\<lambda>(escalation, s5).
     bindE (if vd_retry v then get_cooldown_seconds (vd_class v) attempts_used else Inr 0) (\<lambda>cooldown.
     Inr (decision_of v dispatch_id reason incident escalation cooldown, s5))))))"

definition handle_open ::
  "incident_class \<Rightarrow> string option \<Rightarrow> string option \<Rightarrow> string option \<Rightarrow> string \<Rightarrow>
   (string \<times> json) list option \<Rightarrow> store \<Rightarrow> exn + (supervision_decision \<times> store)" where
  "handle_open c dispatch_id terminal_id component reason metadata s =
     bindE (get_or_create_retry_state dispatch_id c s) (\<lambda>(retry, s1).
     bindE (evaluate_incident c dispatch_id retry s1) (\<lambda>v.
     apply_verdict c dispatch_id terminal_id component reason metadata (rs_attempts_used retry) v s1))"

definition handle_incident ::
  "incident_class \<Rightarrow> string option \<Rightarrow> string option \<Rightarrow> string option \<Rightarrow> string \<Rightarrow>
   (string \<times> json) list option \<Rightarrow> store \<Rightarrow> (exn + supervision_decision) \<times> store" where
  "handle_incident c dispatch_id terminal_id component reason metadata s =
     commit s (handle_open c dispatch_id terminal_id component reason metadata s)"

section \<open>Resuming\<close>

text \<open>The dictionary \<^verbatim>\<open>can_resume\<close> returns; a key it does not set is \<open>None\<close>.\<close>

record resume_check =
  rz_allowed :: bool
  rz_reason :: string
  rz_dispatch_state :: "string option"
  rz_halted_by :: "string option"
  rz_exhausted_budgets :: "(string \<times> int) list option"
  rz_attempt_count :: "int option"

definition no_resume :: "string \<Rightarrow> string option \<Rightarrow> resume_check" where
  "no_resume reason state =
     \<lparr>rz_allowed = False, rz_reason = reason, rz_dispatch_state = state, rz_halted_by = None,
      rz_exhausted_budgets = None, rz_attempt_count = None\<rparr>"

definition can_resume :: "store \<Rightarrow> string \<Rightarrow> resume_check" where
  "can_resume s dispatch_id =
     (case get_dispatch s dispatch_id of
        None \<Rightarrow> no_resume (''Dispatch not found: '' @ dispatch_id) None
      | Some d \<Rightarrow>
          let state = d_state d in
          if state \<noteq> ''recovered'' \<and> state \<noteq> ''queued'' then
            no_resume (''Dispatch in state '' @ [CHR 39] @ state @ [CHR 39] @
                       '' cannot resume (requires '' @ [CHR 39] @ ''recovered'' @ [CHR 39] @ '' or '' @
                       [CHR 39] @ ''queued'' @ [CHR 39] @ '')'') (Some state)
          else case find (\<lambda>y. y_dispatch y = dispatch_id \<and> y_halted y) (retries s) of
            Some y \<Rightarrow>
              (no_resume (''Auto-recovery halted for incident class '' @ [CHR 39] @ y_class y @ [CHR 39] @ '' '' @
                          [CHR 0xE2, CHR 0x80, CHR 0x94] @ '' operator must clear halt'') (Some state))
              \<lparr>rz_halted_by := Some (y_class y)\<rparr>
          | None \<Rightarrow>
              let exhausted = filter (\<lambda>y. y_dispatch y = dispatch_id \<and> y_budget_exhausted y) (retries s) in
              if exhausted \<noteq> [] then
                (no_resume ''Retry budget exhausted for one or more incident classes'' (Some state))
                \<lparr>rz_exhausted_budgets := Some (map (\<lambda>y. (y_class y, y_attempts_used y)) exhausted)\<rparr>
              else
                \<lparr>rz_allowed = True, rz_reason = ''Dispatch eligible for resume'',
                 rz_dispatch_state = Some state, rz_halted_by = None, rz_exhausted_budgets = None,
                 rz_attempt_count = Some (d_attempt_count d)\<rparr>)"

section \<open>Queries and operator actions\<close>

definition get_incident_summary :: "store \<Rightarrow> string option \<Rightarrow> string option \<Rightarrow> int \<Rightarrow> incident_row list" where
  "get_incident_summary s dispatch_id terminal_id limit =
     sql_limit limit (sort_key (\<lambda>i. - i_occurred_at i)
       (filter (\<lambda>i. (truthy dispatch_id \<longrightarrow> i_dispatch i = dispatch_id) \<and>
                    (truthy terminal_id \<longrightarrow> i_terminal i = terminal_id)) (incidents s)))"

definition get_pending_escalations :: "store \<Rightarrow> int \<Rightarrow> escalation_row list" where
  "get_pending_escalations s limit =
     sql_limit limit (sort_key (\<lambda>x. - x_created_at x) (filter (\<lambda>x. \<not> x_acknowledged x) (escalations s)))"

definition get_dead_letter_dispatches :: "store \<Rightarrow> int \<Rightarrow> dispatch_row list" where
  "get_dead_letter_dispatches s limit =
     sql_limit limit (sort_key (\<lambda>d. - d_updated_at d) (filter (\<lambda>d. d_state d = ''dead_letter'') (dispatches s)))"

definition acknowledge_escalation :: "string \<Rightarrow> store \<Rightarrow> bool \<times> store" where
  "acknowledge_escalation escalation_id s =
     (let p = (\<lambda>x. x_id x = escalation_id \<and> \<not> x_acknowledged x) in
      (list_ex p (escalations s),
       s\<lparr>escalations := update_where p
           (\<lambda>x. x\<lparr>x_acknowledged := True, x_acknowledged_at := Some (clock s)\<rparr>) (escalations s)\<rparr>))"

definition halted_row :: "string \<Rightarrow> string \<Rightarrow> retry_row \<Rightarrow> bool" where
  "halted_row dispatch_id cls y = (y_dispatch y = dispatch_id \<and> y_class y = cls \<and> y_halted y)"

definition clear_halt :: "string \<Rightarrow> string \<Rightarrow> store \<Rightarrow> (exn + bool) \<times> store" where
  "clear_halt dispatch_id cls s =
     commit s
       (let hit = list_ex (halted_row dispatch_id cls) (retries s);
            s1 = s\<lparr>retries := update_where (halted_row dispatch_id cls)
                   (\<lambda>y. y\<lparr>y_halted := False, y_updated_at := clock s\<rparr>) (retries s)\<rparr>
        in if hit then
             bindE (append_event ''halt_cleared'' ''dispatch'' dispatch_id None None ''operator''
                      (Some (''Halt cleared for '' @ cls))
                      (Some [(''incident_class'', JStr cls)]) None s1) (\<lambda>s2. Inr (True, s2))
           else Inr (False, s1))"

section \<open>What each step changes\<close>

text \<open>What the supervisor leaves alone: the tables it does not own, the schema and the clock.\<close>

definition supervisor_frame :: "store \<Rightarrow> store \<Rightarrow> bool" where
  "supervisor_frame s s' =
     (same_env s s' \<and> attempts s' = attempts s \<and> leases s' = leases s \<and> workers s' = workers s \<and>
      runs s' = runs s \<and> budgets s' = budgets s \<and> inbox s' = inbox s \<and> (\<exists>es. events s' = events s @ es))"

lemma supervisor_frame_refl [simp, intro]: "supervisor_frame s s"
  by (simp add: supervisor_frame_def)

lemma supervisor_frame_trans: "supervisor_frame s s1 \<Longrightarrow> supervisor_frame s1 s2 \<Longrightarrow> supervisor_frame s s2"
  by (auto simp: supervisor_frame_def intro: same_env_trans)

lemma supervisor_frame_env: "supervisor_frame s s' \<Longrightarrow> same_env s s'"
  by (simp add: supervisor_frame_def)

lemma supervisor_frame_log: "supervisor_frame s0 s \<Longrightarrow> supervisor_frame s0 (log_event e s)"
  by (auto simp: supervisor_frame_def)

lemma supervisor_frame_rows [simp]:
  "supervisor_frame s0 (s\<lparr>incidents := is\<rparr>) = supervisor_frame s0 s"
  "supervisor_frame s0 (s\<lparr>retries := ys\<rparr>) = supervisor_frame s0 s"
  "supervisor_frame s0 (s\<lparr>escalations := xs\<rparr>) = supervisor_frame s0 s"
  "supervisor_frame s0 (s\<lparr>dispatches := ds\<rparr>) = supervisor_frame s0 s"
  "supervisor_frame s0 (s\<lparr>uuid_next := n\<rparr>) = supervisor_frame s0 s"
  by (simp_all add: supervisor_frame_def same_env_def)

text \<open>The view of the retry state that an evaluation starts from.\<close>

definition retry_view :: "string option \<Rightarrow> incident_class \<Rightarrow> store \<Rightarrow> retry_state" where
  "retry_view dispatch_id c s =
     (if \<not> truthy dispatch_id then fresh_retry None (class_value c)
      else case retry_at s (the dispatch_id) (class_value c) of
        Some y \<Rightarrow> retry_of_row y
      | None \<Rightarrow> fresh_retry dispatch_id (class_value c))"

definition attempts_used :: "store \<Rightarrow> string \<Rightarrow> incident_class \<Rightarrow> int" where
  "attempts_used s dispatch_id c =
     (case retry_at s dispatch_id (class_value c) of None \<Rightarrow> 0 | Some y \<Rightarrow> y_attempts_used y)"

lemma attempts_used_view:
  "rs_attempts_used (retry_view did c s) = (if truthy did then attempts_used s (the did) c else 0)"
  by (simp add: retry_view_def attempts_used_def fresh_retry_def retry_of_row_def split: option.splits)

lemma get_or_create_cases:
  assumes "get_or_create_retry_state did c s = Inr (r, s1)"
  obtains (none) "\<not> truthy did" "r = retry_view did c s" "s1 = s"
  | (found) y where "truthy did" "retry_at s (the did) (class_value c) = Some y"
      "r = retry_view did c s" "s1 = s"
  | (created) y where "truthy did" "retry_at s (the did) (class_value c) = None"
      "r = retry_view did c s" "s1 = s\<lparr>retries := retries s @ [y]\<rparr>" "y_dispatch y = the did"
      "y_class y = class_value c" "y_attempts_used y = 0" "\<not> y_halted y" "\<not> y_budget_exhausted y"
proof (cases "truthy did")
  case False
  then have "get_or_create_retry_state did c s = Inr (retry_view did c s, s)"
    by (simp add: get_or_create_retry_state_def retry_view_def)
  with assms have "r = retry_view did c s" "s1 = s" by (metis Inr_inject Pair_inject)+
  with False show ?thesis by (rule none)
next
  case True
  show ?thesis
  proof (cases "retry_at s (the did) (class_value c)")
    case (Some y)
    with True have "get_or_create_retry_state did c s = Inr (retry_view did c s, s)"
      by (simp add: get_or_create_retry_state_def retry_view_def)
    with assms have "r = retry_view did c s" "s1 = s" by (metis Inr_inject Pair_inject)+
    with True Some show ?thesis by (rule found)
  next
    case None
    then have v: "retry_view did c s = fresh_retry did (class_value c)" using True by (simp add: retry_view_def)
    from True None have "get_or_create_retry_state did c s =
        bindE (project_id_stamp s ''retry_state'')
          (\<lambda>stamp. Inr (retry_view did c s, s\<lparr>retries := retries s @ [blank_retry (the did) c stamp s]\<rparr>))"
      unfolding v by (simp add: get_or_create_retry_state_def)
    with assms have eq: "bindE (project_id_stamp s ''retry_state'')
        (\<lambda>stamp. Inr (retry_view did c s, s\<lparr>retries := retries s @ [blank_retry (the did) c stamp s]\<rparr>)) =
      Inr (r, s1)" by (simp only:)
    obtain stamp where "r = retry_view did c s"
      "s1 = s\<lparr>retries := retries s @ [blank_retry (the did) c stamp s]\<rparr>"
      using eq by (cases "project_id_stamp s ''retry_state''") auto
    from created [OF True None this] show ?thesis by (simp add: blank_retry_def)
  qed
qed

lemma insert_incident_row_Inr:
  "insert_incident_row row s = Inr s' \<Longrightarrow> \<exists>stamp. s' = s\<lparr>incidents := incidents s @ [row\<lparr>i_project := stamp\<rparr>]\<rparr>"
  by (auto simp: insert_incident_row_def result_iffs)

lemma insert_escalation_row_Inr:
  "insert_escalation_row row s = Inr s' \<Longrightarrow>
   \<exists>stamp. s' = s\<lparr>escalations := escalations s @ [row\<lparr>x_project := stamp\<rparr>]\<rparr>"
  by (auto simp: insert_escalation_row_def result_iffs)

lemma incident_row_of_simps [simp]:
  "i_id (incident_row_of r md) = ir_incident_id r" "i_class (incident_row_of r md) = ir_incident_class r"
  "i_severity (incident_row_of r md) = ir_severity r" "i_dispatch (incident_row_of r md) = ir_dispatch_id r"
  "i_terminal (incident_row_of r md) = ir_terminal_id r" "i_escalated (incident_row_of r md) = ir_escalated r"
  "i_budget_exhausted (incident_row_of r md) = (ir_budget_remaining r = Some 0)"
  "i_state (incident_row_of r md) =
     (if ir_dead_lettered r then ''dead_lettered'' else if ir_escalated r then ''escalated'' else ''open'')"
  by (simp_all add: incident_row_of_def split: prod.split)

lemma record_incident_Inr:
  assumes "record_incident c sev did tid cmp n act out reason left esc dead md s = Inr (r, s')"
  shows "\<exists>stamp. incidents s' = incidents s @ [(incident_row_of r md)\<lparr>i_project := stamp\<rparr>]"
    and "ir_incident_class r = class_value c" "ir_severity r = severity_value sev" "ir_dispatch_id r = did"
      "ir_terminal_id r = tid" "ir_escalated r = esc" "ir_dead_lettered r = dead"
      "ir_budget_remaining r = left" "ir_recovery_action r = act"
    and "\<exists>e. events s' = events s @ [e] \<and> e_type e = ''incident_recorded'' \<and> e_entity e = ir_incident_id r"
    and "supervisor_frame s s'" and "dispatches s' = dispatches s" and "retries s' = retries s"
    and "escalations s' = escalations s"
proof -
  from assms obtain s1 e where ins: "insert_incident_row (incident_row_of r md) (s\<lparr>uuid_next := Suc (uuid_next s)\<rparr>) = Inr s1"
    and s': "s' = log_event e s1" and e: "e_type e = ''incident_recorded''" "e_entity e = ir_incident_id r"
    and r: "ir_incident_class r = class_value c" "ir_severity r = severity_value sev" "ir_dispatch_id r = did"
      "ir_terminal_id r = tid" "ir_escalated r = esc" "ir_dead_lettered r = dead"
      "ir_budget_remaining r = left" "ir_recovery_action r = act"
    unfolding record_incident_def Let_def take_uuid_def prod.case bindE_eq_Inr append_event_eq_Inr
    by fastforce
  from insert_incident_row_Inr [OF ins] obtain stamp where s1: "s1 = s\<lparr>uuid_next := Suc (uuid_next s),
      incidents := incidents s @ [(incident_row_of r md)\<lparr>i_project := stamp\<rparr>]\<rparr>" by auto
  show "\<exists>stamp. incidents s' = incidents s @ [(incident_row_of r md)\<lparr>i_project := stamp\<rparr>]"
    by (intro exI [of _ stamp]) (simp add: s' s1)
  show "\<exists>e. events s' = events s @ [e] \<and> e_type e = ''incident_recorded'' \<and> e_entity e = ir_incident_id r"
    using e by (intro exI [of _ e]) (simp add: s' s1)
  show "supervisor_frame s s'" unfolding s' s1 by (intro supervisor_frame_log) simp
  show "dispatches s' = dispatches s" "retries s' = retries s" "escalations s' = escalations s"
    by (simp_all add: s' s1)
  show "ir_incident_class r = class_value c" "ir_severity r = severity_value sev" "ir_dispatch_id r = did"
    "ir_terminal_id r = tid" "ir_escalated r = esc" "ir_dead_lettered r = dead"
    "ir_budget_remaining r = left" "ir_recovery_action r = act"
    by (rule r)+
qed

lemma record_escalation_Inr:
  assumes "record_escalation iid did tid c sev reason n ex halt md s = Inr (r, s')"
  shows "\<exists>stamp. escalations s' = escalations s @ [(escalation_row_of r)\<lparr>x_project := stamp\<rparr>]"
    and "er_incident_id r = iid" "er_dispatch_id r = did" "er_incident_class r = class_value c"
      "er_escalated_to r = er_escalate_to (rc_escalation (contract_of c))"
      "er_budget_exhausted r = ex" "er_auto_recovery_halted r = halt"
    and "\<exists>e. events s' = events s @ [e] \<and> e_type e = ''escalation_emitted'' \<and> e_entity e = er_escalation_id r"
    and "supervisor_frame s s'" and "dispatches s' = dispatches s" and "retries s' = retries s"
    and "incidents s' = incidents s"
proof -
  from assms obtain s1 e where ins: "insert_escalation_row (escalation_row_of r) (s\<lparr>uuid_next := Suc (uuid_next s)\<rparr>) = Inr s1"
    and s': "s' = log_event e s1" and e: "e_type e = ''escalation_emitted''" "e_entity e = er_escalation_id r"
    and r: "er_incident_id r = iid" "er_dispatch_id r = did" "er_incident_class r = class_value c"
      "er_escalated_to r = er_escalate_to (rc_escalation (contract_of c))"
      "er_budget_exhausted r = ex" "er_auto_recovery_halted r = halt"
    unfolding record_escalation_def Let_def take_uuid_def prod.case bindE_eq_Inr append_event_eq_Inr
    by fastforce
  from insert_escalation_row_Inr [OF ins] obtain stamp where s1: "s1 = s\<lparr>uuid_next := Suc (uuid_next s),
      escalations := escalations s @ [(escalation_row_of r)\<lparr>x_project := stamp\<rparr>]\<rparr>" by auto
  show "\<exists>stamp. escalations s' = escalations s @ [(escalation_row_of r)\<lparr>x_project := stamp\<rparr>]"
    by (intro exI [of _ stamp]) (simp add: s' s1)
  show "\<exists>e. events s' = events s @ [e] \<and> e_type e = ''escalation_emitted'' \<and> e_entity e = er_escalation_id r"
    using e by (intro exI [of _ e]) (simp add: s' s1)
  show "supervisor_frame s s'" unfolding s' s1 by (intro supervisor_frame_log) simp
  show "dispatches s' = dispatches s" "retries s' = retries s" "incidents s' = incidents s"
    by (simp_all add: s' s1)
  show "er_incident_id r = iid" "er_dispatch_id r = did" "er_incident_class r = class_value c"
    "er_escalated_to r = er_escalate_to (rc_escalation (contract_of c))"
    "er_budget_exhausted r = ex" "er_auto_recovery_halted r = halt"
    by (rule r)+
qed

lemma apply_dead_letter_Inr:
  assumes "apply_dead_letter did c reason iid s = Inr s'"
  shows "s' = s \<and> (\<forall>d. get_dispatch s did = Some d \<longrightarrow> d_state d \<notin> set DEAD_LETTER_SOURCE_STATES) \<or>
    (\<exists>d. get_dispatch s did = Some d \<and> d_state d \<in> set DEAD_LETTER_SOURCE_STATES \<and>
       dispatches s' = update_where (\<lambda>r. d_id r = did)
         (\<lambda>r. r\<lparr>d_state := ''dead_letter'', d_updated_at := clock s\<rparr>) (dispatches s) \<and>
       supervisor_frame s s' \<and> retries s' = retries s \<and> incidents s' = incidents s \<and>
       escalations s' = escalations s)"
proof (cases "get_dispatch s did")
  case None
  with assms show ?thesis by (simp add: apply_dead_letter_def)
next
  case (Some d)
  show ?thesis
  proof (cases "d_state d \<in> set DEAD_LETTER_SOURCE_STATES \<and>
      ''dead_letter'' \<in> set (allowed_from DISPATCH_TRANSITIONS (d_state d))")
    case False
    then have "d_state d \<notin> set DEAD_LETTER_SOURCE_STATES"
      by (auto simp: DEAD_LETTER_SOURCE_STATES_def DISPATCH_TRANSITIONS_def allowed_from_def)
    with assms Some show ?thesis by (simp add: apply_dead_letter_def)
  next
    case True
    from assms Some True obtain r s1 e actor msg md where
      tr: "transition_dispatch did ''dead_letter'' actor msg md Unset s = Inr (r, s1)" and s': "s' = log_event e s1"
      unfolding apply_dead_letter_def option.case Let_def
      by (auto simp: bindE_eq_Inr append_event_eq_Inr split: prod.splits)
    from transition_dispatch_Unset [OF tr]
    have "dispatches s1 = update_where (\<lambda>r. d_id r = did)
        (\<lambda>r. r\<lparr>d_state := ''dead_letter'', d_updated_at := clock s\<rparr>) (dispatches s)"
      and at: "attempts s1 = attempts s" and fr: "dispatch_frame s s1" by auto
    moreover have "supervisor_frame s s1"
      using at fr by (auto simp: supervisor_frame_def dispatch_frame_def)
    ultimately show ?thesis using Some True fr
      by (auto simp: s' dispatch_frame_def intro: supervisor_frame_log)
  qed
qed

lemma increment_retry_Inr:
  "increment_retry did c ex esc halt s = Inr s' \<Longrightarrow>
   \<exists>cd. s' = s\<lparr>retries := update_where (\<lambda>y. y_dispatch y = did \<and> y_class y = class_value c)
      (bump_retry (clock s) cd ex esc halt) (retries s)\<rparr>"
  by (auto simp: increment_retry_def bindE_eq_Inr)

section \<open>The verdict\<close>

definition verdict_of :: "incident_class \<Rightarrow> string option \<Rightarrow> store \<Rightarrow> verdict" where
  "verdict_of c did s = projr (evaluate_incident c did (retry_view did c s) s)"

definition used_by :: "incident_class \<Rightarrow> string option \<Rightarrow> store \<Rightarrow> int" where
  "used_by c did s = rs_attempts_used (retry_view did c s)"

lemma evaluate_incident_eq: "evaluate_incident c did (retry_view did c s) s = Inr (verdict_of c did s)"
  by (simp add: verdict_of_def evaluate_incident_def Let_def)

lemma evaluate_incident_cong:
  assumes "incidents s1 = incidents s" and "dispatches s1 = dispatches s" and "clock s1 = clock s"
  shows "evaluate_incident c did r s1 = evaluate_incident c did r s"
proof -
  have "effective_class s1 did n c = effective_class s did n c" for n
    using assms(1) by (simp add: effective_class_def detect_failure_loop_def incident_count_def)
  moreover have "get_dispatch s1 d = get_dispatch s d" for d using assms(2) by (simp add: get_dispatch_def)
  moreover have "cooldown_elapsed r s1 = cooldown_elapsed r s"
    unfolding cooldown_elapsed_def assms(3) ..
  ultimately show ?thesis unfolding evaluate_incident_def by (simp only:)
qed

lemma verdict_simps:
  "vd_class (verdict_of c did s) = effective_class s did (used_by c did s) c"
  "vd_can_retry (verdict_of c did s) = (used_by c did s < max_retries_of (vd_class (verdict_of c did s)))"
  "vd_escalate (verdict_of c did s) = (escalate_after (vd_class (verdict_of c did s)) \<le> used_by c did s)"
  "vd_halt (verdict_of c did s) =
     (halts (vd_class (verdict_of c did s)) \<and> vd_escalate (verdict_of c did s))"
  "vd_dead_letter (verdict_of c did s) =
     (truthy did \<and> (\<exists>d. get_dispatch s (the did) = Some d \<and> \<not> vd_can_retry (verdict_of c did s) \<and>
        should_dead_letter (vd_class (verdict_of c did s)) (used_by c did s) (d_state d)))"
  "vd_retry (verdict_of c did s) =
     (vd_can_retry (verdict_of c did s) \<and> \<not> vd_halt (verdict_of c did s) \<and>
      \<not> vd_dead_letter (verdict_of c did s) \<and> cooldown_elapsed (retry_view did c s) s)"
  "vd_action (verdict_of c did s) =
     select_recovery_action (contract_of (vd_class (verdict_of c did s))) (vd_retry (verdict_of c did s))
       (vd_dead_letter (verdict_of c did s)) (vd_escalate (verdict_of c did s)) (vd_halt (verdict_of c did s))"
  by (auto simp: verdict_of_def evaluate_incident_def Let_def used_by_def should_escalate_iff split: option.splits)

lemma effective_class_cases:
  "effective_class s did n c = c \<or>
   effective_class s did n c = REPEATED_FAILURE_LOOP \<and> truthy did \<and> REPEATED_FAILURE_THRESHOLD \<le> n"
  by (simp add: effective_class_def)

section \<open>What handling an incident changes\<close>

abbreviation retry_key :: "string option \<Rightarrow> incident_class \<Rightarrow> retry_row \<Rightarrow> bool" where
  "retry_key did c \<equiv> (\<lambda>y. y_dispatch y = the did \<and> y_class y = class_value c)"

definition blank :: "string option \<Rightarrow> incident_class \<Rightarrow> retry_row \<Rightarrow> bool" where
  "blank did c y = (retry_key did c y \<and> y_attempts_used y = 0 \<and> \<not> y_halted y \<and> \<not> y_budget_exhausted y)"

definition retries_bumped :: "incident_class \<Rightarrow> string option \<Rightarrow> verdict \<Rightarrow> store \<Rightarrow> store \<Rightarrow> bool" where
  "retries_bumped c did v s s' =
     (if truthy did
      then \<exists>ys cd. (ys = retries s \<and> (\<exists>y \<in> set ys. retry_key did c y) \<or>
                   retry_at s (the did) (class_value c) = None \<and> (\<exists>y. ys = retries s @ [y] \<and> blank did c y)) \<and>
             retries s' = update_where (retry_key did c)
               (bump_retry (clock s) cd (\<not> vd_can_retry v) (vd_escalate v) (vd_halt v)) ys
      else retries s' = retries s)"

definition dispatch_settled :: "string option \<Rightarrow> verdict \<Rightarrow> store \<Rightarrow> store \<Rightarrow> bool" where
  "dispatch_settled did v s s' =
     (dispatches s' =
        (if vd_dead_letter v
         then update_where (\<lambda>r. d_id r = the did)
                (\<lambda>r. r\<lparr>d_state := ''dead_letter'', d_updated_at := clock s\<rparr>) (dispatches s)
         else dispatches s))"

lemma escalate_if_Inr:
  assumes "escalate_if v iid did tid reason n md s = Inr (esc, s')"
  shows "incidents s' = incidents s" "dispatches s' = dispatches s" "retries s' = retries s"
    "supervisor_frame s s'"
    and "\<exists>xs. escalations s' = escalations s @ xs \<and> length xs = (if vd_escalate v then 1 else 0) \<and>
           (\<forall>x \<in> set xs. x_incident x = iid \<and> x_dispatch x = did \<and>
              x_class x = class_value (vd_class v) \<and> x_halted x = vd_halt v \<and> \<not> x_acknowledged x)"
proof -
  show "incidents s' = incidents s" "dispatches s' = dispatches s" "retries s' = retries s"
    "supervisor_frame s s'"
    using assms by (auto simp: escalate_if_def bindE_eq_Inr record_escalation_Inr split: if_splits)
  show "\<exists>xs. escalations s' = escalations s @ xs \<and> length xs = (if vd_escalate v then 1 else 0) \<and>
           (\<forall>x \<in> set xs. x_incident x = iid \<and> x_dispatch x = did \<and>
              x_class x = class_value (vd_class v) \<and> x_halted x = vd_halt v \<and> \<not> x_acknowledged x)"
  proof (cases "vd_escalate v")
    case False
    with assms show ?thesis by (simp add: escalate_if_def)
  next
    case True
    with assms obtain x sev ex where rec: "record_escalation iid did tid (vd_class v) sev reason n ex (vd_halt v) md s = Inr (x, s')"
      by (auto simp: escalate_if_def bindE_eq_Inr)
    note r = record_escalation_Inr [OF rec]
    from r(1) obtain stamp where "escalations s' = escalations s @ [(escalation_row_of x)\<lparr>x_project := stamp\<rparr>]" by blast
    with True r show ?thesis
      by (intro exI [of _ "[(escalation_row_of x)\<lparr>x_project := stamp\<rparr>]"]) (simp add: escalation_row_of_def)
  qed
qed

lemma handle_open_effect:
  assumes "handle_open c did tid cmp reason md s = Inr (d, s')"
  defines "v \<equiv> verdict_of c did s"
  shows "sd_should_retry d = vd_retry v" "sd_should_escalate d = vd_escalate v"
    "sd_should_dead_letter d = vd_dead_letter v" "sd_auto_recovery_halted d = vd_halt v"
    "sd_action_taken d = vd_action v" "sd_incident_class d = class_value (vd_class v)"
    and "\<exists>i. incidents s' = incidents s @ [i] \<and> i_id i = ir_incident_id (sd_incident_record d) \<and>
           i_class i = class_value (vd_class v) \<and> i_dispatch i = did \<and> i_escalated i = vd_escalate v \<and>
           i_state i = (if vd_dead_letter v then ''dead_lettered'' else if vd_escalate v then ''escalated'' else ''open'')"
    and "\<exists>xs. escalations s' = escalations s @ xs \<and> length xs = (if vd_escalate v then 1 else 0) \<and>
           (\<forall>x \<in> set xs. x_incident x = ir_incident_id (sd_incident_record d) \<and> x_dispatch x = did \<and>
              x_class x = class_value (vd_class v) \<and> x_halted x = vd_halt v \<and> \<not> x_acknowledged x)"
    and "retries_bumped c did v s s'" and "dispatch_settled did v s s'" and "supervisor_frame s s'"
proof -
  from assms(1) obtain r s1 v' where gc: "get_or_create_retry_state did c s = Inr (r, s1)"
    and ev: "evaluate_incident c did r s1 = Inr v'"
    and av: "apply_verdict c did tid cmp reason md (rs_attempts_used r) v' s1 = Inr (d, s')"
    by (auto simp: handle_open_def bindE_eq_Inr)
  have s1: "incidents s1 = incidents s" "dispatches s1 = dispatches s" "escalations s1 = escalations s"
    "supervisor_frame s s1" "clock s1 = clock s" "r = retry_view did c s"
    using gc by (cases rule: get_or_create_cases; simp)+
  have ys: "truthy did \<Longrightarrow> retries s1 = retries s \<and> (\<exists>y \<in> set (retries s1). retry_key did c y) \<or>
      retry_at s (the did) (class_value c) = None \<and> (\<exists>y. retries s1 = retries s @ [y] \<and> blank did c y)"
    "\<not> truthy did \<Longrightarrow> retries s1 = retries s"
    using gc by (cases rule: get_or_create_cases; fastforce simp: blank_def retry_at_def dest: find_SomeD)+
  have v: "v' = v"
    using ev unfolding v_def s1(6) evaluate_incident_cong [OF s1(1,2,5)] evaluate_incident_eq by simp
  from av obtain inc s2 s3 s4 esc s5 cd where
    inc: "record_incident (vd_class v) (rc_default_severity (contract_of (vd_class v))) did tid cmp
        (Some (rs_attempts_used r + 1)) (Some (vd_action v)) (Some ''pending'') reason (Some (vd_remaining v))
        (vd_escalate v) (vd_dead_letter v) md s1 = Inr (inc, s2)"
    and bump: "(if truthy did then increment_retry (the did) c (\<not> vd_can_retry v) (vd_escalate v) (vd_halt v) s2
        else Inr s2) = Inr s3"
    and dead: "(if vd_dead_letter v \<and> truthy did
            then apply_dead_letter (the did) (vd_class v) reason (ir_incident_id inc) s3
            else Inr s3) = Inr s4"
    and esc: "escalate_if v (ir_incident_id inc) did tid reason (rs_attempts_used r) md s4 = Inr (esc, s')"
    and d: "d = decision_of v did reason inc esc cd"
    unfolding v apply_verdict_def bindE_eq_Inr by (auto simp: bindE_eq_Inr split: prod.splits)
  note r = record_incident_Inr [OF inc]
  show "sd_should_retry d = vd_retry v" "sd_should_escalate d = vd_escalate v"
    "sd_should_dead_letter d = vd_dead_letter v" "sd_auto_recovery_halted d = vd_halt v"
    "sd_action_taken d = vd_action v" "sd_incident_class d = class_value (vd_class v)"
    by (simp_all add: d decision_of_def)
  have s3: "incidents s3 = incidents s2" "dispatches s3 = dispatches s2" "escalations s3 = escalations s2"
    "supervisor_frame s2 s3" "clock s3 = clock s2"
    using bump by (auto split: if_splits dest!: increment_retry_Inr)
  have s4: "incidents s4 = incidents s3" "escalations s4 = escalations s3" "retries s4 = retries s3"
    "supervisor_frame s3 s4"
    using dead by (auto split: if_splits dest!: apply_dead_letter_Inr)
  note s5 = escalate_if_Inr [OF esc]
  from r(1) obtain stamp where "incidents s2 = incidents s1 @ [(incident_row_of inc md)\<lparr>i_project := stamp\<rparr>]" by blast
  then have i: "incidents s' = incidents s @ [(incident_row_of inc md)\<lparr>i_project := stamp\<rparr>]"
    using s1(1) s3(1) s4(1) s5(1) by simp
  show "\<exists>i. incidents s' = incidents s @ [i] \<and> i_id i = ir_incident_id (sd_incident_record d) \<and>
      i_class i = class_value (vd_class v) \<and> i_dispatch i = did \<and> i_escalated i = vd_escalate v \<and>
      i_state i = (if vd_dead_letter v then ''dead_lettered'' else if vd_escalate v then ''escalated'' else ''open'')"
    using i r by (intro exI [of _ "(incident_row_of inc md)\<lparr>i_project := stamp\<rparr>"]) (simp add: d decision_of_def)
  have "escalations s4 = escalations s" using s4(2) s3(3) r(14) s1(3) by simp
  with s5(5) show "\<exists>xs. escalations s' = escalations s @ xs \<and> length xs = (if vd_escalate v then 1 else 0) \<and>
      (\<forall>x \<in> set xs. x_incident x = ir_incident_id (sd_incident_record d) \<and> x_dispatch x = did \<and>
         x_class x = class_value (vd_class v) \<and> x_halted x = vd_halt v \<and> \<not> x_acknowledged x)"
    by (simp add: d decision_of_def)
  have clocks: "clock s2 = clock s" "clock s3 = clock s"
    using supervisor_frame_env [OF r(11)] s1(5) s3(5) by (simp_all add: same_env_simps)
  show "retries_bumped c did v s s'"
  proof (cases "truthy did")
    case False
    with bump ys(2) r(13) s4(3) s5(3) show ?thesis by (simp add: retries_bumped_def)
  next
    case True
    with bump obtain cd where "retries s3 = update_where (retry_key did c)
        (bump_retry (clock s) cd (\<not> vd_can_retry v) (vd_escalate v) (vd_halt v)) (retries s1)"
      using r(13) clocks by (auto dest!: increment_retry_Inr)
    with True ys(1) s4(3) s5(3) show ?thesis
      by (auto simp: retries_bumped_def)
  qed
  show "dispatch_settled did v s s'"
  proof (cases "vd_dead_letter v")
    case False
    with dead have "s4 = s3" by simp
    with False s5(2) s3(2) r(12) s1(2) show ?thesis by (simp add: dispatch_settled_def)
  next
    case True
    then have did: "truthy did" and src: "\<exists>x. get_dispatch s (the did) = Some x \<and> d_state x \<in> set DEAD_LETTER_SOURCE_STATES"
      by (auto simp: v_def verdict_simps(5) should_dead_letter_iff)
    have "get_dispatch s3 (the did) = get_dispatch s (the did)"
      using s3(2) r(12) s1(2) by (simp add: get_dispatch_def)
    moreover from dead True did have "apply_dead_letter (the did) (vd_class v) reason (ir_incident_id inc) s3 = Inr s4"
      by simp
    ultimately show ?thesis
      using apply_dead_letter_Inr src True s5(2) s3(2) r(12) s1(2) clocks by (fastforce simp: dispatch_settled_def)
  qed
  show "supervisor_frame s s'"
    by (rule supervisor_frame_trans [OF s1(4) supervisor_frame_trans [OF r(11)
          supervisor_frame_trans [OF s3(4) supervisor_frame_trans [OF s4(4) s5(4)]]]])
qed

section \<open>The retry account\<close>

lemma truthy_Some: "truthy did \<longleftrightarrow> (\<exists>d. did = Some d \<and> d \<noteq> [])"
  by (cases did) auto

lemma retry_at_bumped:
  assumes "retries_bumped c did v s s'"
  shows "\<not> (did = Some d \<and> c' = c) \<Longrightarrow> retry_at s' d (class_value c') = retry_at s d (class_value c')"
    and "did = Some d \<Longrightarrow> d \<noteq> [] \<Longrightarrow> \<exists>y. retry_at s' d (class_value c) = Some y \<and>
      y_attempts_used y = attempts_used s d c + 1 \<and> y_halted y = vd_halt v \<and>
      y_budget_exhausted y = (\<not> vd_can_retry v)"
proof -
  let ?p = "\<lambda>y. y_dispatch y = d \<and> y_class y = class_value c'"
  show "retry_at s' d (class_value c') = retry_at s d (class_value c')" if other: "\<not> (did = Some d \<and> c' = c)"
  proof (cases "truthy did")
    case False
    with assms show ?thesis by (simp add: retries_bumped_def retry_at_def)
  next
    case True
    then obtain x where x: "did = Some x" by (auto simp: truthy_Some)
    from assms True obtain ys cd where ys: "ys = retries s \<or> (\<exists>y. ys = retries s @ [y] \<and> blank did c y)"
      and s': "retries s' = update_where (retry_key did c)
          (bump_retry (clock s) cd (\<not> vd_can_retry v) (vd_escalate v) (vd_halt v)) ys"
      by (auto simp: retries_bumped_def)
    have "find ?p (retries s') = find ?p ys"
      unfolding s' using other x by (intro find_update_disjoint) (auto simp: bump_retry_def)
    also have "\<dots> = find ?p (retries s)"
      using ys other x by (auto simp: find_append blank_def split: option.splits)
    finally show ?thesis by (simp add: retry_at_def)
  qed
  show "\<exists>y. retry_at s' d (class_value c) = Some y \<and>
      y_attempts_used y = attempts_used s d c + 1 \<and> y_halted y = vd_halt v \<and>
      y_budget_exhausted y = (\<not> vd_can_retry v)" if x: "did = Some d" "d \<noteq> []"
  proof -
    let ?f = "\<lambda>cd. bump_retry (clock s) cd (\<not> vd_can_retry v) (vd_escalate v) (vd_halt v)"
    from assms x obtain ys cd where ys: "ys = retries s \<and> (\<exists>y \<in> set ys. retry_key did c y) \<or>
        retry_at s d (class_value c) = None \<and> (\<exists>y. ys = retries s @ [y] \<and> blank did c y)"
      and s': "retries s' = update_where (retry_key did c) (?f cd) ys"
      by (auto simp: retries_bumped_def)
    have f: "find (retry_key did c) (retries s') = map_option (?f cd) (find (retry_key did c) ys)"
      unfolding s' by (rule find_update_same) (simp add: bump_retry_def)
    have "\<exists>y. find (retry_key did c) ys = Some y \<and> y_attempts_used y = attempts_used s d c"
    proof (cases "retry_at s d (class_value c)")
      case (Some y)
      with ys x show ?thesis by (auto simp: retry_at_def attempts_used_def)
    next
      case None
      then have none: "find (retry_key did c) (retries s) = None" using x by (simp add: retry_at_def)
      then have "\<not> (\<exists>y \<in> set (retries s). retry_key did c y)" by (simp add: find_None_all)
      with ys obtain y where "ys = retries s @ [y]" "blank did c y" by auto
      with none None show ?thesis by (simp add: find_append blank_def attempts_used_def)
    qed
    with f x show ?thesis by (auto simp: retry_at_def bump_retry_def)
  qed
qed

lemma attempts_used_Report:
  assumes "handle_incident c did tid cmp reason md s = (r, s')" and "d \<noteq> []"
  shows "attempts_used s' d c' =
    (if did = Some d \<and> c' = c \<and> \<not> isl r then attempts_used s d c' + 1 else attempts_used s d c')"
proof (cases r)
  case (Inl e)
  with assms show ?thesis by (simp add: handle_incident_def commit_eq_Inl)
next
  case (Inr x)
  with assms have "handle_open c did tid cmp reason md s = Inr (x, s')"
    by (simp add: handle_incident_def commit_eq_Inr)
  note b = handle_open_effect(9) [OF this]
  show ?thesis
  proof (cases "did = Some d \<and> c' = c")
    case False
    from retry_at_bumped(1) [OF b this] False show ?thesis by (auto simp: attempts_used_def)
  next
    case True
    with retry_at_bumped(2) [OF b, of d] assms(2) Inr show ?thesis by (auto simp: attempts_used_def)
  qed
qed

text \<open>
  Everything that can happen around the supervisor: reports, the two operator actions, and in
  \<open>Meanwhile\<close> whatever the other components do to the dispatches while time passes.
\<close>

datatype supervisor_cmd =
    Report incident_class "string option" "string option" "string option" string "(string \<times> json) list option"
  | Clear_Halt string string
  | Acknowledge string
  | Meanwhile "dispatch_row list" int

fun supervisor_exec :: "supervisor_cmd \<Rightarrow> store \<Rightarrow> supervision_decision option \<times> store" where
  "supervisor_exec (Report c did tid cmp reason md) s =
     (case handle_incident c did tid cmp reason md s of (Inl e, s') \<Rightarrow> (None, s') | (Inr d, s') \<Rightarrow> (Some d, s'))"
| "supervisor_exec (Clear_Halt did cls) s = (None, snd (clear_halt did cls s))"
| "supervisor_exec (Acknowledge xid) s = (None, snd (acknowledge_escalation xid s))"
| "supervisor_exec (Meanwhile ds now) s = (None, s\<lparr>dispatches := ds, clock := now\<rparr>)"

definition retry_granted :: "string \<Rightarrow> incident_class \<Rightarrow> supervisor_cmd \<Rightarrow> store \<Rightarrow> bool \<times> store" where
  "retry_granted did c cmd s =
     (let (d, s') = supervisor_exec cmd s in
      ((case cmd of Report c' did' _ _ _ _ \<Rightarrow> c' = c \<and> did' = Some did | _ \<Rightarrow> False) \<and>
       (case d of None \<Rightarrow> False | Some d \<Rightarrow> sd_should_retry d), s'))"

lemma clear_halt_cases:
  "snd (clear_halt did cls s) = s \<or>
   (\<exists>f. (\<forall>y. y_dispatch (f y) = y_dispatch y \<and> y_class (f y) = y_class y \<and>
             y_attempts_used (f y) = y_attempts_used y \<and> y_budget_exhausted (f y) = y_budget_exhausted y) \<and>
        retries (snd (clear_halt did cls s)) = update_where (halted_row did cls) f (retries s) \<and>
        dispatches (snd (clear_halt did cls s)) = dispatches s \<and>
        incidents (snd (clear_halt did cls s)) = incidents s)"
proof (cases "list_ex (halted_row did cls) (retries s)")
  case True
  let ?f = "\<lambda>y. y\<lparr>y_halted := False, y_updated_at := clock s\<rparr>"
  let ?s1 = "s\<lparr>retries := update_where (halted_row did cls) ?f (retries s)\<rparr>"
  have "snd (clear_halt did cls s) = s \<or> (\<exists>e. snd (clear_halt did cls s) = log_event e ?s1)"
  proof (cases "event_project ?s1 None")
    case (Inl e)
    with True show ?thesis by (simp add: clear_halt_def append_event_def)
  next
    case (Inr p)
    with True show ?thesis by (simp add: clear_halt_def append_event_def Let_def)
  qed
  then show ?thesis
  proof (elim disjE exE)
    fix e assume "snd (clear_halt did cls s) = log_event e ?s1"
    then show ?thesis by (intro disjI2 exI [of _ ?f]) simp
  qed simp
next
  case False
  then have "\<And>y. y \<in> set (retries s) \<Longrightarrow> \<not> halted_row did cls y" by (auto simp: list_ex_iff)
  then show ?thesis using False
    by (simp add: clear_halt_def update_where_none)
qed

lemma attempts_used_Clear: "attempts_used (snd (clear_halt did cls s)) d c = attempts_used s d c"
proof -
  have "map_option y_attempts_used (find (\<lambda>y. y_dispatch y = d \<and> y_class y = x) (update_where p f ys)) =
      map_option y_attempts_used (find (\<lambda>y. y_dispatch y = d \<and> y_class y = x) ys)"
    if "\<forall>y. y_dispatch (f y) = y_dispatch y \<and> y_class (f y) = y_class y \<and> y_attempts_used (f y) = y_attempts_used y"
    for f p x ys using that by (induction ys) auto
  note find_f = this
  have "map_option y_attempts_used (retry_at (snd (clear_halt did cls s)) d (class_value c)) =
      map_option y_attempts_used (retry_at s d (class_value c))"
    using clear_halt_cases [of did cls s]
  proof (elim disjE exE conjE)
    fix f assume "\<forall>y. y_dispatch (f y) = y_dispatch y \<and> y_class (f y) = y_class y \<and>
        y_attempts_used (f y) = y_attempts_used y \<and> y_budget_exhausted (f y) = y_budget_exhausted y"
      and "retries (snd (clear_halt did cls s)) = update_where (halted_row did cls) f (retries s)"
    then show ?thesis unfolding retry_at_def by (simp add: find_f)
  qed simp
  then show ?thesis by (auto simp: attempts_used_def split: option.splits)
qed

lemma attempts_used_step:
  assumes "d \<noteq> []"
  shows "attempts_used s d c \<le> attempts_used (snd (supervisor_exec cmd s)) d c"
proof (cases cmd)
  case (Report c' did' tid cmp reason md)
  then show ?thesis using attempts_used_Report [OF _ assms, of c' did' tid cmp reason md s]
    by (auto split: prod.splits sum.splits)
next
  case (Clear_Halt x y)
  then show ?thesis by (simp add: attempts_used_Clear)
next
  case (Acknowledge x)
  then show ?thesis by (simp add: attempts_used_def retry_at_def acknowledge_escalation_def Let_def)
next
  case (Meanwhile ds now)
  then show ?thesis by (simp add: attempts_used_def retry_at_def)
qed

lemma retry_decision:
  assumes "handle_open c (Some did) tid cmp reason md s = Inr (d, s')" and "did \<noteq> []"
    and "sd_should_retry d" and "0 \<le> attempts_used s did c"
  shows "attempts_used s did c < max_retries_of c"
proof -
  let ?v = "verdict_of c (Some did) s"
  have used: "used_by c (Some did) s = attempts_used s did c"
    using assms(2) by (simp add: used_by_def attempts_used_view)
  have "vd_retry ?v" using assms(3) handle_open_effect(1) [OF assms(1)] by simp
  then have can: "attempts_used s did c < max_retries_of (vd_class ?v)"
    by (simp add: verdict_simps(2,6) used)
  moreover have "vd_class ?v = c"
    using effective_class_cases [of s "Some did" "attempts_used s did c" c] can assms(4)
    by (auto simp: verdict_simps(1) used contract_of_simps contract_defs)
  ultimately show ?thesis by simp
qed

interpretation supervisor_retry: bounded_retry
  "retry_granted did c" "\<lambda>s. attempts_used s did c" "max_retries_of c"
  "\<lambda>s. did \<noteq> [] \<and> 0 \<le> attempts_used s did c"
  for did c
proof unfold_locales
  fix s cmd
  have step: "snd (retry_granted did c cmd s) = snd (supervisor_exec cmd s)"
    by (simp add: retry_granted_def split: prod.split)
  assume inv: "did \<noteq> [] \<and> 0 \<le> attempts_used s did c"
  show "attempts_used s did c \<le> attempts_used (snd (retry_granted did c cmd s)) did c"
    unfolding step by (rule attempts_used_step) (use inv in simp)
  with inv show "did \<noteq> [] \<and> 0 \<le> attempts_used (snd (retry_granted did c cmd s)) did c" by simp
  assume granted: "fst (retry_granted did c cmd s)"
  then obtain tid cmp reason md d s' where cmd: "cmd = Report c (Some did) tid cmp reason md"
    and h: "handle_incident c (Some did) tid cmp reason md s = (Inr d, s')" and d: "sd_should_retry d"
    by (cases cmd) (auto simp: retry_granted_def split: prod.splits sum.splits option.splits)
  from h have "handle_open c (Some did) tid cmp reason md s = Inr (d, s')"
    by (simp add: handle_incident_def commit_eq_Inr)
  from retry_decision [OF this _ d] inv show "attempts_used s did c < max_retries_of c" by simp
  have "snd (supervisor_exec cmd s) = s'" by (simp add: cmd h)
  with attempts_used_Report [OF h, of did c] inv
  show "attempts_used s did c < attempts_used (snd (retry_granted did c cmd s)) did c"
    by (simp add: step)
qed

section \<open>Correctness\<close>

definition supervised :: store where
  "supervised = (empty_store [] None (1000 * sec))
     \<lparr>dispatches := [sample_dispatch ''d1'' None None ''failed_delivery'' 10,
                     sample_dispatch ''d2'' None None ''recovered'' 20]\<rparr>"

text \<open>
  C32: Retries are bounded: however many incidents of a class are reported for a dispatch,
  mixed with any other reports, operator actions and activity of the other components, the
  supervisor permits at most the contract's retries, less the attempts already used.
\<close>

theorem retries_stay_within_budget:
  assumes "did \<noteq> []" and "0 \<le> attempts_used s did c"
  shows "int (grants (retry_granted did c) cmds s) \<le> max 0 (max_retries_of c - attempts_used s did c)"
  using supervisor_retry.granted_at_most [of did s c cmds] assms by simp

lemma retries_stay_within_budget_witness:
  "int (grants (retry_granted ''d2'' ACK_TIMEOUT)
     (replicate 5 (Report ACK_TIMEOUT (Some ''d2'') None None ''no ack'' None)) supervised) \<le> 2"
proof -
  have "attempts_used supervised ''d2'' ACK_TIMEOUT = 0"
    by (simp add: attempts_used_def retry_at_def supervised_def empty_store_def)
  with retries_stay_within_budget [of "''d2''" supervised ACK_TIMEOUT] show ?thesis
    by (simp add: contract_of_simps contract_defs)
qed

lemma select_retry_permitted:
  "select_recovery_action (contract_of c) True False esc False \<in> action_value ` set (rc_permitted_actions (contract_of c))"
  by (cases c; cases esc; simp add: select_recovery_action_def retry_actions_def contract_of_simps contract_defs)

text \<open>
  C33: Every handled incident leaves its trail, one incident row and exactly when it escalates
  one escalation row that names it, and its decision is coherent: a retry excludes a halt and
  a dead letter, takes an action the contract permits, and a dead letter always escalates. A
  failed call changes nothing.
\<close>

theorem handled_incident_leaves_its_trail:
  "case handle_incident c did tid cmp reason md s of
     (Inl e, s') \<Rightarrow> s' = s
   | (Inr d, s') \<Rightarrow>
       (\<exists>i xs k. incidents s' = incidents s @ [i] \<and> i_dispatch i = did \<and>
          i_class i = sd_incident_class d \<and> i_escalated i = sd_should_escalate d \<and>
          escalations s' = escalations s @ xs \<and> length xs = (if sd_should_escalate d then 1 else 0) \<and>
          (\<forall>x \<in> set xs. x_incident x = i_id i \<and> x_halted x = sd_auto_recovery_halted d) \<and>
          sd_incident_class d = class_value k \<and>
          (sd_should_retry d \<longrightarrow> sd_action_taken d \<in> action_value ` set (rc_permitted_actions (contract_of k)))) \<and>
       \<not> (sd_should_retry d \<and> (sd_auto_recovery_halted d \<or> sd_should_dead_letter d)) \<and>
       (sd_should_dead_letter d \<longrightarrow> sd_should_escalate d)"
proof (cases "handle_open c did tid cmp reason md s")
  case (Inl e)
  then show ?thesis by (simp add: handle_incident_def)
next
  case (Inr x)
  then obtain d s' where h: "handle_open c did tid cmp reason md s = Inr (d, s')" by (cases x) auto
  let ?v = "verdict_of c did s"
  note eff = handle_open_effect [OF h]
  from eff(7) obtain i where i: "incidents s' = incidents s @ [i]" "i_id i = ir_incident_id (sd_incident_record d)"
      "i_class i = class_value (vd_class ?v)" "i_dispatch i = did" "i_escalated i = vd_escalate ?v" by blast
  from eff(8) obtain xs where xs: "escalations s' = escalations s @ xs"
      "length xs = (if vd_escalate ?v then 1 else 0)"
      "\<forall>x \<in> set xs. x_incident x = ir_incident_id (sd_incident_record d) \<and> x_halted x = vd_halt ?v" by blast
  have retry: "vd_retry ?v \<Longrightarrow> \<not> vd_halt ?v \<and> \<not> vd_dead_letter ?v" by (simp add: verdict_simps(6))
  have dead: "vd_dead_letter ?v \<Longrightarrow> vd_escalate ?v"
    using escalate_after_bounds(2) [of "vd_class ?v"] by (auto simp: verdict_simps(2,3,5))
  have act: "vd_retry ?v \<Longrightarrow> vd_action ?v \<in> action_value ` set (rc_permitted_actions (contract_of (vd_class ?v)))"
    using retry select_retry_permitted [of "vd_class ?v" "vd_escalate ?v"] by (simp add: verdict_simps(7))
  have "\<exists>i xs k. incidents s' = incidents s @ [i] \<and> i_dispatch i = did \<and>
      i_class i = sd_incident_class d \<and> i_escalated i = sd_should_escalate d \<and>
      escalations s' = escalations s @ xs \<and> length xs = (if sd_should_escalate d then 1 else 0) \<and>
      (\<forall>x \<in> set xs. x_incident x = i_id i \<and> x_halted x = sd_auto_recovery_halted d) \<and>
      sd_incident_class d = class_value k \<and>
      (sd_should_retry d \<longrightarrow> sd_action_taken d \<in> action_value ` set (rc_permitted_actions (contract_of k)))"
    using i xs act by (intro exI [of _ i] exI [of _ xs] exI [of _ "vd_class ?v"]) (simp add: eff(1-6))
  moreover have "\<not> (sd_should_retry d \<and> (sd_auto_recovery_halted d \<or> sd_should_dead_letter d))"
    "sd_should_dead_letter d \<longrightarrow> sd_should_escalate d"
    using retry dead by (auto simp: eff(1-4))
  ultimately show ?thesis using h by (simp add: handle_incident_def)
qed

lemma handled_incident_leaves_its_trail_witness:
  "case handle_incident LEASE_CONFLICT (Some ''d1'') (Some ''T1'') None ''generation mismatch'' None supervised of
     (Inl e, s') \<Rightarrow> False
   | (Inr d, s') \<Rightarrow> length (incidents s') = 1 \<and> \<not> (sd_should_retry d \<and> sd_auto_recovery_halted d)"
proof -
  let ?r = "handle_incident LEASE_CONFLICT (Some ''d1'') (Some ''T1'') None ''generation mismatch'' None supervised"
  have "(case fst ?r of Inl e \<Rightarrow> False | Inr d \<Rightarrow> sd_auto_recovery_halted d)" by code_simp
  then obtain d s' where r: "?r = (Inr d, s')" by (cases ?r; cases "fst ?r") auto
  have "incidents supervised = []" by (simp add: supervised_def empty_store_def)
  with handled_incident_leaves_its_trail [where c = LEASE_CONFLICT and did = "Some ''d1''" and tid = "Some ''T1''"
      and cmp = None and reason = "''generation mismatch''" and md = None and s = supervised]
  show ?thesis unfolding r by auto
qed

text \<open>
  Handling an incident changes the dispatches only by moving the reported one to
  dead_letter, and does that exactly when it decides so: then the dispatch was in a state from
  which the taxonomy allows it, the class is eligible and its retries are used up.
\<close>

lemma only_eligible_dispatches_are_dead_lettered:
  assumes "handle_incident c did tid cmp reason md s = (Inr d, s')"
  shows "dispatches s' =
      (if sd_should_dead_letter d
       then update_where (\<lambda>r. d_id r = the did)
              (\<lambda>r. r\<lparr>d_state := ''dead_letter'', d_updated_at := clock s\<rparr>) (dispatches s)
       else dispatches s) \<and>
    (sd_should_dead_letter d \<longrightarrow>
      (\<exists>r k. did \<noteq> None \<and> get_dispatch s (the did) = Some r \<and> d_state r \<in> set DEAD_LETTER_SOURCE_STATES \<and>
         ''dead_letter'' \<in> set (allowed_from DISPATCH_TRANSITIONS (d_state r)) \<and>
         sd_incident_class d = class_value k \<and> k \<in> set DEAD_LETTER_ELIGIBLE_CLASSES \<and>
         max_retries_of k \<le> attempts_used s (the did) c))"
proof -
  from assms have h: "handle_open c did tid cmp reason md s = Inr (d, s')"
    by (simp add: handle_incident_def commit_eq_Inr)
  let ?v = "verdict_of c did s"
  note eff = handle_open_effect [OF h]
  have "\<exists>r k. did \<noteq> None \<and> get_dispatch s (the did) = Some r \<and> d_state r \<in> set DEAD_LETTER_SOURCE_STATES \<and>
      ''dead_letter'' \<in> set (allowed_from DISPATCH_TRANSITIONS (d_state r)) \<and>
      sd_incident_class d = class_value k \<and> k \<in> set DEAD_LETTER_ELIGIBLE_CLASSES \<and>
      max_retries_of k \<le> attempts_used s (the did) c" if dead: "vd_dead_letter ?v"
  proof -
    from dead obtain r where did: "truthy did" and r: "get_dispatch s (the did) = Some r"
      and sdl: "should_dead_letter (vd_class ?v) (used_by c did s) (d_state r)"
      by (auto simp: verdict_simps(5))
    have "used_by c did s = attempts_used s (the did) c" using did by (simp add: used_by_def attempts_used_view)
    moreover have "''dead_letter'' \<in> set (allowed_from DISPATCH_TRANSITIONS (d_state r))"
      using sdl by (auto simp: should_dead_letter_iff DEAD_LETTER_SOURCE_STATES_def DISPATCH_TRANSITIONS_def
          allowed_from_def)
    ultimately show ?thesis using did r sdl
      by (intro exI [of _ r] exI [of _ "vd_class ?v"])
         (auto simp: eff(6) eligible_iff should_dead_letter_iff truthy_Some)
  qed
  with eff(3,10) show ?thesis by (simp add: dispatch_settled_def)
qed

lemma only_eligible_dispatches_are_dead_lettered_witness:
  "case handle_incident REPEATED_FAILURE_LOOP (Some ''d1'') None None ''loop'' None supervised of
     (Inl e, s') \<Rightarrow> False
   | (Inr d, s') \<Rightarrow> sd_should_dead_letter d \<and> map d_state (dispatches s') = [''dead_letter'', ''recovered'']"
proof -
  let ?r = "handle_incident REPEATED_FAILURE_LOOP (Some ''d1'') None None ''loop'' None supervised"
  have "(case fst ?r of Inl e \<Rightarrow> False | Inr d \<Rightarrow> sd_should_dead_letter d)" by code_simp
  then obtain d s' where r: "?r = (Inr d, s')" and d: "sd_should_dead_letter d"
    by (cases ?r; cases "fst ?r") auto
  have "dispatches supervised = [sample_dispatch ''d1'' None None ''failed_delivery'' 10,
      sample_dispatch ''d2'' None None ''recovered'' 20]" by (simp add: supervised_def)
  with only_eligible_dispatches_are_dead_lettered [OF r] d show ?thesis
    unfolding r by (simp add: sample_dispatch_def)
qed

section \<open>Halts\<close>

text \<open>What keeps a halt in force: the halting classes halt on every report, a loop stays detected.\<close>

definition halt_in_force :: "string \<Rightarrow> incident_class \<Rightarrow> store \<Rightarrow> bool" where
  "halt_in_force did c s =
     ((\<exists>y. retry_at s did (class_value c) = Some y \<and> y_halted y) \<and> 0 \<le> attempts_used s did c \<and>
      (halts c \<or> c \<in> set DEAD_LETTER_ELIGIBLE_CLASSES \<and> REPEATED_FAILURE_THRESHOLD \<le> attempts_used s did c \<and>
                 detect_failure_loop s did c))"

lemma detect_failure_loop_mono:
  "incidents s' = incidents s @ is \<Longrightarrow> detect_failure_loop s did c \<Longrightarrow> detect_failure_loop s' did c"
  by (simp add: detect_failure_loop_def incident_count_def)

lemma halt_on_report:
  assumes "did \<noteq> []" and "0 \<le> attempts_used s did c"
    and "halts c \<or> c \<in> set DEAD_LETTER_ELIGIBLE_CLASSES \<and> REPEATED_FAILURE_THRESHOLD \<le> attempts_used s did c \<and>
         detect_failure_loop s did c"
  shows "vd_halt (verdict_of c (Some did) s)"
proof -
  have used: "used_by c (Some did) s = attempts_used s did c"
    using assms(1) by (simp add: used_by_def attempts_used_view)
  have "halts (effective_class s (Some did) (attempts_used s did c) c)"
    using assms(1,3) by (auto simp: effective_class_def halts_iff)
  with halts_at_once [OF this] assms(2) show ?thesis
    by (simp add: verdict_simps(1,3,4) used)
qed

lemma halt_in_force_step:
  assumes "halt_in_force did c s" and "did \<noteq> []" and "cmd \<noteq> Clear_Halt did (class_value c)"
  shows "halt_in_force did c (snd (supervisor_exec cmd s))"
proof (cases cmd)
  case (Report c' did' tid cmp reason md)
  show ?thesis
  proof (cases "handle_open c' did' tid cmp reason md s")
    case (Inl e)
    with assms(1) show ?thesis by (simp add: Report handle_incident_def)
  next
    case (Inr x)
    then obtain d s' where h: "handle_open c' did' tid cmp reason md s = Inr (d, s')" by (cases x) auto
    have s': "snd (supervisor_exec cmd s) = s'" by (simp add: Report handle_incident_def h)
    note eff = handle_open_effect [OF h]
    from eff(7) obtain i where i: "incidents s' = incidents s @ [i]" by blast
    note b = eff(9)
    show ?thesis
    proof (cases "did' = Some did \<and> c = c'")
      case False
      from retry_at_bumped(1) [OF b this] have "retry_at s' did (class_value c) = retry_at s did (class_value c)" .
      with assms(1) detect_failure_loop_mono [OF i] show ?thesis
        unfolding s' by (auto simp: halt_in_force_def attempts_used_def)
    next
      case True
      with assms(2) retry_at_bumped(2) [OF b, of did] obtain y where
        y: "retry_at s' did (class_value c) = Some y" "y_attempts_used y = attempts_used s did c + 1"
          "y_halted y = vd_halt (verdict_of c (Some did) s)" by auto
      have "vd_halt (verdict_of c (Some did) s)"
        using halt_on_report [OF assms(2)] assms(1) by (simp add: halt_in_force_def)
      with y assms(1) detect_failure_loop_mono [OF i] show ?thesis
        unfolding s' by (auto simp: halt_in_force_def attempts_used_def)
    qed
  qed
next
  case (Clear_Halt x cls)
  then have other: "\<not> (x = did \<and> cls = class_value c)" using assms(3) by auto
  have "retry_at (snd (clear_halt x cls s)) did (class_value c) = retry_at s did (class_value c) \<and>
      incidents (snd (clear_halt x cls s)) = incidents s"
    using clear_halt_cases [of x cls s]
  proof (elim disjE exE conjE)
    fix f assume f: "\<forall>y. y_dispatch (f y) = y_dispatch y \<and> y_class (f y) = y_class y \<and>
        y_attempts_used (f y) = y_attempts_used y \<and> y_budget_exhausted (f y) = y_budget_exhausted y"
      and "retries (snd (clear_halt x cls s)) = update_where (halted_row x cls) f (retries s)"
      and "incidents (snd (clear_halt x cls s)) = incidents s"
    with other show ?thesis unfolding retry_at_def
      by (auto intro!: find_update_disjoint simp: halted_row_def)
  qed simp
  with assms(1) show ?thesis
    by (simp add: Clear_Halt halt_in_force_def attempts_used_def detect_failure_loop_def incident_count_def)
next
  case (Acknowledge x)
  with assms(1) show ?thesis
    by (simp add: acknowledge_escalation_def Let_def halt_in_force_def retry_at_def attempts_used_def
        detect_failure_loop_def incident_count_def)
next
  case (Meanwhile ds now)
  with assms(1) show ?thesis
    by (simp add: halt_in_force_def retry_at_def attempts_used_def detect_failure_loop_def incident_count_def)
qed

lemma halted_cannot_resume:
  assumes "retry_at s did cls = Some y" and "y_halted y"
  shows "\<not> rz_allowed (can_resume s did)"
proof -
  have "find (\<lambda>y. y_dispatch y = did \<and> y_halted y) (retries s) \<noteq> None"
    using assms by (auto simp: retry_at_def find_None_all dest!: find_SomeD)
  then show ?thesis
    by (auto simp: can_resume_def no_resume_def Let_def split: option.splits)
qed

text \<open>
  A halt holds until an operator clears it: after an incident of a dispatch has halted
  automatic recovery, the dispatch cannot resume, whatever is reported, acknowledged, cleared
  for other classes or done to the dispatches, and however much time passes.
\<close>

lemma halt_holds_until_cleared:
  assumes "handle_incident c (Some did) tid cmp reason md s = (Inr d, s1)" and "did \<noteq> []"
    and "sd_auto_recovery_halted d" and "0 \<le> attempts_used s did c"
    and "Clear_Halt did (class_value c) \<notin> set cmds"
  shows "\<not> rz_allowed (can_resume (fold (\<lambda>cmd s. snd (supervisor_exec cmd s)) cmds s1) did)"
proof -
  from assms(1) have h: "handle_open c (Some did) tid cmp reason md s = Inr (d, s1)"
    by (simp add: handle_incident_def commit_eq_Inr)
  note eff = handle_open_effect [OF h]
  let ?v = "verdict_of c (Some did) s"
  have used: "used_by c (Some did) s = attempts_used s did c"
    using assms(2) by (simp add: used_by_def attempts_used_view)
  have halt: "vd_halt ?v" using assms(3) eff(4) by simp
  from eff(7) obtain i where i: "incidents s1 = incidents s @ [i]" by blast
  from retry_at_bumped(2) [OF eff(9), of did] assms(2) halt obtain y where
    y: "retry_at s1 did (class_value c) = Some y" "y_attempts_used y = attempts_used s did c + 1" "y_halted y" by auto
  have "halts (effective_class s (Some did) (attempts_used s did c) c)"
    using halt by (simp add: verdict_simps(4,1) used)
  then have "halts c \<or> c \<in> set DEAD_LETTER_ELIGIBLE_CLASSES \<and> REPEATED_FAILURE_THRESHOLD \<le> attempts_used s did c \<and>
      detect_failure_loop s did c"
    by (auto simp: effective_class_def split: if_splits)
  then have start: "halt_in_force did c s1"
    using y assms(4) detect_failure_loop_mono [OF i] by (auto simp: halt_in_force_def attempts_used_def)
  have "halt_in_force did c (fold (\<lambda>cmd s. snd (supervisor_exec cmd s)) cmds s1)"
    using start assms(5)
  proof (induction cmds arbitrary: s1)
    case (Cons cmd cmds)
    then show ?case using halt_in_force_step [OF Cons.prems(1) assms(2), of cmd] by auto
  qed simp
  then show ?thesis using halted_cannot_resume by (auto simp: halt_in_force_def)
qed

lemma halt_holds_until_cleared_witness:
  "\<not> rz_allowed (can_resume (fold (\<lambda>cmd s. snd (supervisor_exec cmd s))
      [Report ACK_TIMEOUT (Some ''d2'') None None ''no ack'' None, Clear_Halt ''d2'' ''ack_timeout'', Meanwhile
         [sample_dispatch ''d2'' None None ''queued'' 30] 99]
      (snd (handle_incident LEASE_CONFLICT (Some ''d2'') None None ''conflict'' None supervised))) ''d2'')"
proof -
  let ?cmds = "[Report ACK_TIMEOUT (Some ''d2'') None None ''no ack'' None, Clear_Halt ''d2'' ''ack_timeout'', Meanwhile
         [sample_dispatch ''d2'' None None ''queued'' 30] 99]"
  let ?r = "handle_incident LEASE_CONFLICT (Some ''d2'') None None ''conflict'' None supervised"
  have "(case fst ?r of Inl e \<Rightarrow> False | Inr d \<Rightarrow> sd_auto_recovery_halted d)" by code_simp
  then obtain d s1 where r: "?r = (Inr d, s1)" and d: "sd_auto_recovery_halted d"
    by (cases ?r; cases "fst ?r") auto
  have "0 \<le> attempts_used supervised ''d2'' LEASE_CONFLICT"
    by (simp add: attempts_used_def retry_at_def supervised_def empty_store_def)
  moreover have "Clear_Halt ''d2'' (class_value LEASE_CONFLICT) \<notin> set ?cmds" by simp
  ultimately show ?thesis
    unfolding r snd_conv using halt_holds_until_cleared [OF r _ d, of ?cmds] by blast
qed

text \<open>
  Clearing a halt does not let a dispatch resume once a budget of it is exhausted: the flag
  stays, and no operation of the supervisor clears it.
\<close>

lemma clear_halt_keeps_exhaustion:
  assumes "y \<in> set (retries s)" and "y_dispatch y = did" and "y_budget_exhausted y"
  shows "\<not> rz_allowed (can_resume (snd (clear_halt did cls s)) did)"
proof -
  have "\<exists>y \<in> set (retries (snd (clear_halt did cls s))). y_dispatch y = did \<and> y_budget_exhausted y"
    using clear_halt_cases [of did cls s]
  proof (elim disjE exE conjE)
    fix f assume f: "\<forall>y. y_dispatch (f y) = y_dispatch y \<and> y_class (f y) = y_class y \<and>
        y_attempts_used (f y) = y_attempts_used y \<and> y_budget_exhausted (f y) = y_budget_exhausted y"
      and "retries (snd (clear_halt did cls s)) = update_where (halted_row did cls) f (retries s)"
    moreover have "(if halted_row did cls y then f y else y) \<in> set (update_where (halted_row did cls) f (retries s))"
      using assms(1) by (auto simp: in_update_where)
    ultimately show ?thesis using assms(2,3) by (metis (full_types))
  qed (use assms in auto)
  then show ?thesis
    by (auto simp: can_resume_def no_resume_def Let_def filter_empty_conv split: option.splits)
qed

text \<open>The dead-letter action is taken for classes whose contract does not permit it.\<close>

lemma dead_letter_action_not_permitted:
  "DELIVERY_FAILURE \<in> set DEAD_LETTER_ELIGIBLE_CLASSES \<and>
   DEAD_LETTER_DISPATCH \<notin> set (rc_permitted_actions (contract_of DELIVERY_FAILURE))"
  by (simp add: eligible_iff contract_of_simps contract_defs)

end
