(* ===== verification/Incident_Log.thy ===== *)
theory Incident_Log
  imports Incident_Taxonomy Coordination_DB Interfaces
begin

text \<open>
  \<^verbatim>\<open>scripts/lib/incident_log.py\<close>: incident records, the retry budget of an entity and an
  incident class, resolution and escalation of incidents, and the operator's queries.

  Theorems: attempts guarded by \<^verbatim>\<open>check_budget\<close> stay within the contract whatever else happens
  between resets, a check after a consumed attempt answers exactly by halt, budget and
  cooldown, and the counts of the operator summary agree with each other.
\<close>

section \<open>Incidents\<close>

text \<open>The \<^verbatim>\<open>incident_class\<close> argument is a member of the enum or its text.\<close>

datatype class_arg = Member incident_class | Text string

fun resolve_class :: "class_arg \<Rightarrow> exn + incident_class" where
  "resolve_class (Member c) = Inr c"
| "resolve_class (Text v) = validate_incident_class v"

fun class_text :: "class_arg \<Rightarrow> string" where
  "class_text (Member c) = class_value c"
| "class_text (Text v) = v"

definition budget_key :: "string \<Rightarrow> string \<Rightarrow> string \<Rightarrow> string" where
  "budget_key entity_type entity_id cls = entity_type @ '':'' @ entity_id @ '':'' @ cls"

definition is_shadow_mode :: "string option \<Rightarrow> bool" where
  "is_shadow_mode env = ((case env of None \<Rightarrow> ''1'' | Some v \<Rightarrow> v) = ''1'')"

definition incident_at :: "store \<Rightarrow> string \<Rightarrow> incident_row option" where
  "incident_at s incident_id = find (\<lambda>i. i_id i = incident_id) (incidents s)"

definition insert_open_incident_row :: "incident_row \<Rightarrow> store \<Rightarrow> exn + store" where
  "insert_open_incident_row row s =
     bindE (project_id_stamp s ''incident_log'') (\<lambda>stamp.
     bindE (guardE (incident_at s (i_id row) = None)
              (IntegrityError ''UNIQUE constraint failed: incident_log.incident_id'')) (\<lambda>_.
     Inr (s\<lparr>incidents := incidents s @
        [row\<lparr>i_state := ''open'', i_attempt_count := 0, i_budget_exhausted := False, i_escalated := False,
             i_halted := False, i_project := stamp\<rparr>]\<rparr>)))"

definition create_incident ::
  "class_arg \<Rightarrow> string \<Rightarrow> string \<Rightarrow> string option \<Rightarrow> string option \<Rightarrow> string option \<Rightarrow> string option \<Rightarrow> string \<Rightarrow>
   (string \<times> json) list option \<Rightarrow> string option \<Rightarrow> store \<Rightarrow> (exn + incident_row) \<times> store" where
  "create_incident cls entity_type entity_id dispatch_id terminal_id component_name failure_detail actor
      metadata severity_override s =
     commit s
       (bindE (resolve_class cls) (\<lambda>c.
        bindE (get_contract c) (\<lambda>k.
        let incident_id = new_uuid s;
            s0 = s\<lparr>uuid_next := Suc (uuid_next s)\<rparr>;
            row = \<lparr>i_id = incident_id, i_class = class_value c,
                   i_severity = or_else severity_override (severity_value (rc_default_severity k)),
                   i_entity_type = entity_type, i_entity = entity_id, i_dispatch = dispatch_id,
                   i_terminal = terminal_id, i_component = component_name, i_state = ''open'',
                   i_attempt_count = 0, i_budget_exhausted = False, i_escalated = False,
                   i_halted = False, i_failure_detail = failure_detail, i_actor = actor,
                   i_occurred_at = clock s, i_resolved_at = None, i_metadata = dump metadata,
                   i_project = None\<rparr>
        in bindE (insert_open_incident_row row s0) (\<lambda>s1.
           bindE (fetch_dict (incident_at s1 incident_id)) (\<lambda>r. Inr (r, s1))))))"

section \<open>Retry budgets\<close>

definition budget_at :: "store \<Rightarrow> string \<Rightarrow> budget_row option" where
  "budget_at s key = find (\<lambda>b. b_key b = key) (budgets s)"

definition new_budget :: "string \<Rightarrow> string \<Rightarrow> incident_class \<Rightarrow> retry_budget \<Rightarrow> int \<Rightarrow> string option \<Rightarrow> budget_row" where
  "new_budget entity_type entity_id c budget now stamp =
     \<lparr>b_key = budget_key entity_type entity_id (class_value c), b_entity_type = entity_type,
      b_entity = entity_id, b_class = class_value c, b_attempts_used = 0,
      b_max_retries = rb_max_retries budget, b_cooldown = rb_cooldown_seconds budget,
      b_backoff = rb_backoff_factor budget, b_max_cooldown = rb_max_cooldown_seconds budget,
      b_last_attempt_at = None, b_next_allowed_at = None, b_escalated_at = None, b_halted = False,
      b_created_at = now, b_updated_at = now, b_project = stamp\<rparr>"

definition get_budget :: "string \<Rightarrow> string \<Rightarrow> class_arg \<Rightarrow> store \<Rightarrow> (exn + budget_row) \<times> store" where
  "get_budget entity_type entity_id cls s =
     commit s
       (bindE (resolve_class cls) (\<lambda>c.
        bindE (get_contract c) (\<lambda>k.
        let key = budget_key entity_type entity_id (class_value c) in
        case budget_at s key of
          Some existing \<Rightarrow> Inr (existing, s)
        | None \<Rightarrow>
            bindE (project_id_stamp s ''retry_budgets'') (\<lambda>stamp.
            let s1 = s\<lparr>budgets := budgets s @
                   [new_budget entity_type entity_id c (rc_retry_budget k) (clock s) stamp]\<rparr>
            in bindE (fetch_dict (budget_at s1 key)) (\<lambda>b. Inr (b, s1))))))"

text \<open>The dictionary \<^verbatim>\<open>check_budget\<close> returns.\<close>

record budget_check =
  k_allowed :: bool
  k_reason :: string
  k_attempts_used :: int
  k_max_retries :: int
  k_in_cooldown :: bool
  k_next_allowed_at :: "stamp option"
  k_should_escalate :: bool

fun show_stamp_text :: "stamp option \<Rightarrow> string" where
  "show_stamp_text None = ''None''"
| "show_stamp_text (Some (At t)) = py_int t"
| "show_stamp_text (Some (Garbled v)) = v"

definition judge_budget :: "budget_row \<Rightarrow> incident_class \<Rightarrow> int \<Rightarrow> budget_check" where
  "judge_budget b c now =
     (let attempts = b_attempts_used b;
          max_retries = b_max_retries b;
          next_allowed = b_next_allowed_at b;
          in_cooldown = (case parse_stamp next_allowed of None \<Rightarrow> False | Some t \<Rightarrow> now < t)
      in if b_halted b then
           \<lparr>k_allowed = False,
            k_reason = ''auto_recovery_halted: lease_conflict or repeated_failure_loop requires operator review'',
            k_attempts_used = attempts, k_max_retries = max_retries, k_in_cooldown = in_cooldown,
            k_next_allowed_at = next_allowed, k_should_escalate = True\<rparr>
         else if max_retries \<le> attempts then
           \<lparr>k_allowed = False,
            k_reason = ''budget_exhausted: '' @ py_int attempts @ ''/'' @ py_int max_retries @ '' attempts used'',
            k_attempts_used = attempts, k_max_retries = max_retries, k_in_cooldown = False,
            k_next_allowed_at = None, k_should_escalate = True\<rparr>
         else if in_cooldown then
           \<lparr>k_allowed = False, k_reason = ''in_cooldown: next retry allowed at '' @ show_stamp_text next_allowed,
            k_attempts_used = attempts, k_max_retries = max_retries, k_in_cooldown = True,
            k_next_allowed_at = next_allowed, k_should_escalate = should_escalate c attempts\<rparr>
         else
           \<lparr>k_allowed = True, k_reason = ''ok'', k_attempts_used = attempts, k_max_retries = max_retries,
            k_in_cooldown = False, k_next_allowed_at = next_allowed,
            k_should_escalate = should_escalate c attempts\<rparr>)"

definition check_budget :: "string \<Rightarrow> string \<Rightarrow> class_arg \<Rightarrow> store \<Rightarrow> (exn + budget_check) \<times> store" where
  "check_budget entity_type entity_id cls s =
     (case get_budget entity_type entity_id cls s of
        (Inl e, s') \<Rightarrow> (Inl e, s')
      | (Inr b, s') \<Rightarrow> (bindE (resolve_class cls) (\<lambda>c. Inr (judge_budget b c (clock s'))), s'))"

definition spend :: "incident_class \<Rightarrow> int \<Rightarrow> int \<Rightarrow> budget_row \<Rightarrow> budget_row" where
  "spend c now cooldown b =
     (let new_attempts = b_attempts_used b + 1 in
      b\<lparr>b_attempts_used := new_attempts, b_last_attempt_at := Some now,
        b_next_allowed_at := (if 0 < cooldown then Some (At (now + cooldown * sec)) else None),
        b_escalated_at := (if should_escalate c new_attempts \<and> b_escalated_at b = None then Some now
                           else b_escalated_at b),
        b_halted := (if er_halt_auto_recovery (rc_escalation (contract_of c)) \<and>
                        er_escalate_after_retries (rc_escalation (contract_of c)) \<le> new_attempts
                     then True else b_halted b),
        b_updated_at := now\<rparr>)"

text \<open>The columns that the UPDATE of \<^verbatim>\<open>consume_budget\<close> sets, with the values just computed.\<close>

definition write_spent :: "budget_row \<Rightarrow> budget_row \<Rightarrow> budget_row" where
  "write_spent spent b =
     b\<lparr>b_attempts_used := b_attempts_used spent, b_last_attempt_at := b_last_attempt_at spent,
       b_next_allowed_at := b_next_allowed_at spent, b_escalated_at := b_escalated_at spent,
       b_halted := b_halted spent, b_updated_at := b_updated_at spent\<rparr>"

definition mark_incident :: "budget_row \<Rightarrow> incident_row \<Rightarrow> incident_row" where
  "mark_incident b i =
     i\<lparr>i_attempt_count := b_attempts_used b, i_budget_exhausted := (b_max_retries b \<le> b_attempts_used b),
       i_escalated := (b_escalated_at b \<noteq> None), i_halted := b_halted b\<rparr>"

definition consume_budget ::
  "string \<Rightarrow> string \<Rightarrow> class_arg \<Rightarrow> string option \<Rightarrow> store \<Rightarrow> (exn + budget_row) \<times> store" where
  "consume_budget entity_type entity_id cls incident_id s =
     (case resolve_class cls of
        Inl e \<Rightarrow> (Inl e, s)
      | Inr c \<Rightarrow>
          let key = budget_key entity_type entity_id (class_value c) in
          case get_budget entity_type entity_id (Member c) s of
            (Inl e, s0) \<Rightarrow> (Inl e, s0)
          | (Inr _, s0) \<Rightarrow>
              commit s0
                (bindE (fetch_dict (budget_at s0 key)) (\<lambda>row.
                 bindE (get_cooldown_seconds c (b_attempts_used row + 1 - 1)) (\<lambda>cooldown.
                 let now = clock s0;
                     spent = spend c now cooldown row;
                     s1 = s0\<lparr>budgets := update_where (\<lambda>b. b_key b = key) (write_spent spent) (budgets s0)\<rparr>;
                     s2 = (if truthy incident_id
                           then s1\<lparr>incidents := update_where (\<lambda>i. i_id i = the incident_id)
                                     (mark_incident spent) (incidents s1)\<rparr>
                           else s1)
                 in bindE (fetch_dict (budget_at s2 key)) (\<lambda>b. Inr (b, s2))))))"

definition clear_budget :: "int \<Rightarrow> budget_row \<Rightarrow> budget_row" where
  "clear_budget now b =
     b\<lparr>b_attempts_used := 0, b_last_attempt_at := None, b_next_allowed_at := None,
       b_escalated_at := None, b_halted := False, b_updated_at := now\<rparr>"

definition reset_budget :: "string \<Rightarrow> string \<Rightarrow> class_arg \<Rightarrow> store \<Rightarrow> (exn + budget_row) \<times> store" where
  "reset_budget entity_type entity_id cls s =
     (case resolve_class cls of
        Inl e \<Rightarrow> (Inl e, s)
      | Inr c \<Rightarrow>
          let key = budget_key entity_type entity_id (class_value c);
              s1 = s\<lparr>budgets := update_where (\<lambda>b. b_key b = key) (clear_budget (clock s)) (budgets s)\<rparr>
          in (case budget_at s1 key of
                None \<Rightarrow> Inl (KeyError (''Budget not found after reset: '' @ py_repr key))
              | Some b \<Rightarrow> Inr b, s1))"

section \<open>Resolution and loop detection\<close>

definition update_incident :: "(incident_row \<Rightarrow> incident_row) \<Rightarrow> string \<Rightarrow> store \<Rightarrow> (exn + incident_row) \<times> store" where
  "update_incident f incident_id s =
     (let s1 = s\<lparr>incidents := update_where (\<lambda>i. i_id i = incident_id) f (incidents s)\<rparr>
      in (case incident_at s1 incident_id of
            None \<Rightarrow> Inl (KeyError (''Incident not found: '' @ py_repr incident_id))
          | Some i \<Rightarrow> Inr i, s1))"

definition resolve_incident :: "string \<Rightarrow> store \<Rightarrow> (exn + incident_row) \<times> store" where
  "resolve_incident incident_id s =
     update_incident (\<lambda>i. i\<lparr>i_state := ''resolved'', i_resolved_at := Some (clock s)\<rparr>) incident_id s"

definition escalate_incident :: "string \<Rightarrow> store \<Rightarrow> (exn + incident_row) \<times> store" where
  "escalate_incident incident_id s =
     update_incident (\<lambda>i. i\<lparr>i_state := ''escalated'', i_escalated := True\<rparr>) incident_id s"

definition detect_repeated_failure_loop :: "string \<Rightarrow> string \<Rightarrow> class_arg \<Rightarrow> int option \<Rightarrow> store \<Rightarrow> exn + bool" where
  "detect_repeated_failure_loop entity_type entity_id cls threshold s =
     bindE (resolve_class cls) (\<lambda>c.
       let limit = (case threshold of None \<Rightarrow> REPEATED_FAILURE_THRESHOLD | Some n \<Rightarrow> n);
           count = int (length (filter (\<lambda>i. i_entity_type i = entity_type \<and> i_entity i = entity_id \<and>
                                            i_class i = class_value c) (incidents s)))
       in Inr (limit \<le> count))"

section \<open>Queries\<close>

definition incident_filter ::
  "string option \<Rightarrow> string option \<Rightarrow> string option \<Rightarrow> string option \<Rightarrow> class_arg option \<Rightarrow> incident_row \<Rightarrow> bool" where
  "incident_filter entity_type entity_id dispatch_id terminal_id cls i =
     ((truthy entity_type \<longrightarrow> Some (i_entity_type i) = entity_type) \<and>
      (truthy entity_id \<longrightarrow> Some (i_entity i) = entity_id) \<and>
      (truthy dispatch_id \<longrightarrow> i_dispatch i = dispatch_id) \<and>
      (truthy terminal_id \<longrightarrow> i_terminal i = terminal_id) \<and>
      (case cls of None \<Rightarrow> True | Some c \<Rightarrow> i_class i = class_text c))"

definition is_active :: "incident_row \<Rightarrow> bool" where
  "is_active i = (i_state i \<in> {''open'', ''escalated''})"

definition get_active_incidents ::
  "store \<Rightarrow> string option \<Rightarrow> string option \<Rightarrow> string option \<Rightarrow> string option \<Rightarrow> class_arg option \<Rightarrow> int \<Rightarrow>
   incident_row list" where
  "get_active_incidents s entity_type entity_id dispatch_id terminal_id cls limit =
     sql_limit limit (sort_key (\<lambda>i. - i_occurred_at i)
       (filter (\<lambda>i. is_active i \<and> incident_filter entity_type entity_id dispatch_id terminal_id cls i)
         (incidents s)))"

definition get_incident_history ::
  "store \<Rightarrow> string option \<Rightarrow> string option \<Rightarrow> string option \<Rightarrow> string option \<Rightarrow> class_arg option \<Rightarrow> int \<Rightarrow>
   incident_row list" where
  "get_incident_history s entity_type entity_id dispatch_id terminal_id cls limit =
     sql_limit limit (sort_key (\<lambda>i. - i_occurred_at i)
       (filter (incident_filter entity_type entity_id dispatch_id terminal_id cls) (incidents s)))"

record incident_summary =
  q_total_open :: int
  q_total_escalated :: int
  q_critical_count :: int
  q_budgets_exhausted :: int
  q_halted_count :: int
  q_by_class :: "(string \<times> (string \<times> int) list) list"
  q_active_incidents :: "incident_row list"
  q_exhausted_budgets :: "budget_row list"
  q_halted_recoveries :: "budget_row list"
  q_generated_at :: int

definition count_incidents :: "(incident_row \<Rightarrow> bool) \<Rightarrow> store \<Rightarrow> int" where
  "count_incidents p s = int (length (filter p (incidents s)))"

text \<open>\<^verbatim>\<open>GROUP BY incident_class, state\<close>: the groups in order of their keys.\<close>

definition class_rows :: "store \<Rightarrow> (string \<times> string \<times> int) list" where
  "class_rows s =
     map (\<lambda>(cls, st). (cls, st, count_incidents (\<lambda>i. i_class i = cls \<and> i_state i = st) s))
       (sort_key fst (sort_key snd (remdups (map (\<lambda>i. (i_class i, i_state i)) (incidents s)))))"

definition no_counts :: "(string \<times> int) list" where
  "no_counts = [(''open'', 0), (''escalated'', 0), (''resolved'', 0), (''dead_lettered'', 0)]"

definition count_class_row ::
  "string \<times> string \<times> int \<Rightarrow> (string \<times> (string \<times> int) list) list \<Rightarrow> (string \<times> (string \<times> int) list) list" where
  "count_class_row row by_class =
     (case row of (cls, st, cnt) \<Rightarrow>
       let inner = (case map_of by_class cls of None \<Rightarrow> no_counts | Some m \<Rightarrow> m)
       in AList.update cls (AList.update st cnt inner) by_class)"

definition generate_incident_summary :: "store \<Rightarrow> bool \<Rightarrow> int \<Rightarrow> incident_summary" where
  "generate_incident_summary s include_resolved limit =
     (let exhausted = sort_key (\<lambda>b. - b_updated_at b) (filter (\<lambda>b. b_max_retries b \<le> b_attempts_used b) (budgets s));
          halted = sort_key (\<lambda>b. - b_updated_at b) (filter b_halted (budgets s))
      in \<lparr>q_total_open = count_incidents (\<lambda>i. i_state i = ''open'') s,
          q_total_escalated = count_incidents (\<lambda>i. i_state i = ''escalated'') s,
          q_critical_count = count_incidents (\<lambda>i. is_active i \<and> i_severity i = ''critical'') s,
          q_budgets_exhausted = int (length exhausted), q_halted_count = int (length halted),
          q_by_class = fold count_class_row (class_rows s) [],
          q_active_incidents = sql_limit limit (sort_key (\<lambda>i. - i_occurred_at i)
            (filter (\<lambda>i. include_resolved \<or> is_active i) (incidents s))),
          q_exhausted_budgets = exhausted, q_halted_recoveries = halted, q_generated_at = clock s\<rparr>)"

definition is_in_cooldown :: "string \<Rightarrow> string \<Rightarrow> class_arg \<Rightarrow> store \<Rightarrow> (exn + bool) \<times> store" where
  "is_in_cooldown entity_type entity_id cls s =
     (case check_budget entity_type entity_id cls s of (r, s') \<Rightarrow> (bindE r (\<lambda>k. Inr (k_in_cooldown k)), s'))"

section \<open>Keys\<close>

text \<open>The class is the part of a key after the last colon, so a key determines it.\<close>

lemma class_value_no_colon: "CHR '':'' \<notin> set (class_value c)"
  by (cases c) simp_all

lemma suffix_after_last:
  "xs @ [x] @ a = ys @ [x] @ b \<Longrightarrow> x \<notin> set a \<Longrightarrow> x \<notin> set b \<Longrightarrow> a = b"
proof (induction xs arbitrary: ys)
  case Nil
  then show ?case by (cases ys) auto
next
  case (Cons z xs)
  then show ?case by (cases ys) auto
qed

lemma budget_key_class:
  assumes "budget_key et eid (class_value c) = budget_key et' eid' (class_value c')"
  shows "c = c'"
proof -
  have "(et @ '':'' @ eid) @ [CHR '':''] @ class_value c = (et' @ '':'' @ eid') @ [CHR '':''] @ class_value c'"
    using assms by (simp add: budget_key_def)
  from suffix_after_last [OF this class_value_no_colon class_value_no_colon] show ?thesis by simp
qed

text \<open>With the entity types of the code the key determines the whole triple.\<close>

lemma budget_key_injective:
  assumes "budget_key et eid (class_value c) = budget_key et' eid' (class_value c')"
    and "CHR '':'' \<notin> set et" and "CHR '':'' \<notin> set et'"
  shows "et = et' \<and> eid = eid' \<and> c = c'"
proof -
  have c: "c = c'" by (rule budget_key_class [OF assms(1)])
  then have "et @ [CHR '':''] @ eid = et' @ [CHR '':''] @ eid'"
    using assms(1) by (simp add: budget_key_def)
  then have "rev eid @ [CHR '':''] @ rev et = rev eid' @ [CHR '':''] @ rev et'"
    by (metis append.assoc rev.simps(1) rev.simps(2) rev_append append_Nil)
  from suffix_after_last [OF this] assms(2,3) have "et = et'" by simp
  with \<open>et @ [CHR '':''] @ eid = et' @ [CHR '':''] @ eid'\<close> c show ?thesis by simp
qed

section \<open>What the budget operations change\<close>

lemma budget_at_append:
  "budget_at (s\<lparr>budgets := budgets s @ [b]\<rparr>) key =
     (case budget_at s key of None \<Rightarrow> if b_key b = key then Some b else None | Some x \<Rightarrow> Some x)"
  by (simp add: budget_at_def find_append split: option.splits)

lemma budget_at_incidents [simp]: "budget_at (s\<lparr>incidents := is\<rparr>) key = budget_at s key"
  by (simp add: budget_at_def)

lemma new_budget_key [simp]:
  "b_key (new_budget et eid c k now stamp) = budget_key et eid (class_value c)"
  "b_attempts_used (new_budget et eid c k now stamp) = 0"
  "b_max_retries (new_budget et eid c k now stamp) = rb_max_retries k"
  "\<not> b_halted (new_budget et eid c k now stamp)"
  by (simp_all add: new_budget_def)

lemma get_budget_cases:
  obtains (error) e where "get_budget et eid cls s = (Inl e, s)"
  | (found) c b where "resolve_class cls = Inr c" "get_budget et eid cls s = (Inr b, s)"
      "budget_at s (budget_key et eid (class_value c)) = Some b"
  | (created) c b stamp where "resolve_class cls = Inr c"
      "get_budget et eid cls s = (Inr b, s\<lparr>budgets := budgets s @ [b]\<rparr>)"
      "budget_at s (budget_key et eid (class_value c)) = None"
      "b = new_budget et eid c (rc_retry_budget (contract_of c)) (clock s) stamp"
proof (cases "resolve_class cls")
  case (Inl e)
  then have "get_budget et eid cls s = (Inl e, s)" by (simp add: get_budget_def)
  then show ?thesis by (rule error)
next
  case (Inr c)
  let ?key = "budget_key et eid (class_value c)"
  show ?thesis
  proof (cases "budget_at s ?key")
    case (Some b)
    with Inr have "get_budget et eid cls s = (Inr b, s)" by (simp add: get_budget_def)
    from found [OF Inr this Some] show ?thesis .
  next
    case None
    show ?thesis
    proof (cases "project_id_stamp s ''retry_budgets''")
      case (Inl e)
      with None \<open>resolve_class cls = Inr c\<close> have "get_budget et eid cls s = (Inl e, s)"
        by (simp add: get_budget_def)
      then show ?thesis by (rule error)
    next
      case stamp: (Inr stamp)
      let ?b = "new_budget et eid c (rc_retry_budget (contract_of c)) (clock s) stamp"
      have "budget_at (s\<lparr>budgets := budgets s @ [?b]\<rparr>) ?key = Some ?b"
        using None by (simp add: budget_at_append)
      with None Inr stamp have "get_budget et eid cls s = (Inr ?b, s\<lparr>budgets := budgets s @ [?b]\<rparr>)"
        by (simp add: get_budget_def)
      from created [OF Inr this None refl] show ?thesis .
    qed
  qed
qed

text \<open>The account behind a key: what is used and what it is limited to.\<close>

definition used_of :: "store \<Rightarrow> string \<Rightarrow> int" where
  "used_of s key = (case budget_at s key of None \<Rightarrow> 0 | Some b \<Rightarrow> b_attempts_used b)"

definition account_ok :: "incident_class \<Rightarrow> string \<Rightarrow> store \<Rightarrow> bool" where
  "account_ok c key s =
     ((\<exists>et eid. key = budget_key et eid (class_value c)) \<and>
      (case budget_at s key of None \<Rightarrow> True | Some b \<Rightarrow> b_max_retries b = max_retries_of c))"

lemma get_budget_account:
  assumes "get_budget et eid cls s = (r, s')"
  shows "used_of s' key = used_of s key" and "account_ok c key s \<Longrightarrow> account_ok c key s'" and "clock s' = clock s"
proof -
  have *: "used_of s' key = used_of s key \<and> (account_ok c key s \<longrightarrow> account_ok c key s') \<and> clock s' = clock s"
  proof (cases rule: get_budget_cases [of et eid cls s])
    case (error e)
    with assms show ?thesis by simp
  next
    case (found c' b)
    with assms show ?thesis by simp
  next
    case (created c' b stamp)
    with assms have s': "s' = s\<lparr>budgets := budgets s @ [b]\<rparr>" by simp
    have b: "b_attempts_used b = 0" "b_max_retries b = max_retries_of c'" "b_key b = budget_key et eid (class_value c')"
      using created(4) by simp_all
    have "account_ok c key s'" if acc: "account_ok c key s"
    proof -
      from acc obtain et' eid' where key: "key = budget_key et' eid' (class_value c)" by (auto simp: account_ok_def)
      then have "b_key b = key \<Longrightarrow> c' = c" using b(3) budget_key_class by metis
      with acc b(2) show ?thesis unfolding s' by (auto simp: account_ok_def budget_at_append split: option.splits)
    qed
    moreover have "used_of s' key = used_of s key"
      using b(1) unfolding s' by (simp add: used_of_def budget_at_append split: option.splits)
    ultimately show ?thesis unfolding s' by simp
  qed
  then show "used_of s' key = used_of s key" "account_ok c key s \<Longrightarrow> account_ok c key s'" "clock s' = clock s"
    by simp_all
qed

lemma write_spend_simps [simp]:
  "b_key (write_spent x b) = b_key b" "b_max_retries (write_spent x b) = b_max_retries b"
  "b_attempts_used (write_spent x b) = b_attempts_used x"
  "b_next_allowed_at (write_spent x b) = b_next_allowed_at x" "b_halted (write_spent x b) = b_halted x"
  "b_attempts_used (spend c now cd b) = b_attempts_used b + 1"
  by (simp_all add: write_spent_def spend_def Let_def)

lemma consume_budget_cases:
  obtains (error) e where "fst (consume_budget et eid cls iid s) = Inl e"
      "\<And>key. used_of (snd (consume_budget et eid cls iid s)) key = used_of s key"
      "\<And>c key. account_ok c key s \<Longrightarrow> account_ok c key (snd (consume_budget et eid cls iid s))"
  | (spent) c row cd s0 s' where "resolve_class cls = Inr c"
      "consume_budget et eid cls iid s = (Inr (write_spent (spend c (clock s) cd row) row), s')"
      "get_cooldown_seconds c (b_attempts_used row) = Inr cd"
      "get_budget et eid (Member c) s = (Inr row, s0)"
      "budget_at s0 (budget_key et eid (class_value c)) = Some row"
      "budgets s' = update_where (\<lambda>b. b_key b = budget_key et eid (class_value c))
         (write_spent (spend c (clock s) cd row)) (budgets s0)" "clock s' = clock s"
proof (cases "resolve_class cls")
  case (Inl e)
  show ?thesis by (rule error [of e]) (simp_all add: consume_budget_def Inl)
next
  case (Inr c)
  let ?key = "budget_key et eid (class_value c)"
  show ?thesis
  proof (cases "fst (get_budget et eid (Member c) s)")
    case (Inl e)
    then obtain s0 where g: "get_budget et eid (Member c) s = (Inl e, s0)" by (cases "get_budget et eid (Member c) s") auto
    show ?thesis
      by (rule error [of e]) (simp_all add: consume_budget_def Inr g get_budget_account [OF g])
  next
    case row: (Inr row)
    then obtain s0 where g: "get_budget et eid (Member c) s = (Inr row, s0)"
      by (cases "get_budget et eid (Member c) s") auto
    note acc = get_budget_account [OF g]
    have at: "budget_at s0 ?key = Some row"
      using g by (cases rule: get_budget_cases [of et eid "Member c" s]) (auto simp: budget_at_append)
    show ?thesis
    proof (cases "get_cooldown_seconds c (b_attempts_used row)")
      case (Inl e)
      show ?thesis
        by (rule error [of e]) (simp_all add: consume_budget_def Inr g at Inl acc)
    next
      case cd: (Inr cd)
      let ?spent = "spend c (clock s) cd row"
      let ?s1 = "s0\<lparr>budgets := update_where (\<lambda>b. b_key b = ?key) (write_spent ?spent) (budgets s0)\<rparr>"
      let ?s2 = "if truthy iid then ?s1\<lparr>incidents := update_where (\<lambda>i. i_id i = the iid)
                                     (mark_incident ?spent) (incidents ?s1)\<rparr> else ?s1"
      have "budget_at ?s1 ?key = Some (write_spent ?spent row)"
        using at by (simp add: budget_at_def find_update_where)
      then have "consume_budget et eid cls iid s = (Inr (write_spent ?spent row), ?s2)"
        by (cases "truthy iid") (simp_all add: consume_budget_def Inr g at cd acc(3) Let_def)
      from spent [OF Inr this cd g at] acc(3) show ?thesis by simp
    qed
  qed
qed

section \<open>Correctness\<close>

text \<open>
  The pattern of the callers, a check and then an attempt that is charged, and what else can
  touch the budgets between two resets: checks, unguarded charges and the passing of time.
\<close>

datatype budget_cmd =
    Attempt string string class_arg "string option"
  | Charge string string class_arg "string option"
  | Check string string class_arg
  | Wait int

fun cmd_key :: "budget_cmd \<Rightarrow> string option" where
  "cmd_key (Attempt et eid cls iid) =
     (case resolve_class cls of Inl e \<Rightarrow> None | Inr c \<Rightarrow> Some (budget_key et eid (class_value c)))"
| "cmd_key _ = None"

fun budget_exec :: "budget_cmd \<Rightarrow> store \<Rightarrow> bool \<times> store" where
  "budget_exec (Attempt et eid cls iid) s =
     (case check_budget et eid cls s of
        (Inl e, s1) \<Rightarrow> (False, s1)
      | (Inr k, s1) \<Rightarrow>
          if k_allowed k
          then (case consume_budget et eid cls iid s1 of (Inl e, s2) \<Rightarrow> (False, s2) | (Inr b, s2) \<Rightarrow> (True, s2))
          else (False, s1))"
| "budget_exec (Charge et eid cls iid) s = (False, snd (consume_budget et eid cls iid s))"
| "budget_exec (Check et eid cls) s = (False, snd (check_budget et eid cls s))"
| "budget_exec (Wait now) s = (False, s\<lparr>clock := now\<rparr>)"

definition attempt_granted :: "string \<Rightarrow> budget_cmd \<Rightarrow> store \<Rightarrow> bool \<times> store" where
  "attempt_granted key cmd s =
     (cmd_key cmd = Some key \<and> fst (budget_exec cmd s), snd (budget_exec cmd s))"

lemma check_budget_snd: "snd (check_budget et eid cls s) = snd (get_budget et eid cls s)"
  by (cases "get_budget et eid cls s") (auto simp: check_budget_def split: sum.splits)

lemma check_account:
  "used_of (snd (check_budget et eid cls s)) key = used_of s key"
  "account_ok c key s \<Longrightarrow> account_ok c key (snd (check_budget et eid cls s))"
  unfolding check_budget_snd
  using get_budget_account [of et eid cls s "fst (get_budget et eid cls s)" "snd (get_budget et eid cls s)"] by auto

lemma consume_account:
  "used_of s key \<le> used_of (snd (consume_budget et eid cls iid s)) key"
  "account_ok c key s \<Longrightarrow> account_ok c key (snd (consume_budget et eid cls iid s))"
  "fst (consume_budget et eid cls iid s) = Inr b \<Longrightarrow> resolve_class cls = Inr c' \<Longrightarrow>
     used_of (snd (consume_budget et eid cls iid s)) (budget_key et eid (class_value c')) =
     used_of s (budget_key et eid (class_value c')) + 1"
proof -
  have *: "used_of s key \<le> used_of s' key \<and> (account_ok c key s \<longrightarrow> account_ok c key s') \<and>
      used_of s' (budget_key et eid (class_value c')) = used_of s (budget_key et eid (class_value c')) + 1"
    if g: "get_budget et eid (Member c') s = (Inr row, s0)"
      and at: "budget_at s0 (budget_key et eid (class_value c')) = Some row"
      and s': "budgets s' = update_where (\<lambda>b. b_key b = budget_key et eid (class_value c'))
         (write_spent (spend c' now cd row)) (budgets s0)" for c' row cd s0 s' now key
  proof -
    let ?k = "budget_key et eid (class_value c')"
    have same: "budget_at s' ?k = Some (write_spent (spend c' now cd row) row)"
      using at s' by (simp add: budget_at_def find_update_where)
    have other: "x \<noteq> ?k \<Longrightarrow> budget_at s' x = budget_at s0 x" for x
      using s' by (simp add: budget_at_def find_update_where_other)
    note acc = get_budget_account [OF g]
    have k: "used_of s' ?k = used_of s0 ?k + 1" using same at by (simp add: used_of_def)
    moreover have "used_of s0 key \<le> used_of s' key"
      using k other [of key] by (cases "key = ?k") (simp_all add: used_of_def)
    moreover have "account_ok c key s0 \<Longrightarrow> account_ok c key s'"
      using same at other [of key] by (cases "key = ?k") (simp_all add: account_ok_def)
    ultimately show ?thesis using acc(1) [of key] acc(1) [of ?k] acc(2) [of c key] by auto
  qed
  show "used_of s key \<le> used_of (snd (consume_budget et eid cls iid s)) key"
    by (cases rule: consume_budget_cases [of et eid cls iid s]) (auto dest: * [of _ _ _ _ _ _ key])
  show "account_ok c key s \<Longrightarrow> account_ok c key (snd (consume_budget et eid cls iid s))"
    by (cases rule: consume_budget_cases [of et eid cls iid s]) (auto dest: * [of _ _ _ _ _ _ key])
  show "used_of (snd (consume_budget et eid cls iid s)) (budget_key et eid (class_value c')) =
      used_of s (budget_key et eid (class_value c')) + 1"
    if "fst (consume_budget et eid cls iid s) = Inr b" "resolve_class cls = Inr c'"
    using that by (cases rule: consume_budget_cases [of et eid cls iid s]) (auto dest: *)
qed

lemma allowed_below:
  assumes "check_budget et eid cls s = (Inr k, s1)" and "k_allowed k" and "resolve_class cls = Inr c"
    and "account_ok c (budget_key et eid (class_value c)) s"
  shows "used_of s (budget_key et eid (class_value c)) < max_retries_of c"
proof -
  let ?key = "budget_key et eid (class_value c)"
  from assms(1) obtain b where g: "get_budget et eid cls s = (Inr b, s1)" and k: "k = judge_budget b c (clock s1)"
    using assms(3) by (auto simp: check_budget_def split: prod.splits sum.splits)
  have at: "budget_at s1 ?key = Some b"
    using g assms(3) by (cases rule: get_budget_cases [of et eid cls s]) (auto simp: budget_at_append)
  have "b_attempts_used b < b_max_retries b"
    using assms(2) unfolding k by (auto simp: judge_budget_def Let_def split: if_splits)
  moreover have "b_max_retries b = max_retries_of c"
    using get_budget_account(2) [OF g assms(4)] at by (simp add: account_ok_def)
  moreover have "used_of s ?key = b_attempts_used b"
    using get_budget_account(1) [OF g, of ?key] at by (simp add: used_of_def)
  ultimately show ?thesis by simp
qed

interpretation incident_budget: bounded_retry
  "attempt_granted key" "\<lambda>s. used_of s key" "max_retries_of c" "account_ok c key"
  for key c
proof unfold_locales
  fix s cmd
  have snd: "snd (attempt_granted key cmd s) = snd (budget_exec cmd s)" by (simp add: attempt_granted_def)
  assume inv: "account_ok c key s"
  note chk = check_account(1) [of _ _ _ s key] check_account(2) [OF inv]
  show "account_ok c key (snd (attempt_granted key cmd s))"
    unfolding snd
  proof (cases cmd)
    case (Attempt et eid cls iid)
    obtain r s1 where c: "check_budget et eid cls s = (r, s1)" by (cases "check_budget et eid cls s")
    with check_account(2) [OF inv, of et eid cls] have "account_ok c key s1" by simp
    from consume_account(2) [OF this, of et eid cls iid] this show "account_ok c key (snd (budget_exec cmd s))"
      by (auto simp: Attempt c split: sum.splits prod.splits)
  qed (use inv consume_account(2) [OF inv] chk in \<open>simp_all add: account_ok_def budget_at_def\<close>)
  show "used_of s key \<le> used_of (snd (attempt_granted key cmd s)) key"
    unfolding snd
  proof (cases cmd)
    case (Attempt et eid cls iid)
    obtain r s1 where c: "check_budget et eid cls s = (r, s1)" by (cases "check_budget et eid cls s")
    with check_account(1) [of et eid cls s key] have "used_of s1 key = used_of s key" by simp
    with consume_account(1) [of s1 key et eid cls iid] show "used_of s key \<le> used_of (snd (budget_exec cmd s)) key"
      by (auto simp: Attempt c split: sum.splits prod.splits)
  qed (use consume_account(1) chk in \<open>simp_all add: used_of_def budget_at_def\<close>)
  assume granted: "fst (attempt_granted key cmd s)"
  then obtain et eid cls iid c' k s1 b s2 where cmd: "cmd = Attempt et eid cls iid"
    and res: "resolve_class cls = Inr c'" and key: "key = budget_key et eid (class_value c')"
    and chk: "check_budget et eid cls s = (Inr k, s1)" and allowed: "k_allowed k"
    and con: "consume_budget et eid cls iid s1 = (Inr b, s2)"
    by (cases cmd) (auto simp: attempt_granted_def split: sum.splits prod.splits if_splits)
  have "c' = c" using inv budget_key_class unfolding key account_ok_def by blast
  then show "used_of s key < max_retries_of c"
    using allowed_below [OF chk allowed res] inv by (simp add: key)
  have "snd (budget_exec cmd s) = s2" by (simp add: cmd chk allowed con)
  moreover have "used_of s1 key = used_of s key"
    using check_account(1) [of et eid cls s key] chk by simp
  moreover have "used_of s2 key = used_of s1 key + 1"
    using consume_account(3) [of et eid cls iid s1 b c'] con res by (simp add: key)
  ultimately show "used_of s key < used_of (snd (attempt_granted key cmd s)) key" by (simp add: snd)
qed

definition budget_demo :: store where
  "budget_demo = empty_store [] None (1000 * sec)"

text \<open>
  C34: Attempts that are made only when \<^verbatim>\<open>check_budget\<close> allows them stay within the contract:
  between two resets, however checks, attempts and unguarded charges for any entities and
  classes are mixed over time, at most the retries that the account has left are granted.
\<close>

theorem guarded_attempts_stay_within_budget:
  assumes "\<And>b. budget_at s (budget_key et eid (class_value c)) = Some b \<Longrightarrow> b_max_retries b = max_retries_of c"
  shows "int (grants (attempt_granted (budget_key et eid (class_value c))) cmds s)
      \<le> max 0 (max_retries_of c - used_of s (budget_key et eid (class_value c)))"
proof -
  have "account_ok c (budget_key et eid (class_value c)) s"
    using assms by (auto simp: account_ok_def split: option.splits)
  then show ?thesis by (rule incident_budget.granted_at_most)
qed

lemma guarded_attempts_stay_within_budget_witness:
  "int (grants (attempt_granted (budget_key ''component'' ''dispatcher'' (class_value PROCESS_CRASH)))
     (concat (map (\<lambda>i. [Attempt ''component'' ''dispatcher'' (Text ''process_crash'') None,
                        Wait (int i * 1000 * sec)]) [1..<9])) budget_demo) \<le> 3"
proof -
  have "budget_at budget_demo k = None" for k by (simp add: budget_at_def budget_demo_def empty_store_def)
  with guarded_attempts_stay_within_budget [of budget_demo "''component''" "''dispatcher''" PROCESS_CRASH]
  show ?thesis by (simp add: used_of_def contract_of_simps contract_defs)
qed

lemma cooldown_nonneg: "get_cooldown_seconds c n = Inr cd \<Longrightarrow> 0 \<le> cd"
proof -
  assume "get_cooldown_seconds c n = Inr cd"
  then have cd: "cd = min \<lfloor>of_int (rb_cooldown_seconds (rc_retry_budget (contract_of c))) *
      rb_backoff_factor (rc_retry_budget (contract_of c)) ^ nat n\<rfloor>
      (rb_max_cooldown_seconds (rc_retry_budget (contract_of c)))"
    by (simp add: get_cooldown_seconds_def Let_def split: if_splits)
  have "0 \<le> rb_max_cooldown_seconds (rc_retry_budget (contract_of c))"
    by (cases c) (simp_all add: contract_of_simps contract_defs)
  moreover have "0 \<le> (of_int (rb_cooldown_seconds (rc_retry_budget (contract_of c))) :: rat) *
      rb_backoff_factor (rc_retry_budget (contract_of c)) ^ nat n"
    using backoff_bounds [of c] by (intro mult_nonneg_nonneg zero_le_power) auto
  ultimately show ?thesis by (simp add: cd)
qed

lemma judge_allowed:
  "k_allowed (judge_budget b c now) \<longleftrightarrow> \<not> b_halted b \<and> b_attempts_used b < b_max_retries b \<and>
     (case parse_stamp (b_next_allowed_at b) of None \<Rightarrow> True | Some t \<Rightarrow> t \<le> now)"
  by (auto simp: judge_budget_def Let_def not_less split: option.splits)

text \<open>
  After an attempt has been charged, a later check of the same account allows the next
  one exactly when recovery is not halted, retries are left and the cooldown of the charged
  attempt has passed; a class that halts recovery is never allowed again without a reset.
\<close>

lemma next_attempt_waits_for_the_cooldown:
  assumes "consume_budget et eid cls iid s = (Inr b, s1)" and "resolve_class cls = Inr c"
    and "clock s \<le> now" and "0 \<le> used_of s (budget_key et eid (class_value c))"
  shows "\<exists>k cd. get_cooldown_seconds c (b_attempts_used b - 1) = Inr cd \<and>
    check_budget et eid cls (s1\<lparr>clock := now\<rparr>) = (Inr k, s1\<lparr>clock := now\<rparr>) \<and>
    (k_allowed k \<longleftrightarrow> \<not> b_halted b \<and> b_attempts_used b < b_max_retries b \<and> clock s + cd * sec \<le> now) \<and>
    b_attempts_used b = used_of s (budget_key et eid (class_value c)) + 1 \<and>
    (halts c \<longrightarrow> \<not> k_allowed k)"
proof (cases rule: consume_budget_cases [of et eid cls iid s])
  case (error e)
  with assms(1) show ?thesis by simp
next
  case (spent c' row cd s0 s')
  let ?key = "budget_key et eid (class_value c)"
  let ?b = "write_spent (spend c (clock s) cd row) row"
  let ?s2 = "s1\<lparr>clock := now\<rparr>"
  have c: "c' = c" and s1: "s1 = s'" and b: "b = ?b" using spent(1,2) assms(1,2) by auto
  have "budget_at s1 ?key = Some ?b"
    using spent(5,6) unfolding c s1 by (simp add: budget_at_def find_update_where)
  then have "budget_at ?s2 ?key = Some ?b" by (simp add: budget_at_def)
  then have chk: "check_budget et eid cls ?s2 = (Inr (judge_budget ?b c now), ?s2)"
    using assms(2) by (simp add: check_budget_def get_budget_def)
  have used: "used_of s ?key = b_attempts_used row"
    using get_budget_account(1) [OF spent(4), of ?key] spent(5) by (simp add: used_of_def c)
  have "k_allowed (judge_budget ?b c now) \<longleftrightarrow>
      \<not> b_halted b \<and> b_attempts_used b < b_max_retries b \<and> clock s + cd * sec \<le> now"
    using cooldown_nonneg [OF spent(3)] assms(3) unfolding judge_allowed b
    by (cases "cd = 0") (auto simp: spend_def Let_def)
  moreover have "halts c \<Longrightarrow> b_halted b"
    using halts_at_once [of c] assms(4) used by (simp add: b spend_def Let_def)
  ultimately show ?thesis
    using chk spent(3) used unfolding c by (intro exI [of _ "judge_budget ?b c now"] exI [of _ cd]) (auto simp: b)
qed

lemma next_attempt_waits_for_the_cooldown_witness:
  "case consume_budget ''terminal'' ''T1'' (Member LEASE_CONFLICT) None budget_demo of
     (Inl e, s1) \<Rightarrow> False
   | (Inr b, s1) \<Rightarrow> (\<exists>k s2. check_budget ''terminal'' ''T1'' (Member LEASE_CONFLICT) (s1\<lparr>clock := 5000 * sec\<rparr>) = (Inr k, s2) \<and>
       \<not> k_allowed k)"
proof -
  let ?r = "consume_budget ''terminal'' ''T1'' (Member LEASE_CONFLICT) None budget_demo"
  have "(case fst ?r of Inl e \<Rightarrow> False | Inr b \<Rightarrow> b_halted b)" by code_simp
  then obtain b s1 where r: "?r = (Inr b, s1)" by (cases ?r; cases "fst ?r") auto
  have "clock budget_demo \<le> 5000 * sec" "used_of budget_demo k = 0" for k
    by (simp_all add: budget_demo_def empty_store_def used_of_def budget_at_def sec_def)
  moreover have "halts LEASE_CONFLICT" by (simp add: halts_iff)
  ultimately show ?thesis
    using next_attempt_waits_for_the_cooldown [OF r, of LEASE_CONFLICT "5000 * sec"] unfolding r by fastforce
qed

section \<open>The operator summary\<close>

definition class_state_count :: "(string \<times> (string \<times> int) list) list \<Rightarrow> string \<Rightarrow> string \<Rightarrow> int" where
  "class_state_count m cls st =
     (case map_of m cls of None \<Rightarrow> 0
      | Some inner \<Rightarrow> (case map_of inner st of None \<Rightarrow> 0 | Some n \<Rightarrow> n))"

lemma class_state_count_Nil [simp]: "class_state_count [] cls st = 0"
  by (simp add: class_state_count_def)

lemma no_counts_zero: "(case map_of no_counts st of None \<Rightarrow> 0 | Some n \<Rightarrow> n) = 0"
  by (simp add: no_counts_def)

lemma count_class_row_step:
  "class_state_count (count_class_row (c, t, n) m) cls st =
     (if cls = c \<and> st = t then n else class_state_count m cls st)"
  using no_counts_zero [of st]
  by (auto simp: count_class_row_def class_state_count_def Let_def update_conv' split: option.splits)

lemma count_class_rows:
  assumes "distinct (map (\<lambda>(c, t, n). (c, t)) rows)"
  shows "class_state_count (fold count_class_row rows m) cls st =
    (case map_of (map (\<lambda>(c, t, n). ((c, t), n)) rows) (cls, st) of None \<Rightarrow> class_state_count m cls st | Some n \<Rightarrow> n)"
  using assms
proof (induction rows arbitrary: m)
  case Nil
  then show ?case by simp
next
  case (Cons row rows)
  obtain c t n where row: "row = (c, t, n)" by (cases row) auto
  have "map_of (map (\<lambda>(c, t, n). ((c, t), n)) rows) (c, t) = None"
    using Cons.prems by (auto simp: row map_of_eq_None_iff image_iff split: prod.splits)
  with Cons.IH [of "count_class_row row m"] Cons.prems show ?case
    by (auto simp: row count_class_row_step split: option.splits)
qed

text \<open>
  The operator summary is exact: its table by class and state holds the number of
  incidents of each, every active incident is counted once as open or escalated, and the
  exhausted budgets it counts are the ones that would not be allowed another attempt for want
  of retries.
\<close>

lemma summary_counts_are_exact:
  "class_state_count (q_by_class (generate_incident_summary s all limit)) cls st =
      count_incidents (\<lambda>i. i_class i = cls \<and> i_state i = st) s \<and>
   q_total_open (generate_incident_summary s all limit) + q_total_escalated (generate_incident_summary s all limit) =
      int (length (q_active_incidents (generate_incident_summary s False (- 1)))) \<and>
   q_budgets_exhausted (generate_incident_summary s all limit) =
      int (length (filter (\<lambda>b. b_max_retries b - b_attempts_used b \<le> 0) (budgets s)))"
proof -
  let ?keys = "sort_key fst (sort_key snd (remdups (map (\<lambda>i. (i_class i, i_state i)) (incidents s))))"
  have rows: "class_rows s = map (\<lambda>(c, t). (c, t, count_incidents (\<lambda>i. i_class i = c \<and> i_state i = t) s)) ?keys"
    by (simp add: class_rows_def)
  have keys: "map (\<lambda>(c, t, n). (c, t)) (class_rows s) = ?keys"
    unfolding rows by (simp add: comp_def split_beta)
  have pairs: "map (\<lambda>(c, t, n). ((c, t), n)) (class_rows s) =
      map (\<lambda>k. (k, count_incidents (\<lambda>i. i_class i = fst k \<and> i_state i = snd k) s)) ?keys"
    unfolding rows by (simp add: comp_def split_beta)
  have "distinct ?keys" by simp
  then have "class_state_count (fold count_class_row (class_rows s) []) cls st =
      (case map_of (map (\<lambda>k. (k, count_incidents (\<lambda>i. i_class i = fst k \<and> i_state i = snd k) s)) ?keys) (cls, st) of
         None \<Rightarrow> 0 | Some n \<Rightarrow> n)"
    using count_class_rows [of "class_rows s" "[]" cls st] unfolding keys pairs class_state_count_Nil by simp
  also have "\<dots> = count_incidents (\<lambda>i. i_class i = cls \<and> i_state i = st) s"
  proof (cases "(cls, st) \<in> set ?keys")
    case True
    then show ?thesis by (simp add: map_of_map_restrict)
  next
    case False
    then have "\<forall>i \<in> set (incidents s). \<not> (i_class i = cls \<and> i_state i = st)" by force
    then have "count_incidents (\<lambda>i. i_class i = cls \<and> i_state i = st) s = 0"
      by (simp add: count_incidents_def filter_empty_conv)
    with False show ?thesis by (simp add: map_of_map_restrict)
  qed
  moreover have "int (length (filter (\<lambda>i. i_state i = ''open'') rows)) + int (length (filter (\<lambda>i. i_state i = ''escalated'') rows)) =
      int (length (filter is_active rows))" for rows
    by (induction rows) (auto simp: is_active_def)
  ultimately show ?thesis
    by (simp add: generate_incident_summary_def Let_def count_incidents_def sql_limit_def)
qed

end
