(* ===== verification/Json_Text.thy ===== *)
theory Json_Text
  imports Prelude "HOL-Library.AList"
begin

text \<open>
  The parts of Python's \<^verbatim>\<open>json\<close> module that the stores and ledgers use: \<^verbatim>\<open>json.dumps\<close> with its
  separators, \<^verbatim>\<open>sort_keys\<close>, and \<^verbatim>\<open>json.loads\<close> as its scanner reads a text.

  How a float is written and read (\<open>show_float\<close>, \<open>read_float\<close>) is a parameter. Characters are
  those up to \<^verbatim>\<open>U+00FF\<close>; \<^verbatim>\<open>ensure_ascii\<close> writes the ones beyond ASCII as escapes.

  Lemmas: what is written is printable ASCII, the scanner consumes what it reads, so that the
  fuel it runs on is never the limit, and reading what was written gives the value back.
\<close>

section \<open>Parameters\<close>

text \<open>
  What the texts of the ledgers are made with and the model leaves open: how a float is written
  and read, SHA-256 as a hex text, and how an instant is written.
\<close>

record codec =
  float_show :: "rat \<Rightarrow> string"
  float_read :: "string \<Rightarrow> rat"
  sha256 :: "string \<Rightarrow> string"
  time_text :: "int \<Rightarrow> string"

section \<open>Writing\<close>

abbreviation py_ord :: "char \<Rightarrow> nat" where
  "py_ord \<equiv> of_char"

definition hex_digit :: "nat \<Rightarrow> char" where
  "hex_digit n = char_of (if n < 10 then 48 + n else 87 + n)"

definition json_char :: "char \<Rightarrow> string" where
  "json_char c =
     (let n = py_ord c in
      if n = 34 then [CHR 92, CHR 34] else if n = 92 then [CHR 92, CHR 92]
      else if n = 10 then [CHR 92, CHR ''n''] else if n = 13 then [CHR 92, CHR ''r'']
      else if n = 9 then [CHR 92, CHR ''t''] else if n = 8 then [CHR 92, CHR ''b'']
      else if n = 12 then [CHR 92, CHR ''f'']
      else if n < 32 \<or> 126 < n then [CHR 92] @ ''u00'' @ [hex_digit (n div 16), hex_digit (n mod 16)]
      else [c])"

definition json_string :: "string \<Rightarrow> string" where
  "json_string s = [CHR 34] @ concat (map json_char s) @ [CHR 34]"

fun json_text :: "(rat \<Rightarrow> string) \<Rightarrow> string \<Rightarrow> string \<Rightarrow> json \<Rightarrow> string" where
  "json_text show_float isep ksep JNull = ''null''"
| "json_text show_float isep ksep (JBool b) = (if b then ''true'' else ''false'')"
| "json_text show_float isep ksep (JInt i) = py_int i"
| "json_text show_float isep ksep (JNum q) = show_float q"
| "json_text show_float isep ksep (JStr s) = json_string s"
| "json_text show_float isep ksep (JList xs) =
     ''['' @ join_with isep (map (json_text show_float isep ksep) xs) @ '']''"
| "json_text show_float isep ksep (JObj m) =
     ''{'' @ join_with isep (map (\<lambda>(k, v). json_string k @ ksep @ json_text show_float isep ksep v) m) @ ''}''"

text \<open>\<^verbatim>\<open>sort_keys=True\<close>, at every level.\<close>

fun sort_json :: "json \<Rightarrow> json" where
  "sort_json (JList xs) = JList (map sort_json xs)"
| "sort_json (JObj m) = JObj (sort_key fst (map (\<lambda>(k, v). (k, sort_json v)) m))"
| "sort_json j = j"

section \<open>Reading\<close>

definition json_space :: "char \<Rightarrow> bool" where
  "json_space c = (py_ord c \<in> {32, 9, 10, 13})"

definition skip_ws :: "string \<Rightarrow> string" where
  "skip_ws s = dropWhile json_space s"

definition is_digit :: "char \<Rightarrow> bool" where
  "is_digit c = (48 \<le> py_ord c \<and> py_ord c \<le> 57)"

definition digits_value :: "string \<Rightarrow> nat" where
  "digits_value ds = foldl (\<lambda>n c. 10 * n + (py_ord c - 48)) 0 ds"

text \<open>\<^verbatim>\<open>int(s)\<close> of a text: white space around it, a sign, digits with single underscores between.\<close>

fun underscored :: "string \<Rightarrow> bool" where
  "underscored [] = False"
| "underscored [c] = is_digit c"
| "underscored (c # d # cs) =
     (is_digit c \<and> (if d = CHR ''_'' then underscored cs else underscored (d # cs)))"

definition int_of_text :: "string \<Rightarrow> int option" where
  "int_of_text s =
     (let t = py_strip s;
          sign = (case t of c # _ \<Rightarrow> if c = CHR ''+'' \<or> c = CHR ''-'' then [c] else [] | [] \<Rightarrow> []);
          body = drop (length sign) t
      in if underscored body
         then Some ((if sign = ''-'' then - 1 else 1) * int (digits_value (filter is_digit body)))
         else None)"

definition hex_value :: "char \<Rightarrow> nat option" where
  "hex_value c =
     (let n = py_ord c in
      if 48 \<le> n \<and> n \<le> 57 then Some (n - 48)
      else if 97 \<le> n \<and> n \<le> 102 then Some (n - 87)
      else if 65 \<le> n \<and> n \<le> 70 then Some (n - 55)
      else None)"

text \<open>The character of an escape \<^verbatim>\<open>\uXXXX\<close>; those beyond \<^verbatim>\<open>U+00FF\<close> are outside the texts of the model.\<close>

definition hex_char :: "char \<Rightarrow> char \<Rightarrow> char \<Rightarrow> char \<Rightarrow> char option" where
  "hex_char a b c d =
     (case (hex_value a, hex_value b, hex_value c, hex_value d) of
        (Some 0, Some 0, Some x, Some y) \<Rightarrow> Some (char_of (16 * x + y))
      | _ \<Rightarrow> None)"

definition simple_escape :: "char \<Rightarrow> char option" where
  "simple_escape c =
     map_of [(CHR 34, CHR 34), (CHR 92, CHR 92), (CHR ''/'', CHR ''/''), (CHR ''b'', CHR 8), (CHR ''f'', CHR 12),
             (CHR ''n'', CHR 10), (CHR ''r'', CHR 13), (CHR ''t'', CHR 9)] c"

text \<open>The rest of a string literal after its opening quote; control characters are refused.\<close>

fun scan_string :: "string \<Rightarrow> (string \<times> string) option" where
  "scan_string [] = None"
| "scan_string (c # cs) =
     (if c = CHR 34 then Some ([], cs)
      else if c = CHR 92 then
        (case cs of
           [] \<Rightarrow> None
         | e # r \<Rightarrow>
             if e = CHR ''u'' then
               (case r of
                  a # b # x # y # r' \<Rightarrow>
                    (case hex_char a b x y of
                       None \<Rightarrow> None
                     | Some ch \<Rightarrow> map_option (\<lambda>(t, rest). (ch # t, rest)) (scan_string r'))
                | _ \<Rightarrow> None)
             else
               (case simple_escape e of
                  None \<Rightarrow> None
                | Some ch \<Rightarrow> map_option (\<lambda>(t, rest). (ch # t, rest)) (scan_string r)))
      else if py_ord c < 32 then None
      else map_option (\<lambda>(t, rest). (c # t, rest)) (scan_string cs))"

text \<open>
  The number pattern: an integer part without leading zeros, then an optional fraction and an
  optional exponent. Without both it is an integer.
\<close>

definition scan_fraction :: "string \<Rightarrow> string" where
  "scan_fraction s =
     (case s of
        c # d # cs \<Rightarrow> if c = CHR ''.'' \<and> is_digit d then c # takeWhile is_digit (d # cs) else []
      | _ \<Rightarrow> [])"

definition scan_exponent :: "string \<Rightarrow> string" where
  "scan_exponent s =
     (case s of
        e # r \<Rightarrow>
          if e = CHR ''e'' \<or> e = CHR ''E'' then
            let sign = (case r of c # _ \<Rightarrow> if c = CHR ''+'' \<or> c = CHR ''-'' then [c] else [] | [] \<Rightarrow> []);
                ds = takeWhile is_digit (drop (length sign) r)
            in if ds = [] then [] else e # sign @ ds
          else []
      | [] \<Rightarrow> [])"

definition scan_integer :: "string \<Rightarrow> string" where
  "scan_integer s =
     (case s of
        c # cs \<Rightarrow> if c = CHR ''0'' then [c] else takeWhile is_digit s
      | [] \<Rightarrow> [])"

definition scan_number :: "(string \<Rightarrow> rat) \<Rightarrow> string \<Rightarrow> (json \<times> string) option" where
  "scan_number read_float s =
     (let minus = (case s of c # _ \<Rightarrow> if c = CHR ''-'' then [c] else [] | [] \<Rightarrow> []);
          s1 = drop (length minus) s;
          whole = scan_integer s1;
          s2 = drop (length whole) s1;
          frac = scan_fraction s2;
          s3 = drop (length frac) s2;
          expo = scan_exponent s3;
          rest = drop (length expo) s3
      in if whole = [] then None
         else if frac = [] \<and> expo = [] then
           Some (JInt (if minus = [] then int (digits_value whole) else - int (digits_value whole)), rest)
         else Some (JNum (read_float (minus @ whole @ frac @ expo)), rest))"

definition scan_word :: "string \<Rightarrow> json \<Rightarrow> string \<Rightarrow> (json \<times> string) option" where
  "scan_word w v s = (if take (length w) s = w then Some (v, drop (length w) s) else None)"

definition first_some :: "'a option \<Rightarrow> 'a option \<Rightarrow> 'a option" where
  "first_some a b = (case a of None \<Rightarrow> b | Some x \<Rightarrow> Some x)"

definition scan_atom :: "(string \<Rightarrow> rat) \<Rightarrow> string \<Rightarrow> (json \<times> string) option" where
  "scan_atom read_float s =
     first_some (scan_word ''null'' JNull s)
     (first_some (scan_word ''true'' (JBool True) s)
     (first_some (scan_word ''false'' (JBool False) s)
     (first_some (scan_word ''NaN'' (JNum (read_float ''NaN'')) s)
     (first_some (scan_word ''Infinity'' (JNum (read_float ''Infinity'')) s)
     (first_some (scan_word ''-Infinity'' (JNum (read_float ''-Infinity'')) s)
     (scan_number read_float s))))))"

text \<open>A dictionary built from pairs: a repeated key keeps its place and takes the last value.\<close>

definition dict_of :: "(string \<times> json) list \<Rightarrow> (string \<times> json) list" where
  "dict_of m = fold (\<lambda>(k, v). AList.update k v) m []"

fun scan_value :: "(string \<Rightarrow> rat) \<Rightarrow> nat \<Rightarrow> string \<Rightarrow> (json \<times> string) option"
  and scan_items :: "(string \<Rightarrow> rat) \<Rightarrow> nat \<Rightarrow> string \<Rightarrow> (json list \<times> string) option"
  and scan_members :: "(string \<Rightarrow> rat) \<Rightarrow> nat \<Rightarrow> string \<Rightarrow> ((string \<times> json) list \<times> string) option" where
  "scan_value rf 0 s = None"
| "scan_value rf (Suc n) s =
     (case s of
        [] \<Rightarrow> None
      | c # cs \<Rightarrow>
          if c = CHR 34 then map_option (\<lambda>(t, r). (JStr t, r)) (scan_string cs)
          else if c = CHR ''['' then
            (case skip_ws cs of
               [] \<Rightarrow> None
             | d # r \<Rightarrow> if d = CHR '']'' then Some (JList [], r)
                        else map_option (\<lambda>(xs, r'). (JList xs, r')) (scan_items rf n (d # r)))
          else if c = CHR ''{'' then
            (case skip_ws cs of
               [] \<Rightarrow> None
             | d # r \<Rightarrow> if d = CHR ''}'' then Some (JObj [], r)
                        else map_option (\<lambda>(m, r'). (JObj (dict_of m), r')) (scan_members rf n (d # r)))
          else scan_atom rf s)"
| "scan_items rf 0 s = None"
| "scan_items rf (Suc n) s =
     (case scan_value rf n s of
        None \<Rightarrow> None
      | Some (v, r) \<Rightarrow>
          (case skip_ws r of
             [] \<Rightarrow> None
           | d # r' \<Rightarrow>
               if d = CHR '']'' then Some ([v], r')
               else if d = CHR '','' then
                 map_option (\<lambda>(vs, rest). (v # vs, rest)) (scan_items rf n (skip_ws r'))
               else None))"
| "scan_members rf 0 s = None"
| "scan_members rf (Suc n) s =
     (case s of
        [] \<Rightarrow> None
      | q # cs \<Rightarrow>
          if q \<noteq> CHR 34 then None
          else (case scan_string cs of
                  None \<Rightarrow> None
                | Some (k, r) \<Rightarrow>
                    (case skip_ws r of
                       [] \<Rightarrow> None
                     | d # r1 \<Rightarrow>
                         if d \<noteq> CHR '':'' then None
                         else (case scan_value rf n (skip_ws r1) of
                                 None \<Rightarrow> None
                               | Some (v, r2) \<Rightarrow>
                                   (case skip_ws r2 of
                                      [] \<Rightarrow> None
                                    | e # r3 \<Rightarrow>
                                        if e = CHR ''}'' then Some ([(k, v)], r3)
                                        else if e = CHR '','' then
                                          map_option (\<lambda>(m, rest). ((k, v) # m, rest))
                                            (scan_members rf n (skip_ws r3))
                                        else None)))))"

text \<open>\<^verbatim>\<open>json.loads\<close>: one value with white space around it, nothing else; \<open>None\<close> is \<^verbatim>\<open>JSONDecodeError\<close>.\<close>

definition json_loads :: "(string \<Rightarrow> rat) \<Rightarrow> string \<Rightarrow> json option" where
  "json_loads rf s =
     (case scan_value rf (Suc (2 * length s)) (skip_ws s) of
        None \<Rightarrow> None
      | Some (v, r) \<Rightarrow> if skip_ws r = [] then Some v else None)"

section \<open>Numbers and strings read back\<close>

definition json_stop :: "string \<Rightarrow> bool" where
  "json_stop rest = (rest = [] \<or> hd rest \<in> {CHR '','', CHR '']'', CHR ''}''})"

lemma json_stop_head:
  assumes "json_stop rest"
  shows "rest = [] \<or> (\<exists>c r. rest = c # r \<and> \<not> is_digit c \<and> c \<notin> {CHR ''.'', CHR ''e'', CHR ''E'', CHR ''+'', CHR ''-''})"
  using assms by (cases rest) (auto simp: json_stop_def is_digit_def)

lemma is_digit_char: "n < 10 \<Longrightarrow> is_digit (char_of (48 + n)) \<and> py_ord (char_of (48 + n) :: char) = 48 + n"
  by (simp add: is_digit_def)

lemma digits_value_snoc: "digits_value (ds @ [c]) = 10 * digits_value ds + (py_ord c - 48)"
  by (simp add: digits_value_def)

lemma nat_digits_read:
  "digits_value (nat_digits n) = n \<and> list_all is_digit (nat_digits n) \<and> nat_digits n \<noteq> [] \<and>
   (hd (nat_digits n) = CHR ''0'' \<longrightarrow> n = 0)"
proof (induction n rule: nat_digits.induct)
  case (1 n)
  show ?case
  proof (cases "n < 10")
    case True
    have "char_of (48 + n) = CHR ''0'' \<Longrightarrow> n = 0"
    proof -
      assume "char_of (48 + n) = CHR ''0''"
      then have "py_ord (char_of (48 + n)) = py_ord CHR ''0''" by simp
      with True show "n = 0" by simp
    qed
    with True is_digit_char [OF True] show ?thesis
      by (simp add: nat_digits.simps [of n] digits_value_def)
  next
    case False
    have "n mod 10 < 10" by simp
    from is_digit_char [OF this] 1 [OF False] False show ?thesis
      by (simp add: nat_digits.simps [of n] digits_value_snoc) (auto simp: hd_append)
  qed
qed

lemma takeWhile_stop:
  "list_all p xs \<Longrightarrow> rest = [] \<or> \<not> p (hd rest) \<Longrightarrow> takeWhile p (xs @ rest) = xs"
  by (induction xs) (cases rest, auto)+

lemma scan_integer_digits:
  assumes "json_stop rest"
  shows "scan_integer (nat_digits n @ rest) = nat_digits n"
proof (cases "n = 0")
  case True
  moreover have "char_of (48 :: nat) = CHR ''0''" by code_simp
  ultimately show ?thesis by (simp add: scan_integer_def nat_digits.simps [of 0])
next
  case False
  from nat_digits_read [of n] False obtain c cs where c: "nat_digits n = c # cs" "c \<noteq> CHR ''0''"
    by (cases "nat_digits n") auto
  have "takeWhile is_digit (nat_digits n @ rest) = nat_digits n"
    using nat_digits_read [of n] json_stop_head [OF assms] by (intro takeWhile_stop) auto
  with c show ?thesis by (simp add: scan_integer_def)
qed

lemma scan_tail_stop:
  assumes "json_stop rest"
  shows "scan_fraction rest = []" "scan_exponent rest = []"
  using json_stop_head [OF assms] by (auto simp: scan_fraction_def scan_exponent_def split: list.splits)

lemma scan_number_int:
  assumes "json_stop rest"
  shows "scan_number rf (py_int i @ rest) = Some (JInt i, rest)"
proof -
  note d = nat_digits_read
  note s = scan_integer_digits [OF assms] scan_tail_stop [OF assms]
  show ?thesis
  proof (cases "i < 0")
    case True
    with d [of "nat (- i)"] s show ?thesis
      by (simp add: scan_number_def py_int_def Let_def)
  next
    case False
    obtain c cs where c: "nat_digits (nat i) = c # cs" "is_digit c"
      using d [of "nat i"] by (cases "nat_digits (nat i)") auto
    then have "c \<noteq> CHR ''-''" by (auto simp: is_digit_def)
    with False c d [of "nat i"] s(1) [of "nat i"] s(2,3) show ?thesis
      by (simp add: scan_number_def py_int_def Let_def)
  qed
qed


lemma scan_exponent_append:
  assumes "json_stop rest"
  shows "scan_exponent (s @ rest) = scan_exponent s"
proof (cases s)
  case Nil
  then show ?thesis using scan_tail_stop [OF assms] by (simp add: scan_exponent_def)
next
  case (Cons e r)
  have stop: "rest = [] \<or> \<not> is_digit (hd rest)" using json_stop_head [OF assms] by auto
  have tw: "takeWhile is_digit (t @ rest) = takeWhile is_digit t" for t
    using stop by (induction t) (cases rest, auto)+
  show ?thesis
  proof (cases r)
    case Nil
    with Cons json_stop_head [OF assms] show ?thesis
      by (auto simp: scan_exponent_def Let_def)
  next
    case (Cons c r')
    with \<open>s = e # r\<close> tw [of r] tw [of r'] show ?thesis by (simp add: scan_exponent_def Let_def)
  qed
qed

lemma scan_fraction_append:
  assumes "json_stop rest"
  shows "scan_fraction (s @ rest) = scan_fraction s"
proof -
  have stop: "rest = [] \<or> \<not> is_digit (hd rest)" using json_stop_head [OF assms] by auto
  have tw: "takeWhile is_digit (t @ rest) = takeWhile is_digit t" for t
    using stop by (induction t) (cases rest, auto)+
  show ?thesis
  proof (cases s)
    case Nil
    then show ?thesis using scan_tail_stop [OF assms] by (simp add: scan_fraction_def)
  next
    case (Cons c cs)
    with tw [of cs] json_stop_head [OF assms] show ?thesis
      by (cases cs) (auto simp: scan_fraction_def split: list.splits)
  qed
qed

lemma scan_integer_append:
  assumes "json_stop rest" and "s \<noteq> []"
  shows "scan_integer (s @ rest) = scan_integer s"
proof -
  have stop: "rest = [] \<or> \<not> is_digit (hd rest)" using json_stop_head [OF assms(1)] by auto
  have tw: "takeWhile is_digit (t @ rest) = takeWhile is_digit t" for t
    using stop by (induction t) (cases rest, auto)+
  from assms(2) tw show ?thesis by (cases s) (simp_all add: scan_integer_def)
qed

lemma scan_lengths:
  "length (scan_integer s) \<le> length s" "length (scan_fraction s) \<le> length s" "length (scan_exponent s) \<le> length s"
proof -
  show "length (scan_integer s) \<le> length s"
    by (auto simp: scan_integer_def length_takeWhile_le le_SucI split: list.splits)
  show "length (scan_fraction s) \<le> length s"
    by (auto simp: scan_fraction_def length_takeWhile_le split: list.splits)
  show "length (scan_exponent s) \<le> length s"
  proof (cases s)
    case (Cons e r)
    have "length (takeWhile is_digit t) \<le> length t" for t by (rule length_takeWhile_le)
    then show ?thesis using Cons by (cases r) (auto simp: scan_exponent_def Let_def)
  qed (simp add: scan_exponent_def)
qed

lemma scan_number_append:
  assumes "scan_number rf s = Some (v, [])" and "json_stop rest"
  shows "scan_number rf (s @ rest) = Some (v, rest)"
proof -
  let ?m = "case s of c # _ \<Rightarrow> if c = CHR ''-'' then [c] else [] | [] \<Rightarrow> []"
  let ?s1 = "drop (length ?m) s"
  let ?s2 = "drop (length (scan_integer ?s1)) ?s1"
  let ?s3 = "drop (length (scan_fraction ?s2)) ?s2"
  from assms(1) have whole: "scan_integer ?s1 \<noteq> []" and fin: "drop (length (scan_exponent ?s3)) ?s3 = []"
    by (auto simp: scan_number_def Let_def split: if_splits)
  then have ne: "?s1 \<noteq> []" "s \<noteq> []" by (auto simp: scan_integer_def)
  have m: "(case s @ rest of c # _ \<Rightarrow> if c = CHR ''-'' then [c] else [] | [] \<Rightarrow> []) = ?m"
    using ne(2) by (cases s) auto
  have "length ?m \<le> length s" using ne(2) by (cases s) auto
  then have d1: "drop (length ?m) (s @ rest) = ?s1 @ rest" by simp
  note lens = scan_lengths [of ?s1] scan_lengths [of ?s2] scan_lengths [of ?s3]
  have i: "scan_integer (?s1 @ rest) = scan_integer ?s1" by (rule scan_integer_append [OF assms(2) ne(1)])
  have d2: "drop (length (scan_integer ?s1)) (?s1 @ rest) = ?s2 @ rest" using lens(1) by simp
  have f: "scan_fraction (?s2 @ rest) = scan_fraction ?s2" by (rule scan_fraction_append [OF assms(2)])
  have d3: "drop (length (scan_fraction ?s2)) (?s2 @ rest) = ?s3 @ rest" using lens(5) by simp
  have e: "scan_exponent (?s3 @ rest) = scan_exponent ?s3" by (rule scan_exponent_append [OF assms(2)])
  have d4: "drop (length (scan_exponent ?s3)) (?s3 @ rest) = rest" using lens(9) fin by simp
  show ?thesis using assms(1) unfolding scan_number_def Let_def m d1 i d2 f d3 e d4 fin
    by (auto split: if_splits)
qed

lemma hex_value_digit: "m < 16 \<Longrightarrow> hex_value (hex_digit m) = Some m"
  by (simp add: hex_value_def hex_digit_def)

lemma scan_json_char:
  "scan_string (json_char c @ s) = map_option (\<lambda>(t, r). (c # t, r)) (scan_string s)"
proof -
  have eq: "c = char_of (py_ord c)" by simp
  let ?n = "py_ord c"
  have esc: "c \<noteq> CHR 34 \<and> c \<noteq> CHR 92" if "?n \<noteq> 34" "?n \<noteq> 92" using that by auto
  consider "?n \<in> {34, 92, 10, 13, 9, 8, 12}" | "?n \<notin> {34, 92, 10, 13, 9, 8, 12}" "?n < 32 \<or> 126 < ?n"
    | "?n \<notin> {34, 92, 10, 13, 9, 8, 12}" "32 \<le> ?n" "?n \<le> 126" by fastforce
  then show ?thesis
  proof cases
    case 1
    have chars: "char_of (34 :: nat) = CHR 34" "char_of (92 :: nat) = CHR 92" "char_of (10 :: nat) = CHR 10"
      "char_of (13 :: nat) = CHR 13" "char_of (9 :: nat) = CHR 9" "char_of (8 :: nat) = CHR 8"
      "char_of (12 :: nat) = CHR 12" by code_simp+
    from 1 have "c \<in> {CHR 34, CHR 92, CHR 10, CHR 13, CHR 9, CHR 8, CHR 12}"
      using eq chars by (metis insert_iff empty_iff)
    then show ?thesis by (auto simp: json_char_def simple_escape_def)
  next
    case 2
    have "?n div 16 < 16" by (rule less_mult_imp_div_less) simp
    then have "hex_char (CHR ''0'') (CHR ''0'') (hex_digit (?n div 16)) (hex_digit (?n mod 16)) = Some c"
      by (simp add: hex_char_def hex_value_digit) (simp add: hex_value_def)
    with 2 show ?thesis by (simp add: json_char_def Let_def)
  next
    case 3
    with esc show ?thesis by (simp add: json_char_def Let_def)
  qed
qed

lemma scan_string_json: "scan_string (concat (map json_char s) @ CHR 34 # rest) = Some (s, rest)"
  by (induction s) (simp_all add: scan_json_char)


section \<open>Values read back\<close>

text \<open>What a float is written as is a number and is read as that float.\<close>

definition float_ok :: "(string \<Rightarrow> rat) \<Rightarrow> (rat \<Rightarrow> string) \<Rightarrow> rat \<Rightarrow> bool" where
  "float_ok rf sf q = (scan_number rf (sf q) = Some (JNum q, []))"

text \<open>The values of Python: dictionaries have distinct keys, and the floats in them read back.\<close>

fun json_ok :: "(string \<Rightarrow> rat) \<Rightarrow> (rat \<Rightarrow> string) \<Rightarrow> json \<Rightarrow> bool" where
  "json_ok rf sf (JNum q) = float_ok rf sf q"
| "json_ok rf sf (JList xs) = list_all (json_ok rf sf) xs"
| "json_ok rf sf (JObj m) = (distinct (map fst m) \<and> list_all (\<lambda>(k, v). json_ok rf sf v) m)"
| "json_ok rf sf _ = True"

lemma json_string_cons: "json_string s = CHR 34 # concat (map json_char s) @ [CHR 34]"
  by (simp add: json_string_def)

lemma scan_number_head:
  "scan_number rf s = Some r \<Longrightarrow> s \<noteq> [] \<and> (is_digit (hd s) \<or> hd s = CHR ''-'' \<and> tl s \<noteq> [] \<and> is_digit (hd (tl s)))"
  by (cases s; cases "tl s")
     (auto simp: scan_number_def Let_def scan_integer_def is_digit_def split: if_splits list.splits)

lemma scan_atom_number:
  assumes "scan_number rf s = Some r"
  shows "scan_atom rf s = Some r"
proof -
  from scan_number_head [OF assms] have
    "scan_word ''null'' JNull s = None" "scan_word ''true'' (JBool True) s = None"
    "scan_word ''false'' (JBool False) s = None" "scan_word ''NaN'' x s = None"
    "scan_word ''Infinity'' x s = None" "scan_word ''-Infinity'' x s = None" for x
    by (cases s; cases "tl s"; auto simp: scan_word_def is_digit_def)+
  with assms show ?thesis by (simp add: scan_atom_def first_some_def)
qed

lemma number_head_plain:
  assumes "is_digit c \<or> c = CHR ''-''"
  shows "\<not> json_space c" "c \<notin> {CHR 34, CHR ''['', CHR ''{'', CHR '']'', CHR ''}''}"
  using assms by (auto simp: is_digit_def json_space_def)

lemma scan_value_number:
  assumes "scan_number rf s = Some r"
  shows "scan_value rf (Suc n) s = Some r"
proof -
  from scan_number_head [OF assms] obtain c cs where c: "s = c # cs" "is_digit c \<or> c = CHR ''-''"
    by (cases s) auto
  from number_head_plain(2) [OF c(2)] scan_atom_number [OF assms] c(1) show ?thesis by simp
qed

lemma json_text_head:
  assumes "json_ok rf sf v"
  shows "json_text sf isep ksep v \<noteq> [] \<and> \<not> json_space (hd (json_text sf isep ksep v)) \<and>
    hd (json_text sf isep ksep v) \<notin> {CHR '']'', CHR ''}''}"
proof (cases v)
  case (JInt i)
  have "scan_number rf (py_int i @ []) = Some (JInt i, [])" by (rule scan_number_int) (simp add: json_stop_def)
  from scan_number_head [OF this] number_head_plain JInt show ?thesis by (cases "py_int i") auto
next
  case (JNum q)
  with assms have "scan_number rf (sf q) = Some (JNum q, [])" by (simp add: float_ok_def)
  from scan_number_head [OF this] number_head_plain JNum show ?thesis by (cases "sf q") auto
qed (auto simp: json_string_cons json_space_def)

lemma skip_ws_head: "s \<noteq> [] \<Longrightarrow> \<not> json_space (hd s) \<Longrightarrow> skip_ws (s @ rest) = s @ rest"
  by (cases s) (simp_all add: skip_ws_def)

lemma skip_ws_space: "list_all json_space ws \<Longrightarrow> skip_ws (ws @ s) = skip_ws s"
  by (induction ws) (simp_all add: skip_ws_def)

lemma skip_ws_punct [simp]:
  "skip_ws (CHR '','' # s) = CHR '','' # s" "skip_ws (CHR '':'' # s) = CHR '':'' # s"
  "skip_ws (CHR '']'' # s) = CHR '']'' # s" "skip_ws (CHR ''}'' # s) = CHR ''}'' # s"
  "skip_ws (CHR 34 # s) = CHR 34 # s" "skip_ws [] = []"
  by (simp_all add: skip_ws_def json_space_def)

lemma dict_of_distinct: "distinct (map fst m) \<Longrightarrow> dict_of m = m"
proof -
  have update: "k \<notin> fst ` set acc \<Longrightarrow> AList.update k v acc = acc @ [(k, v)]" for k :: string and v :: json and acc
    by (induction acc) auto
  have "distinct (map fst (acc @ m)) \<Longrightarrow> fold (\<lambda>(k, v). AList.update k v) m acc = acc @ m" for acc
  proof (induction m arbitrary: acc)
    case (Cons kv m)
    obtain k v where kv: "kv = (k, v)" by fastforce
    with Cons.prems have "k \<notin> fst ` set acc" by auto
    with Cons.IH [of "acc @ [(k, v)]"] Cons.prems kv update show ?case by simp
  qed simp
  from this [of "[]"] show "distinct (map fst m) \<Longrightarrow> dict_of m = m" by (simp add: dict_of_def)
qed


text \<open>Separators: the punctuation and white space after it.\<close>

definition separators :: "string \<Rightarrow> string \<Rightarrow> bool" where
  "separators isep ksep =
     (isep \<noteq> [] \<and> hd isep = CHR '','' \<and> list_all json_space (tl isep) \<and>
      ksep \<noteq> [] \<and> hd ksep = CHR '':'' \<and> list_all json_space (tl ksep))"

lemma separatorsE:
  assumes "separators isep ksep"
  obtains iw kw where "isep = CHR '','' # iw" "list_all json_space iw" "ksep = CHR '':'' # kw" "list_all json_space kw"
  using assms by (cases isep; cases ksep) (auto simp: separators_def)

text \<open>\<open>reads rf t v\<close>: with fuel for its length, the text is read as the value, whatever follows it.\<close>

definition reads :: "(string \<Rightarrow> rat) \<Rightarrow> string \<Rightarrow> json \<Rightarrow> bool" where
  "reads rf t v =
     (\<forall>n rest. json_stop rest \<longrightarrow> length t < n \<longrightarrow> scan_value rf n (t @ rest) = Some (v, rest))"

definition plain_head :: "string \<Rightarrow> bool" where
  "plain_head t = (t \<noteq> [] \<and> \<not> json_space (hd t) \<and> hd t \<notin> {CHR '']'', CHR ''}''})"

lemma join_with_Cons: "ys \<noteq> [] \<Longrightarrow> join_with sep (x # ys) = x @ sep @ join_with sep ys"
  by (cases ys) simp_all

lemma join_with_head: "x \<noteq> [] \<Longrightarrow> join_with sep (x # ys) \<noteq> [] \<and> hd (join_with sep (x # ys)) = hd x"
  by (cases ys) simp_all

lemma scan_items_join:
  assumes "separators isep ksep"
  shows "\<forall>x \<in> set (y # ys). reads rf (T x) x \<and> plain_head (T x) \<Longrightarrow>
    length (join_with isep (map T (y # ys))) + 1 < n \<Longrightarrow>
    scan_items rf n (join_with isep (map T (y # ys)) @ CHR '']'' # rest) = Some (y # ys, rest)"
proof (induction ys arbitrary: y n)
  case Nil
  then obtain m where n: "n = Suc m" "length (T y) < m" by (cases n) auto
  have "scan_value rf m (T y @ CHR '']'' # rest) = Some (y, CHR '']'' # rest)"
    using Nil.prems(1) n(2) by (simp add: reads_def json_stop_def)
  then show ?case by (simp add: n(1))
next
  case (Cons z zs)
  from assms obtain iw where isep: "isep = CHR '','' # iw" "list_all json_space iw" by (rule separatorsE)
  let ?tail = "join_with isep (map T (z # zs))"
  have joined: "join_with isep (map T (y # z # zs)) = T y @ isep @ ?tail" by simp
  from Cons.prems(2) obtain m where n: "n = Suc m" "length (T y) < m" "length ?tail + 1 < m"
    unfolding joined by (cases n) (auto simp: isep(1))
  have y: "scan_value rf m (T y @ isep @ ?tail @ CHR '']'' # rest) = Some (y, isep @ ?tail @ CHR '']'' # rest)"
    using Cons.prems(1) n(2) by (simp add: reads_def json_stop_def isep(1))
  have "plain_head ?tail" using Cons.prems(1) join_with_head [of "T z" isep "map T zs"]
    by (simp add: plain_head_def)
  then have skip: "skip_ws (iw @ ?tail @ CHR '']'' # rest) = ?tail @ CHR '']'' # rest"
    by (simp add: skip_ws_space [OF isep(2)] skip_ws_head plain_head_def)
  have "scan_items rf m (?tail @ CHR '']'' # rest) = Some (z # zs, rest)"
    by (rule Cons.IH) (use Cons.prems(1) n(3) in auto)
  with y skip show ?case unfolding joined n(1) by (simp add: isep(1))
qed

lemma scan_members_join:
  assumes "separators isep ksep"
  defines "M \<equiv> \<lambda>T (k, v). json_string k @ ksep @ T v"
  shows "\<forall>(k, v) \<in> set (y # ys). reads rf (T v) v \<and> plain_head (T v) \<Longrightarrow>
    length (join_with isep (map (M T) (y # ys))) + 1 < n \<Longrightarrow>
    scan_members rf n (join_with isep (map (M T) (y # ys)) @ CHR ''}'' # rest) = Some (y # ys, rest)"
proof (induction ys arbitrary: y n)
  case Nil
  from assms(1) obtain kw where ksep: "ksep = CHR '':'' # kw" "list_all json_space kw" by (rule separatorsE)
  obtain k v where y: "y = (k, v)" by fastforce
  from Nil.prems(2) y obtain m where n: "n = Suc m" "length (T v) < m"
    by (cases n) (auto simp: M_def json_string_cons ksep(1))
  have "scan_value rf m (T v @ CHR ''}'' # rest) = Some (v, CHR ''}'' # rest)"
    using Nil.prems(1) y n(2) by (simp add: reads_def json_stop_def)
  moreover have "skip_ws (kw @ T v @ CHR ''}'' # rest) = T v @ CHR ''}'' # rest"
    using Nil.prems(1) y by (simp add: skip_ws_space [OF ksep(2)] skip_ws_head plain_head_def)
  ultimately show ?case
    by (simp add: n(1) y M_def json_string_cons scan_string_json ksep(1))
next
  case (Cons z zs)
  from assms(1) obtain iw kw where isep: "isep = CHR '','' # iw" "list_all json_space iw"
    and ksep: "ksep = CHR '':'' # kw" "list_all json_space kw" by (rule separatorsE)
  obtain k v where y: "y = (k, v)" by fastforce
  let ?tail = "join_with isep (map (M T) (z # zs))"
  have joined: "join_with isep (map (M T) (y # z # zs)) = json_string k @ ksep @ T v @ isep @ ?tail"
    by (simp add: y M_def)
  from Cons.prems(2) obtain m where n: "n = Suc m" "length (T v) < m" "length ?tail + 1 < m"
    unfolding joined by (cases n) (auto simp: isep(1) json_string_cons)
  have v: "scan_value rf m (T v @ isep @ ?tail @ CHR ''}'' # rest) = Some (v, isep @ ?tail @ CHR ''}'' # rest)"
    using Cons.prems(1) y n(2) by (simp add: reads_def json_stop_def isep(1))
  have skip_v: "skip_ws (kw @ T v @ t) = T v @ t" for t
    using Cons.prems(1) y by (simp add: skip_ws_space [OF ksep(2)] skip_ws_head plain_head_def)
  obtain k' v' where z: "z = (k', v')" by fastforce
  have "hd ?tail = CHR 34 \<and> ?tail \<noteq> []"
    using join_with_head [of "M T z" isep "map (M T) zs"] by (simp add: z M_def json_string_cons)
  then have skip: "skip_ws (iw @ ?tail @ CHR ''}'' # rest) = ?tail @ CHR ''}'' # rest"
    by (simp add: skip_ws_space [OF isep(2)] skip_ws_head json_space_def)
  have "scan_members rf m (?tail @ CHR ''}'' # rest) = Some (z # zs, rest)"
    by (rule Cons.IH) (use Cons.prems(1) n(3) in auto)
  with v skip skip_v show ?case unfolding joined n(1)
    by (simp add: json_string_cons scan_string_json isep(1) ksep(1) y)
qed


theorem json_text_reads:
  assumes "separators isep ksep"
  shows "json_ok rf sf v \<Longrightarrow> reads rf (json_text sf isep ksep v) v"
proof (induction v)
  case JNull
  show ?case unfolding reads_def
  proof (intro allI impI)
    fix n rest
    assume "length (json_text sf isep ksep JNull) < n"
    then obtain m where "n = Suc m" by (cases n) auto
    then show "scan_value rf n (json_text sf isep ksep JNull @ rest) = Some (JNull, rest)"
      by (simp add: scan_atom_def scan_word_def first_some_def)
  qed
next
  case (JBool b)
  show ?case unfolding reads_def
  proof (intro allI impI)
    fix n rest
    assume "length (json_text sf isep ksep (JBool b)) < n"
    then obtain m where "n = Suc m" by (cases n) auto
    then show "scan_value rf n (json_text sf isep ksep (JBool b) @ rest) = Some (JBool b, rest)"
      by (simp add: scan_atom_def scan_word_def first_some_def)
  qed
next
  case (JInt i)
  show ?case unfolding reads_def
  proof (intro allI impI)
    fix n rest
    assume "json_stop rest" "length (json_text sf isep ksep (JInt i)) < n"
    moreover from this(2) obtain m where "n = Suc m" by (cases n) auto
    ultimately show "scan_value rf n (json_text sf isep ksep (JInt i) @ rest) = Some (JInt i, rest)"
      using scan_value_number [OF scan_number_int] by simp
  qed
next
  case (JNum q)
  show ?case unfolding reads_def
  proof (intro allI impI)
    fix n rest
    assume "json_stop rest" "length (json_text sf isep ksep (JNum q)) < n"
    moreover from this(2) obtain m where "n = Suc m" by (cases n) auto
    ultimately show "scan_value rf n (json_text sf isep ksep (JNum q) @ rest) = Some (JNum q, rest)"
      using scan_value_number [OF scan_number_append] JNum by (simp add: float_ok_def)
  qed
next
  case (JStr s)
  show ?case unfolding reads_def
  proof (intro allI impI)
    fix n rest
    assume "length (json_text sf isep ksep (JStr s)) < n"
    then obtain m where "n = Suc m" by (cases n) auto
    then show "scan_value rf n (json_text sf isep ksep (JStr s) @ rest) = Some (JStr s, rest)"
      by (simp add: json_string_cons scan_string_json)
  qed
next
  case (JList xs)
  let ?T = "json_text sf isep ksep"
  have xs: "\<forall>x \<in> set xs. reads rf (?T x) x \<and> plain_head (?T x)"
    using JList json_text_head [of rf sf _ isep ksep] by (simp add: list_all_iff plain_head_def)
  show ?case unfolding reads_def
  proof (intro allI impI)
    fix n rest
    assume len: "length (?T (JList xs)) < n"
    then obtain m where n: "n = Suc m" by (cases n) auto
    show "scan_value rf n (?T (JList xs) @ rest) = Some (JList xs, rest)"
    proof (cases xs)
      case Nil
      then show ?thesis by (simp add: n)
    next
      case (Cons y ys)
      let ?items = "join_with isep (map ?T (y # ys))"
      have ph: "plain_head (?T y)" using xs Cons by simp
      then have head: "?items \<noteq> []" "\<not> json_space (hd ?items)" "hd ?items \<noteq> CHR '']''"
        using join_with_head [of "?T y" isep "map ?T ys"] by (simp_all add: plain_head_def)
      have scan: "scan_items rf m (?items @ CHR '']'' # rest) = Some (y # ys, rest)"
        by (rule scan_items_join [OF assms]) (use xs Cons len n in auto)
      obtain c cs where c: "?items = c # cs" using head(1) by (cases ?items) auto
      have ws: "skip_ws (c # t) = c # t" for t using head(2) by (simp only: c) (simp add: skip_ws_def)
      have "?T (JList xs) @ rest = CHR ''['' # ?items @ CHR '']'' # rest" by (simp add: Cons)
      then show ?thesis using scan head(3) unfolding n Cons c by (simp add: ws)
    qed
  qed
next
  case (JObj m)
  let ?T = "json_text sf isep ksep"
  let ?M = "\<lambda>(k, v). json_string k @ ksep @ ?T v"
  have ms: "\<forall>(k, v) \<in> set m. reads rf (?T v) v \<and> plain_head (?T v)"
    using JObj json_text_head [of rf sf _ isep ksep] by (fastforce simp: list_all_iff plain_head_def)
  show ?case unfolding reads_def
  proof (intro allI impI)
    fix n rest
    assume len: "length (?T (JObj m)) < n"
    then obtain l where n: "n = Suc l" by (cases n) auto
    show "scan_value rf n (?T (JObj m) @ rest) = Some (JObj m, rest)"
    proof (cases m)
      case Nil
      then show ?thesis by (simp add: n)
    next
      case (Cons y ys)
      let ?items = "join_with isep (map ?M (y # ys))"
      have "?M y \<noteq> [] \<and> hd (?M y) = CHR 34" by (cases y) (simp add: json_string_cons)
      then have head: "?items \<noteq> []" "hd ?items = CHR 34"
        using join_with_head [of "?M y" isep "map ?M ys"] by simp_all
      have scan: "scan_members rf l (?items @ CHR ''}'' # rest) = Some (y # ys, rest)"
        by (rule scan_members_join [OF assms]) (use ms Cons len n in auto)
      obtain cs where c: "?items = CHR 34 # cs" using head by (cases ?items) auto
      have "?T (JObj m) @ rest = CHR ''{'' # ?items @ CHR ''}'' # rest" by (simp add: Cons)
      moreover have "dict_of (y # ys) = y # ys" using JObj.prems Cons by (intro dict_of_distinct) simp
      ultimately show ?thesis using scan unfolding n Cons c by simp
    qed
  qed
qed

lemma json_loads_text:
  assumes "separators isep ksep" and "json_ok rf sf v"
  shows "json_loads rf (json_text sf isep ksep v) = Some v"
proof -
  let ?t = "json_text sf isep ksep v"
  have "json_stop []" by (simp add: json_stop_def)
  then have "scan_value rf (Suc (2 * length ?t)) (?t @ []) = Some (v, [])"
    using json_text_reads [OF assms] unfolding reads_def by (simp del: scan_value.simps append_Nil2)
  moreover have "skip_ws (?t @ []) = ?t @ []"
    using json_text_head [OF assms(2)] by (intro skip_ws_head) auto
  ultimately show ?thesis by (simp add: json_loads_def)
qed


section \<open>The scanner consumes what it reads\<close>

lemma scan_string_consumes: "scan_string s = Some (t, r) \<Longrightarrow> length r < length s"
proof (induction s arbitrary: t r rule: length_induct)
  case (1 s)
  have IH: "length r' < length ys" if "scan_string ys = Some (t', r')" "length ys < length s" for ys t' r'
    using 1 that by blast
  from "1.prems" show ?case
    by (cases s) (auto split: if_splits list.splits option.splits dest!: IH)
qed

lemma skip_ws_le: "length (skip_ws s) \<le> length s"
  by (simp add: skip_ws_def length_dropWhile_le)

lemma skip_ws_Cons_le: "skip_ws s = c # r \<Longrightarrow> length r < length s"
  using skip_ws_le [of s] by simp

lemma scan_number_consumes: "scan_number rf s = Some (v, r) \<Longrightarrow> length r < length s"
  by (cases "scan_integer (drop (length (case s of c # _ \<Rightarrow> if c = CHR ''-'' then [c] else [] | [] \<Rightarrow> [])) s)")
     (auto simp: scan_number_def Let_def scan_integer_def split: if_splits list.splits)

lemma scan_word_consumes: "scan_word w v s = Some (x, r) \<Longrightarrow> w \<noteq> [] \<Longrightarrow> length r < length s"
  by (cases s) (auto simp: scan_word_def split: if_splits)

lemma scan_atom_consumes: "scan_atom rf s = Some (v, r) \<Longrightarrow> length r < length s"
  by (auto simp: scan_atom_def first_some_def split: option.splits
      dest: scan_number_consumes scan_word_consumes)

lemma scan_consumes_all:
  "(\<forall>s v r. scan_value rf n s = Some (v, r) \<longrightarrow> length r < length s) \<and>
   (\<forall>s vs r. scan_items rf n s = Some (vs, r) \<longrightarrow> length r < length s) \<and>
   (\<forall>s m r. scan_members rf n s = Some (m, r) \<longrightarrow> length r < length s)"
proof (induction n)
  case (Suc n)
  then have V: "\<And>s v r. scan_value rf n s = Some (v, r) \<Longrightarrow> length r < length s"
    and I: "\<And>s vs r. scan_items rf n s = Some (vs, r) \<Longrightarrow> length r < length s"
    and M: "\<And>s m r. scan_members rf n s = Some (m, r) \<Longrightarrow> length r < length s" by blast+
  have ws: "length r < length t" if "length r < length (skip_ws t)" for r t
    using that skip_ws_le [of t] by simp
  have "length r < length s" if "scan_value rf (Suc n) s = Some (v, r)" for s v r
    using that
    by (auto split: list.splits if_splits dest!: scan_string_consumes skip_ws_Cons_le scan_atom_consumes I M)
  moreover have "length r < length s" if "scan_items rf (Suc n) s = Some (vs, r)" for s vs r
    using that
    by (auto split: list.splits if_splits option.splits dest!: skip_ws_Cons_le V I ws)
  moreover have "length r < length s" if "scan_members rf (Suc n) s = Some (m, r)" for s m r
    using that
    by (auto split: list.splits if_splits option.splits dest!: scan_string_consumes skip_ws_Cons_le V M ws)
  ultimately show ?case by blast
qed simp


text \<open>With fuel beyond twice the length of the text, more fuel changes nothing.\<close>

lemma scan_fuel_step:
  "(\<forall>s. 2 * length s < n \<longrightarrow> scan_value rf (Suc n) s = scan_value rf n s) \<and>
   (\<forall>s. 2 * length s + 1 < n \<longrightarrow> scan_items rf (Suc n) s = scan_items rf n s) \<and>
   (\<forall>s. 2 * length s < n \<longrightarrow> scan_members rf (Suc n) s = scan_members rf n s)"
proof (induction n)
  case (Suc n)
  then have V: "\<And>s. 2 * length s < n \<Longrightarrow> scan_value rf (Suc n) s = scan_value rf n s"
    and I: "\<And>s. 2 * length s + 1 < n \<Longrightarrow> scan_items rf (Suc n) s = scan_items rf n s"
    and M: "\<And>s. 2 * length s < n \<Longrightarrow> scan_members rf (Suc n) s = scan_members rf n s" by blast+
  note C = scan_consumes_all [of rf n]
  have "scan_value rf (Suc (Suc n)) s = scan_value rf (Suc n) s" if "2 * length s < Suc n" for s
  proof (cases s)
    case (Cons c cs)
    have "scan_items rf (Suc n) (d # r) = scan_items rf n (d # r)"
      "scan_members rf (Suc n) (d # r) = scan_members rf n (d # r)" if "skip_ws cs = d # r" for d r
      using that skip_ws_le [of cs] \<open>2 * length s < Suc n\<close> Cons by (intro I M; simp)+
    then show ?thesis unfolding scan_value.simps Cons by (auto split: list.split)
  qed simp
  moreover have "scan_items rf (Suc (Suc n)) s = scan_items rf (Suc n) s" if "2 * length s + 1 < Suc n" for s
  proof (cases "scan_value rf n s")
    case None
    with V [of s] that show ?thesis unfolding scan_items.simps by simp
  next
    case (Some vr)
    obtain v r where vr: "vr = (v, r)" by fastforce
    from C Some vr have len: "length r < length s" by blast
    have "scan_items rf (Suc n) (skip_ws r') = scan_items rf n (skip_ws r')" if "skip_ws r = d # r'" for d r'
      using skip_ws_Cons_le [OF that] skip_ws_le [of r'] len \<open>2 * length s + 1 < Suc n\<close> by (intro I) simp
    with V [of s] that Some vr show ?thesis unfolding scan_items.simps(2) by (auto split: list.split)
  qed
  moreover have "scan_members rf (Suc (Suc n)) s = scan_members rf (Suc n) s" if "2 * length s < Suc n" for s
  proof (cases s)
    case (Cons q cs)
    have "scan_value rf (Suc n) (skip_ws r1) = scan_value rf n (skip_ws r1)"
      if "scan_string cs = Some (k, r)" "skip_ws r = d # r1" for k r d r1
      using scan_string_consumes [OF that(1)] skip_ws_Cons_le [OF that(2)] skip_ws_le [of r1]
        \<open>2 * length s < Suc n\<close> Cons by (intro V) simp
    moreover have "scan_members rf (Suc n) (skip_ws r3) = scan_members rf n (skip_ws r3)"
      if "scan_string cs = Some (k, r)" "skip_ws r = d # r1" "scan_value rf n (skip_ws r1) = Some (v, r2)"
        "skip_ws r2 = e # r3" for k r d r1 v r2 e r3
    proof -
      from C that(3) have "length r2 < length (skip_ws r1)" by blast
      with scan_string_consumes [OF that(1)] skip_ws_Cons_le [OF that(2)] skip_ws_le [of r1]
        skip_ws_Cons_le [OF that(4)] skip_ws_le [of r3] \<open>2 * length s < Suc n\<close> Cons
      show ?thesis by (intro M) simp
    qed
    ultimately show ?thesis unfolding scan_members.simps Cons
      by (auto split: list.split option.split)
  qed simp
  ultimately show ?case by blast
qed simp

lemma scan_value_fuel:
  "2 * length s < n \<Longrightarrow> n \<le> m \<Longrightarrow> scan_value rf m s = scan_value rf n s"
proof (induction m)
  case (Suc m)
  then show ?case using scan_fuel_step [of m rf] by (cases "n \<le> m") (auto simp: le_Suc_eq)
qed simp

text \<open>So the fuel of \<open>json_loads\<close> is never what refuses a text.\<close>

lemma json_loads_fuel:
  assumes "2 * length s < n"
  shows "json_loads rf s =
    (case scan_value rf n (skip_ws s) of
       None \<Rightarrow> None
     | Some (v, r) \<Rightarrow> if skip_ws r = [] then Some v else None)"
proof -
  have "2 * length (skip_ws s) < Suc (2 * length s)" using skip_ws_le [of s] by simp
  from scan_value_fuel [OF this, of n rf] assms show ?thesis by (simp add: json_loads_def)
qed

section \<open>What is written is printable\<close>

definition printable :: "char \<Rightarrow> bool" where
  "printable c = (32 \<le> py_ord c \<and> py_ord c \<le> 126)"

lemma hex_digit_printable: "n < 16 \<Longrightarrow> printable (hex_digit n)"
  by (simp add: printable_def hex_digit_def)

lemma json_char_printable: "list_all printable (json_char c)"
proof -
  have "py_ord c div 16 < 16" by (rule less_mult_imp_div_less) simp
  then show ?thesis
    by (simp add: json_char_def Let_def hex_digit_printable) (simp add: printable_def)
qed

lemma json_string_printable: "list_all printable (json_string s)"
  unfolding json_string_def by (induction s) (simp_all add: json_char_printable, simp_all add: printable_def)

lemma nat_digits_printable: "list_all printable (nat_digits n)"
proof -
  have "list_all is_digit (nat_digits n)" using nat_digits_read [of n] by blast
  then show ?thesis by (auto simp: list_all_iff is_digit_def printable_def)
qed

lemma py_int_printable: "list_all printable (py_int i)"
  by (auto simp: py_int_def nat_digits_printable) (simp add: printable_def)

lemma join_with_all: "list_all p sep \<Longrightarrow> list_all (list_all p) xs \<Longrightarrow> list_all p (join_with sep xs)"
  by (induction sep xs rule: join_with.induct) auto

text \<open>The floats of a value are written in printable text.\<close>

fun floats_printable :: "(rat \<Rightarrow> string) \<Rightarrow> json \<Rightarrow> bool" where
  "floats_printable sf (JNum q) = list_all printable (sf q)"
| "floats_printable sf (JList xs) = list_all (floats_printable sf) xs"
| "floats_printable sf (JObj m) = list_all (\<lambda>(k, v). floats_printable sf v) m"
| "floats_printable sf _ = True"

lemma json_text_printable:
  assumes "list_all printable isep" "list_all printable ksep"
  shows "floats_printable sf v \<Longrightarrow> list_all printable (json_text sf isep ksep v)"
proof (induction v)
  case (JList xs)
  then have "list_all (list_all printable) (map (json_text sf isep ksep) xs)"
    by (simp add: list_all_iff)
  from join_with_all [OF assms(1) this] show ?case by simp (simp add: printable_def)
next
  case (JObj m)
  then have "list_all (list_all printable) (map (\<lambda>(k, v). json_string k @ ksep @ json_text sf isep ksep v) m)"
    using json_string_printable assms(2) by (fastforce simp: list_all_iff)
  from join_with_all [OF assms(1) this] show ?case by simp (simp add: printable_def)
qed (simp_all add: json_string_printable py_int_printable, simp_all add: printable_def)


lemma scan_prefix:
  "scan_integer s @ drop (length (scan_integer s)) s = s"
  "scan_fraction s @ drop (length (scan_fraction s)) s = s"
  "scan_exponent s @ drop (length (scan_exponent s)) s = s"
proof -
  have tw: "takeWhile is_digit t @ drop (length (takeWhile is_digit t)) t = t" for t
    by (metis takeWhile_eq_take append_take_drop_id length_takeWhile_le min.absorb2 length_take)
  show "scan_integer s @ drop (length (scan_integer s)) s = s"
    using tw [of s] by (cases s) (simp_all add: scan_integer_def del: takeWhile.simps)
  show "scan_fraction s @ drop (length (scan_fraction s)) s = s"
    using tw by (auto simp: scan_fraction_def split: list.splits)
  show "scan_exponent s @ drop (length (scan_exponent s)) s = s"
    using tw by (auto simp: scan_exponent_def Let_def split: list.splits)
qed

lemma digits_printable: "list_all printable (takeWhile is_digit s)"
proof -
  have "c \<in> set (takeWhile is_digit s) \<Longrightarrow> printable c" for c
    by (drule set_takeWhileD) (simp add: is_digit_def printable_def)
  then show ?thesis by (simp add: list_all_iff)
qed

lemma scan_parts_printable:
  "list_all printable (scan_integer s)" "list_all printable (scan_fraction s)" "list_all printable (scan_exponent s)"
proof -
  have d: "is_digit c \<Longrightarrow> printable c" for c by (simp add: is_digit_def printable_def)
  show "list_all printable (scan_integer s)"
    using digits_printable [of s] by (simp add: scan_integer_def split: list.splits) (simp add: printable_def)
  show "list_all printable (scan_fraction s)"
    using digits_printable d by (auto simp: scan_fraction_def split: list.splits) (simp add: printable_def)
  show "list_all printable (scan_exponent s)"
    using digits_printable by (auto simp: scan_exponent_def Let_def split: list.splits) (simp_all add: printable_def)
qed

lemma scan_number_printable:
  assumes "scan_number rf s = Some (v, [])"
  shows "list_all printable s"
proof -
  let ?m = "case s of c # _ \<Rightarrow> if c = CHR ''-'' then [c] else [] | [] \<Rightarrow> []"
  let ?s1 = "drop (length ?m) s"
  let ?s2 = "drop (length (scan_integer ?s1)) ?s1"
  let ?s3 = "drop (length (scan_fraction ?s2)) ?s2"
  from assms have fin: "drop (length (scan_exponent ?s3)) ?s3 = []"
    by (auto simp: scan_number_def Let_def split: if_splits)
  have glue: "a @ b @ c = t" if "a @ d1 = t" "b @ d2 = d1" "c @ d3 = d2" "d3 = []"
    for a b c d1 d2 d3 t :: string using that by auto
  have "?m @ ?s1 = s" by (cases s) auto
  then have eq: "?m @ scan_integer ?s1 @ scan_fraction ?s2 @ scan_exponent ?s3 = s"
    unfolding glue [OF scan_prefix(1) scan_prefix(2) scan_prefix(3) fin] .
  have "list_all printable ?m" by (cases s) (auto simp: printable_def)
  then have "list_all printable (?m @ scan_integer ?s1 @ scan_fraction ?s2 @ scan_exponent ?s3)"
    unfolding list_all_append by (intro conjI scan_parts_printable)
  then show ?thesis unfolding eq .
qed

lemma json_ok_printable: "json_ok rf sf v \<Longrightarrow> floats_printable sf v"
proof (induction v)
  case (JNum q)
  then show ?case using scan_number_printable [of rf "sf q"] by (simp add: float_ok_def)
next
  case (JList xs)
  then show ?case by (simp add: list_all_iff)
next
  case (JObj m)
  then show ?case by (fastforce simp: list_all_iff)
qed simp_all

text \<open>Two values that are written alike are the same.\<close>

lemma json_text_inject:
  assumes "separators isep ksep" and "json_ok rf sf v" and "json_ok rf sf w"
    and "json_text sf isep ksep v = json_text sf isep ksep w"
  shows "v = w"
proof -
  have "Some v = json_loads rf (json_text sf isep ksep w)"
    unfolding assms(4) [symmetric] by (rule json_loads_text [OF assms(1,2), symmetric])
  also have "\<dots> = Some w" by (rule json_loads_text [OF assms(1,3)])
  finally show ?thesis by simp
qed


section \<open>Values that were read, and sorted ones\<close>

text \<open>The codec writes every float it reads as a number that it reads as that float.\<close>

definition floats_read_back :: "codec \<Rightarrow> bool" where
  "floats_read_back cx = (\<forall>t. float_ok (float_read cx) (float_show cx) (float_read cx t))"

lemma dict_of_ok:
  assumes "list_all (\<lambda>(k, v). P v) m"
  shows "distinct (map fst (dict_of m)) \<and> list_all (\<lambda>(k, v). P v) (dict_of m)"
proof -
  have upd: "list_all (\<lambda>(k, v). P v) (AList.update k v acc)" if "list_all (\<lambda>(k, v). P v) acc" "P v"
    for k :: string and v and acc
    using that by (induction acc) auto
  have "distinct (map fst acc) \<Longrightarrow> list_all (\<lambda>(k, v). P v) acc \<Longrightarrow> list_all (\<lambda>(k, v). P v) m \<Longrightarrow>
      distinct (map fst (fold (\<lambda>(k, v). AList.update k v) m acc)) \<and>
      list_all (\<lambda>(k, v). P v) (fold (\<lambda>(k, v). AList.update k v) m acc)" for acc
  proof (induction m arbitrary: acc)
    case (Cons kv m)
    obtain k v where kv: "kv = (k, v)" by fastforce
    have "distinct (map fst (AList.update k v acc))" using Cons.prems(1) by (rule distinct_update)
    moreover have "list_all (\<lambda>(k, v). P v) (AList.update k v acc)" using Cons.prems(2,3) kv by (simp add: upd)
    ultimately show ?case using Cons.IH [of "AList.update k v acc"] Cons.prems(3) kv by simp
  qed simp
  from this [of "[]"] assms show ?thesis by (simp add: dict_of_def)
qed

lemma scan_word_value: "scan_word w x s = Some (v, r) \<Longrightarrow> v = x"
  by (simp add: scan_word_def split: if_splits)

lemma scan_number_value: "scan_number rf s = Some (v, r) \<Longrightarrow> (\<exists>i. v = JInt i) \<or> (\<exists>t. v = JNum (rf t))"
  by (simp add: scan_number_def Let_def split: if_split_asm) blast+

lemma scan_atom_ok:
  assumes "\<And>t. float_ok rf sf (rf t)" and "scan_atom rf s = Some (v, r)"
  shows "json_ok rf sf v"
  using assms(2) unfolding scan_atom_def first_some_def
  by (auto simp: assms(1) split: option.split_asm dest!: scan_word_value scan_number_value)

lemma scan_ok_all:
  assumes "\<And>t. float_ok rf sf (rf t)"
  shows "(\<forall>s v r. scan_value rf n s = Some (v, r) \<longrightarrow> json_ok rf sf v) \<and>
   (\<forall>s vs r. scan_items rf n s = Some (vs, r) \<longrightarrow> list_all (json_ok rf sf) vs) \<and>
   (\<forall>s m r. scan_members rf n s = Some (m, r) \<longrightarrow> list_all (\<lambda>(k, v). json_ok rf sf v) m)"
proof (induction n)
  case (Suc n)
  then have V: "\<And>s v r. scan_value rf n s = Some (v, r) \<Longrightarrow> json_ok rf sf v"
    and I: "\<And>s vs r. scan_items rf n s = Some (vs, r) \<Longrightarrow> list_all (json_ok rf sf) vs"
    and M: "\<And>s m r. scan_members rf n s = Some (m, r) \<Longrightarrow> list_all (\<lambda>(k, v). json_ok rf sf v) m" by blast+
  have D: "distinct (map fst (dict_of m)) \<and> list_all (\<lambda>(k, v). json_ok rf sf v) (dict_of m)"
    if "scan_members rf n s = Some (m, r)" for s m r
    by (rule dict_of_ok) (rule M [OF that])
  have "json_ok rf sf v" if "scan_value rf (Suc n) s = Some (v, r)" for s v r
    using that
    by (auto split: list.splits if_splits dest!: I D dest: scan_atom_ok [OF assms])
  moreover have "list_all (json_ok rf sf) vs" if "scan_items rf (Suc n) s = Some (vs, r)" for s vs r
    using that by (auto split: list.splits if_splits option.splits dest!: V I)
  moreover have "list_all (\<lambda>(k, v). json_ok rf sf v) m" if "scan_members rf (Suc n) s = Some (m, r)" for s m r
    using that by (auto split: list.splits if_splits option.splits dest!: V M)
  ultimately show ?case by blast
qed simp

lemma json_loads_ok:
  assumes "floats_read_back cx" and "json_loads (float_read cx) t = Some v"
  shows "json_ok (float_read cx) (float_show cx) v"
proof -
  from assms(2) obtain n s r where "scan_value (float_read cx) n s = Some (v, r)"
    by (auto simp del: scan_value.simps simp: json_loads_def Let_def split: option.splits if_splits)
  with scan_ok_all [of "float_read cx" "float_show cx" n] assms(1) show ?thesis
    unfolding floats_read_back_def by blast
qed

lemma distinct_keys_sort: "distinct (map fst m) \<Longrightarrow> distinct (map fst (sort_key fst (m :: (string \<times> 'a) list)))"
  by (simp add: distinct_map)

lemma map_of_sort_key:
  assumes "distinct (map fst m)"
  shows "map_of (sort_key fst m) = map_of (m :: (string \<times> 'a) list)"
proof
  fix k
  show "map_of (sort_key fst m) k = map_of m k"
  proof (cases "map_of m k")
    case None
    then have "k \<notin> fst ` set (sort_key fst m)" by (simp add: map_of_eq_None_iff)
    then show ?thesis unfolding None map_of_eq_None_iff .
  next
    case (Some v)
    then have "(k, v) \<in> set (sort_key fst m)" by (simp add: map_of_SomeD)
    then show ?thesis unfolding Some by (rule map_of_is_SomeI [OF distinct_keys_sort [OF assms]])
  qed
qed

definition sort_members :: "(string \<times> json) list \<Rightarrow> (string \<times> json) list" where
  "sort_members m = sort_key fst (map (\<lambda>(k, v). (k, sort_json v)) m)"

lemma sort_json_obj [simp]: "sort_json (JObj m) = JObj (sort_members m)"
  by (simp add: sort_members_def)

lemma sort_json_keys: "map fst (map (\<lambda>(k, v). (k, sort_json v)) m) = map fst m"
  by (induction m) auto

lemma map_of_sort_members:
  assumes "distinct (map fst m)"
  shows "map_of (sort_members m) k = map_option sort_json (map_of m k)"
proof -
  have "map_of (sort_members m) = map_of (map (\<lambda>(k, v). (k, sort_json v)) m)"
    unfolding sort_members_def by (rule map_of_sort_key) (simp only: sort_json_keys assms)
  then show ?thesis by (simp add: map_of_map)
qed

lemma sort_json_ok: "json_ok rf sf v \<Longrightarrow> json_ok rf sf (sort_json v)"
proof (induction v rule: sort_json.induct)
  case (1 xs)
  then show ?case by (auto simp: list_all_iff)
next
  case (2 m)
  have "distinct (map fst (sort_key fst (map (\<lambda>(k, v). (k, sort_json v)) m)))"
    by (rule distinct_keys_sort) (use "2.prems" in \<open>simp add: sort_json_keys del: map_map\<close>)
  moreover have "json_ok rf sf (sort_json v)" if "(k, v) \<in> set m" for k v
    using "2.IH" [OF that] "2.prems" that by (auto simp: list_all_iff)
  ultimately show ?case by (auto simp: list_all_iff sort_members_def)
qed simp_all

end
