(* ===== verification/Inbox.thy ===== *)
theory Inbox
  imports Dispatch_Lifecycle Json_Text Interfaces
begin

text \<open>
  \<^verbatim>\<open>scripts/lib/inbound_inbox.py\<close>: inbound events are persisted in \<^verbatim>\<open>inbound_inbox\<close>, deduplicated
  by channel and key, and translated into dispatches.

  A row holds the decoded payload, routing hints and metadata, so \<^verbatim>\<open>InboxEvent.from_row\<close> is the
  row itself. Four renderings of the libraries are parameters (\<open>libs\<close>): the text of a float in
  JSON and in a TEXT column, the message of a value SQLite cannot bind, and SHA-256.

  Theorems: the deduplication key stays unique and a repeated event is answered with the stored
  one, and a successful translation queues exactly one dispatch and links it.
\<close>

section \<open>Constants and validation\<close>

definition INBOX_STATES :: "string list" where
  "INBOX_STATES = [''received'', ''processing'', ''dispatched'', ''rejected'', ''dead_letter'']"

definition INBOX_TRANSITIONS :: "(string \<times> string list) list" where
  "INBOX_TRANSITIONS =
     [(''received'', [''processing'', ''rejected'']),
      (''processing'', [''dispatched'', ''received'', ''dead_letter'']),
      (''dispatched'', []),
      (''rejected'', []),
      (''dead_letter'', [])]"

definition INBOX_TERMINAL :: "string list" where
  "INBOX_TERMINAL = [''dispatched'', ''rejected'', ''dead_letter'']"

definition validate_inbox_transition :: "string \<Rightarrow> string \<Rightarrow> exn + unit" where
  "validate_inbox_transition from_state to_state =
     bindE (guardE (from_state \<in> set INBOX_STATES) (InvalidInboxStateError from_state)) (\<lambda>_.
     bindE (guardE (to_state \<in> set INBOX_STATES) (InvalidInboxStateError to_state)) (\<lambda>_.
     guardE (to_state \<in> set (allowed_from INBOX_TRANSITIONS from_state))
       (InvalidInboxTransitionError from_state to_state)))"

definition inbox_is_terminal :: "inbox_row \<Rightarrow> bool" where
  "inbox_is_terminal n = (n_state n \<in> set INBOX_TERMINAL)"

definition retries_remaining :: "inbox_row \<Rightarrow> int" where
  "retries_remaining n = max 0 (n_max_retries n - n_attempt_count n)"

record receive_result =
  rc_event :: inbox_row
  rc_already_existed :: bool

record process_result =
  pr_event_id :: string
  pr_outcome :: string
  pr_dispatch_id :: "string option"
  pr_failure_reason :: "string option"

section \<open>JSON text and the deduplication key\<close>

record libs =
  float_repr :: "rat \<Rightarrow> string"
  sql_real :: "rat \<Rightarrow> string"
  bind_error :: "json \<Rightarrow> string"
  sha256_hex :: "string \<Rightarrow> string"

definition json_dumps :: "libs \<Rightarrow> json \<Rightarrow> string" where
  "json_dumps lib j = json_text (float_repr lib) '', '' '': '' j"

definition generate_dedupe_key :: "libs \<Rightarrow> string \<Rightarrow> (string \<times> json) list \<Rightarrow> string" where
  "generate_dedupe_key lib channel_id payload =
     take 32 (sha256_hex lib (json_dumps lib
       (sort_json (JObj [(''channel_id'', JStr channel_id), (''payload'', JObj payload)]))))"

section \<open>Rows and events\<close>

definition event_at :: "store \<Rightarrow> string \<Rightarrow> inbox_row option" where
  "event_at s event_id = find (\<lambda>n. n_id n = event_id) (inbox s)"

definition event_by_key :: "store \<Rightarrow> string \<Rightarrow> string \<Rightarrow> inbox_row option" where
  "event_by_key s channel_id dedupe_key =
     find (\<lambda>n. n_channel n = channel_id \<and> n_dedupe_key n = dedupe_key) (inbox s)"

definition update_event :: "string \<Rightarrow> (inbox_row \<Rightarrow> inbox_row) \<Rightarrow> store \<Rightarrow> store" where
  "update_event event_id f s = s\<lparr>inbox := update_where (\<lambda>n. n_id n = event_id) f (inbox s)\<rparr>"

text \<open>\<^verbatim>\<open>_emit_event\<close> swallows any exception: an event that cannot be written is dropped.\<close>

definition emit_event ::
  "string \<Rightarrow> string \<Rightarrow> string option \<Rightarrow> string option \<Rightarrow> string option \<Rightarrow> string \<Rightarrow>
   (string \<times> json) list option \<Rightarrow> store \<Rightarrow> store" where
  "emit_event event_type event_id from_state to_state reason actor metadata s =
     (case append_event event_type ''inbox_event'' event_id from_state to_state actor reason metadata None s of
        Inl e \<Rightarrow> s | Inr s' \<Rightarrow> s')"

definition insert_inbox_row :: "inbox_row \<Rightarrow> store \<Rightarrow> exn + store" where
  "insert_inbox_row row s =
     bindE (project_id_stamp s ''inbound_inbox'') (\<lambda>stamp.
     bindE (guardE (event_at s (n_id row) = None)
              (IntegrityError ''UNIQUE constraint failed: inbound_inbox.event_id'')) (\<lambda>_.
     bindE (guardE (event_by_key s (n_channel row) (n_dedupe_key row) = None)
              (IntegrityError ''UNIQUE constraint failed: inbound_inbox.channel_id, inbound_inbox.dedupe_key'')) (\<lambda>_.
     Inr (s\<lparr>inbox := inbox s @ [row\<lparr>n_project := stamp\<rparr>]\<rparr>))))"

fun is_integrity_error :: "exn \<Rightarrow> bool" where
  "is_integrity_error (IntegrityError _) = True"
| "is_integrity_error _ = False"

section \<open>Receiving\<close>

definition dict_or_empty :: "(string \<times> json) list option \<Rightarrow> (string \<times> json) list" where
  "dict_or_empty m = (case m of None \<Rightarrow> [] | Some m \<Rightarrow> m)"

text \<open>The default of \<^verbatim>\<open>received_at\<close> is SQLite's \<^verbatim>\<open>%f\<close>, which keeps milliseconds.\<close>

definition sqlite_now :: "store \<Rightarrow> int" where
  "sqlite_now s = clock s div 1000 * 1000"

definition inbox_receive ::
  "libs \<Rightarrow> string \<Rightarrow> (string \<times> json) list \<Rightarrow> string option \<Rightarrow> (string \<times> json) list option \<Rightarrow> int \<Rightarrow>
   (string \<times> json) list option \<Rightarrow> string \<Rightarrow> store \<Rightarrow> (exn + receive_result) \<times> store" where
  "inbox_receive lib channel_id payload dedupe_key routing_hints max_retries metadata actor s =
     commit s
       (let key = (case dedupe_key of None \<Rightarrow> generate_dedupe_key lib channel_id payload | Some k \<Rightarrow> k);
            event_id = new_uuid s;
            s0 = s\<lparr>uuid_next := Suc (uuid_next s)\<rparr>
        in case event_by_key s0 channel_id key of
             Some existing \<Rightarrow>
               Inr (\<lparr>rc_event = existing, rc_already_existed = True\<rparr>,
                    emit_event ''inbox_dedupe_hit'' (n_id existing) None None
                      (Some (''Duplicate event for channel='' @ py_repr channel_id @ '' dedupe_key='' @ py_repr key))
                      actor (Some [(''channel_id'', JStr channel_id), (''dedupe_key'', JStr key)]) s0)
           | None \<Rightarrow>
               let row = \<lparr>n_id = event_id, n_channel = channel_id, n_dedupe_key = key, n_state = ''received'',
                          n_payload = payload, n_hints = dict_or_empty routing_hints, n_dispatch = None,
                          n_attempt_count = 0, n_max_retries = max_retries, n_failure_reason = None,
                          n_received_at = sqlite_now s, n_processed_at = None,
                          n_metadata = dict_or_empty metadata, n_project = None\<rparr>
               in case insert_inbox_row row s0 of
                    Inl e \<Rightarrow>
                      (if is_integrity_error e then
                         (case event_by_key s0 channel_id key of
                            Some existing \<Rightarrow> Inr (\<lparr>rc_event = existing, rc_already_existed = True\<rparr>, s0)
                          | None \<Rightarrow> Inl e)
                       else Inl e)
                  | Inr s1 \<Rightarrow>
                      let s2 = emit_event ''inbox_event_received'' event_id None (Some ''received'')
                                 (Some (''Event received from channel='' @ py_repr channel_id)) actor
                                 (Some [(''channel_id'', JStr channel_id), (''dedupe_key'', JStr key),
                                        (''payload_size'', JInt (int (length (json_dumps lib (JObj payload)))))]) s1
                      in bindE (fetch_dict (event_at s2 event_id))
                           (\<lambda>r. Inr (\<lparr>rc_event = r, rc_already_existed = False\<rparr>, s2)))"

section \<open>Leaving the inbox\<close>

definition inbox_transition :: "string \<Rightarrow> string \<Rightarrow> string \<Rightarrow> string \<Rightarrow> string option \<Rightarrow> store \<Rightarrow> exn + store" where
  "inbox_transition event_id from_state to_state actor reason s =
     bindE (validate_inbox_transition from_state to_state) (\<lambda>_.
     Inr (emit_event (''inbox_event_'' @ to_state) event_id (Some from_state) (Some to_state)
            (Some (or_else reason (''transition '' @ from_state @ '' -> '' @ to_state))) actor None
            (update_event event_id
               (\<lambda>n. if to_state \<in> set INBOX_TERMINAL
                    then n\<lparr>n_state := to_state, n_processed_at := Some (clock s)\<rparr>
                    else n\<lparr>n_state := to_state\<rparr>) s)))"

definition reject_event :: "string \<Rightarrow> string \<Rightarrow> string \<Rightarrow> store \<Rightarrow> process_result \<times> store" where
  "reject_event event_id reason actor s =
     (\<lparr>pr_event_id = event_id, pr_outcome = ''rejected'', pr_dispatch_id = None,
       pr_failure_reason = Some reason\<rparr>,
      emit_event ''inbox_event_rejected'' event_id None (Some ''rejected'') (Some reason) actor None
        (update_event event_id
           (\<lambda>n. n\<lparr>n_state := ''rejected'', n_failure_reason := Some reason, n_processed_at := Some (clock s)\<rparr>) s))"

definition dead_letter_event :: "string \<Rightarrow> string \<Rightarrow> string \<Rightarrow> store \<Rightarrow> process_result \<times> store" where
  "dead_letter_event event_id reason actor s =
     (\<lparr>pr_event_id = event_id, pr_outcome = ''dead_letter'', pr_dispatch_id = None,
       pr_failure_reason = Some reason\<rparr>,
      emit_event ''inbox_event_dead_letter'' event_id None (Some ''dead_letter'') (Some reason) actor
        (Some [(''escalation'', JStr ''T0'')])
        (update_event event_id
           (\<lambda>n. n\<lparr>n_state := ''dead_letter'', n_failure_reason := Some reason, n_processed_at := Some (clock s)\<rparr>) s))"

definition handle_processing_failure ::
  "string \<Rightarrow> inbox_row \<Rightarrow> string \<Rightarrow> string \<Rightarrow> store \<Rightarrow> process_result \<times> store" where
  "handle_processing_failure event_id event error_msg actor s =
     (if n_max_retries event \<le> n_attempt_count event then
        dead_letter_event event_id
          (''Processing failed after '' @ py_int (n_attempt_count event) @ '' attempts: '' @ error_msg) actor s
      else
        (\<lparr>pr_event_id = event_id, pr_outcome = ''retry'', pr_dispatch_id = None,
          pr_failure_reason = Some error_msg\<rparr>,
         emit_event ''inbox_event_retry'' event_id (Some ''processing'') (Some ''received'')
           (Some (''Processing failed, will retry: '' @ error_msg)) actor
           (Some [(''attempt_count'', JInt (n_attempt_count event)), (''max_retries'', JInt (n_max_retries event))])
           (update_event event_id (\<lambda>n. n\<lparr>n_state := ''received'', n_failure_reason := Some error_msg\<rparr>) s)))"

section \<open>Translation into a dispatch\<close>

definition validate_payload :: "inbox_row \<Rightarrow> string option" where
  "validate_payload n =
     (if n_payload n = [] then Some ''Empty payload''
      else if n_channel n = [] then Some ''Missing channel_id''
      else None)"

definition dict_get :: "(string \<times> json) list \<Rightarrow> string \<Rightarrow> json \<Rightarrow> json" where
  "dict_get m k d = (case map_of m k of None \<Rightarrow> d | Some v \<Rightarrow> v)"

record dispatch_params =
  p_task_class :: json
  p_terminal_id :: json
  p_track :: json
  p_priority :: json
  p_pr_ref :: json
  p_gate :: json

definition extract_dispatch_params :: "inbox_row \<Rightarrow> dispatch_params" where
  "extract_dispatch_params n =
     (let hints = n_hints n; payload = n_payload n in
      \<lparr>p_task_class = dict_get hints ''task_class'' (JStr ''channel_response''),
       p_terminal_id = dict_get hints ''terminal_id'' JNull,
       p_track = dict_get hints ''track'' JNull,
       p_priority = dict_get hints ''priority'' (dict_get payload ''priority'' (JStr ''P2'')),
       p_pr_ref = dict_get hints ''pr_ref'' (dict_get payload ''pr_ref'' JNull),
       p_gate = dict_get hints ''gate'' (dict_get payload ''gate'' JNull)\<rparr>)"

text \<open>
  \<^verbatim>\<open>datetime.strftime("%Y%m%d-%H%M%S")\<close> of the clock: the proleptic Gregorian date of a day
  count, and fields padded with zeros.
\<close>

definition civil_from_days :: "int \<Rightarrow> int \<times> int \<times> int" where
  "civil_from_days days =
     (let z = days + 719468;
          era = z div 146097;
          doe = z mod 146097;
          yoe = (doe - doe div 1460 + doe div 36524 - doe div 146096) div 365;
          doy = doe - (365 * yoe + yoe div 4 - yoe div 100);
          mp = (5 * doy + 2) div 153;
          d = doy - (153 * mp + 2) div 5 + 1;
          m = (if mp < 10 then mp + 3 else mp - 9);
          y = yoe + era * 400 + (if m \<le> 2 then 1 else 0)
      in (y, m, d))"

definition pad :: "nat \<Rightarrow> int \<Rightarrow> string" where
  "pad width n = (let digits = py_int n in replicate (width - length digits) (CHR ''0'') @ digits)"

definition strftime_compact :: "int \<Rightarrow> string" where
  "strftime_compact micros =
     (let secs = micros div sec;
          (y, m, d) = civil_from_days (secs div 86400);
          r = secs mod 86400
      in pad 4 y @ pad 2 m @ pad 2 d @ ''-'' @ pad 2 (r div 3600) @ pad 2 (r mod 3600 div 60) @ pad 2 (r mod 60))"

definition generate_dispatch_id :: "store \<Rightarrow> inbox_row \<Rightarrow> string" where
  "generate_dispatch_id s n =
     (let short_channel = map (\<lambda>c. if c = CHR ''/'' \<or> c = CHR '' '' then CHR ''-'' else c) (take 20 (n_channel n))
      in strftime_compact (clock s) @ ''-ch-'' @ short_channel @ ''-'' @ take 8 (n_id n))"

text \<open>A JSON value bound to a TEXT column: lists, dictionaries and integers beyond 64 bits are refused.\<close>

fun bind_text :: "libs \<Rightarrow> json \<Rightarrow> exn + string option" where
  "bind_text lib JNull = Inr None"
| "bind_text lib (JBool b) = Inr (Some (if b then ''1'' else ''0''))"
| "bind_text lib (JInt i) =
     (if - (2 ^ 63) \<le> i \<and> i < 2 ^ 63 then Inr (Some (py_int i)) else Inl (BindingError (bind_error lib (JInt i))))"
| "bind_text lib (JNum q) = Inr (Some (sql_real lib q))"
| "bind_text lib (JStr s) = Inr (Some s)"
| "bind_text lib (JList xs) = Inl (BindingError (bind_error lib (JList xs)))"
| "bind_text lib (JObj m) = Inl (BindingError (bind_error lib (JObj m)))"

definition register_from_event ::
  "libs \<Rightarrow> string \<Rightarrow> string \<Rightarrow> inbox_row \<Rightarrow> dispatch_params \<Rightarrow> string \<Rightarrow> store \<Rightarrow> exn + (dispatch_row \<times> store)" where
  "register_from_event lib dispatch_id project n p actor s =
     bindE (if get_dispatch s dispatch_id = None
            then bindE (bind_text lib (p_terminal_id p)) (\<lambda>terminal.
                 bindE (bind_text lib (p_track p)) (\<lambda>track.
                 bindE (bind_text lib (p_priority p)) (\<lambda>priority.
                 bindE (bind_text lib (p_pr_ref p)) (\<lambda>pr_ref.
                 bindE (bind_text lib (p_gate p)) (\<lambda>gate. Inr (terminal, track, priority, pr_ref, gate))))))
            else Inr (None, None, None, None, None))
       (\<lambda>(terminal, track, priority, pr_ref, gate).
        register_dispatch dispatch_id project terminal track priority pr_ref gate None None
          (Some [(''channel_origin'', JStr (n_channel n)), (''inbox_event_id'', JStr (n_id n)),
                 (''routing_hints'', JObj (n_hints n))]) actor s)"

definition translate_event ::
  "libs \<Rightarrow> string \<Rightarrow> string \<Rightarrow> inbox_row \<Rightarrow> dispatch_params \<Rightarrow> string \<Rightarrow> store \<Rightarrow> exn + store" where
  "translate_event lib event_id dispatch_id n p actor s =
     bindE (current_project_id s) (\<lambda>project.
     bindE (register_from_event lib dispatch_id project n p actor s) (\<lambda>(_, s1).
     bindE (bind_text lib (p_task_class p)) (\<lambda>task_class.
     let s2 = s1\<lparr>dispatches := update_where (\<lambda>d. d_id d = dispatch_id)
                  (\<lambda>d. d\<lparr>d_task_class := task_class, d_channel_origin := Some (n_channel n)\<rparr>) (dispatches s1)\<rparr>;
         s3 = update_event event_id
                (\<lambda>n. n\<lparr>n_state := ''dispatched'', n_dispatch := Some dispatch_id, n_processed_at := Some (clock s)\<rparr>) s2
     in Inr (emit_event ''inbox_event_dispatched'' event_id (Some ''processing'') (Some ''dispatched'')
               (Some (''Dispatch '' @ py_repr dispatch_id @ '' created from channel='' @ py_repr (n_channel n))) actor
               (Some [(''dispatch_id'', JStr dispatch_id), (''channel_id'', JStr (n_channel n)),
                      (''task_class'', p_task_class p), (''priority'', p_priority p)]) s3))))"

text \<open>The messages of the exceptions that a translation can raise.\<close>

fun exn_text :: "exn \<Rightarrow> string" where
  "exn_text (ValueError msg) = msg"
| "exn_text (BindingError msg) = msg"
| "exn_text _ = []"

definition inbox_process ::
  "libs \<Rightarrow> string \<Rightarrow> (exn + string) option \<Rightarrow> string \<Rightarrow> store \<Rightarrow> (exn + process_result) \<times> store" where
  "inbox_process lib event_id dispatch_id_generator actor s =
     (case event_at s event_id of
        None \<Rightarrow> (Inl (InboxEventNotFoundError event_id), s)
      | Some event \<Rightarrow>
          if inbox_is_terminal event then
            (Inr \<lparr>pr_event_id = event_id, pr_outcome = n_state event, pr_dispatch_id = n_dispatch event,
                  pr_failure_reason = Some (''Event already in terminal state: '' @ n_state event)\<rparr>, s)
          else
            case (if n_state event = ''received''
                  then inbox_transition event_id ''received'' ''processing'' actor None s else Inr s) of
              Inl e \<Rightarrow> (Inl e, s)
            | Inr s1 \<Rightarrow>
                let s2 = update_event event_id (\<lambda>n. n\<lparr>n_attempt_count := n_attempt_count n + 1\<rparr>) s1 in
                case validate_payload event of
                  Some reason \<Rightarrow> (case reject_event event_id reason actor s2 of (r, s3) \<Rightarrow> (Inr r, s3))
                | None \<Rightarrow>
                    let p = extract_dispatch_params event in
                    case (case dispatch_id_generator of
                            None \<Rightarrow> Inr (generate_dispatch_id s event) | Some g \<Rightarrow> g) of
                      Inl e \<Rightarrow> (Inl e, s)
                    | Inr dispatch_id \<Rightarrow>
                        (case translate_event lib event_id dispatch_id event p actor s2 of
                           Inr s3 \<Rightarrow>
                             (Inr \<lparr>pr_event_id = event_id, pr_outcome = ''dispatched'',
                                   pr_dispatch_id = Some dispatch_id, pr_failure_reason = None\<rparr>, s3)
                         | Inl e \<Rightarrow>
                             (case handle_processing_failure event_id event (exn_text e) actor s of
                                (r, s3) \<Rightarrow> (Inr r, s3))))"

definition inbox_retry :: "string \<Rightarrow> string \<Rightarrow> store \<Rightarrow> (exn + process_result) \<times> store" where
  "inbox_retry event_id actor s =
     (case event_at s event_id of
        None \<Rightarrow> (Inl (InboxEventNotFoundError event_id), s)
      | Some event \<Rightarrow>
          if inbox_is_terminal event then
            (Inr \<lparr>pr_event_id = event_id, pr_outcome = n_state event, pr_dispatch_id = None,
                  pr_failure_reason = Some (''Event in terminal state: '' @ n_state event)\<rparr>, s)
          else if n_max_retries event \<le> n_attempt_count event then
            (case dead_letter_event event_id
                    (''Retry budget exhausted ('' @ py_int (n_attempt_count event) @ ''/'' @
                     py_int (n_max_retries event) @ '')'') actor s of (r, s1) \<Rightarrow> (Inr r, s1))
          else
            (case inbox_transition event_id ''processing'' ''received'' actor
                    (Some (''Retry '' @ py_int (n_attempt_count event + 1) @ ''/'' @ py_int (n_max_retries event))) s of
               Inl e \<Rightarrow> (Inl e, s)
             | Inr s1 \<Rightarrow> (Inr \<lparr>pr_event_id = event_id, pr_outcome = ''retry'', pr_dispatch_id = None,
                               pr_failure_reason = None\<rparr>, s1)))"

definition inbox_reject :: "string \<Rightarrow> string \<Rightarrow> string \<Rightarrow> store \<Rightarrow> (exn + process_result) \<times> store" where
  "inbox_reject event_id reason actor s =
     (case event_at s event_id of
        None \<Rightarrow> (Inl (InboxEventNotFoundError event_id), s)
      | Some event \<Rightarrow> (case reject_event event_id reason actor s of (r, s1) \<Rightarrow> (Inr r, s1)))"

section \<open>Queries\<close>

definition inbox_get :: "store \<Rightarrow> string \<Rightarrow> inbox_row option" where
  "inbox_get s event_id = event_at s event_id"

definition list_pending :: "store \<Rightarrow> int \<Rightarrow> inbox_row list" where
  "list_pending s limit =
     sql_limit limit (sort_key n_received_at (filter (\<lambda>n. n_state n = ''received'') (inbox s)))"

definition list_by_channel :: "store \<Rightarrow> string \<Rightarrow> int \<Rightarrow> inbox_row list" where
  "list_by_channel s channel_id limit =
     sql_limit limit (sort_key (\<lambda>n. - n_received_at n) (filter (\<lambda>n. n_channel n = channel_id) (inbox s)))"

definition list_dead_letters :: "store \<Rightarrow> int \<Rightarrow> inbox_row list" where
  "list_dead_letters s limit =
     sql_limit limit (sort_key (\<lambda>n. - n_received_at n) (filter (\<lambda>n. n_state n = ''dead_letter'') (inbox s)))"

definition count_by_state :: "store \<Rightarrow> (string \<times> int) list" where
  "count_by_state s =
     map (\<lambda>st. (st, int (length (filter (\<lambda>n. n_state n = st) (inbox s)))))
       (sort (remdups (map n_state (inbox s))))"

section \<open>Lemmas\<close>

lemma validate_inbox_transition_iff:
  "validate_inbox_transition s t = Inr u \<longleftrightarrow> t \<in> set (allowed_from INBOX_TRANSITIONS s)"
proof -
  have "table_closed INBOX_STATES INBOX_TRANSITIONS" by code_simp
  from table_closed_edge [OF this, of t s] show ?thesis
    by (auto simp: validate_inbox_transition_def result_iffs)
qed

lemma inbox_stuck: "stuck_exactly INBOX_STATES INBOX_TRANSITIONS INBOX_TERMINAL"
  by code_simp

lemma inbox_table_closed: "table_closed INBOX_STATES INBOX_TRANSITIONS"
  by code_simp

interpretation inbox_life: validated_lifecycle INBOX_STATES INBOX_TERMINAL INBOX_TRANSITIONS validate_inbox_transition
proof unfold_locales
  show "set INBOX_TERMINAL \<subseteq> set INBOX_STATES" by code_simp
qed (use validate_inbox_transition_iff table_closedD [OF inbox_table_closed]
       stuck_exactlyD [OF inbox_stuck] in blast)+

lemma emit_event_cases: "emit_event ty eid f t rs a m s = s \<or> (\<exists>e. emit_event ty eid f t rs a m s = log_event e s)"
proof (cases "append_event ty ''inbox_event'' eid f t a rs m None s")
  case (Inl e)
  then show ?thesis by (simp add: emit_event_def)
next
  case (Inr s')
  then have "\<exists>e. s' = log_event e s" by (auto simp: append_event_eq_Inr)
  with Inr show ?thesis by (simp add: emit_event_def)
qed

lemma emit_event_simps [simp]:
  "inbox (emit_event ty eid f t rs a m s) = inbox s"
  "dispatches (emit_event ty eid f t rs a m s) = dispatches s"
  "clock (emit_event ty eid f t rs a m s) = clock s"
  "event_at (emit_event ty eid f t rs a m s) x = event_at s x"
  "event_by_key (emit_event ty eid f t rs a m s) ch k = event_by_key s ch k"
  "get_dispatch (emit_event ty eid f t rs a m s) d = get_dispatch s d"
  using emit_event_cases [of ty eid f t rs a m s] by (auto simp: event_at_def event_by_key_def get_dispatch_def)

lemma update_event_simps [simp]:
  "inbox (update_event eid f s) = update_where (\<lambda>n. n_id n = eid) f (inbox s)"
  "dispatches (update_event eid f s) = dispatches s"
  "clock (update_event eid f s) = clock s"
  "get_dispatch (update_event eid f s) d = get_dispatch s d"
  by (simp_all add: update_event_def get_dispatch_def)

lemma inbox_transition_Inr:
  "inbox_transition eid f t actor reason s = Inr s' \<longleftrightarrow>
   t \<in> set (allowed_from INBOX_TRANSITIONS f) \<and>
   s' = emit_event (''inbox_event_'' @ t) eid (Some f) (Some t)
          (Some (or_else reason (''transition '' @ f @ '' -> '' @ t))) actor None
          (update_event eid (\<lambda>n. if t \<in> set INBOX_TERMINAL then n\<lparr>n_state := t, n_processed_at := Some (clock s)\<rparr>
                                 else n\<lparr>n_state := t\<rparr>) s)"
  using validate_inbox_transition_iff [of f t "()"] unfolding inbox_transition_def bindE_eq_Inr by auto

lemma inbox_transition_moves:
  "inbox_transition eid ''received'' ''processing'' actor reason s = Inr s' \<Longrightarrow>
     inbox s' = update_where (\<lambda>n. n_id n = eid) (\<lambda>n. n\<lparr>n_state := ''processing''\<rparr>) (inbox s) \<and>
     dispatches s' = dispatches s \<and> clock s' = clock s"
  "inbox_transition eid ''processing'' ''received'' actor reason s = Inr s' \<Longrightarrow>
     inbox s' = update_where (\<lambda>n. n_id n = eid) (\<lambda>n. n\<lparr>n_state := ''received''\<rparr>) (inbox s) \<and>
     dispatches s' = dispatches s \<and> clock s' = clock s"
  by (auto simp: inbox_transition_Inr INBOX_TERMINAL_def)

lemma inbox_transition_total:
  "\<exists>s'. inbox_transition eid ''received'' ''processing'' actor reason s = Inr s'"
  "\<exists>s'. inbox_transition eid ''processing'' ''received'' actor reason s = Inr s'"
  by (auto simp: inbox_transition_Inr INBOX_TRANSITIONS_def allowed_from_def)

lemma insert_inbox_row_Inr:
  "insert_inbox_row row s = Inr s' \<Longrightarrow>
   event_at s (n_id row) = None \<and> event_by_key s (n_channel row) (n_dedupe_key row) = None \<and>
   (\<exists>stamp. s' = s\<lparr>inbox := inbox s @ [row\<lparr>n_project := stamp\<rparr>]\<rparr>)"
  by (auto simp: insert_inbox_row_def result_iffs)

text \<open>What a translation leaves: the dispatch, new or existing, with its origin, and the link.\<close>

lemma register_from_event_Inr:
  assumes "register_from_event lib did project n p actor s = Inr (r, s')"
  shows "inbox s' = inbox s" "clock s' = clock s"
    and "if get_dispatch s did = None
         then dispatches s' = dispatches s @ [r] \<and> d_id r = did \<and> d_state r = ''queued'' \<and> d_attempt_count r = 0
         else dispatches s' = dispatches s"
proof -
  from assms obtain terminal track priority pr_ref gate md where
    reg: "register_dispatch did project terminal track priority pr_ref gate None None md actor s = Inr (r, s')"
    by (auto simp: register_from_event_def bindE_eq_Inr split: prod.splits)
  have "inbox s' = inbox s \<and> clock s' = clock s \<and>
      (if get_dispatch s did = None
       then dispatches s' = dispatches s @ [r] \<and> d_id r = did \<and> d_state r = ''queued'' \<and> d_attempt_count r = 0
       else dispatches s' = dispatches s)"
  proof (cases "get_dispatch s did")
    case None
    from register_dispatch_fresh [OF None reg] None show ?thesis by auto
  next
    case (Some row)
    from register_dispatch_existing [OF Some reg] Some show ?thesis by simp
  qed
  then show "inbox s' = inbox s" "clock s' = clock s"
    "if get_dispatch s did = None
     then dispatches s' = dispatches s @ [r] \<and> d_id r = did \<and> d_state r = ''queued'' \<and> d_attempt_count r = 0
     else dispatches s' = dispatches s" by simp_all
qed

lemma translate_event_Inr:
  assumes "translate_event lib eid did n p actor s = Inr s'"
  shows "inbox s' = update_where (\<lambda>x. n_id x = eid)
      (\<lambda>x. x\<lparr>n_state := ''dispatched'', n_dispatch := Some did, n_processed_at := Some (clock s)\<rparr>) (inbox s)"
    and "\<exists>d. get_dispatch s' did = Some d \<and> d_channel_origin d = Some (n_channel n) \<and>
      (if get_dispatch s did = None
       then dispatches s' = dispatches s @ [d] \<and> d_id d = did \<and> d_state d = ''queued'' \<and> d_attempt_count d = 0
       else map d_id (dispatches s') = map d_id (dispatches s) \<and>
            map d_state (dispatches s') = map d_state (dispatches s))"
    and "clock s' = clock s"
proof -
  from assms obtain project r s1 tc where
    reg: "register_from_event lib did project n p actor s = Inr (r, s1)"
    and ds: "dispatches s' = update_where (\<lambda>d. d_id d = did)
        (\<lambda>d. d\<lparr>d_task_class := tc, d_channel_origin := Some (n_channel n)\<rparr>) (dispatches s1)"
    and ib: "inbox s' = update_where (\<lambda>x. n_id x = eid)
      (\<lambda>x. x\<lparr>n_state := ''dispatched'', n_dispatch := Some did, n_processed_at := Some (clock s)\<rparr>) (inbox s1)"
    and ck: "clock s' = clock s1"
    by (auto simp: translate_event_def bindE_eq_Inr Let_def split: prod.splits)
  note r = register_from_event_Inr [OF reg]
  show "inbox s' = update_where (\<lambda>x. n_id x = eid)
      (\<lambda>x. x\<lparr>n_state := ''dispatched'', n_dispatch := Some did, n_processed_at := Some (clock s)\<rparr>) (inbox s)"
    using ib r(1) by simp
  show "clock s' = clock s" using ck r(2) by simp
  let ?f = "\<lambda>d. d\<lparr>d_task_class := tc, d_channel_origin := Some (n_channel n)\<rparr>"
  show "\<exists>d. get_dispatch s' did = Some d \<and> d_channel_origin d = Some (n_channel n) \<and>
      (if get_dispatch s did = None
       then dispatches s' = dispatches s @ [d] \<and> d_id d = did \<and> d_state d = ''queued'' \<and> d_attempt_count d = 0
       else map d_id (dispatches s') = map d_id (dispatches s) \<and>
            map d_state (dispatches s') = map d_state (dispatches s))"
  proof (cases "get_dispatch s did")
    case None
    then have old: "update_where (\<lambda>d. d_id d = did) ?f (dispatches s) = dispatches s"
      by (intro update_where_none) (auto simp: get_dispatch_def find_None_all)
    from None r(3) have "dispatches s' = dispatches s @ [?f r]" "d_id r = did" "d_state r = ''queued''"
      "d_attempt_count r = 0" unfolding ds by (simp_all add: old)
    with None show ?thesis by (simp add: get_dispatch_def find_append)
  next
    case (Some row)
    with r(3) have "dispatches s1 = dispatches s" by simp
    with Some show ?thesis
      by (simp add: get_dispatch_def ds find_update_where map_update_where)
  qed
qed

section \<open>Processing\<close>

lemma event_at_update:
  assumes "\<And>n. n_id (f n) = n_id n"
  shows "event_at (update_event eid f s) x = (if x = eid then map_option f (event_at s x) else event_at s x)"
  using assms by (simp add: event_at_def find_update_where find_update_where_other)

lemma event_at_inbox:
  assumes "inbox s' = update_where (\<lambda>n. n_id n = eid) f (inbox s)" and "\<And>n. n_id (f n) = n_id n"
  shows "event_at s' x = (if x = eid then map_option f (event_at s x) else event_at s x)"
  using assms by (simp add: event_at_def find_update_where find_update_where_other)

definition processed_row :: "string \<Rightarrow> int \<Rightarrow> inbox_row \<Rightarrow> inbox_row" where
  "processed_row did now n =
     n\<lparr>n_state := ''dispatched'', n_dispatch := Some did, n_attempt_count := n_attempt_count n + 1,
       n_processed_at := Some now\<rparr>"

definition rejected_row :: "string \<Rightarrow> int \<Rightarrow> inbox_row \<Rightarrow> inbox_row" where
  "rejected_row reason now n =
     n\<lparr>n_state := ''rejected'', n_attempt_count := n_attempt_count n + 1, n_failure_reason := Some reason,
       n_processed_at := Some now\<rparr>"

lemma processing_started:
  assumes "(if n_state event = ''received'' then inbox_transition eid ''received'' ''processing'' actor None s
            else Inr s) = Inr s1"
  shows "\<exists>f. inbox s1 = update_where (\<lambda>n. n_id n = eid) f (inbox s) \<and> (\<forall>n. \<exists>st. f n = n\<lparr>n_state := st\<rparr>) \<and>
    dispatches s1 = dispatches s \<and> clock s1 = clock s"
proof (cases "n_state event = ''received''")
  case True
  with assms inbox_transition_moves(1) [of eid actor None s s1] show ?thesis
    by (intro exI [of _ "\<lambda>n. n\<lparr>n_state := ''processing''\<rparr>"]) auto
next
  case False
  have "update_where (\<lambda>n. n_id n = eid) (\<lambda>n. n) (inbox s) = inbox s" by (simp add: update_where_def)
  moreover have "\<exists>st. n = n\<lparr>n_state := st\<rparr>" for n :: inbox_row by (rule exI [of _ "n_state n"]) simp
  ultimately show ?thesis using False assms by (intro exI [of _ "\<lambda>n. n"]) auto
qed

lemma inbox_process_outcome:
  assumes "event_at s eid = Some n" and "\<not> inbox_is_terminal n"
  shows "case inbox_process lib eid gen actor s of
     (Inl e, s') \<Rightarrow> s' = s
   | (Inr r, s') \<Rightarrow>
       (\<forall>x. x \<noteq> eid \<longrightarrow> event_at s' x = event_at s x) \<and>
       ((\<exists>did d. r = \<lparr>pr_event_id = eid, pr_outcome = ''dispatched'', pr_dispatch_id = Some did, pr_failure_reason = None\<rparr> \<and>
           event_at s' eid = Some (processed_row did (clock s) n) \<and>
           get_dispatch s' did = Some d \<and> d_channel_origin d = Some (n_channel n) \<and>
           (if get_dispatch s did = None
            then dispatches s' = dispatches s @ [d] \<and> d_id d = did \<and> d_state d = ''queued'' \<and> d_attempt_count d = 0
            else map d_id (dispatches s') = map d_id (dispatches s) \<and>
                 map d_state (dispatches s') = map d_state (dispatches s))) \<or>
        (\<exists>reason. validate_payload n = Some reason \<and> pr_outcome r = ''rejected'' \<and> dispatches s' = dispatches s \<and>
           event_at s' eid = Some (rejected_row reason (clock s) n)) \<or>
        (\<exists>reason. pr_outcome r = ''retry'' \<and> n_attempt_count n < n_max_retries n \<and> dispatches s' = dispatches s \<and>
           event_at s' eid = Some (n\<lparr>n_state := ''received'', n_failure_reason := Some reason\<rparr>)) \<or>
        (\<exists>reason. pr_outcome r = ''dead_letter'' \<and> n_max_retries n \<le> n_attempt_count n \<and> dispatches s' = dispatches s \<and>
           event_at s' eid = Some (n\<lparr>n_state := ''dead_letter'', n_failure_reason := Some reason, n_processed_at := Some (clock s)\<rparr>)))"
proof -
  obtain s1 where start: "(if n_state n = ''received'' then inbox_transition eid ''received'' ''processing'' actor None s
            else Inr s) = Inr s1"
    using inbox_transition_total(1) [of eid actor None s] by (cases "n_state n = ''received''") auto
  from processing_started [OF start] obtain f where f: "inbox s1 = update_where (\<lambda>n. n_id n = eid) f (inbox s)"
    "\<And>n. \<exists>st. f n = n\<lparr>n_state := st\<rparr>" "dispatches s1 = dispatches s" "clock s1 = clock s" by blast
  have f_id: "n_id (f n) = n_id n" for n using f(2) [of n] by auto
  let ?s2 = "update_event eid (\<lambda>n. n\<lparr>n_attempt_count := n_attempt_count n + 1\<rparr>) s1"
  have at1: "event_at s1 x = (if x = eid then map_option f (event_at s x) else event_at s x)" for x
    by (rule event_at_inbox [OF f(1) f_id])
  have at2: "event_at ?s2 x = (if x = eid then Some ((f n)\<lparr>n_attempt_count := n_attempt_count (f n) + 1\<rparr>) else event_at s x)" for x
    using assms(1) at1 [of x] by (auto simp: event_at_update)
  obtain st where st: "f n = n\<lparr>n_state := st\<rparr>" using f(2) by blast
  show ?thesis
  proof (cases "validate_payload n")
    case (Some reason)
    with assms start have "inbox_process lib eid gen actor s =
        (case reject_event eid reason actor ?s2 of (r, s3) \<Rightarrow> (Inr r, s3))"
      by (simp add: inbox_process_def)
    moreover have "event_at (snd (reject_event eid reason actor ?s2)) x =
        (if x = eid then Some (rejected_row reason (clock s) n) else event_at s x)" for x
      using at2 [of x] f(4) by (auto simp: reject_event_def event_at_update st rejected_row_def)
    ultimately show ?thesis using Some f(3) by (auto simp: reject_event_def)
  next
    case None
    show ?thesis
    proof (cases "case gen of None \<Rightarrow> Inr (generate_dispatch_id s n) | Some g \<Rightarrow> g")
      case (Inl e)
      with assms start None have "inbox_process lib eid gen actor s = (Inl e, s)"
        by (simp add: inbox_process_def Let_def)
      then show ?thesis by simp
    next
      case (Inr did)
      show ?thesis
      proof (cases "translate_event lib eid did n (extract_dispatch_params n) actor ?s2")
        case (Inl e)
        with assms start None Inr have "inbox_process lib eid gen actor s =
            (case handle_processing_failure eid n (exn_text e) actor s of (r, s3) \<Rightarrow> (Inr r, s3))"
          by (simp add: inbox_process_def Let_def)
        then show ?thesis using assms(1)
          by (auto simp: handle_processing_failure_def dead_letter_event_def event_at_update)
      next
        case tr: (Inr s3)
        with assms start None Inr have p: "inbox_process lib eid gen actor s =
            (Inr \<lparr>pr_event_id = eid, pr_outcome = ''dispatched'', pr_dispatch_id = Some did, pr_failure_reason = None\<rparr>, s3)"
          by (simp add: inbox_process_def Let_def)
        note t = translate_event_Inr [OF tr]
        have "event_at s3 x = (if x = eid then Some (processed_row did (clock s) n) else event_at s x)" for x
          using event_at_inbox [OF t(1), of x] at2 [of x] f(4) by (auto simp: st processed_row_def)
        moreover have "get_dispatch ?s2 did = get_dispatch s did" "dispatches ?s2 = dispatches s"
          using f(3) by (simp_all add: get_dispatch_def)
        ultimately show ?thesis using t(2) unfolding p by auto
      qed
    qed
  qed
qed

text \<open>
  C35: Processing an event is all or nothing, with four outcomes: exactly one dispatch is there for it, newly queued unless
  its id was known, and the event is linked to it; or the event is rejected for its payload; or, when a budget of
  attempts is left, it goes back to the queue; or, when none is left, to the dead letters. But in the first no dispatch
  is touched, no other event changes in any of them, and a call that raises changes nothing at all.
\<close>

theorem processing_is_all_or_nothing:
  assumes "event_at s eid = Some n" and "\<not> inbox_is_terminal n"
  shows "case inbox_process lib eid gen actor s of
     (Inl e, s') \<Rightarrow> s' = s
   | (Inr r, s') \<Rightarrow>
       (\<forall>x. x \<noteq> eid \<longrightarrow> event_at s' x = event_at s x) \<and>
       ((\<exists>did d. r = \<lparr>pr_event_id = eid, pr_outcome = ''dispatched'', pr_dispatch_id = Some did, pr_failure_reason = None\<rparr> \<and>
           event_at s' eid = Some (processed_row did (clock s) n) \<and>
           get_dispatch s' did = Some d \<and> d_channel_origin d = Some (n_channel n) \<and>
           (if get_dispatch s did = None
            then dispatches s' = dispatches s @ [d] \<and> d_id d = did \<and> d_state d = ''queued'' \<and> d_attempt_count d = 0
            else map d_id (dispatches s') = map d_id (dispatches s) \<and>
                 map d_state (dispatches s') = map d_state (dispatches s))) \<or>
        (\<exists>reason. validate_payload n = Some reason \<and> pr_outcome r = ''rejected'' \<and> dispatches s' = dispatches s \<and>
           event_at s' eid = Some (rejected_row reason (clock s) n)) \<or>
        (\<exists>reason k. pr_outcome r = ''retry'' \<and> n_attempt_count n < n_max_retries n \<and> dispatches s' = dispatches s \<and>
           event_at s' eid = Some (n\<lparr>n_state := ''received'', n_failure_reason := Some reason, n_attempt_count := k\<rparr>)) \<or>
        (\<exists>reason k. pr_outcome r = ''dead_letter'' \<and> n_max_retries n \<le> n_attempt_count n \<and> dispatches s' = dispatches s \<and>
           event_at s' eid = Some (n\<lparr>n_state := ''dead_letter'', n_failure_reason := Some reason,
             n_processed_at := Some (clock s), n_attempt_count := k\<rparr>)))"
proof -
  have same: "n\<lparr>n_state := st, n_failure_reason := rs, n_attempt_count := n_attempt_count n\<rparr> =
        n\<lparr>n_state := st, n_failure_reason := rs\<rparr>"
    "n\<lparr>n_state := st, n_failure_reason := rs, n_processed_at := ts, n_attempt_count := n_attempt_count n\<rparr> =
        n\<lparr>n_state := st, n_failure_reason := rs, n_processed_at := ts\<rparr>" for st rs ts
    by (cases n, simp)+
  obtain r s' where p: "inbox_process lib eid gen actor s = (r, s')" by (metis prod.exhaust)
  note outcome = inbox_process_outcome [OF assms, of lib gen actor, unfolded p prod.case]
  show ?thesis
  proof (cases r)
    case (Inl e)
    with outcome show ?thesis by (simp add: p)
  next
    case (Inr x)
    have weaken: "(\<exists>reason. Q reason \<and> C = Some (f reason)) \<longrightarrow> (\<exists>reason k. Q reason \<and> C = Some (g reason k))"
      if "\<And>reason. g reason (n_attempt_count n) = f reason" for Q C and f :: "string \<Rightarrow> inbox_row" and g
      using that by metis
    show ?thesis
      unfolding p Inr prod.case sum.case
      by (rule rev_mp [OF outcome [unfolded Inr sum.case]], intro conj_mono disj_mono)
        (rule imp_refl | simp only: conj_assoc [symmetric], rule weaken, rule same)+
  qed
qed

definition plain_libs :: libs where
  "plain_libs = \<lparr>float_repr = (\<lambda>q. ''0.5''), sql_real = (\<lambda>q. ''0.5''),
     bind_error = (\<lambda>j. ''Error binding parameter''), sha256_hex = (\<lambda>s. s)\<rparr>"

definition sample_event :: "string \<Rightarrow> string \<Rightarrow> string \<Rightarrow> (string \<times> json) list \<Rightarrow> inbox_row" where
  "sample_event eid key state hints =
     \<lparr>n_id = eid, n_channel = ''slack/ops'', n_dedupe_key = key, n_state = state,
      n_payload = [(''action'', JStr ''deploy'')], n_hints = hints, n_dispatch = None, n_attempt_count = 0,
      n_max_retries = 3, n_failure_reason = None, n_received_at = 0, n_processed_at = None,
      n_metadata = [], n_project = None\<rparr>"

definition inbox_demo :: store where
  "inbox_demo = (empty_store [] (Some ''acme'') (1000 * sec))
     \<lparr>inbox := [sample_event ''ev-1'' ''k1'' ''received'' [],
               sample_event ''ev-2'' ''k2'' ''received'' [(''track'', JList [])]]\<rparr>"

text \<open>One event becomes a dispatch; one has a routing hint SQLite cannot store and is put back.\<close>

lemma processing_is_all_or_nothing_witness:
  "case inbox_process plain_libs ''ev-2'' None ''test'' inbox_demo of
     (Inl e, s') \<Rightarrow> False
   | (Inr r, s') \<Rightarrow> event_at s' ''ev-1'' = event_at inbox_demo ''ev-1'' \<and> pr_outcome r = ''retry''"
proof -
  let ?r = "inbox_process plain_libs ''ev-2'' None ''test'' inbox_demo"
  have at: "event_at inbox_demo ''ev-2'' = Some (sample_event ''ev-2'' ''k2'' ''received'' [(''track'', JList [])])"
    by (simp add: event_at_def inbox_demo_def sample_event_def)
  have live: "\<not> inbox_is_terminal (sample_event ''ev-2'' ''k2'' ''received'' [(''track'', JList [])])"
    by (simp add: inbox_is_terminal_def INBOX_TERMINAL_def sample_event_def)
  have "(case fst ?r of Inl e \<Rightarrow> False | Inr r \<Rightarrow> pr_outcome r = ''retry'')" by code_simp
  then obtain r s' where r: "?r = (Inr r, s')" and "pr_outcome r = ''retry''"
    by (cases ?r; cases "fst ?r") auto
  with processing_is_all_or_nothing [OF at live, of plain_libs None "''test''"] show ?thesis
    unfolding r by simp
qed

text \<open>
  A translation that fails counts as no attempt: the rollback also undoes the increment, so
  below the limit the event is put back for ever and never reaches the dead letters.
\<close>

lemma failing_event_is_never_dead_lettered:
  assumes "event_at s eid = Some n" and "\<not> inbox_is_terminal n" and "n_attempt_count n < n_max_retries n"
    and "inbox_process lib eid gen actor s = (Inr r, s')" and "pr_outcome r = ''retry''"
  shows "\<exists>n'. event_at s' eid = Some n' \<and> n_attempt_count n' = n_attempt_count n \<and>
    n_max_retries n' = n_max_retries n \<and> n_state n' = ''received''"
  using inbox_process_outcome [OF assms(1,2), of lib gen actor] assms(3-5) by auto

section \<open>The inbox invariant\<close>

definition event_ident :: "inbox_row \<Rightarrow> string \<times> string \<times> string \<times> (string \<times> json) list \<times> (string \<times> json) list" where
  "event_ident n = (n_id n, n_channel n, n_dedupe_key n, n_payload n, n_hints n)"

definition event_ok :: "store \<Rightarrow> inbox_row \<Rightarrow> bool" where
  "event_ok s n =
     (n_state n \<in> set INBOX_STATES \<and> (inbox_is_terminal n \<longleftrightarrow> n_processed_at n \<noteq> None) \<and>
      (case n_dispatch n of None \<Rightarrow> n_state n \<noteq> ''dispatched'' | Some did \<Rightarrow> get_dispatch s did \<noteq> None))"

definition inbox_ok :: "store \<Rightarrow> bool" where
  "inbox_ok s =
     (distinct (map n_id (inbox s)) \<and> distinct (map (\<lambda>n. (n_channel n, n_dedupe_key n)) (inbox s)) \<and>
      list_all (event_ok s) (inbox s))"

datatype inbox_cmd =
    Receive string "(string \<times> json) list" "string option" "(string \<times> json) list option" int
      "(string \<times> json) list option" string
  | Process string "(exn + string) option" string
  | Retry string string
  | Reject string string string
  | Elapse int

fun inbox_exec :: "libs \<Rightarrow> inbox_cmd \<Rightarrow> store \<Rightarrow> store" where
  "inbox_exec lib (Receive ch payload key hints limit md actor) s =
     snd (inbox_receive lib ch payload key hints limit md actor s)"
| "inbox_exec lib (Process eid gen actor) s = snd (inbox_process lib eid gen actor s)"
| "inbox_exec lib (Retry eid actor) s = snd (inbox_retry eid actor s)"
| "inbox_exec lib (Reject eid reason actor) s = snd (inbox_reject eid reason actor s)"
| "inbox_exec lib (Elapse now) s = s\<lparr>clock := now\<rparr>"

text \<open>What every command does to the inbox: nothing, a new row, or one row changed in place.\<close>

inductive inbox_change :: "store \<Rightarrow> store \<Rightarrow> bool" where
  same: "inbox s' = inbox s \<Longrightarrow> inbox_change s s'"
| new: "inbox s' = inbox s @ [n] \<Longrightarrow> event_at s (n_id n) = None \<Longrightarrow>
    event_by_key s (n_channel n) (n_dedupe_key n) = None \<Longrightarrow> n_state n = ''received'' \<Longrightarrow>
    n_processed_at n = None \<Longrightarrow> n_dispatch n = None \<Longrightarrow> inbox_change s s'"
| row: "inbox s' = update_where (\<lambda>n. n_id n = eid) f (inbox s) \<Longrightarrow> (\<And>n. event_ident (f n) = event_ident n) \<Longrightarrow>
    (\<And>n. event_at s eid = Some n \<Longrightarrow> event_ok s n \<Longrightarrow> event_ok s' (f n)) \<Longrightarrow> inbox_change s s'"

definition dispatches_grow :: "store \<Rightarrow> store \<Rightarrow> bool" where
  "dispatches_grow s s' = (\<forall>d. get_dispatch s d \<noteq> None \<longrightarrow> get_dispatch s' d \<noteq> None)"

lemma dispatches_grow_same: "dispatches s' = dispatches s \<Longrightarrow> dispatches_grow s s'"
  by (simp add: dispatches_grow_def get_dispatch_def)

lemma event_ok_grow: "event_ok s n \<Longrightarrow> dispatches_grow s s' \<Longrightarrow> event_ok s' n"
  by (auto simp: event_ok_def dispatches_grow_def split: option.splits)

lemma event_ident_parts:
  "event_ident m = event_ident n \<Longrightarrow> n_id m = n_id n \<and> n_channel m = n_channel n \<and> n_dedupe_key m = n_dedupe_key n"
  by (simp add: event_ident_def)

lemma inbox_change_ident:
  assumes "inbox_change s s'"
  shows "\<exists>ns. map event_ident (inbox s') = map event_ident (inbox s) @ ns"
  using assms
proof cases
  case (row eid f)
  then have "map event_ident (inbox s') = map event_ident (inbox s)"
    by (simp add: map_update_where)
  then show ?thesis by simp
qed auto

lemma inbox_change_ok:
  assumes "inbox_change s s'" and "inbox_ok s" and "dispatches_grow s s'"
  shows "inbox_ok s'"
  using assms(1)
proof cases
  case same
  with assms(2,3) show ?thesis by (auto simp: inbox_ok_def list_all_iff intro: event_ok_grow)
next
  case (new n)
  have "event_ok s' n" using new by (simp add: event_ok_def INBOX_STATES_def inbox_is_terminal_def INBOX_TERMINAL_def)
  moreover have "n_id n \<notin> set (map n_id (inbox s))" using new(2) by (auto simp: event_at_def find_None_all)
  moreover have "(n_channel n, n_dedupe_key n) \<notin> set (map (\<lambda>n. (n_channel n, n_dedupe_key n)) (inbox s))"
    using new(3) by (auto simp: event_by_key_def find_None_all)
  ultimately show ?thesis using assms(2,3) new(1)
    by (auto simp: inbox_ok_def list_all_iff intro: event_ok_grow)
next
  case (row eid f)
  have ids: "map n_id (inbox s') = map n_id (inbox s)"
    "map (\<lambda>n. (n_channel n, n_dedupe_key n)) (inbox s') = map (\<lambda>n. (n_channel n, n_dedupe_key n)) (inbox s)"
    using event_ident_parts [OF row(2)] unfolding row(1) by (simp_all add: map_update_where)
  have "event_ok s' m" if "m \<in> set (inbox s')" for m
  proof -
    from that obtain n where n: "n \<in> set (inbox s)" "m = (if n_id n = eid then f n else n)"
      unfolding row(1) in_update_where by blast
    then have ok: "event_ok s n" using assms(2) by (simp add: inbox_ok_def list_all_iff)
    show ?thesis
    proof (cases "n_id n = eid")
      case True
      then have "event_at s eid = Some n"
        using find_key_unique [of n_id "inbox s" n] n(1) assms(2) by (simp add: event_at_def inbox_ok_def)
      from row(3) [OF this ok] True n(2) show ?thesis by simp
    next
      case False
      with n(2) event_ok_grow [OF ok assms(3)] show ?thesis by simp
    qed
  qed
  with ids assms(2) show ?thesis by (simp add: inbox_ok_def list_all_iff)
qed

text \<open>Changes of one row that keep what identifies the event.\<close>

definition edits :: "string \<Rightarrow> store \<Rightarrow> store \<Rightarrow> bool" where
  "edits eid s s' =
     (\<exists>f. inbox s' = update_where (\<lambda>n. n_id n = eid) f (inbox s) \<and> (\<forall>n. event_ident (f n) = event_ident n))"

lemma edits_refl: "inbox s' = inbox s \<Longrightarrow> edits eid s s'"
  unfolding edits_def by (rule exI [of _ "\<lambda>n. n"]) (simp add: update_where_def)

lemma edits_trans: "edits eid s s1 \<Longrightarrow> edits eid s1 s' \<Longrightarrow> edits eid s s'"
  unfolding edits_def
proof (elim exE conjE)
  fix f g
  assume f: "inbox s1 = update_where (\<lambda>n. n_id n = eid) f (inbox s)" "\<forall>n. event_ident (f n) = event_ident n"
    and g: "inbox s' = update_where (\<lambda>n. n_id n = eid) g (inbox s1)" "\<forall>n. event_ident (g n) = event_ident n"
  have "n_id (f n) = n_id n" for n using event_ident_parts f(2) by blast
  then have "inbox s' = update_where (\<lambda>n. n_id n = eid) (g \<circ> f) (inbox s)"
    unfolding g(1) f(1) by (intro update_where_compose) simp
  with f(2) g(2) show "\<exists>f. inbox s' = update_where (\<lambda>n. n_id n = eid) f (inbox s) \<and>
      (\<forall>n. event_ident (f n) = event_ident n)" by (intro exI [of _ "g \<circ> f"]) simp
qed

lemma edits_update:
  "(\<And>n. event_ident (f n) = event_ident n) \<Longrightarrow> edits eid s (update_event eid f s)"
  by (auto simp: edits_def)

lemma edits_emit [simp]: "edits eid s (emit_event ty x f t rs a m s') = edits eid s s'"
  by (simp add: edits_def)

lemma edits_steps:
  "edits eid s (snd (reject_event eid reason actor s))"
  "edits eid s (snd (dead_letter_event eid reason actor s))"
  "edits eid s (snd (handle_processing_failure eid n msg actor s))"
  "inbox_transition eid f t actor why s = Inr s1 \<Longrightarrow> edits eid s s1"
  "translate_event lib eid did n p actor s = Inr s2 \<Longrightarrow> edits eid s s2"
proof -
  show "inbox_transition eid f t actor why s = Inr s1 \<Longrightarrow> edits eid s s1"
    by (auto simp: inbox_transition_Inr event_ident_def intro!: edits_update)
  show "translate_event lib eid did n p actor s = Inr s2 \<Longrightarrow> edits eid s s2"
    using translate_event_Inr(1) [of lib eid did n p actor s s2]
    by (auto simp: edits_def event_ident_def)
qed (auto simp: reject_event_def dead_letter_event_def handle_processing_failure_def event_ident_def
      intro!: edits_update)

lemma edits_process: "edits eid s (snd (inbox_process lib eid gen actor s))"
proof (cases "event_at s eid")
  case None
  then show ?thesis by (simp add: inbox_process_def edits_refl)
next
  case (Some n)
  show ?thesis
  proof (cases "inbox_is_terminal n")
    case True
    with Some show ?thesis by (simp add: inbox_process_def edits_refl)
  next
    case False
    obtain s1 where start: "(if n_state n = ''received'' then inbox_transition eid ''received'' ''processing'' actor None s
            else Inr s) = Inr s1"
      using inbox_transition_total(1) [of eid actor None s] by (cases "n_state n = ''received''") auto
    let ?s2 = "update_event eid (\<lambda>n. n\<lparr>n_attempt_count := n_attempt_count n + 1\<rparr>) s1"
    have "edits eid s s1" using start edits_steps(4) by (auto simp: edits_refl split: if_splits)
    moreover have "edits eid s1 ?s2" by (rule edits_update) (simp add: event_ident_def)
    ultimately have s2: "edits eid s ?s2" by (rule edits_trans)
    note rej = edits_trans [OF s2 edits_steps(1)] and tr = edits_trans [OF s2 edits_steps(5)]
    have "edits eid s (snd (case translate_event lib eid did n p actor ?s2 of
        Inr s3 \<Rightarrow> (Inr (r did), s3)
      | Inl e \<Rightarrow> (case handle_processing_failure eid n (exn_text e) actor s of (r, s3) \<Rightarrow> (Inr r, s3))))"
      for did p and r :: "string \<Rightarrow> process_result"
    proof (cases "translate_event lib eid did n p actor ?s2")
      case (Inl e)
      then show ?thesis using edits_steps(3) [of eid s n "exn_text e" actor]
        by (cases "handle_processing_failure eid n (exn_text e) actor s") simp
    next
      case (Inr s3)
      then show ?thesis using tr by simp
    qed
    note tail = this
    show ?thesis
    proof (cases "validate_payload n")
      case reason: (Some reason)
      from reason Some False start have "inbox_process lib eid gen actor s =
          (case reject_event eid reason actor ?s2 of (r, s3) \<Rightarrow> (Inr r, s3))"
        by (simp add: inbox_process_def)
      with rej [of reason actor] show ?thesis by (simp add: split_beta)
    next
      case valid: None
      show ?thesis
      proof (cases "case gen of None \<Rightarrow> Inr (generate_dispatch_id s n) | Some g \<Rightarrow> g")
        case (Inl e)
        with Some False start valid have "inbox_process lib eid gen actor s = (Inl e, s)"
          by (simp add: inbox_process_def Let_def)
        then show ?thesis by (simp add: edits_refl)
      next
        case (Inr did)
        show ?thesis using tail [of _ did "extract_dispatch_params n"] Some False start valid Inr
          by (simp add: inbox_process_def Let_def)
      qed
    qed
  qed
qed

lemma edits_retry: "edits eid s (snd (inbox_retry eid actor s))"
proof (cases "event_at s eid")
  case None
  then show ?thesis by (simp add: inbox_retry_def edits_refl)
next
  case (Some n)
  let ?why = "Some (''Retry '' @ py_int (n_attempt_count n + 1) @ ''/'' @ py_int (n_max_retries n))"
  obtain s1 where "inbox_transition eid ''processing'' ''received'' actor ?why s = Inr s1"
    using inbox_transition_total(2) by blast
  with Some edits_steps(4) [OF this] edits_steps(2) [of eid s _ actor] show ?thesis
    by (cases "inbox_is_terminal n"; cases "n_max_retries n \<le> n_attempt_count n")
       (simp_all add: inbox_retry_def edits_refl split_beta)
qed

lemma edits_reject: "edits eid s (snd (inbox_reject eid reason actor s))"
  using edits_steps(1) [of eid s reason actor]
  by (auto simp: inbox_reject_def edits_refl split: option.split prod.split)


lemma get_dispatch_ids: "get_dispatch s d \<noteq> None \<longleftrightarrow> d \<in> set (map d_id (dispatches s))"
  by (auto simp: get_dispatch_def find_None_all)

lemma dispatches_grow_ids:
  "set (map d_id (dispatches s)) \<subseteq> set (map d_id (dispatches s')) \<Longrightarrow> dispatches_grow s s'"
  unfolding dispatches_grow_def get_dispatch_ids by blast

lemma inbox_change_edits:
  assumes "edits eid s s'"
    and "\<And>n. event_at s eid = Some n \<Longrightarrow> event_ok s n \<Longrightarrow> \<exists>m. event_at s' eid = Some m \<and> event_ok s' m"
  shows "inbox_change s s'"
proof -
  from assms(1) obtain f where f: "inbox s' = update_where (\<lambda>n. n_id n = eid) f (inbox s)"
    "\<And>n. event_ident (f n) = event_ident n" unfolding edits_def by blast
  have "n_id (f n) = n_id n" for n using event_ident_parts [OF f(2)] by blast
  from event_at_inbox [OF f(1) this, of eid] assms(2)
  show ?thesis by (intro inbox_change.row [OF f]) auto
qed

lemma event_ok_closed:
  assumes "event_ok s n" and "dispatches s' = dispatches s"
  shows "st \<in> {''rejected'', ''dead_letter''} \<Longrightarrow>
      event_ok s' (n\<lparr>n_state := st, n_failure_reason := why, n_processed_at := Some now\<rparr>)"
    and "st \<in> {''rejected'', ''dead_letter''} \<Longrightarrow>
      event_ok s' (n\<lparr>n_state := st, n_attempt_count := k, n_failure_reason := why, n_processed_at := Some now\<rparr>)"
    and "\<not> inbox_is_terminal n \<Longrightarrow> event_ok s' (n\<lparr>n_state := ''received'', n_failure_reason := why\<rparr>)"
    and "\<not> inbox_is_terminal n \<Longrightarrow> event_ok s' (n\<lparr>n_state := ''received''\<rparr>)"
  using assms
  by (auto simp: event_ok_def INBOX_STATES_def inbox_is_terminal_def INBOX_TERMINAL_def get_dispatch_def
      split: option.splits)

lemma event_at_closed [simp]:
  "event_at (snd (reject_event eid reason actor s)) eid =
     map_option (\<lambda>n. n\<lparr>n_state := ''rejected'', n_failure_reason := Some reason, n_processed_at := Some (clock s)\<rparr>)
       (event_at s eid)"
  "event_at (snd (dead_letter_event eid reason actor s)) eid =
     map_option (\<lambda>n. n\<lparr>n_state := ''dead_letter'', n_failure_reason := Some reason, n_processed_at := Some (clock s)\<rparr>)
       (event_at s eid)"
  "dispatches (snd (reject_event eid reason actor s)) = dispatches s"
  "dispatches (snd (dead_letter_event eid reason actor s)) = dispatches s"
  by (simp_all add: reject_event_def dead_letter_event_def event_at_update)

lemma inbox_process_step:
  "inbox_change s (snd (inbox_process lib eid gen actor s)) \<and>
   dispatches_grow s (snd (inbox_process lib eid gen actor s))"
proof (cases "event_at s eid")
  case None
  then show ?thesis by (simp add: inbox_process_def inbox_change.same dispatches_grow_same)
next
  case (Some n)
  show ?thesis
  proof (cases "inbox_is_terminal n")
    case True
    with Some show ?thesis by (simp add: inbox_process_def inbox_change.same dispatches_grow_same)
  next
    case False
    obtain r s' where r: "inbox_process lib eid gen actor s = (r, s')" by fastforce
    have ed: "edits eid s s'" using edits_process [of eid s lib gen actor] by (simp add: r)
    note out = inbox_process_outcome [OF Some False, of lib gen actor, unfolded r]
    have grow: "dispatches_grow s s'"
      using out by (cases r) (auto intro!: dispatches_grow_ids split: if_splits)
    have "\<exists>m. event_at s' eid = Some m \<and> event_ok s' m" if ok: "event_ok s n"
    proof (cases r)
      case (Inl e)
      with out Some ok show ?thesis by simp
    next
      case (Inr p)
      note o' = out [unfolded Inr, simplified]
      from o' consider
          (sent) did d where "event_at s' eid = Some (processed_row did (clock s) n)" "get_dispatch s' did = Some d"
        | (rejected) reason where "dispatches s' = dispatches s"
            "event_at s' eid = Some (rejected_row reason (clock s) n)"
        | (again) reason where "dispatches s' = dispatches s"
            "event_at s' eid = Some (n\<lparr>n_state := ''received'', n_failure_reason := Some reason\<rparr>)"
        | (dead) reason where "dispatches s' = dispatches s"
            "event_at s' eid = Some (n\<lparr>n_state := ''dead_letter'', n_failure_reason := Some reason, n_processed_at := Some (clock s)\<rparr>)"
        by blast
      then show ?thesis
      proof cases
        case sent
        then show ?thesis
          by (simp add: event_ok_def processed_row_def INBOX_STATES_def inbox_is_terminal_def INBOX_TERMINAL_def)
      next
        case rejected
        with event_ok_closed(2) [OF ok rejected(1)] show ?thesis by (simp add: rejected_row_def)
      next
        case again
        with event_ok_closed(3) [OF ok again(1)] False show ?thesis by simp
      next
        case dead
        with event_ok_closed(1) [OF ok dead(1)] show ?thesis by simp
      qed
    qed
    with inbox_change_edits [OF ed] Some grow show ?thesis unfolding r by simp
  qed
qed


lemma inbox_retry_step:
  "inbox_change s (snd (inbox_retry eid actor s)) \<and> dispatches (snd (inbox_retry eid actor s)) = dispatches s"
proof (cases "event_at s eid")
  case None
  then show ?thesis by (simp add: inbox_retry_def inbox_change.same)
next
  case (Some n)
  let ?why = "Some (''Retry '' @ py_int (n_attempt_count n + 1) @ ''/'' @ py_int (n_max_retries n))"
  obtain s1 where tr: "inbox_transition eid ''processing'' ''received'' actor ?why s = Inr s1"
    using inbox_transition_total(2) by blast
  from inbox_transition_moves(2) [OF tr]
  have moved: "event_at s1 eid = Some (n\<lparr>n_state := ''received''\<rparr>)" "dispatches s1 = dispatches s"
    using Some by (auto simp: event_at_def find_update_where)
  consider "inbox_is_terminal n" | "\<not> inbox_is_terminal n" "n_max_retries n \<le> n_attempt_count n"
    | "\<not> inbox_is_terminal n" "\<not> n_max_retries n \<le> n_attempt_count n" by blast
  then show ?thesis
  proof cases
    case 1
    with Some show ?thesis by (simp add: inbox_retry_def inbox_change.same)
  next
    case 2
    let ?r = "''Retry budget exhausted ('' @ py_int (n_attempt_count n) @ ''/'' @ py_int (n_max_retries n) @ '')''"
    have "inbox_change s (snd (dead_letter_event eid ?r actor s))"
      by (rule inbox_change_edits [OF edits_steps(2)]) (auto intro: event_ok_closed(1))
    with 2 Some show ?thesis by (simp add: inbox_retry_def split_beta)
  next
    case 3
    have "inbox_change s s1"
      by (rule inbox_change_edits [OF edits_steps(4) [OF tr]])
         (use Some moved 3 event_ok_closed(4) in auto)
    with 3 Some tr moved show ?thesis by (simp add: inbox_retry_def)
  qed
qed

lemma inbox_reject_step:
  "inbox_change s (snd (inbox_reject eid reason actor s)) \<and>
   dispatches (snd (inbox_reject eid reason actor s)) = dispatches s"
proof (cases "event_at s eid")
  case None
  then show ?thesis by (simp add: inbox_reject_def inbox_change.same)
next
  case (Some n)
  have "inbox_change s (snd (reject_event eid reason actor s))"
    by (rule inbox_change_edits [OF edits_steps(1)]) (auto intro: event_ok_closed(1))
  with Some show ?thesis by (simp add: inbox_reject_def split_beta)
qed

lemma inbox_receive_step:
  "inbox_change s (snd (inbox_receive lib ch payload key hints limit md actor s)) \<and>
   dispatches (snd (inbox_receive lib ch payload key hints limit md actor s)) = dispatches s"
proof -
  let ?k = "case key of None \<Rightarrow> generate_dedupe_key lib ch payload | Some k \<Rightarrow> k"
  let ?s0 = "s\<lparr>uuid_next := Suc (uuid_next s)\<rparr>"
  let ?row = "\<lparr>n_id = new_uuid s, n_channel = ch, n_dedupe_key = ?k, n_state = ''received'',
                n_payload = payload, n_hints = dict_or_empty hints, n_dispatch = None,
                n_attempt_count = 0, n_max_retries = limit, n_failure_reason = None,
                n_received_at = sqlite_now s, n_processed_at = None,
                n_metadata = dict_or_empty md, n_project = None\<rparr>"
  show ?thesis
  proof (cases "event_by_key ?s0 ch ?k")
    case (Some old)
    then show ?thesis by (simp add: inbox_receive_def Let_def inbox_change.same)
  next
    case None
    show ?thesis
    proof (cases "insert_inbox_row ?row ?s0")
      case (Inl e)
      with None show ?thesis by (simp add: inbox_receive_def Let_def inbox_change.same)
    next
      case (Inr s1)
      from insert_inbox_row_Inr [OF Inr] obtain stamp where
        s1: "s1 = ?s0\<lparr>inbox := inbox ?s0 @ [?row\<lparr>n_project := stamp\<rparr>]\<rparr>" and
        fresh: "event_at ?s0 (new_uuid s) = None" "event_by_key ?s0 ch ?k = None" by auto
      have "event_at s1 (new_uuid s) = Some (?row\<lparr>n_project := stamp\<rparr>)"
        using fresh(1) unfolding s1 by (simp add: event_at_def find_append)
      moreover have "inbox_change s s2" if "inbox s2 = inbox s1" for s2
        using fresh that by (intro inbox_change.new [of _ _ "?row\<lparr>n_project := stamp\<rparr>"])
          (simp_all add: s1 event_at_def event_by_key_def)
      moreover have "dispatches s1 = dispatches s" by (simp add: s1)
      ultimately show ?thesis using None Inr
        by (simp add: inbox_receive_def Let_def fetch_dict_def)
    qed
  qed
qed

lemma inbox_exec_step: "inbox_change s (inbox_exec lib c s) \<and> dispatches_grow s (inbox_exec lib c s)"
  using inbox_process_step inbox_retry_step inbox_reject_step inbox_receive_step
  by (cases c) (auto intro: inbox_change.same dispatches_grow_same)

interpretation inbox_log: append_only "inbox_exec lib" "\<lambda>s. map event_ident (inbox s)" inbox_ok "\<lambda>c. True" for lib
proof unfold_locales
  fix s c
  assume "inbox_ok s"
  with inbox_change_ok inbox_exec_step show "inbox_ok (inbox_exec lib c s)" by blast
  from inbox_change_ident inbox_exec_step
  show "\<exists>new. map event_ident (inbox (inbox_exec lib c s)) = map event_ident (inbox s) @ new" by blast
qed

text \<open>
  C36: Whatever is received, processed, retried and rejected, and in whatever order: event ids
  and deduplication keys stay unique, a row is closed exactly when it carries a processing time,
  a dispatched event names a dispatch that exists, and no event is ever lost, renamed or
  rewritten.
\<close>

theorem inbox_rows_stay_consistent:
  assumes "inbox_ok s"
  shows "inbox_ok (fold (inbox_exec lib) cmds s) \<and>
    (\<exists>ns. map event_ident (inbox (fold (inbox_exec lib) cmds s)) = map event_ident (inbox s) @ ns)"
  by (rule inbox_log.history_kept [OF assms]) (simp add: list_all_iff)

definition inbox_script :: "inbox_cmd list" where
  "inbox_script =
     [Receive ''mail'' [(''action'', JStr ''audit'')] (Some ''k3'') None 2 None ''test'',
      Receive ''mail'' [(''action'', JStr ''again'')] (Some ''k3'') None 2 None ''test'',
      Process ''ev-1'' None ''test'', Process ''ev-2'' None ''test'', Elapse (2000 * sec),
      Retry ''ev-2'' ''test'', Reject ''ev-2'' ''obsolete'' ''test'']"

lemma inbox_rows_stay_consistent_witness:
  "inbox_ok (fold (inbox_exec plain_libs) inbox_script inbox_demo) \<and>
   map n_state (inbox (fold (inbox_exec plain_libs) inbox_script inbox_demo)) =
     [''dispatched'', ''rejected'', ''received'']"
proof
  have "inbox_ok inbox_demo" by code_simp
  then show "inbox_ok (fold (inbox_exec plain_libs) inbox_script inbox_demo)"
    by (rule inbox_rows_stay_consistent [THEN conjunct1])
  show "map n_state (inbox (fold (inbox_exec plain_libs) inbox_script inbox_demo)) =
     [''dispatched'', ''rejected'', ''received'']" by code_simp
qed

text \<open>A repeated event is answered with the stored one, whatever it carries and whatever has become of it.\<close>

lemma repeated_event_is_deduplicated:
  assumes "event_by_key s ch k = Some old"
  shows "fst (inbox_receive lib ch payload (Some k) hints limit md actor s) =
      Inr \<lparr>rc_event = old, rc_already_existed = True\<rparr>"
    and "inbox (snd (inbox_receive lib ch payload (Some k) hints limit md actor s)) = inbox s"
  using assms by (simp_all add: inbox_receive_def Let_def event_by_key_def)

end

