(* ===== verification/Hash_Chain.thy ===== *)
theory Hash_Chain
  imports Json_Text Interfaces
begin

text \<open>
  \<^verbatim>\<open>scripts/lib/ndjson_hash_chain.py\<close>: the audit ledger, a text file with one JSON object per line, each
  linked to the one before by the SHA-256 of its canonical text, in epochs that a marker opens.

  A ledger is the text of the file, or \<open>None\<close> when there is no file. The lock makes an append one
  step. SHA-256 and the text of floats are fields of the \<open>codec\<close>; the text of the current
  time is an argument of the marker. A text is ASCII.

  Theorems: an appended entry is read back with the hash that was returned; the one-pass
  verifier decides exactly the law of the chain; whatever is appended, the ledger verifies; a change
  of an entry without its successor breaks the chain, unless SHA-256 agrees on both contents.
\<close>

section \<open>Entries and their hashes\<close>

type_synonym ledger = "string option"

definition GENESIS_HASH :: string where
  "GENESIS_HASH = replicate 64 (CHR ''0'')"

definition EPOCH_MARKER_TYPE :: string where
  "EPOCH_MARKER_TYPE = ''chain_epoch_start''"

definition canonical_json :: "codec \<Rightarrow> (string \<times> json) list \<Rightarrow> string" where
  "canonical_json cx obj =
     json_text (float_show cx) '','' '':'' (sort_json (JObj (filter (\<lambda>(k, v). k \<noteq> ''prev_hash'') obj)))"

definition entry_hash :: "codec \<Rightarrow> (string \<times> json) list \<Rightarrow> string" where
  "entry_hash cx entry = sha256 cx (canonical_json cx entry)"

text \<open>What is parsed from a line need not be an object; then \<^verbatim>\<open>.items()\<close> and \<^verbatim>\<open>.get()\<close> raise.\<close>

fun as_object :: "json \<Rightarrow> exn + (string \<times> json) list" where
  "as_object (JObj m) = Inr m"
| "as_object _ = Inl AttributeError"

definition compute_entry_hash :: "codec \<Rightarrow> json \<Rightarrow> exn + string" where
  "compute_entry_hash cx entry = bindE (as_object entry) (\<lambda>m. Inr (entry_hash cx m))"

section \<open>The file\<close>

text \<open>Text mode: every line end is read as a newline.\<close>

fun translate_newlines :: "string \<Rightarrow> string" where
  "translate_newlines [] = []"
| "translate_newlines [c] = [if c = CHR 13 then CHR 10 else c]"
| "translate_newlines (c # d # cs) =
     (if c = CHR 13 \<and> d = CHR 10 then CHR 10 # translate_newlines cs
      else (if c = CHR 13 then CHR 10 else c) # translate_newlines (d # cs))"

fun split_lines :: "string \<Rightarrow> string list" where
  "split_lines [] = [[]]"
| "split_lines (c # cs) =
     (if c = CHR 10 then [] # split_lines cs
      else (case split_lines cs of l # ls \<Rightarrow> (c # l) # ls | [] \<Rightarrow> [[c]]))"

definition content :: "ledger \<Rightarrow> string" where
  "content file = (case file of None \<Rightarrow> [] | Some s \<Rightarrow> s)"

text \<open>The stripped, non-blank lines with their numbers, and what each is parsed to.\<close>

definition numbered_lines :: "ledger \<Rightarrow> (nat \<times> string) list" where
  "numbered_lines file =
     filter (\<lambda>(n, l). l \<noteq> [])
       (enumerate 1 (map py_strip (split_lines (translate_newlines (content file)))))"

definition parsed_lines :: "codec \<Rightarrow> ledger \<Rightarrow> (nat \<times> json option) list" where
  "parsed_lines cx file = map (\<lambda>(n, l). (n, json_loads (float_read cx) l)) (numbered_lines file)"

definition iter_parsed :: "codec \<Rightarrow> ledger \<Rightarrow> (nat \<times> json) list" where
  "iter_parsed cx file = [(n, the j). (n, j) \<leftarrow> parsed_lines cx file, j \<noteq> None]"

definition write_line :: "codec \<Rightarrow> (string \<times> json) list \<Rightarrow> ledger \<Rightarrow> ledger" where
  "write_line cx entry file =
     Some (content file @ json_text (float_show cx) '', '' '': '' (JObj entry) @ [CHR 10])"

section \<open>Appending\<close>

text \<open>
  \<^verbatim>\<open>_read_last_hash\<close> works on the bytes: from the last byte but one it steps back to a
  newline, and to the start of the file when a step leaves it.
\<close>

fun seek_back :: "string \<Rightarrow> nat \<Rightarrow> nat" where
  "seek_back bytes pos =
     (if bytes ! pos = CHR 10 then Suc pos
      else if pos = 0 then 0
      else seek_back bytes (pos - 1))"

definition read_line :: "string \<Rightarrow> string" where
  "read_line s = takeWhile (\<lambda>c. c \<noteq> CHR 10) s @ take 1 (dropWhile (\<lambda>c. c \<noteq> CHR 10) s)"

definition last_line :: "string \<Rightarrow> string" where
  "last_line bytes =
     py_strip (read_line (drop (if length bytes < 2 then 0 else seek_back bytes (length bytes - 2)) bytes))"

definition read_last_hash :: "codec \<Rightarrow> ledger \<Rightarrow> exn + string option" where
  "read_last_hash cx file =
     (if content file = [] then Inr None
      else let line = last_line (content file) in
        if line = [] then Inr None
        else (case json_loads (float_read cx) line of
                None \<Rightarrow> Inr None
              | Some entry \<Rightarrow> bindE (compute_entry_hash cx entry) (\<lambda>h. Inr (Some h))))"

text \<open>The entry as it is written: linked, typed, and with the field that its type requires.\<close>

definition chained_entry :: "string \<Rightarrow> string option \<Rightarrow> (string \<times> json) list \<Rightarrow> (string \<times> json) list" where
  "chained_entry prev_hash event_type entry =
     (let chained = AList.update ''prev_hash'' (JStr prev_hash) entry
      in if truthy event_type then AList.update ''event_type'' (JStr (the event_type)) chained else chained)"

definition required_field :: "(string \<times> string) list" where
  "required_field =
     [(''correction'', ''corrects_hash''), (''redaction'', ''redacts_hash''), (''tombstone'', ''tombstones_hash'')]"

definition check_event_type :: "string option \<Rightarrow> (string \<times> json) list \<Rightarrow> exn + unit" where
  "check_event_type event_type chained =
     (case event_type of
        None \<Rightarrow> Inr ()
      | Some ty \<Rightarrow>
          (case map_of required_field ty of
             None \<Rightarrow> Inr ()
           | Some field \<Rightarrow>
               guardE (field \<in> fst ` set chained)
                 (ValueError (ty @ '' event requires '' @ py_repr field @ '' field''))))"

definition append_chained_entry ::
  "codec \<Rightarrow> (string \<times> json) list \<Rightarrow> string option \<Rightarrow> ledger \<Rightarrow> exn + (string \<times> ledger)" where
  "append_chained_entry cx entry event_type file =
     bindE (if event_type = Some ''backfill'' then Inr GENESIS_HASH
            else bindE (read_last_hash cx file) (\<lambda>h. Inr (if truthy h then the h else GENESIS_HASH)))
       (\<lambda>prev_hash.
        let chained = chained_entry prev_hash event_type entry in
        bindE (check_event_type event_type chained) (\<lambda>_.
        Inr (entry_hash cx chained, write_line cx chained file)))"




section \<open>Inspection and verification\<close>

text \<open>\<^verbatim>\<open>int(...)\<close> of a JSON value; \<open>None\<close> is the \<^verbatim>\<open>TypeError\<close> or \<^verbatim>\<open>ValueError\<close> the caller swallows.\<close>

fun py_int_of :: "json \<Rightarrow> int option" where
  "py_int_of (JInt i) = Some i"
| "py_int_of (JBool b) = Some (if b then 1 else 0)"
| "py_int_of (JNum q) = Some (if q < 0 then - \<lfloor>- q\<rfloor> else \<lfloor>q\<rfloor>)"
| "py_int_of (JStr s) = int_of_text s"
| "py_int_of _ = None"

definition is_marker :: "(string \<times> json) list \<Rightarrow> bool" where
  "is_marker entry = (map_of entry ''type'' = Some (JStr EPOCH_MARKER_TYPE))"

definition has_prev :: "(string \<times> json) list \<Rightarrow> bool" where
  "has_prev entry = (map_of entry ''prev_hash'' \<noteq> None)"

definition epoch_step :: "nat \<times> json \<Rightarrow> int \<times> bool \<Rightarrow> exn + (int \<times> bool)" where
  "epoch_step item st =
     bindE (as_object (snd item)) (\<lambda>entry.
       let (max_epoch, last_has_prev) = st in
       if is_marker entry then
         Inr (case py_int_of (case map_of entry ''epoch'' of None \<Rightarrow> JInt 0 | Some v \<Rightarrow> v) of
                None \<Rightarrow> max_epoch | Some e \<Rightarrow> max max_epoch e, True)
       else Inr (max_epoch, has_prev entry))"

definition epoch_state :: "codec \<Rightarrow> ledger \<Rightarrow> exn + (int \<times> bool)" where
  "epoch_state cx file = foldE epoch_step (iter_parsed cx file) (0, False)"

datatype violation =
    Invalid_JSON nat
  | Bad_Link nat string "json option" "string option"
  | Misplaced nat string

record chain_scan =
  in_chain :: bool
  saw_chain :: bool
  saw_prefix :: bool
  saw_marker :: bool
  expected_prev :: string
  violations :: "violation list"

definition scan_start :: "violation list \<Rightarrow> chain_scan" where
  "scan_start parse_errors =
     \<lparr>in_chain = False, saw_chain = False, saw_prefix = False, saw_marker = False,
      expected_prev = GENESIS_HASH, violations = parse_errors\<rparr>"

text \<open>The body of the loop; \<^verbatim>\<open>entry.get\<close> gives \<open>None\<close> for an absent link.\<close>

definition verify_entry :: "codec \<Rightarrow> nat \<Rightarrow> (string \<times> json) list \<Rightarrow> chain_scan \<Rightarrow> chain_scan" where
  "verify_entry cx line_no entry st =
     (let actual_prev = map_of entry ''prev_hash'';
          next = st\<lparr>expected_prev := entry_hash cx entry\<rparr>
      in if is_marker entry then
           next\<lparr>saw_chain := True, saw_marker := True, in_chain := True,
                violations := violations st @
                  (if actual_prev \<noteq> Some (JStr GENESIS_HASH)
                   then [Bad_Link line_no GENESIS_HASH actual_prev
                           (Some ''chain_epoch_start marker must anchor to GENESIS'')] else [])\<rparr>
         else if \<not> in_chain st then
           (if has_prev entry then
              (if actual_prev = Some (JStr GENESIS_HASH) \<and> \<not> saw_prefix st
               then next\<lparr>saw_chain := True, in_chain := True\<rparr>
               else next\<lparr>saw_chain := True, in_chain := True,
                         violations := violations st @ [Misplaced line_no
                           ''chained entry without a preceding chain_epoch_start marker (unsealed / naive flip)'']\<rparr>)
            else st\<lparr>saw_prefix := True\<rparr>)
         else
           next\<lparr>violations := violations st @
                 (if \<not> has_prev entry then [Misplaced line_no ''unchained entry inside a chained epoch'']
                  else if actual_prev \<noteq> Some (JStr (expected_prev st))
                  then [Bad_Link line_no (expected_prev st) actual_prev None] else [])\<rparr>)"

definition verify_step :: "codec \<Rightarrow> nat \<times> json \<Rightarrow> chain_scan \<Rightarrow> exn + chain_scan" where
  "verify_step cx item st = bindE (as_object (snd item)) (\<lambda>entry. Inr (verify_entry cx (fst item) entry st))"

definition verdict :: "chain_scan \<Rightarrow> bool \<times> violation list \<times> string" where
  "verdict st =
     (if violations st \<noteq> [] then (False, violations st, ''broken'')
      else if \<not> saw_chain st then (True, [], ''unchained'')
      else if saw_prefix st \<or> saw_marker st then (True, [], ''verified-segmented'')
      else (True, [], ''verified''))"

definition verify_chain :: "codec \<Rightarrow> ledger \<Rightarrow> exn + (bool \<times> violation list \<times> string)" where
  "verify_chain cx file =
     (if content file = [] then Inr (True, [], ''unchained'')
      else
        let entries = iter_parsed cx file;
            parse_errors = [Invalid_JSON n. (n, j) \<leftarrow> parsed_lines cx file, j = None]
        in if parse_errors \<noteq> [] \<and> entries = [] then Inr (False, parse_errors, ''broken'')
           else if entries = [] then Inr (True, [], ''unchained'')
           else bindE (foldE (verify_step cx) entries (scan_start parse_errors)) (\<lambda>st. Inr (verdict st)))"

text \<open>
  \<^verbatim>\<open>walk_chain\<close> is a generator: what it yields, and the exception that ends it, if any.
\<close>

fun walk_entries :: "codec \<Rightarrow> (nat \<times> json) list \<Rightarrow> (nat \<times> json \<times> string) list \<times> exn option" where
  "walk_entries cx [] = ([], None)"
| "walk_entries cx ((n, e) # es) =
     (case compute_entry_hash cx e of
        Inl x \<Rightarrow> ([], Some x)
      | Inr h \<Rightarrow> (let (ys, x) = walk_entries cx es in ((n, e, h) # ys, x)))"

definition walk_chain :: "codec \<Rightarrow> ledger \<Rightarrow> (nat \<times> json \<times> string) list \<times> exn option" where
  "walk_chain cx file =
     (if file = None then ([], Some (OSError ''No such file or directory''))
      else walk_entries cx (iter_parsed cx file))"


section \<open>A ledger as it is written\<close>

definition entry_line :: "codec \<Rightarrow> (string \<times> json) list \<Rightarrow> string" where
  "entry_line cx e = json_text (float_show cx) '', '' '': '' (JObj e)"

definition ledger_text :: "codec \<Rightarrow> (string \<times> json) list list \<Rightarrow> string" where
  "ledger_text cx es = concat (map (\<lambda>e. entry_line cx e @ [CHR 10]) es)"

definition entry_ok :: "codec \<Rightarrow> (string \<times> json) list \<Rightarrow> bool" where
  "entry_ok cx e = json_ok (float_read cx) (float_show cx) (JObj e)"

text \<open>\<open>holds cx file es\<close>: the file is exactly the lines of the entries.\<close>

definition holds :: "codec \<Rightarrow> ledger \<Rightarrow> (string \<times> json) list list \<Rightarrow> bool" where
  "holds cx file es = (content file = ledger_text cx es \<and> list_all (entry_ok cx) es)"

lemma plain_separators: "separators '', '' '': ''" "separators '','' '':''"
  by code_simp+

lemma entry_line_printable:
  assumes "entry_ok cx e"
  shows "list_all printable (entry_line cx e)"
  unfolding entry_line_def
  by (rule json_text_printable [OF _ _ json_ok_printable [OF assms [unfolded entry_ok_def]]])
     (simp_all add: printable_def)

lemma entry_line_braces: "\<exists>mid. entry_line cx e = CHR ''{'' # mid @ [CHR ''}'']"
  by (simp add: entry_line_def)

lemma entry_line_loads: "entry_ok cx e \<Longrightarrow> json_loads (float_read cx) (entry_line cx e) = Some (JObj e)"
  unfolding entry_line_def entry_ok_def by (rule json_loads_text [OF plain_separators(1)])

lemma printable_no_break: "printable c \<Longrightarrow> c \<noteq> CHR 10 \<and> c \<noteq> CHR 13"
  by (auto simp: printable_def)

lemma entry_line_no_break:
  assumes "entry_ok cx e"
  shows "CHR 10 \<notin> set (entry_line cx e)" "CHR 13 \<notin> set (entry_line cx e)"
  using entry_line_printable [OF assms] printable_no_break by (auto simp: list_all_iff)

lemma strip_entry_line: "py_strip (entry_line cx e) = entry_line cx e"
proof -
  obtain mid where "entry_line cx e = CHR ''{'' # mid @ [CHR ''}'']" using entry_line_braces by blast
  then show ?thesis by (simp add: py_strip_def is_space_def)
qed

lemma translate_newlines_id: "CHR 13 \<notin> set s \<Longrightarrow> translate_newlines s = s"
  by (induction s rule: translate_newlines.induct) auto

lemma split_lines_line: "CHR 10 \<notin> set l \<Longrightarrow> split_lines (l @ CHR 10 # rest) = l # split_lines rest"
  by (induction l) auto

lemma split_ledger_text:
  "list_all (entry_ok cx) es \<Longrightarrow> split_lines (ledger_text cx es) = map (entry_line cx) es @ [[]]"
  by (induction es) (simp_all add: ledger_text_def split_lines_line entry_line_no_break)

lemma ledger_text_no_return: "list_all (entry_ok cx) es \<Longrightarrow> CHR 13 \<notin> set (ledger_text cx es)"
  by (induction es) (auto simp: ledger_text_def entry_line_no_break)

lemma numbered_lines_holds:
  assumes "holds cx file es"
  shows "numbered_lines file = enumerate 1 (map (entry_line cx) es)"
proof -
  have ok: "list_all (entry_ok cx) es" and c: "content file = ledger_text cx es"
    using assms by (simp_all add: holds_def)
  have "filter (\<lambda>(n, l). l \<noteq> []) (enumerate k (map (entry_line cx) es @ [[]])) = enumerate k (map (entry_line cx) es)" for k
    using entry_line_braces [of cx] by (induction es arbitrary: k) (simp_all, metis list.distinct(1))
  then show ?thesis
    by (simp add: numbered_lines_def c translate_newlines_id [OF ledger_text_no_return [OF ok]]
        split_ledger_text [OF ok] strip_entry_line comp_def) (simp add: py_strip_def)
qed

lemma parsed_lines_holds:
  assumes "holds cx file es"
  shows "parsed_lines cx file = map (\<lambda>(n, e). (n, Some (JObj e))) (enumerate 1 es)"
proof -
  have "list_all (entry_ok cx) es" using assms by (simp add: holds_def)
  then have "map (\<lambda>(n, l). (n, json_loads (float_read cx) l)) (enumerate k (map (entry_line cx) es)) =
      map (\<lambda>(n, e). (n, Some (JObj e))) (enumerate k es)" for k
    by (induction es arbitrary: k) (simp_all add: entry_line_loads)
  then show ?thesis by (simp add: parsed_lines_def numbered_lines_holds [OF assms])
qed

definition numbered :: "nat \<Rightarrow> (string \<times> json) list list \<Rightarrow> (nat \<times> json) list" where
  "numbered k es = map (\<lambda>(n, e). (n, JObj e)) (enumerate k es)"

lemma iter_parsed_holds:
  assumes "holds cx file es"
  shows "iter_parsed cx file = numbered 1 es" "[Invalid_JSON n. (n, j) \<leftarrow> parsed_lines cx file, j = None] = []"
  unfolding iter_parsed_def parsed_lines_holds [OF assms] numbered_def
  by (simp_all add: comp_def split_beta)

section \<open>The last hash\<close>

lemma seek_back_newline: "bytes ! pos = CHR 10 \<Longrightarrow> seek_back bytes pos = Suc pos"
  by simp

lemma seek_back_other:
  "bytes ! pos \<noteq> CHR 10 \<Longrightarrow> seek_back bytes pos = (if pos = 0 then 0 else seek_back bytes (pos - 1))"
  by simp

declare seek_back.simps [simp del]

lemma seek_back_line:
  assumes "pre = [] \<or> last pre = CHR 10" and "CHR 10 \<notin> set l" and "k < length l"
  shows "seek_back (pre @ l @ [CHR 10]) (length pre + k) = length pre"
  using assms(3)
proof (induction k)
  case 0
  have "(pre @ l @ [CHR 10]) ! length pre \<noteq> CHR 10"
    using 0 assms(2) by (cases l) (auto simp: nth_append)
  moreover have "(pre @ l @ [CHR 10]) ! (length pre - 1) = CHR 10" if "pre \<noteq> []"
    using that assms(1) by (simp add: nth_append last_conv_nth)
  ultimately show ?case
    by (cases "pre = []") (simp_all add: seek_back_other seek_back_newline)
next
  case (Suc k)
  have "l ! Suc k \<noteq> CHR 10" using assms(2) by (rule contrapos_nn) (metis nth_mem Suc.prems)
  then have "(pre @ l @ [CHR 10]) ! (length pre + Suc k) \<noteq> CHR 10"
    using Suc.prems by (simp add: nth_append)
  from seek_back_other [OF this] show ?case using Suc by simp
qed

lemma ledger_text_snoc: "ledger_text cx (es @ [e]) = ledger_text cx es @ entry_line cx e @ [CHR 10]"
  by (simp add: ledger_text_def)

lemma ledger_text_end: "ledger_text cx es = [] \<or> last (ledger_text cx es) = CHR 10"
  by (cases es rule: rev_cases) (simp_all add: ledger_text_snoc ledger_text_def)

lemma last_line_snoc:
  assumes "entry_ok cx e"
  shows "last_line (ledger_text cx (es @ [e])) = entry_line cx e"
proof -
  let ?pre = "ledger_text cx es" and ?l = "entry_line cx e"
  obtain mid where mid: "?l = CHR ''{'' # mid @ [CHR ''}'']" using entry_line_braces by blast
  have "seek_back (?pre @ ?l @ [CHR 10]) (length ?pre + (length ?l - 1)) = length ?pre"
    by (rule seek_back_line [OF ledger_text_end entry_line_no_break(1) [OF assms]]) (simp add: mid)
  then have "last_line (?pre @ ?l @ [CHR 10]) = py_strip (read_line (?l @ [CHR 10]))"
    by (simp add: last_line_def mid)
  moreover have "read_line (?l @ [CHR 10]) = ?l @ [CHR 10]"
  proof -
    have "CHR 10 \<notin> set t \<Longrightarrow> takeWhile (\<lambda>c. c \<noteq> CHR 10) (t @ [CHR 10]) = t \<and>
        dropWhile (\<lambda>c. c \<noteq> CHR 10) (t @ [CHR 10]) = [CHR 10]" for t
      by (induction t) auto
    from this [OF entry_line_no_break(1) [OF assms]] show ?thesis by (simp add: read_line_def)
  qed
  moreover have "py_strip (?l @ [CHR 10]) = ?l" by (simp add: mid py_strip_def is_space_def)
  ultimately show ?thesis by (simp add: ledger_text_snoc)
qed


lemma read_last_hash_holds:
  assumes "holds cx file es"
  shows "read_last_hash cx file = Inr (if es = [] then None else Some (entry_hash cx (last es)))"
proof (cases es rule: rev_cases)
  case Nil
  with assms show ?thesis by (simp add: read_last_hash_def holds_def ledger_text_def)
next
  case (snoc fs e)
  have ok: "entry_ok cx e" using assms snoc by (simp add: holds_def)
  have ne: "entry_line cx e \<noteq> []" using entry_line_braces [of cx e] by auto
  have c: "content file = ledger_text cx (fs @ [e])" using assms snoc by (simp add: holds_def)
  then have "content file \<noteq> []" by (simp add: ledger_text_snoc)
  with snoc show ?thesis
    by (simp add: read_last_hash_def c last_line_snoc [OF ok] entry_line_loads [OF ok] compute_entry_hash_def ne)
qed

lemma entry_ok_update:
  assumes "entry_ok cx e"
  shows "entry_ok cx (AList.update k (JStr v) e)"
proof -
  have "list_all (\<lambda>(k, v). json_ok rf sf v) e \<Longrightarrow> list_all (\<lambda>(k, v). json_ok rf sf v) (AList.update k (JStr v) e)" for rf sf
    by (induction e) auto
  with assms show ?thesis by (simp add: entry_ok_def distinct_update)
qed

lemma chained_entry_ok: "entry_ok cx e \<Longrightarrow> entry_ok cx (chained_entry prev ty e)"
  by (simp add: chained_entry_def Let_def entry_ok_update)

lemma chained_entry_fields:
  "map_of (chained_entry prev ty e) ''prev_hash'' = Some (JStr prev)"
  "map_of (chained_entry prev ty e) ''type'' = map_of e ''type''"
  by (simp_all add: chained_entry_def Let_def update_conv')


lemma holds_write: "holds cx file es \<Longrightarrow> entry_ok cx e \<Longrightarrow> holds cx (write_line cx e file) (es @ [e])"
  by (simp add: holds_def write_line_def content_def ledger_text_snoc entry_line_def)

text \<open>What a regular append links the entry to.\<close>

definition link_of :: "codec \<Rightarrow> (string \<times> json) list list \<Rightarrow> string" where
  "link_of cx es =
     (if es = [] \<or> entry_hash cx (last es) = [] then GENESIS_HASH else entry_hash cx (last es))"

lemma append_chained_entry_holds:
  assumes "holds cx file es" and "ty \<noteq> Some ''backfill''"
  shows "append_chained_entry cx e ty file =
    bindE (check_event_type ty (chained_entry (link_of cx es) ty e))
      (\<lambda>_. Inr (entry_hash cx (chained_entry (link_of cx es) ty e), write_line cx (chained_entry (link_of cx es) ty e) file))"
  using assms(2) by (simp add: append_chained_entry_def read_last_hash_holds [OF assms(1)] link_of_def Let_def)

lemma append_chained_entry_any:
  assumes "holds cx file es"
  shows "append_chained_entry cx e ty file =
    (let c = chained_entry (if ty = Some ''backfill'' then GENESIS_HASH else link_of cx es) ty e
     in bindE (check_event_type ty c) (\<lambda>_. Inr (entry_hash cx c, write_line cx c file)))"
proof (cases "ty = Some ''backfill''")
  case True
  then show ?thesis by (simp add: append_chained_entry_def Let_def)
qed (simp add: append_chained_entry_holds [OF assms] Let_def)

section \<open>Reading back\<close>

lemma walk_entries_numbered:
  "walk_entries cx (numbered k es) = (map (\<lambda>(n, e). (n, JObj e, entry_hash cx e)) (enumerate k es), None)"
  by (induction es arbitrary: k) (simp_all add: numbered_def compute_entry_hash_def)

lemma walk_chain_holds:
  assumes "holds cx file es" and "file \<noteq> None"
  shows "walk_chain cx file = (map (\<lambda>(n, e). (n, JObj e, entry_hash cx e)) (enumerate 1 es), None)"
  using assms(2) by (simp add: walk_chain_def iter_parsed_holds(1) [OF assms(1)] walk_entries_numbered)

lemma fst_walk_chain_holds:
  assumes "holds cx file es"
  shows "fst (walk_chain cx file) = map (\<lambda>(n, e). (n, JObj e, entry_hash cx e)) (enumerate 1 es)"
proof (cases "file = None")
  case True
  with assms have "es = []" by (cases es) (simp_all add: holds_def content_def ledger_text_def)
  with True show ?thesis by (simp add: walk_chain_def)
qed (simp add: walk_chain_holds [OF assms])

text \<open>
  C37: On a ledger that holds one line per entry (a missing or empty file holds none) an appended entry is
  read back: walking the ledger gives what it gave before, then the new line with the entry, its event type
  and its link, and the hash that the append returned. The link is the hash of the last line, for the first
  entry and for every entry of type \<^verbatim>\<open>backfill\<close> the genesis hash. Reading goes through the text of the file.
\<close>

theorem appended_entry_reads_back:
  assumes "holds cx file es" and "entry_ok cx e" and "append_chained_entry cx e ty file = Inr (h, file')"
  shows "\<exists>linked. walk_chain cx file' = (fst (walk_chain cx file) @ [(Suc (length es), JObj linked, h)], None) \<and>
    map_of linked ''prev_hash'' = Some (JStr (if ty = Some ''backfill'' then GENESIS_HASH else link_of cx es)) \<and>
    map_of linked ''event_type'' = (if truthy ty then Some (JStr (the ty)) else map_of e ''event_type'') \<and>
    (\<forall>k. k \<notin> {''prev_hash'', ''event_type''} \<longrightarrow> map_of linked k = map_of e k)"
proof -
  let ?c = "chained_entry (if ty = Some ''backfill'' then GENESIS_HASH else link_of cx es) ty e"
  have h: "h = entry_hash cx ?c" "file' = write_line cx ?c file"
    using assms(3) append_chained_entry_any [OF assms(1), of e ty] unfolding Let_def by (auto simp: bindE_eq_Inr)
  have new: "holds cx file' (es @ [?c])" unfolding h(2) by (rule holds_write [OF assms(1) chained_entry_ok [OF assms(2)]])
  have "file' \<noteq> None" by (simp add: h(2) write_line_def)
  from walk_chain_holds [OF new this]
  have "walk_chain cx file' = (fst (walk_chain cx file) @ [(Suc (length es), JObj ?c, h)], None)"
    unfolding fst_walk_chain_holds [OF assms(1)] h(1) by (simp add: enumerate_append_eq)
  moreover have "map_of ?c ''event_type'' = (if truthy ty then Some (JStr (the ty)) else map_of e ''event_type'') \<and>
      (\<forall>k. k \<notin> {''prev_hash'', ''event_type''} \<longrightarrow> map_of ?c k = map_of e k)"
    by (auto simp: chained_entry_def Let_def update_conv')
  ultimately show ?thesis
    using chained_entry_fields(1) [of "if ty = Some ''backfill'' then GENESIS_HASH else link_of cx es" ty e] by blast
qed


definition plain_codec :: codec where
  "plain_codec = \<lparr>float_show = (\<lambda>q. ''0.5''), float_read = (\<lambda>t. 1 / 2), sha256 = (\<lambda>t. ''h'' @ py_int (int (length t))),
     time_text = py_int\<rparr>"

definition first_receipt :: "(string \<times> json) list" where
  "first_receipt = [(''dispatch'', JStr ''d-1''), (''score'', JNum (1 / 2))]"

definition ledger_demo :: ledger where
  "ledger_demo = write_line plain_codec (chained_entry GENESIS_HASH None first_receipt) None"

lemma ledger_demo_holds: "holds plain_codec ledger_demo [chained_entry GENESIS_HASH None first_receipt]"
proof -
  have "entry_ok plain_codec first_receipt" by code_simp
  then show ?thesis using holds_write [of plain_codec None "[]"] chained_entry_ok
    by (simp add: ledger_demo_def holds_def content_def ledger_text_def)
qed

lemma appended_entry_reads_back_witness:
  "\<exists>linked h file'. append_chained_entry plain_codec [(''note'', JStr ''line'')] (Some ''note'') ledger_demo = Inr (h, file') \<and>
     walk_chain plain_codec file' = (fst (walk_chain plain_codec ledger_demo) @ [(2, JObj linked, h)], None) \<and>
     map_of linked ''note'' = Some (JStr ''line'')"
proof -
  let ?e = "[(''note'', JStr ''line'')]"
  have ok: "entry_ok plain_codec ?e" by code_simp
  note read = appended_entry_reads_back [OF ledger_demo_holds ok]
  obtain h file' where a: "append_chained_entry plain_codec ?e (Some ''note'') ledger_demo = Inr (h, file')"
    by (simp add: append_chained_entry_holds [OF ledger_demo_holds] check_event_type_def required_field_def)
  from read [OF a] show ?thesis using a by fastforce
qed

section \<open>The law of the chain\<close>

definition chained :: "(string \<times> json) list \<Rightarrow> bool" where
  "chained e = (is_marker e \<or> has_prev e)"

text \<open>
  What ADR-029 asks of the entry at a position: a marker is anchored to the genesis hash; once
  anything is chained, every entry is linked to the one before; before that an entry has no link,
  except that the very first may start a chain at the genesis hash.
\<close>

definition link_ok :: "codec \<Rightarrow> (string \<times> json) list list \<Rightarrow> nat \<Rightarrow> bool" where
  "link_ok cx es i =
     (let e = es ! i; prev = map_of e ''prev_hash'' in
      if is_marker e then prev = Some (JStr GENESIS_HASH)
      else if list_ex chained (take i es) then prev = Some (JStr (entry_hash cx (es ! (i - 1))))
      else \<not> has_prev e \<or> i = 0 \<and> prev = Some (JStr GENESIS_HASH))"

definition chain_law :: "codec \<Rightarrow> (string \<times> json) list list \<Rightarrow> bool" where
  "chain_law cx es = list_all (link_ok cx es) [0..<length es]"

definition chain_status :: "(string \<times> json) list list \<Rightarrow> string" where
  "chain_status es =
     (if \<not> list_ex chained es then ''unchained''
      else if \<not> chained (hd es) \<or> list_ex is_marker es then ''verified-segmented''
      else ''verified'')"

definition scan_entries :: "codec \<Rightarrow> (nat \<times> (string \<times> json) list) list \<Rightarrow> chain_scan \<Rightarrow> chain_scan" where
  "scan_entries cx nes st = fold (\<lambda>(n, e). verify_entry cx n e) nes st"

lemma foldE_verify:
  "foldE (verify_step cx) (map (\<lambda>(n, e). (n, JObj e)) nes) st = Inr (scan_entries cx nes st)"
  by (induction nes arbitrary: st) (auto simp: verify_step_def scan_entries_def)

lemma chain_law_snoc: "chain_law cx (es @ [e]) \<longleftrightarrow> chain_law cx es \<and> link_ok cx (es @ [e]) (length es)"
proof -
  have "link_ok cx (es @ [e]) i = link_ok cx es i" if "i < length es" for i
    using that by (cases i) (simp_all add: link_ok_def nth_append Let_def)
  then show ?thesis by (auto simp: chain_law_def list_all_iff)
qed

definition scan_agrees :: "codec \<Rightarrow> (string \<times> json) list list \<Rightarrow> violation list \<Rightarrow> chain_scan \<Rightarrow> bool" where
  "scan_agrees cx es errs st =
     ((in_chain st \<longleftrightarrow> list_ex chained es) \<and> (saw_chain st \<longleftrightarrow> list_ex chained es) \<and>
      (saw_prefix st \<longleftrightarrow> es \<noteq> [] \<and> \<not> chained (hd es)) \<and> (saw_marker st \<longleftrightarrow> list_ex is_marker es) \<and>
      (in_chain st \<longrightarrow> expected_prev st = entry_hash cx (last es)) \<and>
      (violations st = [] \<longleftrightarrow> errs = [] \<and> chain_law cx es))"

lemma link_ok_end:
  "link_ok cx (es @ [e]) (length es) =
     (if is_marker e then map_of e ''prev_hash'' = Some (JStr GENESIS_HASH)
      else if list_ex chained es then map_of e ''prev_hash'' = Some (JStr (entry_hash cx (last es)))
      else \<not> has_prev e \<or> es = [] \<and> map_of e ''prev_hash'' = Some (JStr GENESIS_HASH))"
proof (cases "list_ex chained es")
  case True
  then have "es \<noteq> []" by auto
  with True show ?thesis by (simp add: link_ok_def Let_def nth_append last_conv_nth)
next
  case False
  then show ?thesis by (simp add: link_ok_def Let_def)
qed

lemma scan_agrees_step:
  assumes "scan_agrees cx es errs st"
  shows "scan_agrees cx (es @ [e]) errs (verify_entry cx n e st)"
proof -
  from assms have ic: "list_ex chained es = in_chain st" and sc: "saw_chain st = in_chain st"
    and sp: "saw_prefix st = (es \<noteq> [] \<and> \<not> chained (hd es))" and sm: "saw_marker st = list_ex is_marker es"
    and ep: "in_chain st \<Longrightarrow> expected_prev st = entry_hash cx (last es)"
    and vi: "violations st = [] \<longleftrightarrow> errs = [] \<and> chain_law cx es"
    by (simp_all add: scan_agrees_def)
  have hd_ex: "\<not> in_chain st \<Longrightarrow> es \<noteq> [] \<Longrightarrow> \<not> chained (hd es)" using ic by (cases es) auto
  have ne: "in_chain st \<Longrightarrow> es \<noteq> []" using ic by auto
  have hds: "hd (es @ [e]) = (if es = [] then e else hd es)" by simp
  note facts = scan_agrees_def verify_entry_def Let_def chain_law_snoc link_ok_end ic sc sp sm vi hds
  consider (marker) "is_marker e" | (inside) "\<not> is_marker e" "in_chain st"
    | (start) "\<not> is_marker e" "\<not> in_chain st" "has_prev e"
    | (prefix) "\<not> is_marker e" "\<not> in_chain st" "\<not> has_prev e" by blast
  then show ?thesis
  proof cases
    case marker
    then have "chained e" by (simp add: chained_def)
    with marker show ?thesis by (auto simp: facts)
  next
    case inside
    then show ?thesis using ne by (auto simp: facts ep has_prev_def)
  next
    case start
    then have "chained e" by (simp add: chained_def)
    with start hd_ex show ?thesis by (auto simp: facts)
  next
    case prefix
    then have "\<not> chained e" by (simp add: chained_def)
    with prefix hd_ex show ?thesis by (auto simp: facts)
  qed
qed

lemma scan_entries_agrees:
  "scan_agrees cx es errs st \<Longrightarrow> scan_agrees cx (es @ map snd nes) errs (scan_entries cx nes st)"
proof (induction nes arbitrary: es st)
  case Nil
  then show ?case by (simp add: scan_entries_def)
next
  case (Cons ne nes)
  obtain n e where ne: "ne = (n, e)" by fastforce
  from Cons.IH [OF scan_agrees_step [OF Cons.prems, of e n]] show ?case
    by (simp add: scan_entries_def ne)
qed

lemma scan_start_agrees: "scan_agrees cx [] errs (scan_start errs)"
  by (simp add: scan_agrees_def scan_start_def chain_law_def)


lemma verdict_agrees:
  assumes "scan_agrees cx es errs st" and "es \<noteq> []"
  shows "verdict st = (errs = [] \<and> chain_law cx es, violations st,
      if errs = [] \<and> chain_law cx es then chain_status es else ''broken'')"
  using assms by (auto simp: verdict_def scan_agrees_def chain_status_def)

definition unparseable :: "codec \<Rightarrow> ledger \<Rightarrow> violation list" where
  "unparseable cx file = [Invalid_JSON n. (n, j) \<leftarrow> parsed_lines cx file, j = None]"

lemma verify_chain_law:
  assumes "map snd (iter_parsed cx file) = map JObj es"
  shows "\<exists>vs. verify_chain cx file =
      Inr (unparseable cx file = [] \<and> chain_law cx es, vs,
           if unparseable cx file = [] \<and> chain_law cx es then chain_status es else ''broken'') \<and>
    (vs = [] \<longleftrightarrow> unparseable cx file = [] \<and> chain_law cx es)"
proof (cases "content file = []")
  case True
  then have "parsed_lines cx file = []"
    by (simp add: parsed_lines_def numbered_lines_def py_strip_def)
  then have "unparseable cx file = []" "es = []"
    using assms by (simp_all add: unparseable_def iter_parsed_def)
  with True show ?thesis by (simp add: verify_chain_def chain_law_def chain_status_def)
next
  case nonempty: False
  show ?thesis
  proof (cases "es = []")
    case True
    then have "iter_parsed cx file = []" using assms by simp
    with nonempty True show ?thesis
      by (simp add: verify_chain_def Let_def chain_law_def chain_status_def unparseable_def [symmetric])
  next
    case False
    define nes where "nes = zip (map fst (iter_parsed cx file)) es"
    have len: "length (iter_parsed cx file) = length es" using assms by (metis length_map)
    have "iter_parsed cx file = zip (map fst (iter_parsed cx file)) (map snd (iter_parsed cx file))"
      by (simp add: zip_map_fst_snd)
    also have "\<dots> = map (\<lambda>(n, e). (n, JObj e)) nes"
      unfolding assms nes_def by (simp add: zip_map2)
    finally have it: "iter_parsed cx file = map (\<lambda>(n, e). (n, JObj e)) nes" .
    have es: "map snd nes = es" using len by (simp add: nes_def)
    have ag: "scan_agrees cx es (unparseable cx file) (scan_entries cx nes (scan_start (unparseable cx file)))"
      using scan_entries_agrees [OF scan_start_agrees [of cx "unparseable cx file"], of nes] by (simp add: es)
    then have vs: "violations (scan_entries cx nes (scan_start (unparseable cx file))) = [] \<longleftrightarrow>
        unparseable cx file = [] \<and> chain_law cx es" unfolding scan_agrees_def by blast
    have "nes \<noteq> []" using es False by auto
    then show ?thesis using nonempty vs verdict_agrees [OF ag False]
      by (simp add: verify_chain_def it foldE_verify unparseable_def [symmetric])
  qed
qed

text \<open>
  C38: The verifier decides the law of the chain: it reports a ledger whose lines are JSON objects
  as valid exactly when every line parses and every entry is anchored, linked or unlinked as its
  place asks, reports violations exactly otherwise, and its status names what kind of ledger it is.
\<close>

theorem verifier_decides_the_chain_law:
  assumes "map snd (iter_parsed cx file) = map JObj es"
  shows "\<exists>vs. verify_chain cx file =
      Inr (unparseable cx file = [] \<and> chain_law cx es, vs,
           if unparseable cx file = [] \<and> chain_law cx es then chain_status es else ''broken'') \<and>
    (vs = [] \<longleftrightarrow> unparseable cx file = [] \<and> chain_law cx es)"
  by (rule verify_chain_law [OF assms])

lemma verifier_decides_the_chain_law_witness:
  "verify_chain plain_codec ledger_demo = Inr (True, [], ''verified'')"
proof -
  let ?es = "[chained_entry GENESIS_HASH None first_receipt]"
  have "map snd (iter_parsed plain_codec ledger_demo) = map JObj ?es"
    by (simp add: iter_parsed_holds(1) [OF ledger_demo_holds] numbered_def)
  note law = verifier_decides_the_chain_law [OF this]
  have "unparseable plain_codec ledger_demo = []"
    unfolding unparseable_def by (rule iter_parsed_holds(2) [OF ledger_demo_holds])
  moreover have "chain_law plain_codec ?es" "chain_status ?es = ''verified''" by code_simp+
  ultimately show ?thesis using law by auto
qed

text \<open>A line that is JSON but not an object is no violation: the verifier raises on it.\<close>

lemma verifier_raises_on_other_json:
  assumes "(n, j) \<in> set (iter_parsed cx file)" and "as_object j = Inl AttributeError"
  shows "verify_chain cx file = Inl AttributeError"
proof -
  have only: "as_object j' = Inl x \<Longrightarrow> x = AttributeError" for j' x by (cases j') auto
  have "(n, j) \<in> set items \<Longrightarrow> foldE (verify_step cx) items st = Inl AttributeError" for items st
  proof (induction items arbitrary: st)
    case (Cons it items)
    then show ?case
      by (cases "as_object (snd it)") (auto simp: verify_step_def assms(2) dest: only)
  qed simp
  from this [OF assms(1)] assms(1) show ?thesis
  proof -
    have "content file \<noteq> []"
    proof
      assume "content file = []"
      then have "iter_parsed cx file = []"
        by (simp add: iter_parsed_def parsed_lines_def numbered_lines_def py_strip_def)
      with assms(1) show False by simp
    qed
    moreover have "iter_parsed cx file \<noteq> []" using assms(1) by auto
    ultimately show ?thesis
      using \<open>\<And>st. foldE (verify_step cx) (iter_parsed cx file) st = Inl AttributeError\<close>
      by (simp add: verify_chain_def)
  qed
qed


section \<open>Appending keeps the law\<close>




definition entries_of :: "codec \<Rightarrow> ledger \<Rightarrow> json list" where
  "entries_of cx file = map snd (iter_parsed cx file)"

lemma entries_of_holds: "holds cx file es \<Longrightarrow> entries_of cx file = map JObj es"
proof -
  have "map snd (map (\<lambda>(n, e). (n, JObj e)) (enumerate k es)) = map JObj es" for k
    by (induction es arbitrary: k) simp_all
  then show "holds cx file es \<Longrightarrow> entries_of cx file = map JObj es"
    by (simp only: entries_of_def iter_parsed_holds(1) numbered_def)
qed





lemma chained_entry_marker: "is_marker (chained_entry prev ty e) = is_marker e"
  by (simp add: is_marker_def chained_entry_fields)











lemma list_ex_take: "list_ex p (take k xs) \<longleftrightarrow> (\<exists>j<k. j < length xs \<and> p (xs ! j))"
  by (auto simp: list_ex_length)

lemma chain_law_nth: "chain_law cx es \<longleftrightarrow> (\<forall>k < length es. link_ok cx es k)"
  by (auto simp: chain_law_def list_all_iff)

lemma verify_holds:
  assumes "holds cx file es"
  shows "\<exists>vs. verify_chain cx file =
      Inr (chain_law cx es, vs, if chain_law cx es then chain_status es else ''broken'') \<and> (vs = [] \<longleftrightarrow> chain_law cx es)"
proof -
  have "unparseable cx file = []" unfolding unparseable_def by (rule iter_parsed_holds(2) [OF assms])
  then show ?thesis using verify_chain_law [OF entries_of_holds [OF assms, unfolded entries_of_def]] by simp
qed

text \<open>
  C40: A changed entry is detected by its successor: if the content of an entry inside a chained
  epoch is replaced and the entry after it is left as it is, the verifier reports the ledger as
  broken, unless the two contents have the same SHA-256.
\<close>

theorem changed_entry_is_detected:
  assumes "holds cx file es" and "verify_chain cx file = Inr (True, [], st)"
    and "holds cx file' (es[i := e])" and "Suc i < length es"
    and "chained (es ! i)" and "\<not> is_marker (es ! Suc i)"
    and "sha256 cx (canonical_json cx e) \<noteq> sha256 cx (canonical_json cx (es ! i))"
  shows "\<exists>vs. verify_chain cx file' = Inr (False, vs, ''broken'') \<and> vs \<noteq> []"
proof -
  from verify_holds [OF assms(1)] assms(2) have "chain_law cx es" by auto
  then have "link_ok cx es (Suc i)" using assms(4) by (simp add: chain_law_nth)
  moreover have "list_ex chained (take (Suc i) es)" using assms(4,5) by (auto simp: list_ex_take)
  ultimately have link: "map_of (es ! Suc i) ''prev_hash'' = Some (JStr (entry_hash cx (es ! i)))"
    using assms(6) by (simp add: link_ok_def Let_def)
  then have "has_prev (es ! Suc i)" by (simp add: has_prev_def)
  then have "\<not> link_ok cx (es[i := e]) (Suc i)"
    using assms(4,6,7) link by (auto simp: link_ok_def Let_def entry_hash_def)
  then have "\<not> chain_law cx (es[i := e])" using assms(4) by (auto simp: chain_law_nth)
  with verify_holds [OF assms(3)] show ?thesis by auto
qed




lemma ledger_text_holds: "list_all (entry_ok cx) es \<Longrightarrow> holds cx (Some (ledger_text cx es)) es"
  by (simp add: holds_def content_def)


definition linked_demo :: "(string \<times> json) list list" where
  "linked_demo =
     (let a = chained_entry GENESIS_HASH None first_receipt
      in [a, chained_entry (entry_hash plain_codec a) None [(''note'', JInt 7)]])"

lemma changed_entry_is_detected_witness:
  "\<exists>vs. verify_chain plain_codec (Some (ledger_text plain_codec (linked_demo[0 := [(''dispatch'', JStr ''forged'')]]))) =
     Inr (False, vs, ''broken'') \<and> vs \<noteq> []"
proof (rule changed_entry_is_detected [where i = 0])
  show "holds plain_codec (Some (ledger_text plain_codec linked_demo)) linked_demo"
    by (rule ledger_text_holds) code_simp
  show "verify_chain plain_codec (Some (ledger_text plain_codec linked_demo)) = Inr (True, [], ''verified'')"
    by code_simp
  show "holds plain_codec (Some (ledger_text plain_codec (linked_demo[0 := [(''dispatch'', JStr ''forged'')]])))
      (linked_demo[0 := [(''dispatch'', JStr ''forged'')]])"
    by (rule ledger_text_holds) code_simp
  show "Suc 0 < length linked_demo" "chained (linked_demo ! 0)" "\<not> is_marker (linked_demo ! Suc 0)"
    by code_simp+
  show "sha256 plain_codec (canonical_json plain_codec [(''dispatch'', JStr ''forged'')]) \<noteq>
      sha256 plain_codec (canonical_json plain_codec (linked_demo ! 0))" by code_simp
qed

section \<open>What the chain does not protect\<close>

text \<open>
  A hash leaves out the link of its entry, so links do not accumulate: history is rewritten by
  replacing one entry and one link, and nothing after it changes, in particular no later hash.
\<close>

lemma filter_update_link:
  "filter (\<lambda>(k, v). k \<noteq> p) (AList.update p w e) = filter (\<lambda>(k, v). k \<noteq> p) e"
  by (induction e) auto

lemma entry_hash_ignores_link: "entry_hash cx (AList.update ''prev_hash'' w e) = entry_hash cx e"
  by (simp add: entry_hash_def canonical_json_def filter_update_link)

definition rewrite_history ::
  "codec \<Rightarrow> nat \<Rightarrow> (string \<times> json) list \<Rightarrow> (string \<times> json) list list \<Rightarrow> (string \<times> json) list list" where
  "rewrite_history cx i e es =
     es[i := e, Suc i := AList.update ''prev_hash'' (JStr (entry_hash cx e)) (es ! Suc i)]"

lemma rewritten_history_verifies:
  assumes "chain_law cx es" and "Suc i < length es" and "has_prev (es ! i)" and "\<not> is_marker (es ! Suc i)"
    and "is_marker e = is_marker (es ! i)" and "map_of e ''prev_hash'' = map_of (es ! i) ''prev_hash''"
  shows "chain_law cx (rewrite_history cx i e es)"
    and "entry_hash cx (last (rewrite_history cx i e es)) = entry_hash cx (last es)"
proof -
  let ?fs = "rewrite_history cx i e es"
  have len: "length ?fs = length es" by (simp add: rewrite_history_def)
  have at: "?fs ! i = e" "?fs ! Suc i = AList.update ''prev_hash'' (JStr (entry_hash cx e)) (es ! Suc i)"
    "\<And>k. k \<noteq> i \<Longrightarrow> k \<noteq> Suc i \<Longrightarrow> ?fs ! k = es ! k"
    using assms(2) by (simp_all add: rewrite_history_def nth_list_update)
  have marker: "is_marker (?fs ! k) = is_marker (es ! k)" for k
    using assms(5) at by (cases "k = i"; cases "k = Suc i") (simp_all add: is_marker_def update_conv')
  have law: "\<And>k. k < length es \<Longrightarrow> link_ok cx es k" using assms(1) by (simp add: chain_law_nth)
  have before: "list_ex chained (take (Suc i) es)" using assms(2,3) by (auto simp: list_ex_take chained_def)
  have "has_prev (es ! Suc i)" using law [OF assms(2)] before assms(4)
    by (auto simp: link_ok_def Let_def has_prev_def)
  then have prev: "has_prev (?fs ! k) = has_prev (es ! k)" for k
    using assms(6) at by (cases "k = i"; cases "k = Suc i") (simp_all add: has_prev_def update_conv')
  have ex: "list_ex chained (take k ?fs) = list_ex chained (take k es)" for k
    by (simp add: list_ex_take len chained_def marker prev)
  have hash: "k \<noteq> i \<Longrightarrow> entry_hash cx (?fs ! k) = entry_hash cx (es ! k)" for k
    using at by (cases "k = Suc i") (simp_all add: entry_hash_ignores_link)
  have link: "k \<noteq> Suc i \<Longrightarrow> map_of (?fs ! k) ''prev_hash'' = map_of (es ! k) ''prev_hash''" for k
    using at assms(6) by (cases "k = i") simp_all
  have "link_ok cx ?fs k" if k: "k < length es" for k
  proof (cases "k = Suc i")
    case True
    have "\<not> is_marker (?fs ! Suc i)" using marker assms(4) by simp
    moreover have "list_ex chained (take (Suc i) ?fs)" using before ex by simp
    moreover have "map_of (?fs ! Suc i) ''prev_hash'' = Some (JStr (entry_hash cx e))"
      by (simp add: at(2) update_conv')
    ultimately show ?thesis by (simp add: True link_ok_def at(1))
  next
    case False
    show ?thesis
    proof (cases "k = 0")
      case True
      with law [OF k] False link [of k] marker [of k] prev [of k] show ?thesis
        by (auto simp: link_ok_def Let_def split: if_splits)
    next
      case pos: False
      with False have "k - 1 \<noteq> i" by simp
      with law [OF k] False link [of k] marker [of k] prev [of k] ex [of k] hash [of "k - 1"] show ?thesis
        by (auto simp: link_ok_def Let_def split: if_splits)
    qed
  qed
  then show "chain_law cx ?fs" by (simp add: chain_law_nth len)
  have "es \<noteq> []" "?fs \<noteq> []" using assms(2) by (auto simp: rewrite_history_def)
  with hash [of "length es - 1"] assms(2) show "entry_hash cx (last ?fs) = entry_hash cx (last es)"
    by (simp add: last_conv_nth len)
qed

text \<open>A backfilled entry is linked to the genesis hash, which the verifier refuses inside a chain.\<close>

lemma backfill_breaks_the_chain:
  assumes "chain_law cx es" and "list_ex chained es" and "\<not> is_marker e" and "entry_hash cx (last es) \<noteq> GENESIS_HASH"
  shows "\<not> chain_law cx (es @ [chained_entry GENESIS_HASH (Some ''backfill'') e])"
  using assms by (simp add: chain_law_snoc link_ok_end chained_entry_marker chained_entry_fields)

text \<open>A blank last line hides the last entry, so the next append starts again at the genesis hash.\<close>

lemma blank_line_hides_the_last_hash: "read_last_hash cx (Some (s @ [CHR 10, CHR 10])) = Inr None"
proof -
  have "seek_back (s @ [CHR 10, CHR 10]) (length s) = Suc (length s)"
    by (rule seek_back_newline) (simp add: nth_append)
  then have "last_line (s @ [CHR 10, CHR 10]) = []"
    by (simp add: last_line_def read_line_def py_strip_def is_space_def)
  then show ?thesis by (simp add: read_last_hash_def content_def)
qed

end
