(* ===== verification/Tracks.thy ===== *)
theory Tracks
  imports Coordination_DB Json_Text Interfaces "HOL-Library.Sublist"
begin

text \<open>
  \<^verbatim>\<open>scripts/lib/tracks.py\<close>: the planning tables of \<^verbatim>\<open>runtime_coordination.db\<close> (tracks, their phase
  history, dependency edges, open-item links) and the operations on them, with the event file
  \<^verbatim>\<open>track_events.ndjson\<close> beside the database.

  An operation on a plan gives a result, or the exception it raises, and the plan afterwards. A
  raise undoes what was written to the database since the connection was opened; a line already
  appended to the event file stays. The clock is read several times in one operation: the plan
  carries the instants that will be read, in order. Whether an append to the event file fails is
  part of the plan, too.

  The database is at migration 0024 or later; the columns and tables of later migrations may be
  absent. Schema constraints that an operation can violate raise \<^verbatim>\<open>IntegrityError\<close>.
\<close>

section \<open>Rows and the plan\<close>

record track_row =
  tr_id :: string
  tr_project :: string
  tr_title :: string
  tr_goal :: "string option"
  tr_phase :: string
  tr_next_up :: bool
  tr_sort_order :: int
  tr_priority :: "string option"
  tr_promotion :: int
  tr_template :: "string option"
  tr_rules :: "string option"
  tr_pr_ref :: "string option"
  tr_trigger :: "string option"
  tr_created_at :: int
  tr_phase_changed_at :: "int option"
  tr_completed_at :: "int option"
  tr_metadata :: "string option"
  tr_horizon :: "string option"
  tr_derived :: "string option"
  tr_decision_ref :: "string option"

record phase_row =
  ph_track :: string
  ph_project :: string
  ph_from :: string
  ph_to :: string
  ph_actor :: string
  ph_reason :: "string option"
  ph_approval :: "string option"
  ph_at :: int

record dep_row =
  dp_from :: string
  dp_from_project :: string
  dp_to :: string
  dp_to_project :: string
  dp_kind :: string
  dp_source :: string
  dp_confidence :: rat
  dp_evidence :: "string option"
  dp_at :: int

record link_row =
  lk_track :: string
  lk_project :: string
  lk_item :: string
  lk_type :: string
  lk_source :: string
  lk_at :: int
  lk_resolved_at :: "int option"
  lk_reason :: "string option"

record delivery_row =
  dv_project :: string
  dv_track :: string
  dv_pr :: int
  dv_kind :: string
  dv_set_by :: string
  dv_set_at :: int

type_synonym ledger_line = "(string \<times> json) list"

text \<open>
  The event file is what the appends have written to it, in order: a whole line with its newline, or the beginning of a line
  whose write was cut short. Whatever comes next is glued to such a beginning.
\<close>

datatype event_piece = Line ledger_line | Torn ledger_line

text \<open>How an append can fail: before it writes, in the middle of the write, or at the \<^verbatim>\<open>fsync\<close> after it.\<close>

datatype append_fault = Before_write string | Cut_short string | At_fsync string

record plan =
  coord :: store
  tracks :: "track_row list"
  phase_log :: "phase_row list"
  deps :: "dep_row list"
  links :: "link_row list"
  deliveries :: "delivery_row list"
  has_horizon :: bool
  has_decision_ref :: bool
  has_resolved_at :: bool
  has_deliveries :: bool
  has_derived :: bool
  zero_tables :: bool
  db_file :: string
  track_events :: "event_piece list"
  append_error :: "append_fault option"
  wall :: "nat \<Rightarrow> int"
  reads :: nat

type_synonym 'a outcome = "(exn + 'a) \<times> plan"

definition VALID_PHASES :: "string list" where
  "VALID_PHASES = [''queued'', ''active'', ''parked'', ''done'']"

definition VALID_HORIZONS :: "string list" where
  "VALID_HORIZONS = [''now'', ''next'', ''later'']"

definition VALID_PLAN_SCOPES :: "string list" where
  "VALID_PLAN_SCOPES = [''architecture'', ''light'']"

definition VALID_LANE_HINTS :: "string list" where
  "VALID_LANE_HINTS = [''governed'', ''direct'', ''unset'']"

definition PLANNING_METADATA_KEYS :: "string list" where
  "PLANNING_METADATA_KEYS = [''lane_hint'', ''plan_scope'', ''plan_scope_rule'']"

definition CREATED_SCOPE_RULE :: string where
  "CREATED_SCOPE_RULE = ''set at creation''"

definition ALLOWED_TRANSITIONS :: "(string \<times> string list) list" where
  "ALLOWED_TRANSITIONS =
     [(''queued'', [''active'', ''parked'']),
      (''active'', [''done'', ''parked'']),
      (''parked'', [''queued'']),
      (''done'', [''active''])]"

definition TRACK_ACTORS :: "string list" where
  "TRACK_ACTORS = [''operator'', ''T0'', ''system'']"

definition LINK_TYPES :: "string list" where
  "LINK_TYPES = [''blocks'', ''warns'', ''related'']"

definition LINK_SOURCES :: "string list" where
  "LINK_SOURCES = [''file_path'', ''mention'', ''manual'']"

definition DEPENDENCY_KINDS :: "string list" where
  "DEPENDENCY_KINDS = [''hard'', ''soft'', ''overlap'']"

definition DEPENDENCY_SOURCES :: "string list" where
  "DEPENDENCY_SOURCES = [''manual'', ''git_ancestry'', ''path_overlap'', ''oi_ref'', ''pr_ref'']"

section \<open>Operations on a plan\<close>

definition bindP :: "'a outcome \<Rightarrow> ('a \<Rightarrow> plan \<Rightarrow> 'b outcome) \<Rightarrow> 'b outcome" where
  "bindP r f = (case r of (Inl e, s) \<Rightarrow> (Inl e, s) | (Inr x, s) \<Rightarrow> f x s)"

lemma bindP_simps [simp]:
  "bindP (Inl e, s) f = (Inl e, s)"
  "bindP (Inr x, s) f = f x s"
  by (simp_all add: bindP_def)

lemma bindP_eq_Inr: "bindP r f = (Inr y, s') \<longleftrightarrow> (\<exists>x s. r = (Inr x, s) \<and> f x s = (Inr y, s'))"
  by (cases r; cases "fst r") auto

text \<open>What a raise leaves: the database as it was, the event file and the clock as they are.\<close>

definition undo_writes :: "plan \<Rightarrow> plan \<Rightarrow> plan" where
  "undo_writes s s' = s\<lparr>track_events := track_events s', reads := reads s'\<rparr>"

definition rollback :: "plan \<Rightarrow> 'a outcome \<Rightarrow> 'a outcome" where
  "rollback s r = (case r of (Inl e, s') \<Rightarrow> (Inl e, undo_writes s s') | (Inr x, s') \<Rightarrow> (Inr x, s'))"

definition get_conn :: "(plan \<Rightarrow> 'a outcome) \<Rightarrow> plan \<Rightarrow> 'a outcome" where
  "get_conn f s = (if zero_tables s then (Inl EmptySchemaDecoyError, s) else rollback s (f s))"

definition now_utc :: "plan \<Rightarrow> int \<times> plan" where
  "now_utc s = (wall s (reads s), s\<lparr>reads := Suc (reads s)\<rparr>)"

definition find_track :: "plan \<Rightarrow> string \<Rightarrow> string \<Rightarrow> track_row option" where
  "find_track s track_id project_id = find (\<lambda>t. tr_id t = track_id \<and> tr_project t = project_id) (tracks s)"

definition require_track :: "string \<Rightarrow> string \<Rightarrow> plan \<Rightarrow> track_row outcome" where
  "require_track track_id project_id s =
     (case find_track s track_id project_id of
        None \<Rightarrow> (Inl (TrackNotFoundError track_id project_id), s)
      | Some t \<Rightarrow> (Inr t, s))"

definition update_track :: "string \<Rightarrow> string \<Rightarrow> (track_row \<Rightarrow> track_row) \<Rightarrow> plan \<Rightarrow> plan" where
  "update_track track_id project_id f s =
     s\<lparr>tracks := update_where (\<lambda>t. tr_id t = track_id \<and> tr_project t = project_id) f (tracks s)\<rparr>"

text \<open>\<^verbatim>\<open>dict(conn.execute("SELECT * FROM tracks ...").fetchone())\<close> at the end of an operation.\<close>

definition track_dict :: "string \<Rightarrow> string \<Rightarrow> plan \<Rightarrow> track_row outcome" where
  "track_dict track_id project_id s = (fetch_dict (find_track s track_id project_id), s)"

section \<open>The event file\<close>

definition track_event_record ::
  "codec \<Rightarrow> int \<Rightarrow> string \<Rightarrow> string \<Rightarrow> string \<Rightarrow> string \<Rightarrow> (string \<times> json) list \<Rightarrow> ledger_line" where
  "track_event_record cx ts event_type track_id project_id actor details =
     [(''event_type'', JStr event_type), (''track_id'', JStr track_id), (''project_id'', JStr project_id),
      (''actor'', JStr actor), (''timestamp'', JStr (time_text cx ts)),
      (''record_id'',
       JStr (take 16 (sha256 cx (event_type @ '':'' @ track_id @ '':'' @ project_id @ '':'' @ time_text cx ts))))] @
     (if details = [] then [] else [(''details'', JObj details)])"

definition append_locked :: "ledger_line \<Rightarrow> plan \<Rightarrow> unit outcome" where
  "append_locked line s =
     (case append_error s of
        None \<Rightarrow> (Inr (), s\<lparr>track_events := track_events s @ [Line line]\<rparr>)
      | Some (Before_write e) \<Rightarrow> (Inl (OSError e), s)
      | Some (Cut_short e) \<Rightarrow> (Inl (OSError e), s\<lparr>track_events := track_events s @ [Torn line]\<rparr>)
      | Some (At_fsync e) \<Rightarrow> (Inl (OSError e), s\<lparr>track_events := track_events s @ [Line line]\<rparr>))"

definition emit_track_event ::
  "codec \<Rightarrow> string \<Rightarrow> string \<Rightarrow> string \<Rightarrow> string \<Rightarrow> (string \<times> json) list \<Rightarrow> plan \<Rightarrow> unit outcome" where
  "emit_track_event cx event_type track_id project_id actor details s =
     (let (ts, s1) = now_utc s
      in append_locked (track_event_record cx ts event_type track_id project_id actor details) s1)"

text \<open>
  An operation may run on a connection of its caller. The caller then commits, and emits the
  deferred events of the sink afterwards. \<open>Shared\<close> carries the file of the \<^verbatim>\<open>main\<close> schema.
\<close>

record event_spec =
  es_type :: string
  es_track :: string
  es_project :: string
  es_actor :: string
  es_details :: "(string \<times> json) list"

datatype conn = Own | Shared "string option"

definition emit_or_defer ::
  "codec \<Rightarrow> event_spec list option \<Rightarrow> string \<Rightarrow> string \<Rightarrow> string \<Rightarrow> string \<Rightarrow> (string \<times> json) list \<Rightarrow>
   plan \<Rightarrow> event_spec list option outcome" where
  "emit_or_defer cx event_sink event_type track_id project_id actor details s =
     (case event_sink of
        None \<Rightarrow> bindP (emit_track_event cx event_type track_id project_id actor details s) (\<lambda>_ s1. (Inr None, s1))
      | Some specs \<Rightarrow>
          (Inr (Some (specs @ [\<lparr>es_type = event_type, es_track = track_id, es_project = project_id,
                                es_actor = actor, es_details = details\<rparr>])), s))"

definition assert_conn_targets_db :: "conn \<Rightarrow> string \<Rightarrow> plan \<Rightarrow> exn + unit" where
  "assert_conn_targets_db c op s =
     (case c of
        Own \<Rightarrow> Inr ()
      | Shared main_file \<Rightarrow> guardE (main_file = Some (db_file s)) (ValueError (op @ '': supplied conn targets another database'')))"

definition validate_shared_conn :: "conn \<Rightarrow> event_spec list option \<Rightarrow> string \<Rightarrow> plan \<Rightarrow> exn + unit" where
  "validate_shared_conn c event_sink op s =
     (case c of
        Own \<Rightarrow> Inr ()
      | Shared _ \<Rightarrow>
          bindE (guardE (event_sink \<noteq> None) (ValueError (op @ '': a caller-supplied conn must defer its event'')))
            (\<lambda>_. assert_conn_targets_db c op s))"

definition on_conn :: "conn \<Rightarrow> (plan \<Rightarrow> 'a outcome) \<Rightarrow> plan \<Rightarrow> 'a outcome" where
  "on_conn c f s = (case c of Own \<Rightarrow> get_conn f s | Shared _ \<Rightarrow> f s)"

section \<open>Metadata\<close>

definition metadata_dict :: "codec \<Rightarrow> string option \<Rightarrow> (string \<times> json) list" where
  "metadata_dict cx metadata_json =
     (case json_loads (float_read cx) (or_else metadata_json ''{}'') of Some (JObj m) \<Rightarrow> m | _ \<Rightarrow> [])"

text \<open>Merging updates into a dictionary: \<^verbatim>\<open>None\<close>, which is JSON's null, removes the key.\<close>

definition merge_updates :: "(string \<times> json) list \<Rightarrow> (string \<times> json) list \<Rightarrow> (string \<times> json) list" where
  "merge_updates updates meta =
     fold (\<lambda>(k, v) m. if v = JNull then AList.delete k m else AList.update k v m) updates meta"

definition metadata_json_with :: "codec \<Rightarrow> string option \<Rightarrow> (string \<times> json) list \<Rightarrow> string" where
  "metadata_json_with cx existing updates =
     json_text (float_show cx) '', '' '': '' (sort_json (JObj (merge_updates updates (metadata_dict cx existing))))"

text \<open>A list or a dictionary is not hashable: looking it up in a \<^verbatim>\<open>frozenset\<close> raises.\<close>

fun hashable :: "json \<Rightarrow> bool" where
  "hashable (JList _) = False"
| "hashable (JObj _) = False"
| "hashable _ = True"

definition initial_plan_scope :: "codec \<Rightarrow> string option \<Rightarrow> exn + string option" where
  "initial_plan_scope cx metadata_json =
     (case map_of (metadata_dict cx metadata_json) ''plan_scope'' of
        None \<Rightarrow> Inr None
      | Some v \<Rightarrow>
          if \<not> hashable v then Inl TypeError
          else (case v of
                  JStr scope \<Rightarrow> if scope \<in> set VALID_PLAN_SCOPES then Inr (Some scope) else Inl (ValueError ''Invalid plan_scope'')
                | _ \<Rightarrow> Inl (ValueError ''Invalid plan_scope'')))"

definition stored_metadata_at_creation :: "codec \<Rightarrow> string option \<Rightarrow> string option \<Rightarrow> string" where
  "stored_metadata_at_creation cx metadata_json initial_scope =
     (let stored_metadata = or_else metadata_json ''{}''
      in case initial_scope of
           None \<Rightarrow> stored_metadata
         | Some _ \<Rightarrow> metadata_json_with cx (Some stored_metadata) [(''plan_scope_rule'', JStr CREATED_SCOPE_RULE)])"

definition keep_planning_keys :: "codec \<Rightarrow> string option \<Rightarrow> string \<Rightarrow> exn + string" where
  "keep_planning_keys cx stored_metadata_json metadata_json =
     (case json_loads (float_read cx) metadata_json of
        Some (JObj _) \<Rightarrow>
          let stored = metadata_dict cx stored_metadata_json
          in Inr (metadata_json_with cx (Some metadata_json)
                    (map (\<lambda>key. (key, case map_of stored key of None \<Rightarrow> JNull | Some v \<Rightarrow> v)) PLANNING_METADATA_KEYS))
      | _ \<Rightarrow> Inl (ValueError ''metadata_json must be a JSON object''))"


section \<open>Creating and updating tracks\<close>

definition ensure_horizon_column :: "string option \<Rightarrow> string \<Rightarrow> plan \<Rightarrow> exn + bool" where
  "ensure_horizon_column horizon track_id s =
     (case horizon of
        None \<Rightarrow> Inr (has_horizon s)
      | Some h \<Rightarrow> if has_horizon s then Inr True else Inl (HorizonColumnMissingError h track_id))"

definition horizon_allowed :: "string option \<Rightarrow> bool" where
  "horizon_allowed horizon = (case horizon of None \<Rightarrow> True | Some h \<Rightarrow> h \<in> set VALID_HORIZONS)"

record new_track =
  nt_phase :: string
  nt_sort_order :: int
  nt_priority :: "string option"
  nt_promotion :: int
  nt_template :: "string option"
  nt_rules :: "string option"
  nt_pr_ref :: "string option"
  nt_trigger :: "string option"
  nt_metadata :: "string option"
  nt_horizon :: "string option"
  nt_scope_origin :: string

definition new_track_defaults :: new_track where
  "new_track_defaults =
     \<lparr>nt_phase = ''queued'', nt_sort_order = 0, nt_priority = None, nt_promotion = 1, nt_template = None,
      nt_rules = None, nt_pr_ref = None, nt_trigger = None, nt_metadata = None, nt_horizon = None,
      nt_scope_origin = ''create_track''\<rparr>"

definition new_track_row :: "string \<Rightarrow> string \<Rightarrow> string \<Rightarrow> string \<Rightarrow> new_track \<Rightarrow> bool \<Rightarrow> string \<Rightarrow> int \<Rightarrow> track_row" where
  "new_track_row track_id project_id title goal_state a with_horizon stored_metadata now =
     \<lparr>tr_id = track_id, tr_project = project_id, tr_title = title, tr_goal = Some goal_state,
      tr_phase = nt_phase a, tr_next_up = False, tr_sort_order = nt_sort_order a,
      tr_priority = nt_priority a, tr_promotion = nt_promotion a, tr_template = nt_template a,
      tr_rules = nt_rules a, tr_pr_ref = nt_pr_ref a, tr_trigger = nt_trigger a, tr_created_at = now,
      tr_phase_changed_at = Some now, tr_completed_at = None, tr_metadata = Some stored_metadata,
      tr_horizon = (if with_horizon then nt_horizon a else None), tr_derived = None,
      tr_decision_ref = None\<rparr>"

text \<open>The primary key is the pair of track and project.\<close>

definition insert_track :: "track_row \<Rightarrow> plan \<Rightarrow> unit outcome" where
  "insert_track t s =
     (case find_track s (tr_id t) (tr_project t) of
        Some _ \<Rightarrow> (Inl (IntegrityError ''tracks''), s)
      | None \<Rightarrow> (Inr (), s\<lparr>tracks := tracks s @ [t]\<rparr>))"

definition scope_set_details :: "string \<Rightarrow> string \<Rightarrow> string \<Rightarrow> string option \<Rightarrow> (string \<times> json) list" where
  "scope_set_details old new reason rule =
     [(''old'', JStr old), (''new'', JStr new), (''reason'', JStr reason), (''rule'', json_opt rule)]"

definition insert_new_track ::
  "codec \<Rightarrow> string \<Rightarrow> string \<Rightarrow> string \<Rightarrow> string \<Rightarrow> new_track \<Rightarrow> string option \<Rightarrow> int \<Rightarrow> plan \<Rightarrow> track_row outcome" where
  "insert_new_track cx track_id project_id title goal_state a initial_scope now s =
     (case ensure_horizon_column (nt_horizon a) track_id s of Inl e \<Rightarrow> (Inl e, s) | Inr with_horizon \<Rightarrow>
        bindP (emit_track_event cx ''track_created'' track_id project_id ''system'' [(''title'', JStr title)] s) (\<lambda>_ s.
        bindP (case initial_scope of
                 None \<Rightarrow> (Inr (), s)
               | Some scope \<Rightarrow>
                   emit_track_event cx ''track_plan_scope_set'' track_id project_id ''system''
                     (scope_set_details ''none'' scope (''set at creation by '' @ nt_scope_origin a)
                        (Some (nt_scope_origin a))) s) (\<lambda>_ s.
        bindP (insert_track (new_track_row track_id project_id title goal_state a with_horizon
                 (stored_metadata_at_creation cx (nt_metadata a) initial_scope) now) s) (\<lambda>_ s.
        track_dict track_id project_id s))))"

definition create_track ::
  "codec \<Rightarrow> string \<Rightarrow> string \<Rightarrow> string \<Rightarrow> string \<Rightarrow> new_track \<Rightarrow> plan \<Rightarrow> track_row outcome" where
  "create_track cx track_id project_id title goal_state a s =
     (if nt_phase a \<notin> set VALID_PHASES then (Inl (InvalidPhaseError (nt_phase a)), s)
      else if \<not> horizon_allowed (nt_horizon a) then (Inl (InvalidHorizonError (the (nt_horizon a))), s)
      else case initial_plan_scope cx (nt_metadata a) of Inl e \<Rightarrow> (Inl e, s) | Inr initial_scope \<Rightarrow>
        let (now, s0) = now_utc s in
        get_conn (insert_new_track cx track_id project_id title goal_state a initial_scope now) s0)"

text \<open>The fields an author may pass; \<open>None\<close> leaves a column as it is.\<close>

record authored =
  au_title :: "string option"
  au_goal :: "string option"
  au_priority :: "string option"
  au_sort_order :: "int option"
  au_horizon :: "string option"
  au_pr_ref :: "string option"
  au_metadata :: "string option"

definition authored_fields :: "authored \<Rightarrow> string list" where
  "authored_fields a =
     map fst (filter snd
       [(''title'', au_title a \<noteq> None), (''goal_state'', au_goal a \<noteq> None), (''priority'', au_priority a \<noteq> None),
        (''sort_order'', au_sort_order a \<noteq> None), (''horizon'', au_horizon a \<noteq> None),
        (''pr_ref'', au_pr_ref a \<noteq> None), (''metadata_json'', au_metadata a \<noteq> None)])"

definition given :: "'a option \<Rightarrow> 'a \<Rightarrow> 'a" where
  "given new old = (case new of None \<Rightarrow> old | Some x \<Rightarrow> x)"

definition set_authored :: "authored \<Rightarrow> string option \<Rightarrow> track_row \<Rightarrow> track_row" where
  "set_authored a metadata t =
     t\<lparr>tr_title := given (au_title a) (tr_title t), tr_goal := (if au_goal a = None then tr_goal t else au_goal a),
       tr_priority := (if au_priority a = None then tr_priority t else au_priority a),
       tr_sort_order := given (au_sort_order a) (tr_sort_order t),
       tr_horizon := (if au_horizon a = None then tr_horizon t else au_horizon a),
       tr_pr_ref := (if au_pr_ref a = None then tr_pr_ref t else au_pr_ref a),
       tr_metadata := (if metadata = None then tr_metadata t else metadata)\<rparr>"

definition merged_metadata :: "codec \<Rightarrow> track_row \<Rightarrow> string option \<Rightarrow> exn + string option" where
  "merged_metadata cx row metadata_json =
     (case metadata_json of
        None \<Rightarrow> Inr None
      | Some m \<Rightarrow> bindE (keep_planning_keys cx (tr_metadata row) m) (\<lambda>txt. Inr (Some txt)))"

definition update_authored_fields :: "codec \<Rightarrow> string \<Rightarrow> string \<Rightarrow> authored \<Rightarrow> string \<Rightarrow> plan \<Rightarrow> track_row outcome" where
  "update_authored_fields cx track_id project_id a actor s =
     (if \<not> horizon_allowed (au_horizon a) then (Inl (InvalidHorizonError (the (au_horizon a))), s)
      else get_conn (\<lambda>s.
        bindP (require_track track_id project_id s) (\<lambda>row s.
        case merged_metadata cx row (au_metadata a) of Inl e \<Rightarrow> (Inl e, s) | Inr metadata \<Rightarrow>
        if au_horizon a \<noteq> None \<and> \<not> has_horizon s
        then (Inl (HorizonColumnMissingError (the (au_horizon a)) track_id), s)
        else if authored_fields a = [] then track_dict track_id project_id s
        else bindP (emit_track_event cx ''track_authored_synced'' track_id project_id actor
                      [(''fields'', JList (map JStr (sort (authored_fields a))))] s) (\<lambda>_ s.
             track_dict track_id project_id
               (update_track track_id project_id (set_authored a metadata) s)))) s)"

definition set_goal :: "codec \<Rightarrow> string \<Rightarrow> string \<Rightarrow> string \<Rightarrow> int \<Rightarrow> string \<Rightarrow> plan \<Rightarrow> track_row outcome" where
  "set_goal cx track_id project_id goal min_goal_chars actor s =
     (if actor \<notin> set TRACK_ACTORS then (Inl (ValueError (''Invalid actor: '' @ py_repr actor)), s)
      else let measured = int (length (py_strip goal)) in
        if measured < min_goal_chars then (Inl (GoalTooThinError measured min_goal_chars), s)
        else get_conn (\<lambda>s.
          bindP (require_track track_id project_id s) (\<lambda>row s.
          bindP (emit_track_event cx ''track_goal_set'' track_id project_id actor
                   [(''old_goal'', json_opt (tr_goal row)), (''new_goal'', JStr goal)] s) (\<lambda>_ s.
          track_dict track_id project_id
            (update_track track_id project_id (\<lambda>t. t\<lparr>tr_goal := Some goal\<rparr>) s)))) s)"

definition set_plan_scope ::
  "codec \<Rightarrow> string \<Rightarrow> string \<Rightarrow> string \<Rightarrow> string \<Rightarrow> string option \<Rightarrow> string option \<Rightarrow> string \<Rightarrow> conn \<Rightarrow>
   plan \<Rightarrow> track_row outcome" where
  "set_plan_scope cx track_id project_id scope old_scope reason rule actor c s =
     (if scope \<notin> set VALID_PLAN_SCOPES then (Inl (ValueError (''Invalid plan_scope: '' @ py_repr scope)), s)
      else if py_strip (or_else reason []) = [] then (Inl (ValueError (''set_plan_scope on '' @ py_repr track_id)), s)
      else case assert_conn_targets_db c ''set_plan_scope'' s of Inl e \<Rightarrow> (Inl e, s) | Inr _ \<Rightarrow>
        on_conn c (\<lambda>s.
          bindP (require_track track_id project_id s) (\<lambda>row s.
          let new_metadata = metadata_json_with cx (tr_metadata row)
                [(''plan_scope'', JStr scope), (''plan_scope_rule'', json_opt rule)];
              s1 = update_track track_id project_id (\<lambda>t. t\<lparr>tr_metadata := Some new_metadata\<rparr>) s
          in bindP (emit_track_event cx ''track_plan_scope_set'' track_id project_id actor
                      (scope_set_details old_scope scope (py_strip (the reason)) rule) s1) (\<lambda>_ s.
             track_dict track_id project_id s))) s)"

definition set_lane_hint :: "codec \<Rightarrow> string \<Rightarrow> string \<Rightarrow> string \<Rightarrow> string \<Rightarrow> plan \<Rightarrow> track_row outcome" where
  "set_lane_hint cx track_id project_id lane_hint actor s =
     (if lane_hint \<notin> set VALID_LANE_HINTS then (Inl (ValueError (''Invalid lane_hint: '' @ py_repr lane_hint)), s)
      else get_conn (\<lambda>s.
        bindP (require_track track_id project_id s) (\<lambda>row s.
        let new_metadata = metadata_json_with cx (tr_metadata row) [(''lane_hint'', JStr lane_hint)];
            s1 = update_track track_id project_id (\<lambda>t. t\<lparr>tr_metadata := Some new_metadata\<rparr>) s;
            old_hint = (case map_of (metadata_dict cx (tr_metadata row)) ''lane_hint'' of None \<Rightarrow> JNull | Some v \<Rightarrow> v)
        in bindP (emit_track_event cx ''track_authored_synced'' track_id project_id actor
                    [(''fields'', JList [JStr ''metadata_json'']), (''old_lane_hint'', old_hint),
                     (''new_lane_hint'', JStr lane_hint)] s1) (\<lambda>_ s.
           track_dict track_id project_id s))) s)"

definition set_decision_ref :: "codec \<Rightarrow> string \<Rightarrow> string \<Rightarrow> string \<Rightarrow> string \<Rightarrow> plan \<Rightarrow> track_row outcome" where
  "set_decision_ref cx track_id project_id decision_ref actor s =
     get_conn (\<lambda>s.
       bindP (require_track track_id project_id s) (\<lambda>row s.
       if \<not> has_decision_ref s then (Inl (DecisionRefColumnMissingError track_id), s)
       else bindP (emit_track_event cx ''track_decision_ref_set'' track_id project_id actor [] s) (\<lambda>_ s.
            track_dict track_id project_id
              (update_track track_id project_id (\<lambda>t. t\<lparr>tr_decision_ref := Some decision_ref\<rparr>) s)))) s"

section \<open>Reading tracks\<close>

definition get_track :: "string \<Rightarrow> string \<Rightarrow> plan \<Rightarrow> track_row option outcome" where
  "get_track track_id project_id = get_conn (\<lambda>s. (Inr (find_track s track_id project_id), s))"

definition list_key :: "track_row \<Rightarrow> int \<times> int \<times> string" where
  "list_key t = (if tr_next_up t then - 1 else 0, tr_sort_order t, tr_id t)"

text \<open>\<^verbatim>\<open>ORDER BY next_up DESC, sort_order ASC, track_id ASC\<close>, over all projects by project first.\<close>

definition in_list_order :: "bool \<Rightarrow> track_row list \<Rightarrow> track_row list" where
  "in_list_order by_project rows =
     (let by_key = sort_key (\<lambda>t. fst (list_key t)) (sort_key (\<lambda>t. fst (snd (list_key t)))
                     (sort_key (\<lambda>t. snd (snd (list_key t))) rows))
      in if by_project then sort_key tr_project by_key else by_key)"

definition list_tracks :: "string \<Rightarrow> string option \<Rightarrow> bool \<Rightarrow> plan \<Rightarrow> track_row list outcome" where
  "list_tracks project_id phase all_projects =
     get_conn (\<lambda>s.
       case phase of
         Some ph \<Rightarrow>
           if ph \<notin> set VALID_PHASES then (Inl (InvalidPhaseError ph), s)
           else (Inr (in_list_order all_projects
                        (filter (\<lambda>t. (all_projects \<or> tr_project t = project_id) \<and> tr_phase t = ph) (tracks s))), s)
       | None \<Rightarrow>
           (Inr (in_list_order all_projects
                   (filter (\<lambda>t. all_projects \<or> tr_project t = project_id) (tracks s))), s))"

section \<open>Phase transitions and the next track\<close>

text \<open>
  The unique index of the queued next-up track of a project, and the unique instant of a track's
  history row.
\<close>

definition next_up_unique :: "track_row list \<Rightarrow> bool" where
  "next_up_unique rows = distinct (map tr_project (filter (\<lambda>t. tr_next_up t \<and> tr_phase t = ''queued'') rows))"

definition insert_phase_row :: "phase_row \<Rightarrow> plan \<Rightarrow> unit outcome" where
  "insert_phase_row h s =
     (if list_ex (\<lambda>g. ph_track g = ph_track h \<and> ph_project g = ph_project h \<and> ph_at g = ph_at h) (phase_log s)
      then (Inl (IntegrityError ''track_phase_history''), s)
      else (Inr (), s\<lparr>phase_log := phase_log s @ [h]\<rparr>))"

definition moved_to :: "string \<Rightarrow> int \<Rightarrow> track_row \<Rightarrow> track_row" where
  "moved_to to_phase now t =
     t\<lparr>tr_phase := to_phase, tr_phase_changed_at := Some now,
       tr_completed_at := (if to_phase = ''done'' then Some now else tr_completed_at t)\<rparr>"

definition transition_phase ::
  "codec \<Rightarrow> string \<Rightarrow> string \<Rightarrow> string \<Rightarrow> string \<Rightarrow> string option \<Rightarrow> string option \<Rightarrow> plan \<Rightarrow> track_row outcome" where
  "transition_phase cx track_id project_id to_phase actor reason approval_id s =
     (if actor \<notin> set TRACK_ACTORS then (Inl (ValueError (''Invalid actor: '' @ py_repr actor)), s)
      else if to_phase \<notin> set VALID_PHASES then (Inl (InvalidPhaseError to_phase), s)
      else get_conn (\<lambda>s.
        bindP (require_track track_id project_id s) (\<lambda>track s.
        let from_phase = tr_phase track in
        if from_phase = to_phase then (Inr track, s)
        else if to_phase \<notin> set (allowed_from ALLOWED_TRANSITIONS from_phase)
        then (Inl (PhaseTransitionError from_phase to_phase), s)
        else let (now, s) = now_utc s in
          bindP (emit_track_event cx ''track_phase_transition'' track_id project_id actor
                   [(''from'', JStr from_phase), (''to'', JStr to_phase)] s) (\<lambda>_ s.
          let s1 = update_track track_id project_id (moved_to to_phase now) s in
          if \<not> next_up_unique (tracks s1) then (Inl (IntegrityError ''ux_tracks_next_up_per_project''), s)
          else bindP (insert_phase_row
                 \<lparr>ph_track = track_id, ph_project = project_id, ph_from = from_phase, ph_to = to_phase,
                  ph_actor = actor, ph_reason = reason, ph_approval = approval_id, ph_at = now\<rparr> s1) (\<lambda>_ s.
          track_dict track_id project_id s)))) s)"

definition set_next_up :: "codec \<Rightarrow> string \<Rightarrow> string \<Rightarrow> plan \<Rightarrow> unit outcome" where
  "set_next_up cx track_id project_id =
     get_conn (\<lambda>s.
       bindP (require_track track_id project_id s) (\<lambda>_ s.
       bindP (emit_track_event cx ''track_next_up_set'' track_id project_id ''system'' [] s) (\<lambda>_ s.
       let cleared = update_where (\<lambda>t. tr_project t = project_id \<and> tr_next_up t) (\<lambda>t. t\<lparr>tr_next_up := False\<rparr>) (tracks s)
       in (Inr (), update_track track_id project_id (\<lambda>t. t\<lparr>tr_next_up := True\<rparr>) (s\<lparr>tracks := cleared\<rparr>)))))"


section \<open>Open-item links\<close>

definition link_key :: "string \<Rightarrow> string \<Rightarrow> string \<Rightarrow> string \<Rightarrow> link_row \<Rightarrow> bool" where
  "link_key track_id project_id oi_id link_type l =
     (lk_track l = track_id \<and> lk_project l = project_id \<and> lk_item l = oi_id \<and> lk_type l = link_type)"

definition new_link :: "string \<Rightarrow> string \<Rightarrow> string \<Rightarrow> string \<Rightarrow> string \<Rightarrow> int \<Rightarrow> link_row" where
  "new_link track_id project_id oi_id link_type link_source now =
     \<lparr>lk_track = track_id, lk_project = project_id, lk_item = oi_id, lk_type = link_type,
      lk_source = link_source, lk_at = now, lk_resolved_at = None, lk_reason = None\<rparr>"

text \<open>\<^verbatim>\<open>INSERT OR REPLACE\<close>: the row with the same key goes, the new one comes last.\<close>

definition replace_row :: "('r \<Rightarrow> bool) \<Rightarrow> 'r \<Rightarrow> 'r list \<Rightarrow> 'r list" where
  "replace_row same r rows = filter (\<lambda>x. \<not> same x) rows @ [r]"

definition link_open_item ::
  "codec \<Rightarrow> string \<Rightarrow> string \<Rightarrow> string \<Rightarrow> string \<Rightarrow> string \<Rightarrow> conn \<Rightarrow> event_spec list option \<Rightarrow>
   (string \<times> json) list \<Rightarrow> plan \<Rightarrow> event_spec list option outcome" where
  "link_open_item cx track_id project_id oi_id link_type link_source c event_sink details s =
     (if link_type \<notin> set LINK_TYPES then (Inl (ValueError (''Invalid link_type: '' @ py_repr link_type)), s)
      else if link_source \<notin> set LINK_SOURCES then (Inl (ValueError (''Invalid link_source: '' @ py_repr link_source)), s)
      else case validate_shared_conn c event_sink ''link_open_item'' s of Inl e \<Rightarrow> (Inl e, s) | Inr _ \<Rightarrow>
        on_conn c (\<lambda>s.
          bindP (require_track track_id project_id s) (\<lambda>_ s.
          let (now, s) = now_utc s;
              s1 = s\<lparr>links := replace_row (link_key track_id project_id oi_id link_type)
                       (new_link track_id project_id oi_id link_type link_source now) (links s)\<rparr>
          in emit_or_defer cx event_sink ''track_oi_linked'' track_id project_id ''system''
               (fold (\<lambda>(k, v). AList.update k v) details [(''oi_id'', JStr oi_id), (''link_type'', JStr link_type)]) s1)) s)"

definition unlink_open_item ::
  "codec \<Rightarrow> string \<Rightarrow> string \<Rightarrow> string \<Rightarrow> string \<Rightarrow> string \<Rightarrow> string \<Rightarrow> conn \<Rightarrow> event_spec list option \<Rightarrow> bool \<Rightarrow>
   plan \<Rightarrow> event_spec list option outcome" where
  "unlink_open_item cx track_id project_id oi_id link_type reason actor c event_sink backfill s =
     (if link_type \<notin> set LINK_TYPES then (Inl (ValueError (''Invalid link_type: '' @ py_repr link_type)), s)
      else if py_strip reason = [] then (Inl (ValueError ''reason is required and must not be empty''), s)
      else case validate_shared_conn c event_sink ''unlink_open_item'' s of Inl e \<Rightarrow> (Inl e, s) | Inr _ \<Rightarrow>
        on_conn c (\<lambda>s.
          if \<not> has_resolved_at s then (Inl (RuntimeError ''track_open_items.resolved_at column absent''), s)
          else bindP (require_track track_id project_id s) (\<lambda>_ s.
          let same = link_key track_id project_id oi_id link_type;
              details = [(''oi_id'', JStr oi_id), (''link_type'', JStr link_type), (''reason'', JStr reason)]
          in case find same (links s) of
               None \<Rightarrow> (Inl (ValueError (''Open item not found: '' @ py_repr oi_id)), s)
             | Some l \<Rightarrow>
                 if backfill then
                   if lk_resolved_at l = None then (Inl (ValueError (''Open item not yet resolved: '' @ py_repr oi_id)), s)
                   else emit_or_defer cx event_sink ''track_oi_reason_backfilled'' track_id project_id actor details
                          (s\<lparr>links := update_where same (\<lambda>l. l\<lparr>lk_reason := Some (py_strip reason)\<rparr>) (links s)\<rparr>)
                 else
                   if lk_resolved_at l \<noteq> None then (Inl (ValueError (''Open item already resolved: '' @ py_repr oi_id)), s)
                   else let (now, s) = now_utc s in
                     emit_or_defer cx event_sink ''track_oi_closed'' track_id project_id actor details
                       (s\<lparr>links := update_where same
                                     (\<lambda>l. l\<lparr>lk_resolved_at := Some now, lk_reason := Some (py_strip reason)\<rparr>) (links s)\<rparr>))) s)"

definition get_linked_open_items :: "string \<Rightarrow> string \<Rightarrow> bool \<Rightarrow> plan \<Rightarrow> link_row list outcome" where
  "get_linked_open_items track_id project_id include_resolved =
     get_conn (\<lambda>s.
       (Inr (sort_key (\<lambda>l. - lk_at l)
               (filter (\<lambda>l. lk_track l = track_id \<and> lk_project l = project_id \<and>
                            (has_resolved_at s \<and> \<not> include_resolved \<longrightarrow> lk_resolved_at l = None)) (links s))), s))"

section \<open>Dependencies\<close>

definition dep_key :: "string \<Rightarrow> string \<Rightarrow> string \<Rightarrow> string \<Rightarrow> dep_row \<Rightarrow> bool" where
  "dep_key from_track from_project to_track to_project d =
     (dp_from d = from_track \<and> dp_from_project d = from_project \<and>
      dp_to d = to_track \<and> dp_to_project d = to_project)"

definition add_dependency ::
  "codec \<Rightarrow> string \<Rightarrow> string \<Rightarrow> string \<Rightarrow> string \<Rightarrow> string \<Rightarrow> string \<Rightarrow> rat \<Rightarrow> string option \<Rightarrow> plan \<Rightarrow> unit outcome" where
  "add_dependency cx from_track from_project to_track to_project kind source confidence evidence s =
     (if kind \<notin> set DEPENDENCY_KINDS then (Inl (ValueError (''Invalid kind: '' @ py_repr kind)), s)
      else if source \<notin> set DEPENDENCY_SOURCES then (Inl (ValueError (''Invalid derivation_source: '' @ py_repr source)), s)
      else get_conn (\<lambda>s.
        bindP (require_track from_track from_project s) (\<lambda>_ s.
        bindP (require_track to_track to_project s) (\<lambda>_ s.
        bindP (emit_track_event cx ''track_dep_added'' from_track from_project ''system''
                 [(''to_track'', JStr to_track), (''to_project'', JStr to_project), (''kind'', JStr kind)] s) (\<lambda>_ s.
        let (now, s) = now_utc s in
        (Inr (), s\<lparr>deps := replace_row (dep_key from_track from_project to_track to_project)
                     \<lparr>dp_from = from_track, dp_from_project = from_project, dp_to = to_track,
                      dp_to_project = to_project, dp_kind = kind, dp_source = source,
                      dp_confidence = confidence, dp_evidence = evidence, dp_at = now\<rparr> (deps s)\<rparr>))))) s)"

definition remove_dependency ::
  "codec \<Rightarrow> string \<Rightarrow> string \<Rightarrow> string \<Rightarrow> string \<Rightarrow> string \<Rightarrow> string \<Rightarrow> plan \<Rightarrow> string option outcome" where
  "remove_dependency cx from_track from_project to_track to_project reason actor s =
     (if py_strip reason = [] then (Inl (ValueError ''reason is required and must not be empty''), s)
      else get_conn (\<lambda>s.
        let same = dep_key from_track from_project to_track to_project in
        case find same (deps s) of
          None \<Rightarrow> (Inr None, s)
        | Some d \<Rightarrow>
            bindP (emit_track_event cx ''track_dep_removed'' from_track from_project actor
                     [(''to_track'', JStr to_track), (''to_project'', JStr to_project),
                      (''kind'', JStr (dp_kind d)), (''reason'', JStr (py_strip reason))] s) (\<lambda>_ s.
            (Inr (Some (dp_kind d)), s\<lparr>deps := filter (\<lambda>x. \<not> same x) (deps s)\<rparr>))) s)"

text \<open>The edges of a track joined with their targets, in the order of target project and track.\<close>

record dep_view =
  de_track :: string
  de_project :: string
  de_kind :: string
  de_phase :: string

definition edges_of :: "plan \<Rightarrow> string \<Rightarrow> string \<Rightarrow> dep_view list" where
  "edges_of s track_id project_id =
     sort_key de_project (sort_key de_track
       [\<lparr>de_track = dp_to d, de_project = dp_to_project d, de_kind = dp_kind d, de_phase = tr_phase t\<rparr>.
          d \<leftarrow> filter (\<lambda>d. dp_from d = track_id \<and> dp_from_project d = project_id) (deps s),
          t \<leftarrow> filter (\<lambda>t. tr_id t = dp_to d \<and> tr_project t = dp_to_project d) (tracks s)])"

definition list_dependencies :: "string \<Rightarrow> string \<Rightarrow> plan \<Rightarrow> dep_view list outcome" where
  "list_dependencies track_id project_id = get_conn (\<lambda>s. (Inr (edges_of s track_id project_id), s))"

section \<open>Dispatches and receipts of a track\<close>

definition track_dispatches :: "plan \<Rightarrow> string \<Rightarrow> string \<Rightarrow> dispatch_row list" where
  "track_dispatches s track_id project_id =
     filter (\<lambda>d. d_track d = Some track_id \<and> d_project d = Some project_id) (dispatches (coord s))"

definition get_linked_dispatches :: "string \<Rightarrow> string \<Rightarrow> plan \<Rightarrow> dispatch_row list outcome" where
  "get_linked_dispatches track_id project_id =
     get_conn (\<lambda>s. (Inr (sort_key (\<lambda>d. - d_created_at d) (track_dispatches s track_id project_id)), s))"

definition get_recent_receipts :: "string \<Rightarrow> string \<Rightarrow> int \<Rightarrow> plan \<Rightarrow> event_row list outcome" where
  "get_recent_receipts track_id project_id limit =
     get_conn (\<lambda>s.
       let ids = map d_id (track_dispatches s track_id project_id)
       in (Inr (sql_limit limit (sort_key (\<lambda>e. - e_at e) (filter (\<lambda>e. e_entity e \<in> set ids) (events (coord s))))), s))"


section \<open>Commands\<close>

text \<open>
  The operations as commands, each on a connection of its own. \<open>Disk\<close> is the environment: appends
  to the event file start or stop failing.
\<close>

datatype plan_cmd =
    Create string string string string new_track
  | Author string string authored string
  | Goal string string string int string
  | Scope string string string string "string option" "string option" string
  | Hint string string string string
  | Decision string string string string
  | Phase string string string string "string option" "string option"
  | NextUp string string
  | Link string string string string string "(string \<times> json) list"
  | Unlink string string string string string string bool
  | AddDep string string string string string string rat "string option"
  | RemoveDep string string string string string string
  | Disk "append_fault option"

fun exec_plan :: "codec \<Rightarrow> plan_cmd \<Rightarrow> plan \<Rightarrow> plan" where
  "exec_plan cx (Create tid pid title goal a) s = snd (create_track cx tid pid title goal a s)"
| "exec_plan cx (Author tid pid a actor) s = snd (update_authored_fields cx tid pid a actor s)"
| "exec_plan cx (Goal tid pid goal n actor) s = snd (set_goal cx tid pid goal n actor s)"
| "exec_plan cx (Scope tid pid scope old reason rule actor) s =
     snd (set_plan_scope cx tid pid scope old reason rule actor Own s)"
| "exec_plan cx (Hint tid pid hint actor) s = snd (set_lane_hint cx tid pid hint actor s)"
| "exec_plan cx (Decision tid pid ref actor) s = snd (set_decision_ref cx tid pid ref actor s)"
| "exec_plan cx (Phase tid pid phase actor reason approval) s =
     snd (transition_phase cx tid pid phase actor reason approval s)"
| "exec_plan cx (NextUp tid pid) s = snd (set_next_up cx tid pid s)"
| "exec_plan cx (Link tid pid oi ty src details) s = snd (link_open_item cx tid pid oi ty src Own None details s)"
| "exec_plan cx (Unlink tid pid oi ty reason actor backfill) s =
     snd (unlink_open_item cx tid pid oi ty reason actor Own None backfill s)"
| "exec_plan cx (AddDep tid pid to tp kind src conf ev) s = snd (add_dependency cx tid pid to tp kind src conf ev s)"
| "exec_plan cx (RemoveDep tid pid to tp reason actor) s = snd (remove_dependency cx tid pid to tp reason actor s)"
| "exec_plan cx (Disk e) s = s\<lparr>append_error := e\<rparr>"

definition run_plan :: "codec \<Rightarrow> plan_cmd list \<Rightarrow> plan \<Rightarrow> plan" where
  "run_plan cx cmds s = fold (exec_plan cx) cmds s"

section \<open>What an operation leaves alone\<close>

definition core :: "track_row \<Rightarrow> string \<times> string \<times> string \<times> bool" where
  "core t = (tr_id t, tr_project t, tr_phase t, tr_next_up t)"

definition extends :: "plan \<Rightarrow> plan \<Rightarrow> bool" where
  "extends s s' = (\<exists>new. track_events s' = track_events s @ new)"

definition quiet :: "plan \<Rightarrow> plan \<Rightarrow> bool" where
  "quiet s s' = (map core (tracks s') = map core (tracks s) \<and> phase_log s' = phase_log s \<and> extends s s')"

lemma extends_refl [simp, intro]: "extends s s"
  by (simp add: extends_def)

lemma extends_trans: "extends s s1 \<Longrightarrow> extends s1 s2 \<Longrightarrow> extends s s2"
  by (auto simp: extends_def)

lemma extends_undo [simp]: "extends s (undo_writes s0 s') = extends s s'"
  by (simp add: extends_def undo_writes_def)

lemma undo_writes_sel [simp]:
  "tracks (undo_writes s s') = tracks s" "phase_log (undo_writes s s') = phase_log s"
  "track_events (undo_writes s s') = track_events s'" "deps (undo_writes s s') = deps s"
  "links (undo_writes s s') = links s" "deliveries (undo_writes s s') = deliveries s"
  "coord (undo_writes s s') = coord s"
  by (simp_all add: undo_writes_def)

lemma quiet_refl [simp, intro]: "quiet s s"
  by (simp add: quiet_def)

lemma quiet_trans: "quiet s s1 \<Longrightarrow> quiet s1 s2 \<Longrightarrow> quiet s s2"
  by (auto simp: quiet_def intro: extends_trans)

lemma quiet_extends: "quiet s s' \<Longrightarrow> extends s s'"
  by (simp add: quiet_def)

lemma snd_rollback: "snd (rollback s r) = (if isl (fst r) then undo_writes s (snd r) else snd r)"
  by (cases r; cases "fst r") (auto simp: rollback_def)

named_theorems quiet_intros

lemma quiet_get_conn [quiet_intros]: "quiet s (snd (f s)) \<Longrightarrow> quiet s (snd (get_conn f s))"
  by (auto simp: get_conn_def snd_rollback quiet_def)

lemma quiet_on_conn [quiet_intros]: "quiet s (snd (f s)) \<Longrightarrow> quiet s (snd (on_conn c f s))"
  by (cases c) (auto simp: on_conn_def intro: quiet_get_conn)

lemma quiet_bindP [quiet_intros]:
  "quiet s (snd m) \<Longrightarrow> (\<And>x s1. m = (Inr x, s1) \<Longrightarrow> quiet s1 (snd (f x s1))) \<Longrightarrow> quiet s (snd (bindP m f))"
  by (cases m; cases "fst m") (auto simp: bindP_def intro: quiet_trans)

lemma quiet_require [quiet_intros]: "quiet s (snd (require_track tid pid s))"
  by (simp add: require_track_def split: option.split)

lemma quiet_now_utc: "now_utc s = (ts, s1) \<Longrightarrow> quiet s s1"
  by (auto simp: now_utc_def quiet_def extends_def)

lemma quiet_append_locked [quiet_intros]: "quiet s (snd (append_locked line s))"
  by (auto simp: append_locked_def quiet_def extends_def split: option.split append_fault.split)

lemma quiet_emit [quiet_intros]: "quiet s (snd (emit_track_event cx ty tid pid actor details s))"
  by (auto simp: emit_track_event_def split: prod.split intro: quiet_trans quiet_now_utc quiet_append_locked)

lemma quiet_emit_or_defer [quiet_intros]:
  "quiet s (snd (emit_or_defer cx sink ty tid pid actor details s))"
  by (auto simp: emit_or_defer_def split: option.split intro!: quiet_intros)

lemma quiet_update_track [quiet_intros]:
  assumes "\<And>t. core (f t) = core t"
  shows "quiet s (update_track tid pid f s)"
proof -
  have "map core (update_where p f rows) = map core rows" for p rows
    by (rule map_update_where) (rule assms)
  then show ?thesis by (simp add: quiet_def update_track_def extends_def)
qed

lemma snd_track_dict [simp]: "snd (track_dict tid pid s) = s"
  by (simp add: track_dict_def)

lemma quiet_links [simp]: "quiet s (s'\<lparr>links := x\<rparr>) = quiet s s'" "quiet s (s'\<lparr>deps := y\<rparr>) = quiet s s'"
  by (simp_all add: quiet_def extends_def)

lemma core_set_authored: "core (set_authored a m t) = core t"
  by (simp add: core_def set_authored_def)

lemma quiet_author: "quiet s (snd (update_authored_fields cx tid pid a actor s))"
  unfolding update_authored_fields_def
  by (auto split: sum.split intro!: quiet_intros quiet_update_track core_set_authored)

lemma quiet_goal: "quiet s (snd (set_goal cx tid pid goal n actor s))"
  unfolding set_goal_def Let_def
  by (auto intro!: quiet_intros simp: core_def)

lemma quiet_decision: "quiet s (snd (set_decision_ref cx tid pid ref actor s))"
  unfolding set_decision_ref_def
  by (auto intro!: quiet_intros simp: core_def)

lemma quiet_emit_after:
  "quiet s s1 \<Longrightarrow> quiet s (snd (bindP (emit_track_event cx ty tid pid actor details s1) (\<lambda>_ s. track_dict tid pid s)))"
  by (erule quiet_trans, rule quiet_bindP) (simp_all add: quiet_emit)

lemma quiet_scope: "quiet s (snd (set_plan_scope cx tid pid scope old reason rule actor c s))"
  unfolding set_plan_scope_def Let_def
  by (auto split: sum.split intro!: quiet_emit_after quiet_update_track quiet_on_conn quiet_bindP quiet_require
      simp: core_def)

lemma quiet_hint: "quiet s (snd (set_lane_hint cx tid pid hint actor s))"
  unfolding set_lane_hint_def Let_def
  by (auto intro!: quiet_emit_after quiet_update_track quiet_get_conn quiet_bindP quiet_require simp: core_def)

lemma quiet_defer_after:
  "quiet s s1 \<Longrightarrow> quiet s (snd (emit_or_defer cx sink ty tid pid actor details s1))"
  by (erule quiet_trans) (rule quiet_emit_or_defer)

lemma quiet_link: "quiet s (snd (link_open_item cx tid pid oi ty src c sink details s))"
  unfolding link_open_item_def Let_def
  by (auto split: sum.split prod.split intro!: quiet_defer_after quiet_on_conn quiet_bindP quiet_require
      dest!: quiet_now_utc intro: quiet_trans)

lemma quiet_unlink: "quiet s (snd (unlink_open_item cx tid pid oi ty reason actor c sink backfill s))"
  unfolding unlink_open_item_def Let_def
  by (auto split: sum.split prod.split option.split
      intro!: quiet_defer_after quiet_on_conn quiet_bindP quiet_require
      dest!: quiet_now_utc intro: quiet_trans)

lemma quiet_add_dep: "quiet s (snd (add_dependency cx tid pid to tp kind src conf ev s))"
  unfolding add_dependency_def Let_def
  by (auto split: prod.split intro!: quiet_get_conn quiet_bindP quiet_require quiet_emit
      dest!: quiet_now_utc intro: quiet_trans)

lemma quiet_remove_dep: "quiet s (snd (remove_dependency cx tid pid to tp reason actor s))"
  unfolding remove_dependency_def Let_def
  by (auto split: option.split intro!: quiet_get_conn quiet_bindP quiet_emit)

lemmas quiet_ops = quiet_author quiet_goal quiet_scope quiet_hint quiet_decision quiet_link quiet_unlink
  quiet_add_dep quiet_remove_dep

section \<open>What the other operations do\<close>

definition cores :: "plan \<Rightarrow> (string \<times> string \<times> string \<times> bool) list" where
  "cores s = map core (tracks s)"

lemma quiet_cores: "quiet s s' \<Longrightarrow> cores s' = cores s \<and> phase_log s' = phase_log s \<and> extends s s'"
  by (simp add: quiet_def cores_def)

lemma find_track_core:
  "find_track s tid pid = Some t \<Longrightarrow> t \<in> set (tracks s) \<and> tr_id t = tid \<and> tr_project t = pid"
  by (auto simp: find_track_def dest: find_SomeD)

lemma find_track_None:
  "find_track s tid pid = None \<longleftrightarrow> (\<forall>c \<in> set (cores s). \<not> (fst c = tid \<and> fst (snd c) = pid))"
  by (auto simp: find_track_def find_None_all cores_def core_def)

definition moved_line :: "codec \<Rightarrow> int \<Rightarrow> string \<Rightarrow> string \<Rightarrow> string \<Rightarrow> string \<Rightarrow> string \<Rightarrow> ledger_line" where
  "moved_line cx ts tid pid actor from_phase to_phase =
     track_event_record cx ts ''track_phase_transition'' tid pid actor
       [(''from'', JStr from_phase), (''to'', JStr to_phase)]"

text \<open>A committed change of phase: one line on the event file, one update, one history row.\<close>

definition phase_moved :: "codec \<Rightarrow> string \<Rightarrow> string \<Rightarrow> string \<Rightarrow> string \<Rightarrow> plan \<Rightarrow> plan \<Rightarrow> bool" where
  "phase_moved cx tid pid to_phase actor s s' =
     (\<exists>t now ts h.
        find_track s tid pid = Some t \<and> to_phase \<in> set (allowed_from ALLOWED_TRANSITIONS (tr_phase t)) \<and>
        ph_track h = tid \<and> ph_project h = pid \<and> ph_from h = tr_phase t \<and> ph_to h = to_phase \<and>
        tracks s' = update_where (\<lambda>t. tr_id t = tid \<and> tr_project t = pid) (moved_to to_phase now) (tracks s) \<and>
        phase_log s' = phase_log s @ [h] \<and>
        track_events s' = track_events s @ [Line (moved_line cx ts tid pid actor (tr_phase t) to_phase)])"

lemma emit_eq_Inr:
  "emit_track_event cx ty tid pid actor details s = (Inr u, s') \<longleftrightarrow>
     append_error s = None \<and>
     s' = s\<lparr>reads := Suc (reads s), track_events := track_events s @ [Line (track_event_record cx (wall s (reads s)) ty tid pid actor details)]\<rparr>"
  by (auto simp: emit_track_event_def now_utc_def append_locked_def Let_def split: option.split append_fault.split_asm)

lemma require_track_eq_Inr: "require_track tid pid s = (Inr t, s') \<longleftrightarrow> find_track s tid pid = Some t \<and> s' = s"
  by (auto simp: require_track_def split: option.split)

lemma transition_effect:
  "quiet s (snd (transition_phase cx tid pid to_phase actor reason approval s)) \<or>
   phase_moved cx tid pid to_phase actor s (snd (transition_phase cx tid pid to_phase actor reason approval s))"
proof (cases "find_track s tid pid")
  case None
  then show ?thesis
    by (auto simp: transition_phase_def get_conn_def require_track_def snd_rollback quiet_def)
next
  case (Some t)
  show ?thesis
  proof (cases "actor \<in> set TRACK_ACTORS \<and> to_phase \<in> set VALID_PHASES \<and> \<not> zero_tables s \<and> tr_phase t \<noteq> to_phase \<and>
      to_phase \<in> set (allowed_from ALLOWED_TRANSITIONS (tr_phase t)) \<and> append_error s = None")
    case False
    with Some show ?thesis
      by (auto simp: transition_phase_def get_conn_def require_track_def snd_rollback Let_def now_utc_def
          emit_track_event_def append_locked_def quiet_def extends_def split: option.splits append_fault.splits)
  next
    case True
    with Some show ?thesis
      unfolding phase_moved_def moved_line_def transition_phase_def
      by (auto simp: get_conn_def require_track_def snd_rollback Let_def now_utc_def emit_track_event_def
          append_locked_def insert_phase_row_def update_track_def quiet_def extends_def)
  qed
qed

text \<open>A created track: nothing, or one new track that nobody had.\<close>

definition grown :: "string \<Rightarrow> string \<Rightarrow> string \<Rightarrow> plan \<Rightarrow> plan \<Rightarrow> bool" where
  "grown tid pid phase s s' =
     (quiet s s' \<or>
      find_track s tid pid = None \<and> cores s' = cores s @ [(tid, pid, phase, False)] \<and>
      phase_log s' = phase_log s \<and> extends s s')"

lemma quiet_grown: "quiet s s' \<Longrightarrow> grown tid pid phase s s'"
  by (simp add: grown_def)

lemma grown_after_quiet:
  assumes "quiet s s1" and "grown tid pid phase s1 s'"
  shows "grown tid pid phase s s'"
proof (cases "quiet s1 s'")
  case True
  with assms(1) show ?thesis by (simp add: quiet_grown quiet_trans)
next
  case False
  have same: "cores s1 = cores s" "phase_log s1 = phase_log s" "extends s s1"
    using quiet_cores [OF assms(1)] by simp_all
  from False assms(2) have "find_track s1 tid pid = None" "cores s' = cores s1 @ [(tid, pid, phase, False)]"
    "phase_log s' = phase_log s1" "extends s1 s'"
    by (simp_all add: grown_def)
  with same show ?thesis by (simp add: grown_def find_track_None extends_trans [OF same(3)])
qed

lemma grown_bindP:
  assumes "quiet s (snd m)" and "\<And>x s1. m = (Inr x, s1) \<Longrightarrow> grown tid pid phase s1 (snd (f x s1))"
  shows "grown tid pid phase s (snd (bindP m f))"
proof (cases "fst m")
  case (Inl e)
  with assms(1) show ?thesis by (cases m) (simp add: quiet_grown)
next
  case (Inr x)
  then have m: "m = (Inr x, snd m)" by (cases m) simp
  have "bindP m f = f x (snd m)" by (subst m) simp
  with grown_after_quiet [OF assms(1) assms(2) [OF m]] show ?thesis by simp
qed

lemma grown_get_conn: "grown tid pid phase s (snd (f s)) \<Longrightarrow> grown tid pid phase s (snd (get_conn f s))"
  by (auto simp: get_conn_def snd_rollback grown_def quiet_def)

lemma snd_bind_track_dict: "snd (bindP m (\<lambda>_ s. track_dict tid pid s)) = snd m"
  by (cases m; cases "fst m") auto

lemma grown_insert:
  assumes "core t = (tid, pid, phase, False)"
  shows "grown tid pid phase s (snd (insert_track t s))"
  using assms by (auto simp: insert_track_def grown_def core_def cores_def extends_def split: option.split)

lemma grown_insert_new:
  "grown tid pid (nt_phase a) s (snd (insert_new_track cx tid pid title goal a initial_scope now s))"
proof (cases "ensure_horizon_column (nt_horizon a) tid s")
  case (Inl e)
  then show ?thesis by (simp add: insert_new_track_def quiet_grown)
next
  case (Inr h)
  let ?row = "new_track_row tid pid title goal a h (stored_metadata_at_creation cx (nt_metadata a) initial_scope) now"
  have "core ?row = (tid, pid, nt_phase a, False)" by (simp add: core_def new_track_row_def)
  then have "grown tid pid (nt_phase a) s1 (snd (bindP (insert_track ?row s1) (\<lambda>_ s. track_dict tid pid s)))" for s1
    unfolding snd_bind_track_dict by (rule grown_insert)
  moreover have "quiet s1 (snd (case initial_scope of None \<Rightarrow> (Inr (), s1)
      | Some scope \<Rightarrow> emit_track_event cx ty tid pid actor (d scope) s1))" for s1 ty actor d
    by (auto split: option.split intro: quiet_emit)
  ultimately show ?thesis
    unfolding insert_new_track_def Inr sum.case
    by - (rule grown_bindP [OF quiet_emit grown_bindP], assumption+)
qed

lemma create_effect:
  "nt_phase a \<in> set VALID_PHASES \<and> grown tid pid (nt_phase a) s (snd (create_track cx tid pid title goal a s)) \<or>
   quiet s (snd (create_track cx tid pid title goal a s))"
proof (cases "nt_phase a \<in> set VALID_PHASES \<and> horizon_allowed (nt_horizon a)")
  case True
  show ?thesis
  proof (cases "initial_plan_scope cx (nt_metadata a)")
    case (Inl e)
    with True show ?thesis by (simp add: create_track_def)
  next
    case (Inr scope)
    have "grown tid pid (nt_phase a) (snd (now_utc s))
        (snd (get_conn (insert_new_track cx tid pid title goal a scope (fst (now_utc s))) (snd (now_utc s))))"
      by (intro grown_get_conn grown_insert_new)
    then have "grown tid pid (nt_phase a) s (snd (create_track cx tid pid title goal a s))"
      using True Inr quiet_now_utc [of s "fst (now_utc s)" "snd (now_utc s)"]
      by (simp add: create_track_def case_prod_beta grown_after_quiet)
    with True show ?thesis by simp
  qed
qed (simp add: create_track_def)

definition next_up_set :: "string \<Rightarrow> string \<Rightarrow> plan \<Rightarrow> plan \<Rightarrow> bool" where
  "next_up_set tid pid s s' =
     (cores s' = map (\<lambda>(i, p, ph, n). (i, p, ph, if p = pid then i = tid else n)) (cores s) \<and>
      phase_log s' = phase_log s \<and> extends s s')"

lemma next_up_effect:
  "quiet s (snd (set_next_up cx tid pid s)) \<or> next_up_set tid pid s (snd (set_next_up cx tid pid s))"
proof (cases "zero_tables s \<or> find_track s tid pid = None \<or> append_error s \<noteq> None")
  case True
  then show ?thesis
    by (auto simp: set_next_up_def get_conn_def require_track_def snd_rollback emit_track_event_def now_utc_def
        append_locked_def quiet_def extends_def split: option.splits append_fault.splits)
next
  case False
  then show ?thesis
    by (auto simp: set_next_up_def get_conn_def require_track_def snd_rollback emit_track_event_def now_utc_def
        append_locked_def next_up_set_def extends_def cores_def update_track_def update_where_def core_def Let_def)
qed

section \<open>The invariant of the planning tables\<close>

definition trail :: "phase_row list \<Rightarrow> string \<Rightarrow> string \<Rightarrow> phase_row list" where
  "trail hist tid pid = filter (\<lambda>h. ph_track h = tid \<and> ph_project h = pid) hist"

text \<open>A history leads from the phase of birth, edge by edge, to the phase of the track.\<close>

definition trail_ok :: "phase_row list \<Rightarrow> string \<Rightarrow> bool" where
  "trail_ok hs phase =
     (\<exists>birth. birth \<in> set VALID_PHASES \<and> map ph_from hs @ [phase] = birth # map ph_to hs \<and>
              walk ALLOWED_TRANSITIONS birth (map ph_to hs))"

definition transition_of :: "ledger_line \<Rightarrow> (json \<times> json \<times> json) option" where
  "transition_of line =
     (if map_of line ''event_type'' = Some (JStr ''track_phase_transition'')
      then (case (map_of line ''track_id'', map_of line ''project_id'', map_of line ''details'') of
              (Some tid, Some pid, Some d) \<Rightarrow> Some (tid, pid, d) | _ \<Rightarrow> None)
      else None)"

text \<open>The lines that were written whole, and those among them that stand on a line of their own.\<close>

fun written_lines :: "event_piece list \<Rightarrow> ledger_line list" where
  "written_lines [] = []"
| "written_lines (Line l # file) = l # written_lines file"
| "written_lines (Torn l # file) = written_lines file"

fun readable_lines :: "bool \<Rightarrow> event_piece list \<Rightarrow> ledger_line list" where
  "readable_lines fresh_line [] = []"
| "readable_lines fresh_line (Line l # file) = (if fresh_line then [l] else []) @ readable_lines True file"
| "readable_lines fresh_line (Torn l # file) = readable_lines False file"

definition torn_appends :: "event_piece list \<Rightarrow> nat" where
  "torn_appends file = length (filter (\<lambda>p. case p of Line _ \<Rightarrow> False | Torn _ \<Rightarrow> True) file)"

definition ledger_moves :: "plan \<Rightarrow> (json \<times> json \<times> json) list" where
  "ledger_moves s = List.map_filter transition_of (written_lines (track_events s))"

lemma written_lines_append [simp]: "written_lines (xs @ ys) = written_lines xs @ written_lines ys"
  by (induction xs rule: written_lines.induct) simp_all

lemma readable_written: "subseq (readable_lines fresh file) (written_lines file)"
proof (induction "file" arbitrary: fresh)
  case (Cons p rest)
  from Cons.IH [of True] Cons.IH [of False] show ?case by (cases p) auto
qed simp

lemma lost_lines: "length (written_lines file) \<le> length (readable_lines fresh file) + torn_appends file + (if fresh then 0 else 1)"
proof (induction "file" arbitrary: fresh)
  case (Cons p rest)
  from Cons.IH [of True] Cons.IH [of False] show ?case by (cases p) (auto simp: torn_appends_def)
qed (simp add: torn_appends_def)

definition history_moves :: "plan \<Rightarrow> (json \<times> json \<times> json) list" where
  "history_moves s =
     map (\<lambda>h. (JStr (ph_track h), JStr (ph_project h), JObj [(''from'', JStr (ph_from h)), (''to'', JStr (ph_to h))]))
       (phase_log s)"

type_synonym track_core = "string \<times> string \<times> string \<times> bool"

definition keys_ok :: "track_core list \<Rightarrow> bool" where
  "keys_ok c = distinct (map (\<lambda>(i, p, ph, n). (i, p)) c)"

definition trails_ok :: "track_core list \<Rightarrow> phase_row list \<Rightarrow> bool" where
  "trails_ok c hist = (\<forall>i p ph n. (i, p, ph, n) \<in> set c \<longrightarrow> trail_ok (trail hist i p) ph)"

definition hist_inside :: "track_core list \<Rightarrow> phase_row list \<Rightarrow> bool" where
  "hist_inside c hist = (\<forall>h \<in> set hist. (ph_track h, ph_project h) \<in> (\<lambda>(i, p, ph, n). (i, p)) ` set c)"

definition one_next_up :: "track_core list \<Rightarrow> bool" where
  "one_next_up c = (\<forall>i j p ph ph'. (i, p, ph, True) \<in> set c \<longrightarrow> (j, p, ph', True) \<in> set c \<longrightarrow> i = j)"

definition plan_inv :: "plan \<Rightarrow> bool" where
  "plan_inv s =
     (keys_ok (cores s) \<and> trails_ok (cores s) (phase_log s) \<and> hist_inside (cores s) (phase_log s) \<and>
      one_next_up (cores s) \<and> subseq (history_moves s) (ledger_moves s))"

lemma extends_moves: "extends s s' \<Longrightarrow> \<exists>new. ledger_moves s' = ledger_moves s @ new"
  by (auto simp: extends_def ledger_moves_def List.map_filter_def)

lemma extends_subseq: "subseq xs (ledger_moves s) \<Longrightarrow> extends s s' \<Longrightarrow> subseq xs (ledger_moves s')"
  by (auto dest!: extends_moves)

lemma plan_inv_quiet:
  assumes "plan_inv s" and "quiet s s'"
  shows "plan_inv s'"
proof -
  from quiet_cores [OF assms(2)] have same: "cores s' = cores s" "phase_log s' = phase_log s" "extends s s'"
    by simp_all
  then have "history_moves s' = history_moves s" by (simp add: history_moves_def)
  with assms(1) same(1,2) extends_subseq [OF _ same(3)] show ?thesis unfolding plan_inv_def by simp
qed

lemma allowed_valid: "t \<in> set (allowed_from ALLOWED_TRANSITIONS s) \<Longrightarrow> s \<in> set VALID_PHASES \<and> t \<in> set VALID_PHASES"
proof -
  have "table_closed VALID_PHASES ALLOWED_TRANSITIONS" by code_simp
  then show "t \<in> set (allowed_from ALLOWED_TRANSITIONS s) \<Longrightarrow> s \<in> set VALID_PHASES \<and> t \<in> set VALID_PHASES"
    by (rule table_closed_edge)
qed

lemma trail_ok_born: "phase \<in> set VALID_PHASES \<Longrightarrow> trail_ok [] phase"
  by (auto simp: trail_ok_def)

lemma trail_ok_step:
  assumes "trail_ok hs phase" and "ph_from h = phase" and "ph_to h \<in> set (allowed_from ALLOWED_TRANSITIONS phase)"
  shows "trail_ok (hs @ [h]) (ph_to h)"
proof -
  from assms(1) obtain birth where b: "birth \<in> set VALID_PHASES"
    "map ph_from hs @ [phase] = birth # map ph_to hs" "walk ALLOWED_TRANSITIONS birth (map ph_to hs)"
    by (auto simp: trail_ok_def)
  have "last_state birth (map ph_to hs) = last (birth # map ph_to hs)" by (auto simp: last_state_def)
  also have "\<dots> = phase" by (simp flip: b(2))
  finally have "walk ALLOWED_TRANSITIONS birth (map ph_to (hs @ [h]))"
    using b(3) assms(3) by (simp add: walk_snoc)
  moreover have "map ph_from (hs @ [h]) @ [ph_to h] = birth # map ph_to (hs @ [h])"
    using b(2) assms(2) by simp
  ultimately show ?thesis using b(1) unfolding trail_ok_def by blast
qed

lemma subseq_snoc: "subseq xs ys \<Longrightarrow> subseq (xs @ [z]) (ys @ [z])"
  by (rule list_emb_append_mono) simp_all

lemma hist_inside_trail: "hist_inside c hist \<Longrightarrow> (\<And>ph n. (i, p, ph, n) \<notin> set c) \<Longrightarrow> trail hist i p = []"
  by (auto simp: hist_inside_def trail_def filter_empty_conv)

lemma plan_inv_grown:
  assumes inv: "plan_inv s" and "grown tid pid phase s s'" and "phase \<in> set VALID_PHASES"
  shows "plan_inv s'"
proof (cases "quiet s s'")
  case False
  with assms(2) have new: "find_track s tid pid = None" "cores s' = cores s @ [(tid, pid, phase, False)]"
    "phase_log s' = phase_log s" "extends s s'"
    by (simp_all add: grown_def)
  have fresh: "(tid, pid, ph, n) \<notin> set (cores s)" for ph n
    using new(1) by (auto simp: find_track_None)
  have "keys_ok (cores s')" using inv fresh by (auto simp: plan_inv_def keys_ok_def new(2))
  moreover have "trails_ok (cores s') (phase_log s')"
    using inv hist_inside_trail [OF _ fresh] assms(3)
    by (auto simp: plan_inv_def trails_ok_def new(2,3) trail_ok_born)
  moreover have "hist_inside (cores s') (phase_log s')"
    using inv by (auto simp: plan_inv_def hist_inside_def new(2,3))
  moreover have "one_next_up (cores s')" using inv by (auto simp: plan_inv_def one_next_up_def new(2))
  moreover have "subseq (history_moves s') (ledger_moves s')"
    using inv extends_subseq [OF _ new(4)] by (simp add: plan_inv_def history_moves_def new(3))
  ultimately show ?thesis by (simp add: plan_inv_def)
qed (rule plan_inv_quiet [OF inv])

lemma transition_of_moved:
  "transition_of (moved_line cx ts tid pid actor from_phase to_phase) =
     Some (JStr tid, JStr pid, JObj [(''from'', JStr from_phase), (''to'', JStr to_phase)])"
  by (simp add: transition_of_def moved_line_def track_event_record_def)

definition move_core :: "string \<Rightarrow> string \<Rightarrow> string \<Rightarrow> track_core \<Rightarrow> track_core" where
  "move_core tid pid to_phase = (\<lambda>(i, p, ph, n). (i, p, if i = tid \<and> p = pid then to_phase else ph, n))"

lemma keys_ok_unique: "keys_ok c \<Longrightarrow> (i, p, ph, n) \<in> set c \<Longrightarrow> (i, p, ph', n') \<in> set c \<Longrightarrow> ph = ph' \<and> n = n'"
  by (auto simp: keys_ok_def distinct_map inj_on_def)

lemma keys_map:
  assumes "\<And>i p ph n. \<exists>ph' n'. g (i, p, ph, n) = (i, p, ph', n')"
  shows "map (\<lambda>(i, p, ph, n). (i, p)) (map g c) = map (\<lambda>(i, p, ph, n). (i, p)) c"
proof -
  have "(\<lambda>(i, p, ph, n). (i, p)) (g x) = (\<lambda>(i, p, ph, n). (i, p)) x" for x
    using assms [of "fst x" "fst (snd x)" "fst (snd (snd x))" "snd (snd (snd x))"] by (cases x) auto
  then show ?thesis by simp
qed

lemma trails_move:
  assumes "trails_ok c hist" and "keys_ok c" and "(tid, pid, from_phase, n) \<in> set c"
    and h: "ph_track h = tid" "ph_project h = pid" "ph_from h = from_phase"
    and "ph_to h \<in> set (allowed_from ALLOWED_TRANSITIONS from_phase)"
  shows "trails_ok (map (move_core tid pid (ph_to h)) c) (hist @ [h])"
  unfolding trails_ok_def
proof (intro allI impI)
  fix i p ph n'
  assume "(i, p, ph, n') \<in> set (map (move_core tid pid (ph_to h)) c)"
  then obtain ph0 where c: "(i, p, ph0, n') \<in> set c" and ph: "ph = (if i = tid \<and> p = pid then ph_to h else ph0)"
    by (auto simp: move_core_def)
  have ok: "trail_ok (trail hist i p) ph0" using assms(1) c by (auto simp: trails_ok_def)
  show "trail_ok (trail (hist @ [h]) i p) ph"
  proof (cases "i = tid \<and> p = pid")
    case True
    with c keys_ok_unique [OF assms(2) _ assms(3)] have "ph0 = from_phase" by blast
    with ok True assms(7) h trail_ok_step [of "trail hist i p" ph0 h] ph show ?thesis by (simp add: trail_def)
  next
    case False
    with ok ph h show ?thesis by (auto simp: trail_def)
  qed
qed

lemma plan_inv_moved:
  assumes inv: "plan_inv s" and "phase_moved cx tid pid to_phase actor s s'"
  shows "plan_inv s'"
proof -
  from assms(2) obtain t now ts h where
    t: "find_track s tid pid = Some t" and edge: "to_phase \<in> set (allowed_from ALLOWED_TRANSITIONS (tr_phase t))" and
    h: "ph_track h = tid" "ph_project h = pid" "ph_from h = tr_phase t" "ph_to h = to_phase" and
    rows: "tracks s' = update_where (\<lambda>t. tr_id t = tid \<and> tr_project t = pid) (moved_to to_phase now) (tracks s)" and
    logs: "phase_log s' = phase_log s @ [h]"
    "track_events s' = track_events s @ [Line (moved_line cx ts tid pid actor (tr_phase t) to_phase)]"
    unfolding phase_moved_def by blast
  have cs: "cores s' = map (move_core tid pid (ph_to h)) (cores s)"
    unfolding cores_def rows update_where_def h by (auto simp: move_core_def core_def moved_to_def)
  have keys: "map (\<lambda>(i, p, ph, n). (i, p)) (cores s') = map (\<lambda>(i, p, ph, n). (i, p)) (cores s)"
    unfolding cs by (rule keys_map) (simp add: move_core_def)
  then have same_keys: "(\<lambda>(i, p, ph, n). (i, p)) ` set (cores s') = (\<lambda>(i, p, ph, n). (i, p)) ` set (cores s)"
    by (metis set_map)
  from find_track_core [OF t] have mem: "(tid, pid, tr_phase t, tr_next_up t) \<in> set (cores s)"
    by (force simp: cores_def core_def)
  have "keys_ok (cores s')" using inv unfolding plan_inv_def keys_ok_def keys by simp
  moreover have "trails_ok (cores s') (phase_log s')"
    unfolding cs logs(1)
    by (rule trails_move [OF _ _ mem h(1-3)]) (use inv edge h(4) in \<open>simp_all add: plan_inv_def\<close>)
  moreover have "hist_inside (cores s') (phase_log s')"
    using inv mem h unfolding plan_inv_def hist_inside_def same_keys logs(1) by force
  moreover have "one_next_up (cores s')"
    using inv by (fastforce simp: plan_inv_def one_next_up_def cs move_core_def)
  moreover have "subseq (history_moves s') (ledger_moves s')"
    using inv subseq_snoc h
    by (simp add: plan_inv_def history_moves_def ledger_moves_def logs List.map_filter_def transition_of_moved)
  ultimately show ?thesis by (simp add: plan_inv_def)
qed

lemma plan_inv_next_up:
  assumes inv: "plan_inv s" and "next_up_set tid pid s s'"
  shows "plan_inv s'"
proof -
  let ?g = "\<lambda>(i, p, ph, n). (i, p, ph, if p = pid then i = tid else n)"
  from assms(2) have cs: "cores s' = map ?g (cores s)" and hist: "phase_log s' = phase_log s" and ext: "extends s s'"
    by (simp_all add: next_up_set_def)
  have keys: "map (\<lambda>(i, p, ph, n). (i, p)) (cores s') = map (\<lambda>(i, p, ph, n). (i, p)) (cores s)"
    unfolding cs by (rule keys_map) simp
  then have same_keys: "(\<lambda>(i, p, ph, n). (i, p)) ` set (cores s') = (\<lambda>(i, p, ph, n). (i, p)) ` set (cores s)"
    by (metis set_map)
  have "keys_ok (cores s')" using inv unfolding plan_inv_def keys_ok_def keys by simp
  moreover have "trails_ok (cores s') (phase_log s')"
    using inv unfolding plan_inv_def trails_ok_def hist cs by auto
  moreover have "hist_inside (cores s') (phase_log s')"
    using inv unfolding plan_inv_def hist_inside_def hist same_keys by simp
  moreover have "one_next_up (cores s')"
    unfolding one_next_up_def
  proof (intro allI impI)
    fix i j p ph ph'
    assume "(i, p, ph, True) \<in> set (cores s')" and "(j, p, ph', True) \<in> set (cores s')"
    then obtain n m where c: "(i, p, ph, n) \<in> set (cores s)" "(j, p, ph', m) \<in> set (cores s)"
      and nm: "if p = pid then i = tid else n" "if p = pid then j = tid else m"
      by (auto simp: cs)
    show "i = j"
    proof (cases "p = pid")
      case False
      with c nm have "(i, p, ph, True) \<in> set (cores s)" "(j, p, ph', True) \<in> set (cores s)" by simp_all
      with inv show ?thesis unfolding plan_inv_def one_next_up_def by blast
    qed (use nm in simp)
  qed
  moreover have "subseq (history_moves s') (ledger_moves s')"
    using inv extends_subseq [OF _ ext] by (simp add: plan_inv_def history_moves_def hist)
  ultimately show ?thesis by (simp add: plan_inv_def)
qed

lemma quiet_disk: "quiet s (s\<lparr>append_error := e\<rparr>)"
  by (simp add: quiet_def extends_def)

lemma plan_inv_exec:
  assumes "plan_inv s"
  shows "plan_inv (exec_plan cx c s)"
proof (cases c)
  case (Create tid pid title goal a)
  from create_effect [of a tid pid s cx title goal] show ?thesis
    unfolding Create exec_plan.simps
    by (elim disjE conjE) (erule (1) plan_inv_grown [OF assms], erule plan_inv_quiet [OF assms])
next
  case (Phase tid pid to_phase actor reason approval)
  from transition_effect [of s cx tid pid to_phase actor reason approval] show ?thesis
    unfolding Phase exec_plan.simps
    by (elim disjE) (erule plan_inv_quiet [OF assms], erule plan_inv_moved [OF assms])
next
  case (NextUp tid pid)
  from next_up_effect [of s cx tid pid] show ?thesis
    unfolding NextUp exec_plan.simps
    by (elim disjE) (erule plan_inv_quiet [OF assms], erule plan_inv_next_up [OF assms])
qed (simp_all add: plan_inv_quiet [OF assms] quiet_ops quiet_disk)

lemma plan_inv_run: "plan_inv s \<Longrightarrow> plan_inv (run_plan cx cmds s)"
  unfolding run_plan_def by (induction cmds arbitrary: s) (simp_all add: plan_inv_exec)

section \<open>Phases, histories and the event file\<close>

definition empty_plan :: "store \<Rightarrow> string \<Rightarrow> (nat \<Rightarrow> int) \<Rightarrow> plan" where
  "empty_plan db file time =
     \<lparr>coord = db, tracks = [], phase_log = [], deps = [], links = [], deliveries = [], has_horizon = True,
      has_decision_ref = True, has_resolved_at = True, has_deliveries = True, has_derived = True,
      zero_tables = False, db_file = file, track_events = [], append_error = None, wall = time, reads = 0\<rparr>"

lemma plan_inv_empty: "plan_inv (empty_plan db file time)"
  by (simp add: plan_inv_def empty_plan_def cores_def keys_ok_def trails_ok_def hist_inside_def one_next_up_def
      history_moves_def)

text \<open>
  C7: Whatever commands have run on a new plan, in any order and with any failures of the event file, the
  history of every track leads edge by edge of \<^verbatim>\<open>ALLOWED_TRANSITIONS\<close> from the valid phase it was
  created in to the phase its row declares: no row is missing from it and none is out of order.
\<close>

theorem phase_history_follows_the_table:
  assumes "t \<in> set (tracks (run_plan cx cmds (empty_plan db file time)))"
  shows "\<exists>birth. birth \<in> set VALID_PHASES \<and>
    (let hs = filter (\<lambda>h. ph_track h = tr_id t \<and> ph_project h = tr_project t)
                (phase_log (run_plan cx cmds (empty_plan db file time)))
     in map ph_from hs @ [tr_phase t] = birth # map ph_to hs \<and> walk ALLOWED_TRANSITIONS birth (map ph_to hs))"
proof -
  have "plan_inv (run_plan cx cmds (empty_plan db file time))" by (rule plan_inv_run [OF plan_inv_empty])
  moreover have "core t \<in> set (cores (run_plan cx cmds (empty_plan db file time)))"
    using assms by (simp add: cores_def)
  ultimately have "trail_ok (trail (phase_log (run_plan cx cmds (empty_plan db file time))) (tr_id t) (tr_project t)) (tr_phase t)"
    unfolding plan_inv_def trails_ok_def core_def by blast
  then show ?thesis by (simp add: trail_ok_def trail_def Let_def)
qed

text \<open>
  C8: No phase changes without an audit line, and the audit has them in order: after any commands, with appends that
  fail before, in the middle of or after their write, the phase history of the database is a subsequence of the
  transitions whose lines have been written whole to the event file. (The file may hold more: a write that fails after its
  line leaves the line.) Of these lines a reader of the file finds, in order, all but at most as many as appends were cut short:
  only a line written directly behind a cut one is glued to it.
\<close>

theorem history_is_on_the_event_file:
  "let s = run_plan cx cmds (empty_plan db file time); pieces = track_events s
   in subseq (history_moves s) (List.map_filter transition_of (written_lines pieces)) \<and>
      subseq (readable_lines True pieces) (written_lines pieces) \<and>
      length (written_lines pieces) \<le> length (readable_lines True pieces) + torn_appends pieces"
  using plan_inv_run [OF plan_inv_empty, of cx cmds db "file" "time"] readable_written
    lost_lines [of "track_events (run_plan cx cmds (empty_plan db file time))" True]
  by (simp add: plan_inv_def ledger_moves_def Let_def)

text \<open>
  C9: After any commands a project has at most one track marked as next.
\<close>

theorem one_next_track_per_project:
  "length (filter (\<lambda>t. tr_project t = pid \<and> tr_next_up t) (tracks (run_plan cx cmds (empty_plan db file time)))) \<le> 1"
proof -
  let ?s = "run_plan cx cmds (empty_plan db file time)"
  let ?sel = "filter (\<lambda>t. tr_project t = pid \<and> tr_next_up t) (tracks ?s)"
  have inv: "plan_inv ?s" by (rule plan_inv_run [OF plan_inv_empty])
  then have "distinct (map (\<lambda>t. (tr_id t, tr_project t)) (tracks ?s))"
    by (simp add: plan_inv_def keys_ok_def cores_def core_def comp_def)
  then have d: "distinct (map (\<lambda>t. (tr_id t, tr_project t)) ?sel)" by (rule distinct_map_filter)
  have same: "tr_id t = tr_id u" if "t \<in> set ?sel" "u \<in> set ?sel" for t u
  proof -
    have "(tr_id t, pid, tr_phase t, True) \<in> set (cores ?s)" "(tr_id u, pid, tr_phase u, True) \<in> set (cores ?s)"
      using that by (force simp: cores_def core_def)+
    moreover have "one_next_up (cores ?s)" using inv by (simp add: plan_inv_def)
    ultimately show ?thesis unfolding one_next_up_def by blast
  qed
  show ?thesis
  proof (cases ?sel)
    case (Cons t rest)
    have "rest = []"
    proof (cases rest)
      case (Cons u rest')
      with \<open>?sel = t # rest\<close> have mem: "t \<in> set ?sel" "u \<in> set ?sel" by simp_all
      then have "tr_project t = tr_project u" by simp
      with same [OF mem] d \<open>?sel = t # rest\<close> Cons show ?thesis by simp
    qed simp
    with Cons show ?thesis by simp
  qed simp
qed


definition demo_codec :: codec where
  "demo_codec = \<lparr>float_show = (\<lambda>q. ''0.5''), float_read = (\<lambda>t. 1 / 2), sha256 = (\<lambda>t. ''h'' @ t), time_text = py_int\<rparr>"

definition demo_time :: "nat \<Rightarrow> int" where
  "demo_time n = 1000 * int n"

definition demo_plan :: plan where
  "demo_plan = empty_plan (empty_store [''dispatches'', ''coordination_events''] (Some ''vnx-dev'') 0) ''/db'' demo_time"

definition demo_cmds :: "plan_cmd list" where
  "demo_cmds =
     [Create ''t1'' ''vnx-dev'' ''First'' ''a goal'' new_track_defaults,
      Phase ''t1'' ''vnx-dev'' ''active'' ''operator'' None None,
      Phase ''t1'' ''vnx-dev'' ''queued'' ''operator'' None None,
      Phase ''t1'' ''vnx-dev'' ''done'' ''T0'' (Some ''shipped'') None]"

lemma metadata_dict_None [simp]: "metadata_dict cx None = []"
proof -
  have "json_loads (float_read cx) ''{}'' = Some (JObj [])"
    using json_loads_text [of "'', ''" "'': ''" "float_read cx" "\<lambda>q. []" "JObj []"] by (simp add: separators_def json_space_def)
  then show ?thesis by (simp add: metadata_dict_def or_else_def)
qed

text \<open>A change of phase that succeeds.\<close>

definition moved_plan ::
  "codec \<Rightarrow> string \<Rightarrow> string \<Rightarrow> string \<Rightarrow> string \<Rightarrow> string \<Rightarrow> string option \<Rightarrow> string option \<Rightarrow> plan \<Rightarrow> plan" where
  "moved_plan cx tid pid from_phase to_phase actor reason approval s =
     s\<lparr>reads := reads s + 2,
       track_events := track_events s @ [Line (moved_line cx (wall s (Suc (reads s))) tid pid actor from_phase to_phase)],
       tracks := update_where (\<lambda>t. tr_id t = tid \<and> tr_project t = pid) (moved_to to_phase (wall s (reads s))) (tracks s),
       phase_log := phase_log s @
         [\<lparr>ph_track = tid, ph_project = pid, ph_from = from_phase, ph_to = to_phase, ph_actor = actor,
           ph_reason = reason, ph_approval = approval, ph_at = wall s (reads s)\<rparr>]\<rparr>"

lemma next_up_unique_inv:
  assumes "keys_ok (map core rows)" and "one_next_up (map core rows)"
  shows "next_up_unique rows"
proof -
  let ?sel = "filter (\<lambda>t. tr_next_up t \<and> tr_phase t = ''queued'') rows"
  have d: "distinct (map (\<lambda>t. (tr_id t, tr_project t)) ?sel)"
    using assms(1) by (intro distinct_map_filter) (simp add: keys_ok_def core_def comp_def)
  have "inj_on tr_project (set ?sel)"
  proof (rule inj_onI)
    fix t u
    assume tu: "t \<in> set ?sel" "u \<in> set ?sel" "tr_project t = tr_project u"
    then have "(tr_id t, tr_project t, tr_phase t, True) \<in> set (map core rows)"
      "(tr_id u, tr_project t, tr_phase u, True) \<in> set (map core rows)"
      by (force simp: core_def)+
    with assms(2) have "tr_id t = tr_id u" unfolding one_next_up_def by blast
    with d tu show "t = u" by (auto simp: distinct_map inj_on_def)
  qed
  with d show ?thesis by (simp add: next_up_unique_def distinct_map)
qed

lemma core_moved_to: "core (moved_to p now t) = (tr_id t, tr_project t, p, tr_next_up t)"
  by (simp add: core_def moved_to_def)

lemma moved_next_up_unique:
  assumes "plan_inv s"
  shows "next_up_unique (update_where (\<lambda>t. tr_id t = tid \<and> tr_project t = pid) (moved_to to_phase now) (tracks s))"
proof (rule next_up_unique_inv)
  let ?rows = "update_where (\<lambda>t. tr_id t = tid \<and> tr_project t = pid) (moved_to to_phase now) (tracks s)"
  have cs: "map core ?rows = map (move_core tid pid to_phase) (cores s)"
    unfolding cores_def update_where_def by (auto simp: move_core_def core_def moved_to_def)
  show "keys_ok (map core ?rows)"
    using assms unfolding plan_inv_def keys_ok_def cs by (subst keys_map) (simp_all add: move_core_def)
  show "one_next_up (map core ?rows)"
    using assms unfolding plan_inv_def cs by (fastforce simp: one_next_up_def move_core_def)
qed

lemma find_track_moved:
  assumes "find_track s tid pid = Some t"
  shows "find_track (moved_plan cx tid pid from_phase to_phase actor reason approval s) tid pid =
    Some (moved_to to_phase (wall s (reads s)) t)"
proof -
  have "tr_id (moved_to p now u) = tr_id u \<and> tr_project (moved_to p now u) = tr_project u" for p now u
    by (simp add: moved_to_def)
  then show ?thesis
    using assms find_update_same [of "\<lambda>t. tr_id t = tid \<and> tr_project t = pid" "moved_to to_phase (wall s (reads s))" "tracks s"]
    by (simp add: find_track_def moved_plan_def)
qed

lemma transition_phase_step:
  assumes "plan_inv s" and "find_track s tid pid = Some t"
    and edge: "to_phase \<in> set (allowed_from ALLOWED_TRANSITIONS (tr_phase t))"
    and "actor \<in> set TRACK_ACTORS" and "\<not> zero_tables s" and "append_error s = None"
    and fresh: "\<And>h. h \<in> set (phase_log s) \<Longrightarrow> ph_at h < wall s (reads s)"
  shows "transition_phase cx tid pid to_phase actor reason approval s =
    (Inr (moved_to to_phase (wall s (reads s)) t), moved_plan cx tid pid (tr_phase t) to_phase actor reason approval s)"
proof -
  have no_loop: "tr_phase t \<noteq> to_phase"
  proof
    have "list_all (\<lambda>ph. ph \<notin> set (allowed_from ALLOWED_TRANSITIONS ph)) VALID_PHASES" by code_simp
    moreover assume "tr_phase t = to_phase"
    ultimately show False using edge allowed_valid [OF edge] by (simp add: list_all_iff)
  qed
  have "ph_at h \<noteq> wall s (reads s)" if "h \<in> set (phase_log s)" for h using fresh [OF that] by simp
  then have clash: "\<not> list_ex (\<lambda>g. ph_track g = tid \<and> ph_project g = pid \<and> ph_at g = wall s (reads s)) (phase_log s)"
    by (auto simp: list_ex_iff)
  have "find_track (s\<lparr>reads := r, track_events := ev, tracks := x, phase_log := l\<rparr>) tid pid =
      find (\<lambda>t. tr_id t = tid \<and> tr_project t = pid) x" for r ev x l
    by (simp add: find_track_def)
  then show ?thesis
    using assms no_loop allowed_valid [OF edge] clash moved_next_up_unique [OF assms(1), of tid pid to_phase "wall s (reads s)"]
      find_track_moved [OF assms(2), of cx "tr_phase t" to_phase actor reason approval]
    by (simp add: transition_phase_def get_conn_def require_track_def now_utc_def emit_track_event_def append_locked_def
        update_track_def insert_phase_row_def track_dict_def rollback_def Let_def moved_plan_def moved_line_def)
qed

text \<open>
  \<^verbatim>\<open>append_locked\<close> does not close a cut line: the next change of phase is committed with its line glued to the cut
  one, and no reader of the file finds it.
\<close>

lemma readable_torn: "readable_lines fresh (pre @ [Torn l]) = readable_lines fresh pre"
    "readable_lines fresh (pre @ [Torn l, Line m]) = readable_lines fresh pre"
proof (induction pre arbitrary: fresh)
  case (Cons p pre)
  { case 1 show ?case using Cons.IH(1) by (cases p) simp_all }
  { case 2 show ?case using Cons.IH(2) by (cases p) simp_all }
qed simp_all

lemma torn_append_hides_a_move:
  assumes "track_events s = pre @ [Torn l]"
  shows "readable_lines True (track_events (moved_plan cx tid pid from_phase to_phase actor reason approval s)) =
      readable_lines True (track_events s)" and
    "length (phase_log (moved_plan cx tid pid from_phase to_phase actor reason approval s)) = Suc (length (phase_log s))"
  by (simp_all add: moved_plan_def assms readable_torn)

lemma demo_created:
  "exec_plan demo_codec (Create ''t1'' ''vnx-dev'' ''First'' ''a goal'' new_track_defaults) demo_plan =
   demo_plan\<lparr>reads := 2, tracks := [new_track_row ''t1'' ''vnx-dev'' ''First'' ''a goal'' new_track_defaults True ''{}'' 0],
     track_events := [Line (track_event_record demo_codec 1000 ''track_created'' ''t1'' ''vnx-dev'' ''system'' [(''title'', JStr ''First'')])]\<rparr>"
  by (simp add: create_track_def new_track_defaults_def VALID_PHASES_def horizon_allowed_def initial_plan_scope_def
      get_conn_def insert_new_track_def now_utc_def demo_plan_def empty_plan_def emit_track_event_def append_locked_def
      ensure_horizon_column_def insert_track_def find_track_def rollback_def track_dict_def new_track_row_def
      stored_metadata_at_creation_def or_else_def demo_time_def Let_def)


lemma demo_inv: "plan_inv demo_plan"
  by (simp add: demo_plan_def plan_inv_empty)

definition demo_track :: track_row where
  "demo_track = new_track_row ''t1'' ''vnx-dev'' ''First'' ''a goal'' new_track_defaults True ''{}'' 0"

definition demo_started :: plan where
  "demo_started = snd (create_track demo_codec ''t1'' ''vnx-dev'' ''First'' ''a goal'' new_track_defaults demo_plan)"

lemma demo_started_sel:
  "find_track demo_started ''t1'' ''vnx-dev'' = Some demo_track" "tracks demo_started = [demo_track]"
  "zero_tables demo_started = False" "append_error demo_started = None" "phase_log demo_started = []"
  "wall demo_started = demo_time" "reads demo_started = 2" "tr_phase demo_track = ''queued''"
  "tr_id demo_track = ''t1''" "tr_project demo_track = ''vnx-dev''" "coord demo_started = coord demo_plan"
  "deps demo_started = []" "links demo_started = []" "deliveries demo_started = []" "has_deliveries demo_started"
  "has_resolved_at demo_started" "has_derived demo_started" "tr_pr_ref demo_track = None"
  by (simp_all only: demo_started_def demo_created exec_plan.simps [symmetric])
     (simp_all add: demo_track_def find_track_def new_track_row_def demo_plan_def
      empty_plan_def new_track_defaults_def)

lemma phase_history_follows_the_table_witness:
  "\<exists>birth. birth \<in> set VALID_PHASES \<and>
    (let hs = filter (\<lambda>h. ph_track h = ''t1'' \<and> ph_project h = ''vnx-dev'')
        (phase_log (run_plan demo_codec
           [Create ''t1'' ''vnx-dev'' ''First'' ''a goal'' new_track_defaults,
            Phase ''t1'' ''vnx-dev'' ''active'' ''operator'' None None] demo_plan))
     in map ph_from hs @ [''active''] = birth # map ph_to hs \<and> walk ALLOWED_TRANSITIONS birth (map ph_to hs))"
proof -
  have inv: "plan_inv demo_started" unfolding demo_started_def exec_plan.simps(1) [symmetric] by (rule plan_inv_exec [OF demo_inv])
  have edge: "''active'' \<in> set (allowed_from ALLOWED_TRANSITIONS (tr_phase demo_track))"
    unfolding demo_started_sel by code_simp
  let ?s = "run_plan demo_codec [Create ''t1'' ''vnx-dev'' ''First'' ''a goal'' new_track_defaults,
            Phase ''t1'' ''vnx-dev'' ''active'' ''operator'' None None] demo_plan"
  have "?s = moved_plan demo_codec ''t1'' ''vnx-dev'' ''queued'' ''active'' ''operator'' None None demo_started"
    using transition_phase_step [OF inv demo_started_sel(1) edge, of "''operator''" demo_codec None None]
    by (simp add: run_plan_def flip: demo_started_def) (simp add: demo_started_sel TRACK_ACTORS_def)
  then have "moved_to ''active'' 2000 demo_track \<in> set (tracks ?s)"
    by (simp add: moved_plan_def demo_started_sel demo_time_def)
  then have "moved_to ''active'' 2000 demo_track \<in> set (tracks (run_plan demo_codec
      [Create ''t1'' ''vnx-dev'' ''First'' ''a goal'' new_track_defaults,
       Phase ''t1'' ''vnx-dev'' ''active'' ''operator'' None None]
      (empty_plan (empty_store [''dispatches'', ''coordination_events''] (Some ''vnx-dev'') 0) ''/db'' demo_time)))"
    by (simp add: demo_plan_def)
  from phase_history_follows_the_table [OF this] show ?thesis
    by (simp add: demo_plan_def demo_started_sel moved_to_def)
qed

section \<open>Metadata\<close>

lemma metadata_dict_ok:
  assumes "floats_read_back cx"
  shows "json_ok (float_read cx) (float_show cx) (JObj (metadata_dict cx txt))"
proof (cases "json_loads (float_read cx) (or_else txt ''{}'')")
  case (Some v)
  with json_loads_ok [OF assms Some] show ?thesis by (cases v) (simp_all add: metadata_dict_def)
qed (simp add: metadata_dict_def)

lemma merge_updates_ok:
  assumes "distinct (map fst meta)" and "list_all (\<lambda>(k, v). P v) meta" and "list_all (\<lambda>(k, v). P v) updates"
  shows "distinct (map fst (merge_updates updates meta)) \<and> list_all (\<lambda>(k, v). P v) (merge_updates updates meta)"
  using assms
proof (induction updates arbitrary: meta)
  case (Cons kv updates)
  obtain k v where kv: "kv = (k, v)" by fastforce
  let ?m = "if v = JNull then AList.delete k meta else AList.update k v meta"
  have "list_all (\<lambda>(k, v). P v) (AList.update k v meta)" if "P v"
    using Cons.prems(2) that by (induction meta) auto
  then have "list_all (\<lambda>(k, v). P v) ?m"
    using Cons.prems(2,3) kv by (auto simp: list_all_iff AList.delete_eq)
  moreover have "distinct (map fst ?m)"
    using Cons.prems(1) by (simp add: distinct_update distinct_delete)
  ultimately show ?case using Cons.IH [of ?m] Cons.prems(3) kv by (simp add: merge_updates_def)
qed (simp add: merge_updates_def)

lemma merge_updates_lookup:
  assumes "distinct (map fst updates)"
  shows "map_of (merge_updates updates meta) k =
    (case map_of updates k of None \<Rightarrow> map_of meta k | Some v \<Rightarrow> if v = JNull then None else Some v)"
  using assms
proof (induction updates arbitrary: meta)
  case (Cons kv updates)
  obtain j v where kv: "kv = (j, v)" by fastforce
  have "j = k \<Longrightarrow> map_of updates k = None" using Cons.prems kv by (simp add: map_of_eq_None_iff)
  with Cons kv show ?case by (auto simp: merge_updates_def delete_conv update_conv split: option.split)
qed (simp add: merge_updates_def)

lemma metadata_round_trip:
  assumes "floats_read_back cx" and "list_all (\<lambda>(k, v). json_ok (float_read cx) (float_show cx) v) updates"
  shows "metadata_dict cx (Some (metadata_json_with cx existing updates)) =
    sort_members (merge_updates updates (metadata_dict cx existing))"
proof -
  let ?m = "merge_updates updates (metadata_dict cx existing)"
  have "json_ok (float_read cx) (float_show cx) (JObj ?m)"
    using merge_updates_ok [of "metadata_dict cx existing" "json_ok (float_read cx) (float_show cx)" updates]
      metadata_dict_ok [OF assms(1), of existing] assms(2) by simp
  then have "json_ok (float_read cx) (float_show cx) (sort_json (JObj ?m))" by (rule sort_json_ok)
  then have "json_loads (float_read cx) (metadata_json_with cx existing updates) = Some (sort_json (JObj ?m))"
    unfolding metadata_json_with_def by (intro json_loads_text) (simp_all add: separators_def json_space_def)
  moreover have "metadata_json_with cx existing updates \<noteq> []" by (simp add: metadata_json_with_def)
  ultimately show ?thesis by (simp add: metadata_dict_def or_else_def)
qed

text \<open>\<^verbatim>\<open>metadata.get(key)\<close>: no key and null are the same to a reader.\<close>

definition meta_get :: "codec \<Rightarrow> track_row \<Rightarrow> string \<Rightarrow> json option" where
  "meta_get cx t key =
     (case map_of (metadata_dict cx (tr_metadata t)) key of None \<Rightarrow> None | Some v \<Rightarrow> if v = JNull then None else Some v)"

lemma metadata_lookup:
  assumes "floats_read_back cx" and "list_all (\<lambda>(k, v). json_ok (float_read cx) (float_show cx) v) updates"
    and "distinct (map fst updates)"
  shows "map_of (metadata_dict cx (Some (metadata_json_with cx existing updates))) k =
    map_option sort_json (case map_of updates k of
        None \<Rightarrow> map_of (metadata_dict cx existing) k | Some v \<Rightarrow> if v = JNull then None else Some v)"
proof -
  have "distinct (map fst (merge_updates updates (metadata_dict cx existing)))"
    using merge_updates_ok [of "metadata_dict cx existing" "json_ok (float_read cx) (float_show cx)" updates]
      metadata_dict_ok [OF assms(1), of existing] assms(2) by simp
  then show ?thesis
    by (simp add: metadata_round_trip [OF assms(1,2)] map_of_sort_members merge_updates_lookup [OF assms(3)])
qed

lemma keep_planning_keys_lookup:
  assumes "floats_read_back cx" and "keep_planning_keys cx stored m = Inr txt"
  shows "map_of (metadata_dict cx (Some txt)) key =
    map_option sort_json
      (if key \<in> set PLANNING_METADATA_KEYS
       then (case map_of (metadata_dict cx stored) key of None \<Rightarrow> None | Some v \<Rightarrow> if v = JNull then None else Some v)
       else map_of (metadata_dict cx (Some m)) key)"
proof -
  let ?val = "\<lambda>key. case map_of (metadata_dict cx stored) key of None \<Rightarrow> JNull | Some v \<Rightarrow> v"
  let ?ups = "map (\<lambda>key. (key, ?val key)) PLANNING_METADATA_KEYS"
  from assms(2) have new: "txt = metadata_json_with cx (Some m) ?ups"
    by (simp add: keep_planning_keys_def Let_def split: option.split_asm json.split_asm)
  have "json_ok (float_read cx) (float_show cx) (?val k)" for k
    using metadata_dict_ok [OF assms(1), of stored] map_of_SomeD [of "metadata_dict cx stored" k]
    by (cases "map_of (metadata_dict cx stored) k") (auto simp: list_all_iff)
  then have ok: "list_all (\<lambda>(k, v). json_ok (float_read cx) (float_show cx) v) ?ups" by (simp add: list_all_iff)
  have d: "distinct (map fst ?ups)" by (simp add: PLANNING_METADATA_KEYS_def)
  have "map_of ?ups key = (if key \<in> set PLANNING_METADATA_KEYS then Some (?val key) else None)"
    by (simp add: map_of_map_restrict restrict_map_def)
  with metadata_lookup [OF assms(1) ok d, of "Some m" key] show ?thesis unfolding new by (auto split: option.split)
qed

lemma find_update_track:
  assumes "\<And>t. tr_id (f t) = tr_id t \<and> tr_project (f t) = tr_project t"
  shows "find_track (update_track tid pid f s) tid pid = map_option f (find_track s tid pid)"
  using find_update_same [of "\<lambda>t. tr_id t = tid \<and> tr_project t = pid" f "tracks s"] assms
  by (simp add: find_track_def update_track_def)

lemma find_track_frame [simp]:
  "find_track (s\<lparr>reads := r\<rparr>) tid pid = find_track s tid pid"
  "find_track (s\<lparr>track_events := ev\<rparr>) tid pid = find_track s tid pid"
  "find_track (s\<lparr>links := x\<rparr>) tid pid = find_track s tid pid"
  "find_track (s\<lparr>deps := y\<rparr>) tid pid = find_track s tid pid"
  by (simp_all add: find_track_def)

text \<open>When an operation returns.\<close>

lemma get_conn_eq_Inr: "get_conn f s = (Inr x, s') \<longleftrightarrow> \<not> zero_tables s \<and> f s = (Inr x, s')"
  by (cases "f s"; cases "fst (f s)") (auto simp: get_conn_def rollback_def)

lemma track_dict_eq_Inr: "track_dict tid pid s = (Inr t, s') \<longleftrightarrow> find_track s tid pid = Some t \<and> s' = s"
  by (auto simp: track_dict_def fetch_dict_eq_Inr)

lemmas returns_iffs = get_conn_eq_Inr bindP_eq_Inr require_track_eq_Inr emit_eq_Inr track_dict_eq_Inr

lemma author_ok:
  assumes "update_authored_fields cx tid pid a actor s = (Inr t', s')"
  shows "\<exists>t m. find_track s tid pid = Some t \<and> merged_metadata cx t (au_metadata a) = Inr m \<and>
    t' = set_authored a m t \<and> find_track s' tid pid = Some t' \<and> phase_log s' = phase_log s \<and>
    links s' = links s \<and> deps s' = deps s"
proof -
  have same: "tr_id (set_authored a m t) = tr_id t \<and> tr_project (set_authored a m t) = tr_project t" for m t
    by (simp add: set_authored_def)
  have no_change: "set_authored a m t = t" if "authored_fields a = []" "merged_metadata cx t (au_metadata a) = Inr m" for m t
  proof -
    from that(1) have a: "au_title a = None" "au_goal a = None" "au_priority a = None" "au_sort_order a = None"
      "au_horizon a = None" "au_pr_ref a = None" "au_metadata a = None"
      by (simp_all add: authored_fields_def filter_empty_conv split: if_split_asm)
    with that(2) have "m = None" by (simp add: merged_metadata_def)
    with a show ?thesis by (simp add: set_authored_def given_def)
  qed
  from assms have body: "bindP (require_track tid pid s) (\<lambda>row s.
        case merged_metadata cx row (au_metadata a) of Inl e \<Rightarrow> (Inl e, s) | Inr metadata \<Rightarrow>
        if au_horizon a \<noteq> None \<and> \<not> has_horizon s
        then (Inl (HorizonColumnMissingError (the (au_horizon a)) tid), s)
        else if authored_fields a = [] then track_dict tid pid s
        else bindP (emit_track_event cx ''track_authored_synced'' tid pid actor
                      [(''fields'', JList (map JStr (sort (authored_fields a))))] s) (\<lambda>_ s.
             track_dict tid pid (update_track tid pid (set_authored a metadata) s))) = (Inr t', s')"
    by (simp add: update_authored_fields_def get_conn_eq_Inr split: if_split_asm)
  then obtain t where t: "find_track s tid pid = Some t" by (auto simp: bindP_eq_Inr require_track_eq_Inr)
  obtain m where m: "merged_metadata cx t (au_metadata a) = Inr m"
    using body t by (cases "merged_metadata cx t (au_metadata a)") (simp_all add: require_track_def)
  have upd: "find_track (update_track tid pid (set_authored a m) x) tid pid = map_option (set_authored a m) (find_track x tid pid)" for x
    by (rule find_update_track) (rule same)
  show ?thesis
  proof (cases "authored_fields a = []")
    case True
    with body t m have same_row: "t' = t \<and> s' = s"
      by (auto simp: require_track_def track_dict_eq_Inr split: if_split_asm)
    then have "t' = set_authored a m t" by (metis no_change [OF True m])
    with t m same_row show ?thesis by blast
  next
    case False
    with body t m obtain s1 where
      e: "emit_track_event cx ''track_authored_synced'' tid pid actor [(''fields'', JList (map JStr (sort (authored_fields a))))] s = (Inr (), s1)" and
      r: "track_dict tid pid (update_track tid pid (set_authored a m) s1) = (Inr t', s')"
      by (auto simp: require_track_def bindP_eq_Inr split: if_split_asm)
    from e have s1: "find_track s1 tid pid = Some t" "phase_log s1 = phase_log s" "links s1 = links s" "deps s1 = deps s"
      using t by (simp_all add: emit_eq_Inr)
    from r have "s' = update_track tid pid (set_authored a m) s1" "find_track s' tid pid = Some t'"
      by (simp_all add: track_dict_eq_Inr)
    with s1 t m upd [of s1] show ?thesis by (simp add: update_track_def)
  qed
qed

text \<open>
  C10: The authored sync never moves a track: phase, phase time, completion, next-up mark and derived status
  stay, as do history, links and edges. The planning keys of the metadata keep what a reader
  gets from them, whatever the synced blob says about them; every other key is the blob's.
\<close>

theorem authored_sync_keeps_planning_state:
  assumes "floats_read_back cx"
    and "update_authored_fields cx tid pid a actor s = (Inr t', s')"
  shows "\<exists>t. find_track s tid pid = Some t \<and> find_track s' tid pid = Some t' \<and>
     tr_phase t' = tr_phase t \<and> tr_phase_changed_at t' = tr_phase_changed_at t \<and>
     tr_completed_at t' = tr_completed_at t \<and> tr_next_up t' = tr_next_up t \<and> tr_derived t' = tr_derived t \<and>
     phase_log s' = phase_log s \<and> links s' = links s \<and> deps s' = deps s \<and>
     (case au_metadata a of
        None \<Rightarrow> tr_metadata t' = tr_metadata t
      | Some blob \<Rightarrow>
          (\<forall>key. map_of (metadata_dict cx (tr_metadata t')) key =
             map_option sort_json
               (if key \<in> set PLANNING_METADATA_KEYS then meta_get cx t key
                else map_of (metadata_dict cx (Some blob)) key)))"
proof -
  from author_ok [OF assms(2)] obtain t m where t: "find_track s tid pid = Some t"
    "merged_metadata cx t (au_metadata a) = Inr m" "t' = set_authored a m t" "find_track s' tid pid = Some t'"
    "phase_log s' = phase_log s" "links s' = links s" "deps s' = deps s" by blast
  have "tr_metadata t' = tr_metadata t" if "au_metadata a = None"
    using t(2,3) that by (simp add: merged_metadata_def set_authored_def)
  moreover have "map_of (metadata_dict cx (tr_metadata t')) key =
      map_option sort_json (if key \<in> set PLANNING_METADATA_KEYS then meta_get cx t key
        else map_of (metadata_dict cx (Some blob)) key)" if "au_metadata a = Some blob" for blob key
  proof -
    from t(2) that obtain new where "keep_planning_keys cx (tr_metadata t) blob = Inr new" "m = Some new"
      by (auto simp: merged_metadata_def bindE_eq_Inr)
    with keep_planning_keys_lookup [OF assms(1) this(1), of key] t(3) show ?thesis
      by (simp add: set_authored_def meta_get_def)
  qed
  ultimately show ?thesis using t by (cases "au_metadata a") (simp_all add: set_authored_def)
qed

definition demo_sync :: authored where
  "demo_sync = \<lparr>au_title = None, au_goal = None, au_priority = None, au_sort_order = Some 3, au_horizon = None,
     au_pr_ref = None, au_metadata = Some ''{}''\<rparr>"

lemma demo_codec_reads_back: "floats_read_back demo_codec"
proof -
  have "float_ok (\<lambda>t. 1 / 2) (\<lambda>q. ''0.5'') (1 / 2)" by code_simp
  then show ?thesis by (simp add: floats_read_back_def demo_codec_def)
qed

lemma authored_sync_keeps_planning_state_witness:
  "\<exists>t' s'. update_authored_fields demo_codec ''t1'' ''vnx-dev'' demo_sync ''system'' demo_started = (Inr t', s') \<and>
     tr_phase t' = ''queued'' \<and> phase_log s' = phase_log demo_started \<and>
     map_of (metadata_dict demo_codec (tr_metadata t')) ''plan_scope'' = map_option sort_json (meta_get demo_codec demo_track ''plan_scope'')"
proof -
  have "json_loads (float_read demo_codec) ''{}'' = Some (JObj [])"
    using metadata_dict_None by (simp add: demo_codec_def) code_simp
  then obtain m where "keep_planning_keys demo_codec (tr_metadata demo_track) ''{}'' = Inr m"
    by (simp add: keep_planning_keys_def Let_def)
  then have merged: "merged_metadata demo_codec demo_track (Some ''{}'') = Inr (Some m)" by (simp add: merged_metadata_def)
  have found: "find_track (update_track ''t1'' ''vnx-dev'' (set_authored demo_sync (Some m)) x) ''t1'' ''vnx-dev'' =
      map_option (set_authored demo_sync (Some m)) (find_track x ''t1'' ''vnx-dev'')" for x
    by (rule find_update_track) (simp add: set_authored_def)
  have "au_metadata demo_sync = Some ''{}''" "au_horizon demo_sync = None" "authored_fields demo_sync \<noteq> []"
    by (simp_all add: demo_sync_def authored_fields_def)
  then obtain t' s' where ok: "update_authored_fields demo_codec ''t1'' ''vnx-dev'' demo_sync ''system'' demo_started = (Inr t', s')"
    using merged demo_started_sel found
    by (simp add: update_authored_fields_def horizon_allowed_def get_conn_def rollback_def require_track_def
        emit_track_event_def now_utc_def append_locked_def Let_def track_dict_def)
  from authored_sync_keeps_planning_state [OF demo_codec_reads_back ok] demo_started_sel
  have "tr_phase t' = ''queued''" "phase_log s' = phase_log demo_started"
    "map_of (metadata_dict demo_codec (tr_metadata t')) ''plan_scope'' = map_option sort_json (meta_get demo_codec demo_track ''plan_scope'')"
    by (auto simp: demo_sync_def PLANNING_METADATA_KEYS_def split: if_split_asm)
  with ok show ?thesis by blast
qed

end
