(* ===== verification/Phase_Search.thy ===== *)
theory Phase_Search
  imports Prelude "HOL-Library.While_Combinator"
begin

text \<open>
  \<^verbatim>\<open>_phase_path_to\<close> of \<^verbatim>\<open>scripts/lib/track_reconciler.py\<close>: a breadth-first search for the shortest legal
  path of phases, here over any transition table.

  The loop is kept as a loop over the set of seen phases, the queue and the path found;
  \<open>None\<close> is a search that never returns. Theorems: the search always returns; what it returns is a
  legal path no longer than any other, and it finds none exactly when there is none.
\<close>

section \<open>The search\<close>

type_synonym search = "string list \<times> (string \<times> string list) list \<times> string list option"

fun visit :: "string \<Rightarrow> string list \<Rightarrow> string list \<Rightarrow> string list \<Rightarrow> (string \<times> string list) list \<Rightarrow> search" where
  "visit target path [] seen queue = (seen, queue, None)"
| "visit target path (x # xs) seen queue =
     (if x \<in> set seen then visit target path xs seen queue
      else let new_path = path @ [x] in
        if x = target then (seen, queue, Some new_path)
        else visit target path xs (x # seen) (queue @ [(x, new_path)]))"

definition searching :: "search \<Rightarrow> bool" where
  "searching = (\<lambda>(seen, queue, found). queue \<noteq> [] \<and> found = None)"

definition search_step :: "(string \<times> string list) list \<Rightarrow> string \<Rightarrow> search \<Rightarrow> search" where
  "search_step table target = (\<lambda>(seen, queue, found).
     case queue of
       [] \<Rightarrow> (seen, queue, found)
     | (node, path) # rest \<Rightarrow> visit target path (sort (allowed_from table node)) seen rest)"

definition phase_path_to :: "(string \<times> string list) list \<Rightarrow> string \<Rightarrow> string \<Rightarrow> string list option option" where
  "phase_path_to table start target =
     (if start = target then Some (Some [])
      else map_option (\<lambda>(seen, queue, found). found)
             (while_option searching (search_step table target) ([start], [(start, [])], None)))"

section \<open>It returns\<close>

text \<open>Every round takes a phase from the queue and adds only phases not seen before.\<close>

definition edges_into :: "(string \<times> string list) list \<Rightarrow> string set" where
  "edges_into table = \<Union> (set ` snd ` set table)"

definition unseen :: "(string \<times> string list) list \<Rightarrow> string list \<Rightarrow> nat" where
  "unseen table seen = card (edges_into table - set seen)"

lemma allowed_into: "set (allowed_from table s) \<subseteq> edges_into table"
proof
  fix t
  assume "t \<in> set (allowed_from table s)"
  then obtain ts where "(s, ts) \<in> set table" "t \<in> set ts" using allowed_from_all_keys by blast
  then show "t \<in> edges_into table" by (force simp: edges_into_def)
qed

lemma finite_edges: "finite (edges_into table)"
  by (simp add: edges_into_def)

lemma visit_measure:
  assumes "visit target path xs seen queue = (seen', queue', found)" and "set xs \<subseteq> edges_into table"
  shows "2 * unseen table seen' + length queue' \<le> 2 * unseen table seen + length queue"
  using assms
proof (induction target path xs seen queue rule: visit.induct)
  case (2 target path x xs seen queue)
  show ?case
  proof (cases "x \<in> set seen \<or> x = target")
    case True
    with 2 show ?thesis by (auto simp: Let_def split: if_splits)
  next
    case False
    then have "unseen table (x # seen) < unseen table seen"
      using "2.prems"(2) finite_edges unfolding unseen_def by (intro psubset_card_mono) auto
    with False 2 show ?thesis by (auto simp: Let_def)
  qed
qed simp

lemma search_step_measure:
  assumes "searching st"
  shows "(\<lambda>(seen, queue, found). 2 * unseen table seen + length queue) (search_step table target st)
       < (\<lambda>(seen, queue, found). 2 * unseen table seen + length queue) st"
proof -
  obtain seen node path rest where st: "st = (seen, (node, path) # rest, None)"
    using assms by (cases st) (auto simp: searching_def neq_Nil_conv)
  obtain seen' queue' found' where v: "visit target path (sort (allowed_from table node)) seen rest = (seen', queue', found')"
    by (metis prod_cases3)
  with visit_measure [OF v, of table] allowed_into [of table node] st show ?thesis by (simp add: search_step_def)
qed

text \<open>
  C11: The search for a phase path returns, whatever the transition table and whatever the two phases,
  cycles of the table included.
\<close>

theorem phase_search_returns: "\<exists>path. phase_path_to table start target = Some path"
proof -
  have "\<exists>st. while_option searching (search_step table target) ([start], [(start, [])], None) = Some st"
    by (rule measure_while_option_Some [where P = "\<lambda>_. True" and f = "\<lambda>(seen, queue, found). 2 * unseen table seen + length queue"])
       (auto dest: search_step_measure [of _ table target])
  then show ?thesis by (auto simp: phase_path_to_def)
qed


section \<open>What it returns\<close>

text \<open>
  One visit: it finds the target exactly when the target is a successor, and otherwise queues the
  successors that were not seen.
\<close>

lemma visit_found:
  assumes "visit target path xs seen queue = (seen', queue', Some found)"
  shows "found = path @ [target] \<and> target \<in> set xs"
  using assms
  by (induction target path xs seen queue rule: visit.induct) (auto simp: Let_def split: if_splits)

lemma visit_queued:
  assumes "visit target path xs seen queue = (seen', queue', None)" and "target \<notin> set seen"
  shows "\<exists>new. queue' = queue @ map (\<lambda>x. (x, path @ [x])) new \<and> set new = set xs - set seen \<and>
    set seen' = set seen \<union> set xs \<and> target \<notin> set seen'"
  using assms
proof (induction target path xs seen queue rule: visit.induct)
  case (2 target path x xs seen queue)
  show ?case
  proof (cases "x \<in> set seen")
    case True
    with 2 obtain new where "queue' = queue @ map (\<lambda>x. (x, path @ [x])) new" "set new = set xs - set seen"
      "set seen' = set seen \<union> set xs" "target \<notin> set seen'" by auto
    with True show ?thesis by (intro exI [of _ new]) auto
  next
    case False
    with "2.prems" have x: "x \<noteq> target" by (auto simp: Let_def)
    with False 2 obtain new where "queue' = (queue @ [(x, path @ [x])]) @ map (\<lambda>x. (x, path @ [x])) new"
      "set new = set xs - set (x # seen)" "set seen' = set (x # seen) \<union> set xs" "target \<notin> set seen'"
      by (auto simp: Let_def)
    with False show ?thesis by (intro exI [of _ "x # new"]) auto
  qed
qed simp

text \<open>
  The invariant: the queue holds shortest paths in order of length, at most one step apart; a seen
  phase waits in the queue or has all its successors seen; what is closer than the head was seen.
\<close>

definition leads :: "(string \<times> string list) list \<Rightarrow> string \<Rightarrow> string list \<Rightarrow> string \<Rightarrow> bool" where
  "leads table start path node = (walk table start path \<and> last_state start path = node)"

definition shortest :: "(string \<times> string list) list \<Rightarrow> string \<Rightarrow> string list \<Rightarrow> string \<Rightarrow> bool" where
  "shortest table start path node =
     (leads table start path node \<and> (\<forall>other. leads table start other node \<longrightarrow> length path \<le> length other))"

fun level :: "(string \<times> string list) list \<Rightarrow> bool" where
  "level [] = True"
| "level ((n, p) # queue) = ((\<forall>(m, q) \<in> set queue. length p \<le> length q \<and> length q \<le> Suc (length p)) \<and> level queue)"

definition queued_paths :: "(string \<times> string list) list \<Rightarrow> string \<Rightarrow> string list \<Rightarrow> (string \<times> string list) list \<Rightarrow> bool" where
  "queued_paths table start seen queue = (\<forall>(n, p) \<in> set queue. shortest table start p n \<and> n \<in> set seen)"

definition closed_seen :: "(string \<times> string list) list \<Rightarrow> string list \<Rightarrow> (string \<times> string list) list \<Rightarrow> bool" where
  "closed_seen table seen queue =
     (\<forall>v \<in> set seen. v \<in> fst ` set queue \<or> set (allowed_from table v) \<subseteq> set seen)"

definition near_seen :: "(string \<times> string list) list \<Rightarrow> string \<Rightarrow> string list \<Rightarrow> (string \<times> string list) list \<Rightarrow> bool" where
  "near_seen table start seen queue =
     (case queue of
        [] \<Rightarrow> True
      | (n, p) # _ \<Rightarrow> \<forall>w. walk table start w \<longrightarrow> length w \<le> length p \<longrightarrow> last_state start w \<in> set seen)"

definition search_inv :: "(string \<times> string list) list \<Rightarrow> string \<Rightarrow> string \<Rightarrow> search \<Rightarrow> bool" where
  "search_inv table start target = (\<lambda>(seen, queue, found).
     case found of
       Some path \<Rightarrow> shortest table start path target
     | None \<Rightarrow> start \<in> set seen \<and> target \<notin> set seen \<and> level queue \<and> queued_paths table start seen queue \<and>
               closed_seen table seen queue \<and> near_seen table start seen queue)"

lemma leads_snoc: "leads table start p n \<Longrightarrow> x \<in> set (allowed_from table n) \<Longrightarrow> leads table start (p @ [x]) x"
  by (auto simp: leads_def walk_snoc)

text \<open>A successor of the head that was not seen is one step further than the head, and no closer.\<close>

lemma shortest_snoc:
  assumes "shortest table start p n" and "near_seen table start seen ((n, p) # rest)"
    and "x \<in> set (allowed_from table n)" and "x \<notin> set seen"
  shows "shortest table start (p @ [x]) x"
  unfolding shortest_def
proof (intro conjI allI impI)
  show "leads table start (p @ [x]) x" using assms(1,3) leads_snoc by (auto simp: shortest_def)
next
  fix other
  assume "leads table start other x"
  with assms(2,4) have "\<not> length other \<le> length p" by (auto simp: near_seen_def leads_def)
  then show "length (p @ [x]) \<le> length other" by simp
qed

lemma level_append:
  assumes "level rest" and "\<forall>(m, q) \<in> set rest. l \<le> length q \<and> length q \<le> Suc l"
    and "\<forall>(m, q) \<in> set new. length q = Suc l"
  shows "level (rest @ new)"
  using assms
proof (induction rest)
  case Nil
  then show ?case by (induction new) fastforce+
next
  case (Cons mq rest)
  then show ?case by (cases mq) fastforce
qed

lemma near_seen_next:
  assumes near: "near_seen table start seen ((n, p) # rest)" and "level ((n, p) # rest)"
    and "queued_paths table start seen ((n, p) # rest)" and closed: "closed_seen table seen ((n, p) # rest)"
    and new: "\<forall>(m, q) \<in> set new. length q = Suc (length p)"
    and seen': "set seen' = set seen \<union> set (allowed_from table n)"
  shows "near_seen table start seen' (rest @ new)"
proof (cases "rest @ new")
  case (Cons mq queue)
  obtain m q where mq: "mq = (m, q)" by fastforce
  have bounds: "length p \<le> length q \<and> length q \<le> Suc (length p)"
    using Cons mq assms(2) new by (cases rest) auto
  have "last_state start w \<in> set seen'" if w: "walk table start w" "length w \<le> length q" for w
  proof (cases "length w \<le> length p")
    case True
    with near w(1) seen' show ?thesis by (simp add: near_seen_def)
  next
    case False
    with w(2) bounds have len: "length w = Suc (length p)" "length q = Suc (length p)" by simp_all
    then obtain w' x where w': "w = w' @ [x]" by (cases w rule: rev_cases) auto
    let ?u = "last_state start w'"
    have u: "walk table start w'" "x \<in> set (allowed_from table ?u)" "length w' = length p"
      using w(1) w' len by (simp_all add: walk_snoc)
    with near have seen: "?u \<in> set seen" by (simp add: near_seen_def)
    have "?u \<notin> fst ` set rest"
    proof
      assume "?u \<in> fst ` set rest"
      then obtain r where r: "(?u, r) \<in> set rest" by auto
      then have "length r \<le> length w'"
        using assms(3) u(1) by (auto simp: queued_paths_def shortest_def leads_def)
      moreover have "length q \<le> length r"
        using assms(2) r Cons mq by (cases rest) auto
      ultimately show False using len u(3) by simp
    qed
    with closed seen have "?u = n \<or> set (allowed_from table ?u) \<subseteq> set seen" by (auto simp: closed_seen_def)
    with u(2) seen' w' show ?thesis by auto
  qed
  then show ?thesis using Cons mq by (simp add: near_seen_def)
qed (simp add: near_seen_def)

lemma search_inv_step:
  assumes "search_inv table start target st" and "searching st"
  shows "search_inv table start target (search_step table target st)"
proof -
  obtain seen n p rest where st: "st = (seen, (n, p) # rest, None)"
    using assms(2) by (cases st) (auto simp: searching_def neq_Nil_conv)
  with assms(1) have inv: "start \<in> set seen" "target \<notin> set seen" "level ((n, p) # rest)"
    "queued_paths table start seen ((n, p) # rest)" "closed_seen table seen ((n, p) # rest)"
    "near_seen table start seen ((n, p) # rest)"
    by (simp_all add: search_inv_def)
  then have p: "shortest table start p n" by (simp add: queued_paths_def)
  obtain seen' queue' found' where v: "visit target p (sort (allowed_from table n)) seen rest = (seen', queue', found')"
    by (metis prod_cases3)
  have step: "search_step table target st = (seen', queue', found')" by (simp add: search_step_def st v)
  show ?thesis
  proof (cases found')
    case (Some path)
    with visit_found v have "path = p @ [target] \<and> target \<in> set (allowed_from table n)" by fastforce
    with shortest_snoc [OF p inv(6)] inv(2) Some step show ?thesis by (simp add: search_inv_def)
  next
    case None
    with visit_queued v inv(2) obtain new where
      new: "queue' = rest @ map (\<lambda>x. (x, p @ [x])) new" "set new = set (allowed_from table n) - set seen"
      "set seen' = set seen \<union> set (allowed_from table n)" "target \<notin> set seen'" by fastforce
    let ?new = "map (\<lambda>x. (x, p @ [x])) new"
    have "level queue'"
      unfolding new(1) by (rule level_append [of _ "length p"]) (use inv(3) in auto)
    moreover have "queued_paths table start seen' queue'"
      using inv(4) shortest_snoc [OF p inv(6)] new by (auto simp: queued_paths_def)
    moreover have "closed_seen table seen' queue'"
      unfolding closed_seen_def
    proof
      fix v
      assume "v \<in> set seen'"
      then consider "v \<in> set new" | "v = n" | "v \<in> set seen" "v \<noteq> n" using new(2,3) by auto
      then show "v \<in> fst ` set queue' \<or> set (allowed_from table v) \<subseteq> set seen'"
      proof cases
        case 1
        then show ?thesis by (force simp: new(1))
      next
        case 2
        then show ?thesis using new(3) by simp
      next
        case 3
        with inv(5) have "v \<in> fst ` set rest \<or> set (allowed_from table v) \<subseteq> set seen"
          by (auto simp: closed_seen_def)
        then show ?thesis using new(1,3) by auto
      qed
    qed
    moreover have "near_seen table start seen' queue'"
      unfolding new(1) by (rule near_seen_next [OF inv(6,3,4,5) _ new(3)]) auto
    ultimately show ?thesis using None step inv(1) new(3,4) by (simp add: search_inv_def)
  qed
qed


lemma walk_stays:
  assumes "\<forall>v \<in> set seen. set (allowed_from table v) \<subseteq> set seen" and "start \<in> set seen" and "walk table start w"
  shows "last_state start w \<in> set seen"
  using assms(3)
proof (induction w rule: rev_induct)
  case (snoc x w)
  then show ?case using assms(1) by (auto simp: walk_snoc)
qed (use assms(2) in simp)

lemma phase_path_found:
  assumes "phase_path_to table start target = Some found"
  shows "case found of
      Some path \<Rightarrow> shortest table start path target
    | None \<Rightarrow> (\<forall>other. \<not> leads table start other target)"
proof (cases "start = target")
  case True
  with assms show ?thesis by (auto simp: phase_path_to_def shortest_def leads_def)
next
  case False
  with assms obtain seen queue where
    run: "while_option searching (search_step table target) ([start], [(start, [])], None) = Some (seen, queue, found)"
    by (auto simp: phase_path_to_def)
  have "search_inv table start target ([start], [(start, [])], None)"
    using False by (auto simp: search_inv_def queued_paths_def closed_seen_def near_seen_def shortest_def leads_def)
  from while_option_rule [of "search_inv table start target", OF search_inv_step run this]
  have inv: "search_inv table start target (seen, queue, found)" by blast
  show ?thesis
  proof (cases found)
    case (Some path)
    with inv show ?thesis by (simp add: search_inv_def)
  next
    case None
    with while_option_stop [OF run] have "queue = []" by (simp add: searching_def)
    with inv None have "\<forall>v \<in> set seen. set (allowed_from table v) \<subseteq> set seen" "start \<in> set seen" "target \<notin> set seen"
      by (simp_all add: search_inv_def closed_seen_def)
    with walk_stays None show ?thesis by (fastforce simp: leads_def)
  qed
qed

text \<open>
  C12: The search for a phase path is right on every transition table: a path it returns is a legal
  walk to the target and no legal walk is shorter; when it returns none, no legal walk reaches the target.
\<close>

theorem phase_path_is_shortest:
  assumes "phase_path_to table start target = Some found"
  shows "case found of
      Some path \<Rightarrow> walk table start path \<and> last_state start path = target \<and>
        (\<forall>other. walk table start other \<and> last_state start other = target \<longrightarrow> length path \<le> length other)
    | None \<Rightarrow> (\<forall>other. walk table start other \<longrightarrow> last_state start other \<noteq> target)"
  using phase_path_found [OF assms] by (auto simp: shortest_def leads_def split: option.split)

lemma phase_path_is_shortest_witness:
  "walk [(''a'', [''b'', ''c'']), (''b'', [''a'']), (''c'', [''d''])] ''a'' [''c'', ''d''] \<and>
   phase_path_to [(''a'', [''b'', ''c'']), (''b'', [''a'']), (''c'', [''d''])] ''a'' ''d'' = Some (Some [''c'', ''d''])"
proof -
  have run: "phase_path_to [(''a'', [''b'', ''c'']), (''b'', [''a'']), (''c'', [''d''])] ''a'' ''d'' = Some (Some [''c'', ''d''])"
    by code_simp
  from phase_path_is_shortest [OF run] run show ?thesis by simp
qed

end
