(* ===== verification/Track_Reconciler.thy ===== *)
theory Track_Reconciler
  imports Tracks Phase_Search
begin

text \<open>
  The rollup of tracks and their closing: \<^verbatim>\<open>scripts/lib/track_reconciler.py\<close>,
  \<^verbatim>\<open>track_reconciler_status.py\<close>, \<^verbatim>\<open>track_reconciler_revalidation.py\<close> and
  \<^verbatim>\<open>track_reconciler_closure.py\<close>. A track's status is derived from its open items, its dependencies, its
  dispatches and the merged pull requests; closing it walks its declared phase to done.

  The set of merged pull requests is what the caller passes or, when it passes none, the set the
  local event files and \<^verbatim>\<open>gh\<close> give, an argument. The event id that the code hashes from the text of the event is the
  next value of the store's source.
\<close>

section \<open>Pull request references\<close>

definition parse_pr_number :: "string option \<Rightarrow> int option" where
  "parse_pr_number pr_ref =
     (if truthy pr_ref then int_of_text (py_strip (dropWhile (\<lambda>c. c = CHR ''#'') (py_strip (the pr_ref)))) else None)"

text \<open>\<^verbatim>\<open>re.split(r"[,\s]+", ...)\<close>, up to empty tokens, which parse to no number.\<close>

definition pr_separator :: "char \<Rightarrow> bool" where
  "pr_separator c = (c = CHR '','' \<or> is_space c)"

fun split_at :: "(char \<Rightarrow> bool) \<Rightarrow> string \<Rightarrow> string list" where
  "split_at p [] = [[]]"
| "split_at p (c # cs) =
     (if p c then [] # split_at p cs
      else (case split_at p cs of t # ts \<Rightarrow> (c # t) # ts | [] \<Rightarrow> [[c]]))"

definition parse_pr_numbers :: "string option \<Rightarrow> int set" where
  "parse_pr_numbers pr_ref =
     (if truthy pr_ref
      then set (List.map_filter (\<lambda>tok. parse_pr_number (Some tok)) (split_at pr_separator (py_strip (the pr_ref))))
      else {})"

section \<open>Delivery markings\<close>

record hold =
  ho_unverifiable :: bool
  ho_partial :: "int option"
  ho_complete :: "int option"
  ho_unmarked :: int
  ho_total :: int
  ho_prs :: "int list"

text \<open>The partial, complete and unrecognised markings of the linked pull requests, and which hold.\<close>

fun tally_delivery_rows :: "delivery_row list \<Rightarrow> int set \<Rightarrow> int \<times> int \<times> int \<times> int set" where
  "tally_delivery_rows [] nums = (0, 0, 0, {})"
| "tally_delivery_rows (row # rows) nums =
     (let (partial, complete, corrupt, held) = tally_delivery_rows rows nums
      in if dv_pr row \<notin> nums then (partial, complete, corrupt, held)
         else if dv_kind row = ''complete'' then (partial, complete + 1, corrupt, held)
         else if dv_kind row = ''partial'' then (partial + 1, complete, corrupt, insert (dv_pr row) held)
         else (partial, complete, corrupt + 1, insert (dv_pr row) held))"

definition delivery_rows :: "plan \<Rightarrow> string \<Rightarrow> string \<Rightarrow> delivery_row list" where
  "delivery_rows s track_id project_id =
     filter (\<lambda>v. dv_track v = track_id \<and> dv_project v = project_id) (deliveries s)"

definition delivery_hold :: "plan \<Rightarrow> string \<Rightarrow> string \<Rightarrow> string option \<Rightarrow> hold option" where
  "delivery_hold s track_id project_id pr_ref =
     (let nums = parse_pr_numbers pr_ref; total = int (card nums)
      in if nums = {} then None
         else if \<not> has_deliveries s
         then Some \<lparr>ho_unverifiable = True, ho_partial = None, ho_complete = None, ho_unmarked = total,
                   ho_total = total, ho_prs = sorted_list_of_set nums\<rparr>
         else let (partial, complete, corrupt, held) = tally_delivery_rows (delivery_rows s track_id project_id) nums
           in if partial + corrupt = 0 then None
              else Some \<lparr>ho_unverifiable = False, ho_partial = Some partial, ho_complete = Some complete,
                        ho_unmarked = total - partial - complete - corrupt, ho_total = total,
                        ho_prs = sorted_list_of_set held\<rparr>)"

section \<open>What blocks a track\<close>

definition ADVISORY_DEPENDENCY_KINDS :: "string list" where
  "ADVISORY_DEPENDENCY_KINDS = [''soft'', ''overlap'']"

definition unfinished :: "plan \<Rightarrow> string \<Rightarrow> string \<Rightarrow> dep_view list" where
  "unfinished s track_id project_id = filter (\<lambda>d. de_phase d \<noteq> ''done'') (edges_of s track_id project_id)"

definition blocking_dependencies :: "plan \<Rightarrow> string \<Rightarrow> string \<Rightarrow> dep_view list" where
  "blocking_dependencies s track_id project_id =
     filter (\<lambda>d. de_kind d \<notin> set ADVISORY_DEPENDENCY_KINDS) (unfinished s track_id project_id)"

definition advisory_dependencies :: "plan \<Rightarrow> string \<Rightarrow> string \<Rightarrow> dep_view list" where
  "advisory_dependencies s track_id project_id =
     filter (\<lambda>d. de_kind d \<in> set ADVISORY_DEPENDENCY_KINDS) (unfinished s track_id project_id)"

definition blocking_links :: "plan \<Rightarrow> string \<Rightarrow> string \<Rightarrow> link_row list" where
  "blocking_links s track_id project_id =
     filter (\<lambda>l. lk_track l = track_id \<and> lk_project l = project_id \<and> lk_type l = ''blocks'' \<and>
                 (has_resolved_at s \<longrightarrow> lk_resolved_at l = None)) (links s)"

record blocking =
  bl_items :: "string list"
  bl_deps :: "dep_view list"
  bl_advisory :: "dep_view list"

definition blocking_detail :: "plan \<Rightarrow> string \<Rightarrow> string \<Rightarrow> blocking" where
  "blocking_detail s track_id project_id =
     \<lparr>bl_items = sort (map lk_item (blocking_links s track_id project_id)),
      bl_deps = blocking_dependencies s track_id project_id,
      bl_advisory = advisory_dependencies s track_id project_id\<rparr>"

definition blocking_details_for :: "string \<Rightarrow> string list \<Rightarrow> plan \<Rightarrow> (string \<times> blocking) list outcome" where
  "blocking_details_for project_id track_ids =
     get_conn (\<lambda>s. (Inr (map (\<lambda>t. (t, blocking_detail s t project_id)) (remdups track_ids)), s))"

section \<open>The derived status\<close>

definition IN_FLIGHT_TRACK_STATES :: "string list" where
  "IN_FLIGHT_TRACK_STATES = [''queued'', ''claimed'', ''delivering'', ''accepted'', ''running'', ''active'']"

definition delivery_signal :: "plan \<Rightarrow> string list \<Rightarrow> bool" where
  "delivery_signal s ids =
     list_ex (\<lambda>e. e_type e \<in> {''pr_merged'', ''deliverable_superseded''} \<and> e_entity e \<in> set ids) (events (coord s))"

definition prs_merged :: "string option \<Rightarrow> int set \<Rightarrow> bool" where
  "prs_merged pr_ref merged = (parse_pr_numbers pr_ref \<noteq> {} \<and> parse_pr_numbers pr_ref \<subseteq> merged)"

definition status_without_dispatches :: "string option \<Rightarrow> string option \<Rightarrow> bool \<Rightarrow> int set \<Rightarrow> string" where
  "status_without_dispatches pr_ref phase held merged =
     (if prs_merged pr_ref merged \<and> \<not> held then ''done''
      else if phase = Some ''done'' then ''done''
      else if phase = Some ''active'' then ''in_progress''
      else ''queued'')"

definition status_all_terminal :: "string option \<Rightarrow> string option \<Rightarrow> bool \<Rightarrow> int set \<Rightarrow> bool \<Rightarrow> string" where
  "status_all_terminal pr_ref phase held merged signal =
     (if \<not> truthy pr_ref then ''done''
      else if signal \<and> \<not> held then ''done''
      else if phase = Some ''done'' then ''done''
      else if prs_merged pr_ref merged \<and> \<not> held then ''done''
      else ''in_progress'')"

definition compute_derived_status :: "plan \<Rightarrow> string \<Rightarrow> string \<Rightarrow> int set \<Rightarrow> string" where
  "compute_derived_status s track_id project_id merged =
     (if blocking_links s track_id project_id \<noteq> [] then ''blocked''
      else if blocking_dependencies s track_id project_id \<noteq> [] then ''blocked''
      else
        let row = find_track s track_id project_id;
            pr_ref = Option.bind row tr_pr_ref;
            phase = map_option tr_phase row;
            held = (delivery_hold s track_id project_id pr_ref \<noteq> None);
            rows = filter (\<lambda>d. d_state d \<noteq> ''withdrawn'') (track_dispatches s track_id project_id)
        in if rows = [] then status_without_dispatches pr_ref phase held merged
           else if list_all (\<lambda>d. d_state d \<in> set TERMINAL_DISPATCH_STATES) rows
           then status_all_terminal pr_ref phase held merged (delivery_signal s (map d_id rows))
           else if list_ex (\<lambda>d. d_state d \<in> set IN_FLIGHT_TRACK_STATES) rows then ''in_progress''
           else ''queued'')"

section \<open>Deliverable stubs\<close>

definition has_output :: "dispatch_row \<Rightarrow> bool" where
  "has_output d = truthy (d_output_ref d)"

definition deliverable_stubs :: "plan \<Rightarrow> string \<Rightarrow> string \<Rightarrow> dispatch_row list" where
  "deliverable_stubs s track_id project_id =
     filter (\<lambda>d. has_output d \<and> d_state d \<notin> set TERMINAL_DISPATCH_STATES) (track_dispatches s track_id project_id)"

definition real_dispatches :: "plan \<Rightarrow> string \<Rightarrow> string \<Rightarrow> dispatch_row list" where
  "real_dispatches s track_id project_id =
     filter (\<lambda>d. \<not> has_output d) (track_dispatches s track_id project_id)"

definition real_dispatches_terminal :: "plan \<Rightarrow> string \<Rightarrow> string \<Rightarrow> bool \<times> string list" where
  "real_dispatches_terminal s track_id project_id =
     (let rows = real_dispatches s track_id project_id
      in (list_all (\<lambda>d. d_state d \<in> set TERMINAL_DISPATCH_STATES) rows, map d_id rows))"

datatype merge_evidence = MergedEvent string | MergedRef "string option"

record candidate =
  ca_dispatch :: string
  ca_state :: string
  ca_track :: string
  ca_evidence :: merge_evidence

definition merge_evidence_of :: "plan \<Rightarrow> string \<Rightarrow> string option \<Rightarrow> string list \<Rightarrow> int set \<Rightarrow> merge_evidence option" where
  "merge_evidence_of s project_id pr_ref real_ids merged =
     (case find (\<lambda>e. e_type e = ''pr_merged'' \<and> e_project e = Some project_id \<and> e_entity e \<in> set real_ids) (events (coord s)) of
        Some e \<Rightarrow> Some (MergedEvent (e_entity e))
      | None \<Rightarrow> if prs_merged pr_ref merged then Some (MergedRef pr_ref) else None)"

definition deliverable_close_candidates :: "plan \<Rightarrow> string \<Rightarrow> string \<Rightarrow> int set \<Rightarrow> candidate list" where
  "deliverable_close_candidates s track_id project_id merged =
     (case find_track s track_id project_id of
        None \<Rightarrow> []
      | Some row \<Rightarrow>
          let stubs = deliverable_stubs s track_id project_id;
              (all_terminal, real_ids) = real_dispatches_terminal s track_id project_id
          in if tr_phase row = ''done'' \<or> stubs = [] \<or> \<not> all_terminal then []
             else (case merge_evidence_of s project_id (tr_pr_ref row) real_ids merged of
                     None \<Rightarrow> []
                   | Some ev \<Rightarrow>
                       map (\<lambda>d. \<lparr>ca_dispatch = d_id d, ca_state = d_state d, ca_track = track_id, ca_evidence = ev\<rparr>) stubs))"

text \<open>
  A failed insert of the event is swallowed: an event table without the \<open>project_id\<close> column keeps
  no such event.
\<close>

definition append_coordination_event ::
  "string \<Rightarrow> string \<Rightarrow> string \<Rightarrow> string \<Rightarrow> string \<Rightarrow> string \<Rightarrow> string \<Rightarrow> plan \<Rightarrow> plan" where
  "append_coordination_event event_type track_id project_id entity_id from_state to_state reason s =
     (let (_, s1) = now_utc s; (now, s2) = now_utc s1; db = coord s2
      in if has_project_id_col db ''coordination_events''
         then s2\<lparr>coord := log_event
                \<lparr>e_id = new_uuid db, e_type = event_type, e_entity_type = ''dispatch'', e_entity = entity_id,
                 e_from = Some from_state, e_to = Some to_state, e_actor = ''reconciler'', e_reason = Some reason,
                 e_metadata = JObj [(''track_id'', JStr track_id), (''project_id'', JStr project_id)],
                 e_at = now, e_project = Some project_id\<rparr> db\<rparr>
         else s2)"

definition end_stub :: "string \<Rightarrow> string \<Rightarrow> int \<Rightarrow> dispatch_row \<Rightarrow> plan \<Rightarrow> plan" where
  "end_stub track_id project_id now row s =
     (let expired = (d_state row = ''proposed'');
          to_state = (if expired then ''expired'' else ''completed'');
          db = coord s
      in append_coordination_event
           (if expired then ''deliverable_expired_on_done'' else ''deliverable_auto_completed'')
           track_id project_id (d_id row) (d_state row) to_state
           (''OI-1969: track '' @ track_id @ '' declared done; '' @
            (if expired then ''proposed stub never built, expiring'' else ''ending deliverable stub''))
           (s\<lparr>coord := db\<lparr>dispatches :=
                update_where (\<lambda>d. d_id d = d_id row \<and> d_project d = Some project_id)
                  (\<lambda>d. d\<lparr>d_state := to_state, d_updated_at := now\<rparr>) (dispatches db)\<rparr>\<rparr>))"

definition reconcile_deliverable_dispatches :: "string \<Rightarrow> string \<Rightarrow> plan \<Rightarrow> nat \<times> plan" where
  "reconcile_deliverable_dispatches track_id project_id s =
     (case find_track s track_id project_id of
        None \<Rightarrow> (0, s)
      | Some row \<Rightarrow>
          if tr_phase row \<noteq> ''done'' \<or> \<not> fst (real_dispatches_terminal s track_id project_id) then (0, s)
          else let (now, s1) = now_utc s; stubs = deliverable_stubs s1 track_id project_id
            in (length stubs, fold (end_stub track_id project_id now) stubs s1))"


section \<open>Reconciling a track\<close>

record reconciled =
  rc_track :: string
  rc_project :: string
  rc_derived :: string
  rc_declared :: "string option"
  rc_drifted :: bool
  rc_blocking :: "blocking option"
  rc_advisory :: "dep_view list"
  rc_candidates :: "candidate list"
  rc_hold :: "hold option"

text \<open>The view on dependencies and holds that a result carries.\<close>

definition result_view ::
  "plan \<Rightarrow> string \<Rightarrow> string \<Rightarrow> string \<Rightarrow> candidate list \<Rightarrow> reconciled" where
  "result_view s track_id project_id derived candidates =
     (let row = find_track s track_id project_id; declared = map_option tr_phase row
      in \<lparr>rc_track = track_id, rc_project = project_id, rc_derived = derived, rc_declared = declared,
          rc_drifted = (declared \<noteq> Some derived),
          rc_blocking = (if derived = ''blocked'' then Some (blocking_detail s track_id project_id) else None),
          rc_advisory = advisory_dependencies s track_id project_id,
          rc_candidates = candidates,
          rc_hold = (if derived \<in> {''blocked'', ''done''} then None
                     else delivery_hold s track_id project_id (Option.bind row tr_pr_ref))\<rparr>)"

definition write_derived_status :: "string \<Rightarrow> string \<Rightarrow> string \<Rightarrow> plan \<Rightarrow> plan" where
  "write_derived_status track_id project_id derived =
     update_track track_id project_id (\<lambda>t. t\<lparr>tr_derived := Some derived\<rparr>)"

definition reconcile_track :: "string \<Rightarrow> string \<Rightarrow> int set option \<Rightarrow> int set \<Rightarrow> plan \<Rightarrow> reconciled outcome" where
  "reconcile_track track_id project_id merged_pr_numbers local_numbers =
     get_conn (\<lambda>s.
       if \<not> has_derived s then (Inl (RuntimeError ''tracks.derived_status column absent''), s)
       else let merged = given merged_pr_numbers local_numbers;
                s1 = snd (reconcile_deliverable_dispatches track_id project_id s);
                candidates = deliverable_close_candidates s1 track_id project_id merged;
                derived = compute_derived_status s1 track_id project_id merged;
                s2 = write_derived_status track_id project_id derived s1
            in (Inr (result_view s2 track_id project_id derived candidates), s2))"

definition peek_derived_status :: "string \<Rightarrow> string \<Rightarrow> int set option \<Rightarrow> int set \<Rightarrow> plan \<Rightarrow> reconciled outcome" where
  "peek_derived_status track_id project_id merged_pr_numbers local_numbers =
     get_conn (\<lambda>s.
       if \<not> has_derived s then (Inl (RuntimeError ''tracks.derived_status column absent''), s)
       else (Inr (result_view s track_id project_id
                    (compute_derived_status s track_id project_id (given merged_pr_numbers local_numbers)) []), s))"

fun reconcile_each :: "string \<Rightarrow> int set \<Rightarrow> string list \<Rightarrow> plan \<Rightarrow> reconciled list outcome" where
  "reconcile_each project_id merged [] s = (Inr [], s)"
| "reconcile_each project_id merged (track_id # rest) s =
     bindP (reconcile_track track_id project_id (Some merged) {} s) (\<lambda>result s.
     bindP (reconcile_each project_id merged rest s) (\<lambda>results s. (Inr (result # results), s)))"

definition reconcile_all_tracks :: "string \<Rightarrow> int set \<Rightarrow> plan \<Rightarrow> reconciled list outcome" where
  "reconcile_all_tracks project_id local_numbers s =
     bindP (get_conn (\<lambda>s.
              if \<not> has_derived s then (Inl (RuntimeError ''tracks.derived_status column absent''), s)
              else (Inr (map tr_id (sort_key tr_sort_order (sort_key tr_id
                           (filter (\<lambda>t. tr_project t = project_id) (tracks s))))), s)) s)
       (\<lambda>track_ids s. reconcile_each project_id local_numbers track_ids s)"

section \<open>Evidence\<close>

record close_evidence =
  ce_completed :: nat
  ce_failed :: nat
  ce_in_flight :: nat
  ce_pr_ref :: "string option"
  ce_pr_merged :: bool
  ce_success :: bool

definition close_evidence_of :: "plan \<Rightarrow> string \<Rightarrow> string \<Rightarrow> int set option \<Rightarrow> int set \<Rightarrow> close_evidence" where
  "close_evidence_of s track_id project_id merged_pr_numbers local_numbers =
     (let rows = track_dispatches s track_id project_id;
          count = (\<lambda>states. length (filter (\<lambda>d. py_lower (d_state d) \<in> states) rows));
          completed = count {''completed''};
          failed = count {''expired'', ''dead_letter''};
          pr_ref = Option.bind (find_track s track_id project_id) tr_pr_ref;
          event = list_ex (\<lambda>e. e_type e = ''pr_merged'' \<and> e_project e = Some project_id \<and> e_entity e \<in> set (map d_id rows))
                    (events (coord s));
          merged = (event \<or> truthy pr_ref \<and> prs_merged pr_ref (given merged_pr_numbers local_numbers))
      in \<lparr>ce_completed = completed, ce_failed = failed, ce_in_flight = length rows - completed - failed,
          ce_pr_ref = pr_ref, ce_pr_merged = merged, ce_success = (0 < completed \<or> merged)\<rparr>)"

text \<open>A nomination: what its maker saw, and what \<^verbatim>\<open>gh\<close> said of each pull request.\<close>

record pr_result =
  pv_number :: "int option"
  pv_state :: "string option"
  pv_merged_at :: "string option"

record nomination =
  no_pr_ref :: "string option"
  no_pr_results :: "pr_result list"
  no_allow_closed :: bool

record closure =
  cl_track :: string
  cl_project :: string
  cl_declared :: "string option"
  cl_derived :: "string option"
  cl_action :: string
  cl_applied :: bool
  cl_evidence :: "close_evidence option"
  cl_path :: "string list option"
  cl_error :: "exn option"

definition rejection :: "string \<Rightarrow> string \<Rightarrow> string option \<Rightarrow> string \<Rightarrow> closure" where
  "rejection track_id project_id declared action =
     \<lparr>cl_track = track_id, cl_project = project_id, cl_declared = declared, cl_derived = None,
      cl_action = action, cl_applied = False, cl_evidence = None, cl_path = None, cl_error = None\<rparr>"

definition result_for :: "pr_result list \<Rightarrow> int \<Rightarrow> pr_result option" where
  "result_for results n = find (\<lambda>r. pv_number r = Some n) (rev results)"

definition result_merged :: "pr_result \<Rightarrow> bool" where
  "result_merged r = (pv_state r = Some ''MERGED'' \<and> truthy (pv_merged_at r))"

definition result_accepted :: "nomination \<Rightarrow> int \<Rightarrow> bool" where
  "result_accepted ev n =
     (case result_for (no_pr_results ev) n of
        None \<Rightarrow> False
      | Some r \<Rightarrow> result_merged r \<or> pv_state r = Some ''CLOSED'' \<and> no_allow_closed ev)"

text \<open>\<open>Inl action\<close> refuses; \<open>Inr skip\<close> says whether the evidence of \<^verbatim>\<open>gh\<close> authorises the close by itself.\<close>

definition gh_evidence_rejection :: "plan \<Rightarrow> string \<Rightarrow> string \<Rightarrow> nomination \<Rightarrow> string + bool" where
  "gh_evidence_rejection s track_id project_id ev =
     (if no_pr_results ev = [] then Inr False
      else if blocking_dependencies s track_id project_id \<noteq> [] then Inl ''stale_candidate''
      else let nums = parse_pr_numbers (no_pr_ref ev)
        in if \<not> (\<forall>n \<in> nums. result_accepted ev n) then Inl ''stale_candidate''
           else if nums \<noteq> {} \<and> \<not> (\<exists>n \<in> nums. \<exists>r \<in> set_option (result_for (no_pr_results ev) n). result_merged r)
           then Inl ''stale_candidate''
           else Inr True)"

definition delivery_rejection :: "plan \<Rightarrow> string \<Rightarrow> string \<Rightarrow> string option \<Rightarrow> string option" where
  "delivery_rejection s track_id project_id current_pr_ref =
     (let nums = parse_pr_numbers current_pr_ref;
          rows = (if has_deliveries s then delivery_rows s track_id project_id else [])
      in if nums = {} then None
         else if \<not> list_all (\<lambda>v. dv_kind v \<in> {''partial'', ''complete''}) rows then Some ''noop_incomplete_delivery''
         else if list_ex (\<lambda>v. dv_pr v \<in> nums \<and> dv_kind v = ''complete'') rows then None
         else Some ''noop_incomplete_delivery'')"

definition revalidate_close_evidence ::
  "plan \<Rightarrow> string \<Rightarrow> string \<Rightarrow> nomination \<Rightarrow> bool \<Rightarrow> closure + bool" where
  "revalidate_close_evidence s track_id project_id ev include_parked =
     (let row = find_track s track_id project_id;
          declared = map_option tr_phase row;
          current_pr_ref = Option.bind row tr_pr_ref;
          reject = (\<lambda>action. Inl (rejection track_id project_id declared action))
      in if current_pr_ref \<noteq> no_pr_ref ev then reject ''stale_candidate''
         else if blocking_links s track_id project_id \<noteq> [] then reject ''stale_candidate''
         else if \<not> (declared \<in> {Some ''queued'', Some ''active''} \<or> declared = Some ''parked'' \<and> include_parked)
         then reject ''stale_candidate''
         else case gh_evidence_rejection s track_id project_id ev of
           Inl action \<Rightarrow> reject action
         | Inr skip \<Rightarrow>
             (case delivery_rejection s track_id project_id current_pr_ref of
                Some action \<Rightarrow> reject action
              | None \<Rightarrow> Inr skip))"

section \<open>Closing a track\<close>

definition terminal_gate :: "string \<Rightarrow> string option \<Rightarrow> bool \<Rightarrow> bool \<Rightarrow> string option" where
  "terminal_gate derived declared skip_derived include_parked =
     (if derived \<noteq> ''done'' \<and> \<not> skip_derived then Some ''noop_not_terminal''
      else if declared = Some ''done'' then Some ''noop_already_closed''
      else if declared = Some ''parked'' \<and> \<not> include_parked then Some ''rejected_parked''
      else None)"

fun walk_steps :: "codec \<Rightarrow> string \<Rightarrow> string \<Rightarrow> string \<Rightarrow> string option \<Rightarrow> string option \<Rightarrow> string \<Rightarrow> string list \<Rightarrow> plan \<Rightarrow>
    (string \<times> exn option) \<times> plan" where
  "walk_steps cx track_id project_id actor reason approval cur [] s = ((cur, None), s)"
| "walk_steps cx track_id project_id actor reason approval cur (step # path) s =
     (case transition_phase cx track_id project_id step actor reason approval s of
        (Inl e, s') \<Rightarrow> ((cur, Some e), s')
      | (Inr _, s') \<Rightarrow> walk_steps cx track_id project_id actor reason approval step path s')"

definition walk_to_done ::
  "codec \<Rightarrow> string \<Rightarrow> string \<Rightarrow> string list \<Rightarrow> closure \<Rightarrow> string \<Rightarrow> string option \<Rightarrow> string \<Rightarrow> string \<Rightarrow> plan \<Rightarrow> closure \<times> plan" where
  "walk_to_done cx track_id project_id path payload actor approval declared derived s =
     (let reason = ''close-the-loop ('' @ declared @ ''->done, derived='' @ derived @ '')'';
          ((cur, failed), s') = walk_steps cx track_id project_id actor (Some reason) approval declared path s
      in case failed of
           Some (TrackNotFoundError t p) \<Rightarrow>
             (payload\<lparr>cl_action := ''rejected_not_found'', cl_error := Some (TrackNotFoundError t p)\<rparr>, s')
         | Some e \<Rightarrow>
             (payload\<lparr>cl_declared := Some cur, cl_action := ''rejected_walk_failed'', cl_error := Some e\<rparr>, s')
         | None \<Rightarrow>
             (payload\<lparr>cl_declared := Some ''done'', cl_action := ''closed'', cl_applied := True\<rparr>, s'))"

text \<open>
  A track without a row has no declared phase, for which the search finds no path.
\<close>

definition path_to_done :: "string option \<Rightarrow> string list option" where
  "path_to_done declared =
     (case declared of
        None \<Rightarrow> None
      | Some phase \<Rightarrow> (case phase_path_to ALLOWED_TRANSITIONS phase ''done'' of None \<Rightarrow> None | Some found \<Rightarrow> found))"

definition close_reconciled ::
  "codec \<Rightarrow> string \<Rightarrow> string \<Rightarrow> string \<Rightarrow> string option \<Rightarrow> bool \<Rightarrow> int set \<Rightarrow> bool \<Rightarrow> reconciled \<Rightarrow> plan \<Rightarrow> closure \<times> plan" where
  "close_reconciled cx track_id project_id actor approval include_parked local_numbers skip_derived result s =
     (let payload = (rejection track_id project_id (rc_declared result) [])\<lparr>cl_derived := Some (rc_derived result)\<rparr>
      in case terminal_gate (rc_derived result) (rc_declared result) skip_derived include_parked of
           Some action \<Rightarrow> (payload\<lparr>cl_action := action\<rparr>, s)
         | None \<Rightarrow>
             let payload = payload\<lparr>cl_evidence := Some (close_evidence_of s track_id project_id None local_numbers)\<rparr>
             in (case path_to_done (rc_declared result) of
                   None \<Rightarrow> (payload\<lparr>cl_action := ''rejected_no_path''\<rparr>, s)
                 | Some path \<Rightarrow>
                     let declared = the (rc_declared result)
                     in walk_to_done cx track_id project_id path (payload\<lparr>cl_path := Some (declared # path)\<rparr>)
                          actor approval declared (rc_derived result) s))"

definition revalidated ::
  "string \<Rightarrow> string \<Rightarrow> nomination option \<Rightarrow> bool \<Rightarrow> plan \<Rightarrow> (closure + bool) outcome" where
  "revalidated track_id project_id evidence include_parked s =
     (case evidence of
        None \<Rightarrow> (Inr (Inr False), s)
      | Some ev \<Rightarrow> get_conn (\<lambda>s. (Inr (revalidate_close_evidence s track_id project_id ev include_parked), s)) s)"

definition close_track_if_done ::
  "codec \<Rightarrow> string \<Rightarrow> string \<Rightarrow> string \<Rightarrow> nomination option \<Rightarrow> string option \<Rightarrow> bool \<Rightarrow> int set option \<Rightarrow> int set \<Rightarrow>
   plan \<Rightarrow> closure outcome" where
  "close_track_if_done cx track_id project_id actor evidence approval include_parked merged_pr_numbers local_numbers s =
     bindP (revalidated track_id project_id evidence include_parked s) (\<lambda>checked s.
       case checked of
         Inl refusal \<Rightarrow> (Inr refusal, s)
       | Inr skip_derived \<Rightarrow>
           bindP (reconcile_track track_id project_id merged_pr_numbers local_numbers s) (\<lambda>result s.
             let (payload, s') = close_reconciled cx track_id project_id actor approval include_parked local_numbers skip_derived result s
             in (Inr payload, s')))"


section \<open>What reconciling leaves alone\<close>

text \<open>Ending stubs touches the dispatches, the event log and the clock, nothing of the plan.\<close>

definition plan_frame :: "plan \<Rightarrow> plan \<Rightarrow> bool" where
  "plan_frame s s' =
     (tracks s' = tracks s \<and> phase_log s' = phase_log s \<and> deps s' = deps s \<and> links s' = links s \<and>
      deliveries s' = deliveries s \<and> has_resolved_at s' = has_resolved_at s \<and> has_deliveries s' = has_deliveries s \<and>
      has_derived s' = has_derived s \<and> zero_tables s' = zero_tables s \<and> track_events s' = track_events s \<and>
      append_error s' = append_error s \<and> wall s' = wall s \<and> reads s \<le> reads s')"

lemma plan_frame_refl [simp]: "plan_frame s s"
  by (simp add: plan_frame_def)

lemma plan_frame_trans: "plan_frame s s1 \<Longrightarrow> plan_frame s1 s2 \<Longrightarrow> plan_frame s s2"
  by (auto simp: plan_frame_def)

lemma now_utc_frame: "now_utc s = (ts, s1) \<Longrightarrow> plan_frame s s1 \<and> coord s1 = coord s"
  by (auto simp: now_utc_def plan_frame_def)

lemma end_stub_frame: "plan_frame s (end_stub track_id project_id now row s)"
  by (simp add: end_stub_def append_coordination_event_def now_utc_def plan_frame_def Let_def)

lemma end_stubs_frame: "plan_frame s (fold (end_stub track_id project_id now) rows s)"
  by (induction rows arbitrary: s) (auto intro: plan_frame_trans end_stub_frame)

lemma stubs_frame: "plan_frame s (snd (reconcile_deliverable_dispatches track_id project_id s))"
proof -
  have "plan_frame s (snd (now_utc s))" by (simp add: now_utc_def plan_frame_def)
  then have "plan_frame s (fold (end_stub track_id project_id (fst (now_utc s))) rows (snd (now_utc s)))" for rows
    by (rule plan_frame_trans) (rule end_stubs_frame)
  then show ?thesis
    by (simp add: reconcile_deliverable_dispatches_def Let_def case_prod_beta split: option.split)
qed

lemma delivery_hold_cong:
  assumes "deliveries s' = deliveries s" and "has_deliveries s' = has_deliveries s"
  shows "delivery_hold s' = delivery_hold s"
  by (intro ext) (unfold delivery_hold_def delivery_rows_def assms, rule refl)

text \<open>What the derivation reads.\<close>

lemma frame_reads:
  assumes "plan_frame s s'"
  shows "find_track s' = find_track s" "edges_of s' = edges_of s" "blocking_links s' = blocking_links s"
    "blocking_dependencies s' = blocking_dependencies s" "advisory_dependencies s' = advisory_dependencies s"
    "delivery_rows s' = delivery_rows s" "delivery_hold s' = delivery_hold s"
proof -
  have eqs: "tracks s' = tracks s" "deps s' = deps s" "links s' = links s" "deliveries s' = deliveries s"
    "has_resolved_at s' = has_resolved_at s" "has_deliveries s' = has_deliveries s"
    using assms by (simp_all add: plan_frame_def)
  show "find_track s' = find_track s" "blocking_links s' = blocking_links s"
    by (intro ext; simp add: find_track_def blocking_links_def eqs)+
  show edges: "edges_of s' = edges_of s"
    by (intro ext) (simp add: edges_of_def eqs)
  show "blocking_dependencies s' = blocking_dependencies s" "advisory_dependencies s' = advisory_dependencies s"
    by (intro ext; simp add: blocking_dependencies_def advisory_dependencies_def unfinished_def edges)+
  show "delivery_rows s' = delivery_rows s"
    by (intro ext) (simp add: delivery_rows_def eqs)
  show "delivery_hold s' = delivery_hold s"
    by (rule delivery_hold_cong) (rule eqs)+
qed

text \<open>The derived status is a column that no derivation reads.\<close>

lemma find_write_derived:
  "find_track (write_derived_status track_id project_id derived s) tid pid =
     map_option (\<lambda>t. if tr_id t = track_id \<and> tr_project t = project_id then t\<lparr>tr_derived := Some derived\<rparr> else t)
       (find_track s tid pid)"
proof -
  have "find (\<lambda>t. tr_id t = tid \<and> tr_project t = pid)
        (update_where (\<lambda>t. tr_id t = track_id \<and> tr_project t = project_id) (\<lambda>t. t\<lparr>tr_derived := Some derived\<rparr>) rows) =
      map_option (\<lambda>t. if tr_id t = track_id \<and> tr_project t = project_id then t\<lparr>tr_derived := Some derived\<rparr> else t)
        (find (\<lambda>t. tr_id t = tid \<and> tr_project t = pid) rows)" for rows
    by (induction rows) auto
  then show ?thesis by (simp add: find_track_def write_derived_status_def update_track_def)
qed

lemma edges_write_derived: "edges_of (write_derived_status track_id project_id derived s) tid pid = edges_of s tid pid"
proof -
  have "map tr_phase (filter (\<lambda>t. tr_id t = i \<and> tr_project t = p)
        (update_where (\<lambda>t. tr_id t = track_id \<and> tr_project t = project_id) (\<lambda>t. t\<lparr>tr_derived := Some derived\<rparr>) rows)) =
      map tr_phase (filter (\<lambda>t. tr_id t = i \<and> tr_project t = p) rows)" for i p rows
    by (induction rows) auto
  then have "map (f \<circ> tr_phase) (filter (\<lambda>t. tr_id t = i \<and> tr_project t = p)
        (update_where (\<lambda>t. tr_id t = track_id \<and> tr_project t = project_id) (\<lambda>t. t\<lparr>tr_derived := Some derived\<rparr>) rows)) =
      map (f \<circ> tr_phase) (filter (\<lambda>t. tr_id t = i \<and> tr_project t = p) rows)" for i p rows and f :: "string \<Rightarrow> dep_view"
    by (metis map_map)
  then have views: "map (\<lambda>t. \<lparr>de_track = i, de_project = p, de_kind = k, de_phase = tr_phase t\<rparr>) (filter (\<lambda>t. tr_id t = i \<and> tr_project t = p)
        (update_where (\<lambda>t. tr_id t = track_id \<and> tr_project t = project_id) (\<lambda>t. t\<lparr>tr_derived := Some derived\<rparr>) rows)) =
      map (\<lambda>t. \<lparr>de_track = i, de_project = p, de_kind = k, de_phase = tr_phase t\<rparr>) (filter (\<lambda>t. tr_id t = i \<and> tr_project t = p) rows)"
    for i p k rows by (simp add: comp_def)
  have "tracks (write_derived_status track_id project_id derived s) =
      update_where (\<lambda>t. tr_id t = track_id \<and> tr_project t = project_id) (\<lambda>t. t\<lparr>tr_derived := Some derived\<rparr>) (tracks s)"
    "deps (write_derived_status track_id project_id derived s) = deps s"
    by (simp_all add: write_derived_status_def update_track_def)
  then show ?thesis by (simp only: edges_of_def views)
qed

lemma compute_write_derived:
  "compute_derived_status (write_derived_status track_id project_id derived s) tid pid merged =
   compute_derived_status s tid pid merged"
proof -
  let ?s = "write_derived_status track_id project_id derived s"
  have same: "coord ?s = coord s" "links ?s = links s" "has_resolved_at ?s = has_resolved_at s"
    "deliveries ?s = deliveries s" "has_deliveries ?s = has_deliveries s"
    by (simp_all add: write_derived_status_def update_track_def)
  have "blocking_links ?s tid pid = blocking_links s tid pid"
    "blocking_dependencies ?s tid pid = blocking_dependencies s tid pid"
    "track_dispatches ?s tid pid = track_dispatches s tid pid"
    by (simp_all add: blocking_links_def blocking_dependencies_def unfinished_def edges_write_derived track_dispatches_def same)
  moreover have "delivery_hold ?s tid pid ref = delivery_hold s tid pid ref" for ref
    using delivery_hold_cong [OF same(4,5)] by simp
  moreover have "Option.bind (find_track ?s tid pid) tr_pr_ref = Option.bind (find_track s tid pid) tr_pr_ref"
    "map_option tr_phase (find_track ?s tid pid) = map_option tr_phase (find_track s tid pid)"
    by (cases "find_track s tid pid"; simp add: find_write_derived)+
  moreover have "delivery_signal ?s ids = delivery_signal s ids" for ids by (simp add: delivery_signal_def same)
  ultimately show ?thesis unfolding compute_derived_status_def Let_def by simp
qed

text \<open>When reconciling returns, and what it returns.\<close>

definition after_stubs :: "string \<Rightarrow> string \<Rightarrow> plan \<Rightarrow> plan" where
  "after_stubs track_id project_id s = snd (reconcile_deliverable_dispatches track_id project_id s)"

lemma reconcile_eq_Inr:
  "reconcile_track tid pid given_set local_set s = (Inr r, s') \<longleftrightarrow>
     \<not> zero_tables s \<and> has_derived s \<and>
     (let merged = given given_set local_set; s1 = after_stubs tid pid s;
          derived = compute_derived_status s1 tid pid merged
      in s' = write_derived_status tid pid derived s1 \<and>
         r = result_view s' tid pid derived (deliverable_close_candidates s1 tid pid merged))"
  by (auto simp: reconcile_track_def get_conn_eq_Inr Let_def after_stubs_def split: if_splits)

lemma after_stubs_frame: "plan_frame s (after_stubs tid pid s)"
  unfolding after_stubs_def by (rule stubs_frame)

lemma result_view_sel [simp]:
  "rc_derived (result_view s tid pid derived cs) = derived"
  "rc_declared (result_view s tid pid derived cs) = map_option tr_phase (find_track s tid pid)"
  by (simp_all add: result_view_def Let_def)


section \<open>Holds and advice\<close>

text \<open>
  One explicit marking other than complete on a linked pull request, or no table to look markings
  up in, vetoes every done that rests on pull requests: a held track derives done only when a human declared it done.
\<close>

lemma delivery_hold_vetoes_done:
  assumes "find_track s tid pid = Some t" and "delivery_hold s tid pid (tr_pr_ref t) \<noteq> None"
    and "tr_phase t \<noteq> ''done''"
  shows "compute_derived_status s tid pid merged \<noteq> ''done''"
proof -
  have "truthy (tr_pr_ref t)"
    using assms(2) by (auto simp: delivery_hold_def parse_pr_numbers_def Let_def split: if_splits)
  with assms show ?thesis
    by (simp add: compute_derived_status_def status_without_dispatches_def status_all_terminal_def Let_def)
qed

lemma edges_without_advice:
  "filter (\<lambda>d. de_kind d \<notin> set ADVISORY_DEPENDENCY_KINDS)
     (edges_of (s\<lparr>deps := filter (\<lambda>d. dp_kind d \<notin> set ADVISORY_DEPENDENCY_KINDS) (deps s)\<rparr>) tid pid) =
   filter (\<lambda>d. de_kind d \<notin> set ADVISORY_DEPENDENCY_KINDS) (edges_of s tid pid)"
proof -
  let ?hard = "\<lambda>d. de_kind d \<notin> set ADVISORY_DEPENDENCY_KINDS"
  let ?views = "\<lambda>d. map (\<lambda>t. \<lparr>de_track = dp_to d, de_project = dp_to_project d, de_kind = dp_kind d, de_phase = tr_phase t\<rparr>)
      (filter (\<lambda>t. tr_id t = dp_to d \<and> tr_project t = dp_to_project d) (tracks s))"
  let ?from = "\<lambda>d. dp_from d = tid \<and> dp_from_project d = pid"
  have hard: "filter ?hard (concat (map ?views (filter ?from (filter (\<lambda>d. dp_kind d \<notin> set ADVISORY_DEPENDENCY_KINDS) ds)))) =
      filter ?hard (concat (map ?views (filter ?from ds)))" for ds
  proof (induction ds)
    case (Cons d ds)
    have "filter ?hard (?views d) = (if dp_kind d \<notin> set ADVISORY_DEPENDENCY_KINDS then ?views d else [])"
      by (auto simp: filter_map comp_def)
    with Cons.IH show ?case by auto
  qed simp
  have "tracks (s\<lparr>deps := x\<rparr>) = tracks s" "deps (s\<lparr>deps := x\<rparr>) = x" for x by simp_all
  then show ?thesis by (simp only: edges_of_def filter_sort hard)
qed

text \<open>
  Soft and overlap edges are advice: deleting all of them changes no track's derived status.
\<close>

lemma advice_never_blocks:
  "compute_derived_status (s\<lparr>deps := filter (\<lambda>d. dp_kind d \<notin> set ADVISORY_DEPENDENCY_KINDS) (deps s)\<rparr>) tid pid merged =
   compute_derived_status s tid pid merged"
proof -
  let ?s = "s\<lparr>deps := filter (\<lambda>d. dp_kind d \<notin> set ADVISORY_DEPENDENCY_KINDS) (deps s)\<rparr>"
  have comm: "filter p (filter q xs) = filter q (filter p xs)" for p q and xs :: "dep_view list"
    by (simp add: conj_commute)
  have "blocking_dependencies ?s tid pid = blocking_dependencies s tid pid"
    unfolding blocking_dependencies_def unfinished_def
    by (subst (1 2) comm) (simp only: edges_without_advice)
  moreover have "blocking_links ?s tid pid = blocking_links s tid pid"
    "track_dispatches ?s tid pid = track_dispatches s tid pid" "coord ?s = coord s"
    by (simp_all add: blocking_links_def track_dispatches_def)
  moreover have "delivery_hold ?s tid pid ref = delivery_hold s tid pid ref" for ref
    using delivery_hold_cong [of ?s s] by simp
  moreover have "delivery_signal ?s ids = delivery_signal s ids" for ids by (simp add: delivery_signal_def)
  ultimately show ?thesis by (simp add: compute_derived_status_def Let_def)
qed

section \<open>Reconciling twice\<close>

lemma end_stub_dispatches:
  "dispatches (coord (end_stub tid pid now row s)) =
     update_where (\<lambda>d. d_id d = d_id row \<and> d_project d = Some pid)
       (\<lambda>d. d\<lparr>d_state := (if d_state row = ''proposed'' then ''expired'' else ''completed''), d_updated_at := now\<rparr>)
       (dispatches (coord s))"
  by (simp add: end_stub_def append_coordination_event_def now_utc_def log_event_def Let_def)

text \<open>After the loop a row of the project is what it was, or has ended; every row of the list has ended.\<close>

definition ended :: "dispatch_row \<Rightarrow> bool" where
  "ended d = (d_state d \<in> {''expired'', ''completed''})"

lemma end_stubs_dispatches:
  "\<exists>f. dispatches (coord (fold (end_stub tid pid now) rows s)) = map f (dispatches (coord s)) \<and>
     (\<forall>d. d_id (f d) = d_id d \<and> d_project (f d) = d_project d \<and> d_track (f d) = d_track d \<and> d_output_ref (f d) = d_output_ref d) \<and>
     (\<forall>d. f d = d \<or> ended (f d)) \<and>
     (\<forall>d. d_project d = Some pid \<and> d_id d \<in> d_id ` set rows \<longrightarrow> ended (f d))"
proof (induction rows arbitrary: s)
  case Nil
  then show ?case by (intro exI [of _ id]) simp
next
  case (Cons row rows)
  define g where "g = (\<lambda>d :: dispatch_row. if d_id d = d_id row \<and> d_project d = Some pid
      then d\<lparr>d_state := (if d_state row = ''proposed'' then ''expired'' else ''completed''), d_updated_at := now\<rparr> else d)"
  from Cons.IH [of "end_stub tid pid now row s"] obtain f where
    f: "dispatches (coord (fold (end_stub tid pid now) rows (end_stub tid pid now row s))) =
      map f (dispatches (coord (end_stub tid pid now row s)))"
    "\<forall>d. d_id (f d) = d_id d \<and> d_project (f d) = d_project d \<and> d_track (f d) = d_track d \<and> d_output_ref (f d) = d_output_ref d"
    "\<forall>d. f d = d \<or> ended (f d)"
    "\<forall>d. d_project d = Some pid \<and> d_id d \<in> d_id ` set rows \<longrightarrow> ended (f d)" by blast
  have g: "d_id (g d) = d_id d \<and> d_project (g d) = d_project d \<and> d_track (g d) = d_track d \<and> d_output_ref (g d) = d_output_ref d"
    "g d = d \<or> ended (g d)" "d_project d = Some pid \<and> d_id d = d_id row \<Longrightarrow> ended (g d)" for d
    by (auto simp: g_def ended_def)
  have after: "ended (f (g d))" if "ended (g d)" for d using f(3) that by metis
  show ?case
  proof (intro exI [of _ "f \<circ> g"] conjI allI impI)
    show "dispatches (coord (fold (end_stub tid pid now) (row # rows) s)) = map (f \<circ> g) (dispatches (coord s))"
      by (simp add: f(1) end_stub_dispatches update_where_def g_def)
  next
    fix d :: dispatch_row
    show "(f \<circ> g) d = d \<or> ended ((f \<circ> g) d)" using f(3) g(2) after by (metis comp_apply)
  next
    fix d :: dispatch_row
    assume d: "d_project d = Some pid \<and> d_id d \<in> d_id ` set (row # rows)"
    show "ended ((f \<circ> g) d)"
    proof (cases "d_id d = d_id row")
      case True
      with d g(3) after show ?thesis by simp
    next
      case False
      with d have "d_project (g d) = Some pid \<and> d_id (g d) \<in> d_id ` set rows" using g(1) by auto
      with f(4) show ?thesis by simp
    qed
  qed (use f(2) g(1) in simp_all)
qed

lemma ended_terminal: "ended d \<Longrightarrow> d_state d \<in> set TERMINAL_DISPATCH_STATES"
  by (auto simp: ended_def TERMINAL_DISPATCH_STATES_def)

lemma after_stubs_cases:
  "(\<exists>now s0 rows. plan_frame s s0 \<and> coord s0 = coord s \<and> rows = deliverable_stubs s tid pid \<and>
      after_stubs tid pid s = fold (end_stub tid pid now) rows s0) \<or>
   after_stubs tid pid s = s \<and>
     (\<forall>t. find_track s tid pid = Some t \<longrightarrow> tr_phase t \<noteq> ''done'' \<or> \<not> fst (real_dispatches_terminal s tid pid))"
proof (cases "\<exists>t. find_track s tid pid = Some t \<and> tr_phase t = ''done'' \<and> fst (real_dispatches_terminal s tid pid)")
  case True
  let ?s0 = "snd (now_utc s)"
  have s0: "plan_frame s ?s0" "coord ?s0 = coord s" by (simp_all add: now_utc_def plan_frame_def)
  then have "deliverable_stubs ?s0 tid pid = deliverable_stubs s tid pid"
    by (simp add: deliverable_stubs_def track_dispatches_def)
  with True have "after_stubs tid pid s = fold (end_stub tid pid (fst (now_utc s))) (deliverable_stubs s tid pid) ?s0"
    by (auto simp: after_stubs_def reconcile_deliverable_dispatches_def Let_def case_prod_beta)
  with s0 show ?thesis by blast
next
  case False
  then show ?thesis
    by (auto simp: after_stubs_def reconcile_deliverable_dispatches_def split: option.split)
qed

text \<open>Ending the stubs of a track leaves none, and changes no other dispatch of the track.\<close>

lemma after_stubs_again:
  assumes "find_track s' tid pid = Some t'" and "map_option tr_phase (find_track s tid pid) = Some (tr_phase t')"
    and "coord s' = coord (after_stubs tid pid s)" and "tr_phase t' = ''done''"
    and "fst (real_dispatches_terminal s' tid pid)"
  shows "deliverable_stubs s' tid pid = []"
  using after_stubs_cases [of s tid pid]
proof
  assume "\<exists>now s0 rows. plan_frame s s0 \<and> coord s0 = coord s \<and> rows = deliverable_stubs s tid pid \<and>
      after_stubs tid pid s = fold (end_stub tid pid now) rows s0"
  then obtain now s0 where s0: "coord s0 = coord s"
    "after_stubs tid pid s = fold (end_stub tid pid now) (deliverable_stubs s tid pid) s0" by blast
  from end_stubs_dispatches [of tid pid now "deliverable_stubs s tid pid" s0] s0 assms(3) obtain f where
    f: "dispatches (coord s') = map f (dispatches (coord s))"
    "\<forall>d. d_id (f d) = d_id d \<and> d_project (f d) = d_project d \<and> d_track (f d) = d_track d \<and> d_output_ref (f d) = d_output_ref d"
    "\<forall>d. f d = d \<or> ended (f d)"
    "\<forall>d. d_project d = Some pid \<and> d_id d \<in> d_id ` set (deliverable_stubs s tid pid) \<longrightarrow> ended (f d)" by auto
  have "d_state (f d) \<in> set TERMINAL_DISPATCH_STATES"
    if "d \<in> set (dispatches (coord s))" "d_track (f d) = Some tid" "d_project (f d) = Some pid" "has_output (f d)" for d
  proof (cases "ended (f d)")
    case False
    then have same: "f d = d" using f(3) by blast
    have "d \<notin> set (deliverable_stubs s tid pid)" using False f(4) same that(3) by fastforce
    with that same show ?thesis by (auto simp: deliverable_stubs_def track_dispatches_def)
  qed (rule ended_terminal)
  then show ?thesis
    by (auto simp: deliverable_stubs_def track_dispatches_def f(1) filter_empty_conv)
next
  assume none: "after_stubs tid pid s = s \<and>
     (\<forall>t. find_track s tid pid = Some t \<longrightarrow> tr_phase t \<noteq> ''done'' \<or> \<not> fst (real_dispatches_terminal s tid pid))"
  then have "coord s' = coord s" using assms(3) by simp
  then have "real_dispatches_terminal s' tid pid = real_dispatches_terminal s tid pid"
    by (simp add: real_dispatches_terminal_def real_dispatches_def track_dispatches_def)
  with none assms(2,4,5) show ?thesis by auto
qed

text \<open>
  C13: Reconciling is idempotent: run again at once, with the same merge evidence, it succeeds, derives the same status,
  and changes no track, no dispatch and no event.
\<close>

theorem reconcile_is_idempotent:
  assumes "reconcile_track tid pid merged local_set s = (Inr r, s1)"
  shows "\<exists>r2 s2. reconcile_track tid pid merged local_set s1 = (Inr r2, s2) \<and>
    rc_derived r2 = rc_derived r \<and> rc_declared r2 = rc_declared r \<and>
    tracks s2 = tracks s1 \<and> coord s2 = coord s1 \<and> track_events s2 = track_events s1"
proof -
  let ?m = "given merged local_set"
  define d where "d = compute_derived_status (after_stubs tid pid s) tid pid ?m"
  from assms have s1: "s1 = write_derived_status tid pid d (after_stubs tid pid s)"
    and r: "rc_derived r = d" "rc_declared r = map_option tr_phase (find_track s1 tid pid)"
    and ok: "\<not> zero_tables s" "has_derived s"
    by (simp_all add: reconcile_eq_Inr Let_def d_def)
  have coord1: "coord s1 = coord (after_stubs tid pid s)" by (simp add: s1 write_derived_status_def update_track_def)
  have phase1: "map_option tr_phase (find_track s1 tid pid) = map_option tr_phase (find_track s tid pid)"
    unfolding s1 find_write_derived frame_reads(1) [OF after_stubs_frame] by (cases "find_track s tid pid") auto
  have frame2: "plan_frame s1 (after_stubs tid pid s1)" by (rule after_stubs_frame)
  have coord2: "coord (after_stubs tid pid s1) = coord s1"
    using after_stubs_cases [of s1 tid pid]
  proof
    assume "\<exists>now s0 rows. plan_frame s1 s0 \<and> coord s0 = coord s1 \<and> rows = deliverable_stubs s1 tid pid \<and>
      after_stubs tid pid s1 = fold (end_stub tid pid now) rows s0"
    then obtain now s0 where a: "coord s0 = coord s1"
      "after_stubs tid pid s1 = fold (end_stub tid pid now) (deliverable_stubs s1 tid pid) s0" by blast
    show ?thesis
    proof (cases "\<exists>t'. find_track s1 tid pid = Some t' \<and> tr_phase t' = ''done'' \<and> fst (real_dispatches_terminal s1 tid pid)")
      case True
      then obtain t' where "find_track s1 tid pid = Some t'" "tr_phase t' = ''done''" "fst (real_dispatches_terminal s1 tid pid)" by blast
      moreover from this(1) phase1 have "map_option tr_phase (find_track s tid pid) = Some (tr_phase t')" by simp
      ultimately have "deliverable_stubs s1 tid pid = []" using after_stubs_again coord1 by blast
      with a show ?thesis by simp
    next
      case False
      then have "after_stubs tid pid s1 = s1"
        by (auto simp: after_stubs_def reconcile_deliverable_dispatches_def split: option.split)
      then show ?thesis by simp
    qed
  qed simp
  have "compute_derived_status (after_stubs tid pid s1) tid pid ?m = compute_derived_status s1 tid pid ?m"
    unfolding compute_derived_status_def track_dispatches_def delivery_signal_def frame_reads [OF frame2] coord2 ..
  also have "\<dots> = d" unfolding s1 compute_write_derived d_def ..
  finally have d2: "compute_derived_status (after_stubs tid pid s1) tid pid ?m = d" .
  let ?s2 = "write_derived_status tid pid d (after_stubs tid pid s1)"
  have "\<not> zero_tables s1" "has_derived s1"
    using ok after_stubs_frame [of s tid pid] by (simp_all add: s1 write_derived_status_def update_track_def plan_frame_def)
  then have run: "reconcile_track tid pid merged local_set s1 = (Inr (result_view ?s2 tid pid d
      (deliverable_close_candidates (after_stubs tid pid s1) tid pid ?m)), ?s2)"
    by (simp add: reconcile_eq_Inr Let_def d2)
  have "tracks (after_stubs tid pid s1) = tracks s1" "track_events (after_stubs tid pid s1) = track_events s1"
    using frame2 by (simp_all add: plan_frame_def)
  moreover have "tracks (write_derived_status tid pid d (write_derived_status tid pid d x)) = tracks (write_derived_status tid pid d x)" for x
    unfolding write_derived_status_def update_track_def by (simp add: update_where_compose comp_def)
  ultimately have same: "tracks ?s2 = tracks s1" "coord ?s2 = coord s1" "track_events ?s2 = track_events s1"
    using coord2 by (simp_all add: s1 write_derived_status_def update_track_def update_where_compose comp_def)
  then have "find_track ?s2 tid pid = find_track s1 tid pid" by (simp add: find_track_def)
  with same r show ?thesis unfolding run by simp
qed


section \<open>Closing\<close>

lemma find_update_moved:
  "find_track (update_track tid pid (moved_to p now) s) tid pid = map_option (moved_to p now) (find_track s tid pid)"
  by (rule find_update_track) (simp add: moved_to_def)

lemma find_track_log [simp]: "find_track (s\<lparr>phase_log := l\<rparr>) tid pid = find_track s tid pid"
  by (simp add: find_track_def)

lemma transition_returns:
  assumes "transition_phase cx tid pid to_phase actor reason approval s = (Inr t, s')"
  shows "tr_phase t = to_phase \<and> find_track s' tid pid = Some t"
proof -
  from assms obtain u where u: "find_track s tid pid = Some u" and
    body: "tr_phase u = to_phase \<and> t = u \<and> s' = s \<or>
      (\<exists>s1 s2 h. emit_track_event cx ''track_phase_transition'' tid pid actor
            [(''from'', JStr (tr_phase u)), (''to'', JStr to_phase)] (snd (now_utc s)) = (Inr (), s1) \<and>
        insert_phase_row h (update_track tid pid (moved_to to_phase (fst (now_utc s))) s1) = (Inr (), s2) \<and>
        track_dict tid pid s2 = (Inr t, s'))"
    by (auto simp: transition_phase_def get_conn_eq_Inr bindP_eq_Inr require_track_eq_Inr Let_def case_prod_beta
        split: if_split_asm)
  from body show ?thesis
  proof
    assume "\<exists>s1 s2 h. emit_track_event cx ''track_phase_transition'' tid pid actor
            [(''from'', JStr (tr_phase u)), (''to'', JStr to_phase)] (snd (now_utc s)) = (Inr (), s1) \<and>
        insert_phase_row h (update_track tid pid (moved_to to_phase (fst (now_utc s))) s1) = (Inr (), s2) \<and>
        track_dict tid pid s2 = (Inr t, s')"
    then obtain s1 s2 h where
      e: "emit_track_event cx ''track_phase_transition'' tid pid actor
            [(''from'', JStr (tr_phase u)), (''to'', JStr to_phase)] (snd (now_utc s)) = (Inr (), s1)" and
      i: "insert_phase_row h (update_track tid pid (moved_to to_phase (fst (now_utc s))) s1) = (Inr (), s2)" and
      d: "track_dict tid pid s2 = (Inr t, s')" by blast
    have "find_track s1 tid pid = Some u" using e u by (simp add: emit_eq_Inr now_utc_def)
    then have "find_track s2 tid pid = Some (moved_to to_phase (fst (now_utc s)) u)"
      using i by (auto simp: insert_phase_row_def find_update_moved split: if_split_asm)
    with d show ?thesis by (auto simp: track_dict_eq_Inr moved_to_def)
  qed (use u in simp)
qed

lemma walk_steps_reach:
  assumes "walk_steps cx tid pid actor reason approval cur path s = ((c, None), s')"
    and "find_track s tid pid = Some t" and "tr_phase t = cur"
  shows "\<exists>t'. find_track s' tid pid = Some t' \<and> tr_phase t' = last_state cur path"
  using assms
proof (induction path arbitrary: cur s t)
  case (Cons step path)
  from Cons.prems(1) obtain u s1 where step: "transition_phase cx tid pid step actor reason approval s = (Inr u, s1)"
    and rest: "walk_steps cx tid pid actor reason approval step path s1 = ((c, None), s')"
    by (auto split: prod.splits sum.splits)
  from transition_returns [OF step] Cons.IH [OF rest] have
    "\<exists>t'. find_track s' tid pid = Some t' \<and> tr_phase t' = last_state step path" by blast
  then show ?case by (simp add: last_state_def)
qed simp

lemma revalidated_eq_Inr:
  "revalidated tid pid evidence include_parked s = (Inr (Inr skip), s') \<longleftrightarrow>
     s' = s \<and> (case evidence of
       None \<Rightarrow> skip = False
     | Some ev \<Rightarrow> \<not> zero_tables s \<and> revalidate_close_evidence s tid pid ev include_parked = Inr skip)"
  by (auto simp: revalidated_def get_conn_eq_Inr split: option.split)

text \<open>Walking the path either succeeds or reports one of two rejections.\<close>

lemma walk_to_done_cases:
  assumes "walk_to_done cx tid pid path payload actor approval declared derived s = (out, s')"
  shows "\<exists>reason cur failed. walk_steps cx tid pid actor (Some reason) approval declared path s = ((cur, failed), s') \<and>
    (if failed = None then out = payload\<lparr>cl_declared := Some ''done'', cl_action := ''closed'', cl_applied := True\<rparr>
     else cl_applied out = cl_applied payload \<and> cl_action out \<in> {''rejected_not_found'', ''rejected_walk_failed''})"
proof -
  define reason where "reason = ''close-the-loop ('' @ declared @ ''->done, derived='' @ derived @ '')''"
  obtain cur failed s1 where w: "walk_steps cx tid pid actor (Some reason) approval declared path s = ((cur, failed), s1)"
    by (metis prod.exhaust)
  have out: "(case failed of
           Some (TrackNotFoundError t p) \<Rightarrow>
             (payload\<lparr>cl_action := ''rejected_not_found'', cl_error := Some (TrackNotFoundError t p)\<rparr>, s1)
         | Some e \<Rightarrow>
             (payload\<lparr>cl_declared := Some cur, cl_action := ''rejected_walk_failed'', cl_error := Some e\<rparr>, s1)
         | None \<Rightarrow>
             (payload\<lparr>cl_declared := Some ''done'', cl_action := ''closed'', cl_applied := True\<rparr>, s1)) = (out, s')"
    using assms unfolding walk_to_done_def reason_def [symmetric] Let_def w by simp
  show ?thesis
  proof (cases failed)
    case (Some e)
    with out have "s' = s1 \<and> cl_applied out = cl_applied payload \<and> cl_action out \<in> {''rejected_not_found'', ''rejected_walk_failed''}"
      by (cases e) auto
    with w Some show ?thesis by auto
  qed (use out w in auto)
qed

lemma walk_to_done_applied:
  assumes "walk_to_done cx tid pid path payload actor approval declared derived s = (out, s')"
    and "\<not> cl_applied payload" and "cl_applied out"
  shows "\<exists>cur reason. walk_steps cx tid pid actor (Some reason) approval declared path s = ((cur, None), s')"
  using walk_to_done_cases [OF assms(1)] assms(2,3) by (auto split: if_split_asm)

text \<open>A close that was applied went through every gate.\<close>

lemma close_applied:
  assumes "close_track_if_done cx tid pid actor evidence approval include_parked merged local_set s = (Inr payload, s')"
    and "cl_applied payload"
  obtains skip r s1 declared path reason cur where
    "revalidated tid pid evidence include_parked s = (Inr (Inr skip), s)"
    "reconcile_track tid pid merged local_set s = (Inr r, s1)" "rc_declared r = Some declared"
    "terminal_gate (rc_derived r) (Some declared) skip include_parked = None" "path_to_done (Some declared) = Some path"
    "walk_steps cx tid pid actor (Some reason) approval declared path s1 = ((cur, None), s')"
proof -
  from assms(1) obtain checked s0 where c: "revalidated tid pid evidence include_parked s = (Inr checked, s0)"
    and body: "(case checked of
         Inl refusal \<Rightarrow> (Inr refusal, s0)
       | Inr skip_derived \<Rightarrow>
           bindP (reconcile_track tid pid merged local_set s0) (\<lambda>result s.
             let (payload, s') = close_reconciled cx tid pid actor approval include_parked local_set skip_derived result s
             in (Inr payload, s'))) = (Inr payload, s')"
    by (auto simp: close_track_if_done_def bindP_eq_Inr)
  show thesis
  proof (cases checked)
    case (Inl refusal)
    with c have "\<not> cl_applied refusal"
      by (auto simp: revalidated_def get_conn_eq_Inr revalidate_close_evidence_def rejection_def Let_def
          split: option.split_asm if_split_asm sum.split_asm)
    with body Inl assms(2) show thesis by simp
  next
    case (Inr skip)
    with c have s0: "s0 = s" by (simp add: revalidated_eq_Inr)
    from body Inr obtain r s1 where r: "reconcile_track tid pid merged local_set s0 = (Inr r, s1)"
      and cr: "close_reconciled cx tid pid actor approval include_parked local_set skip r s1 = (payload, s')"
      by (auto simp: bindP_eq_Inr case_prod_beta Let_def intro: prod_eqI)
    from cr assms(2) have g: "terminal_gate (rc_derived r) (rc_declared r) skip include_parked = None"
      by (auto simp: close_reconciled_def rejection_def Let_def split: option.split_asm)
    from cr assms(2) g obtain path where p: "path_to_done (rc_declared r) = Some path"
      by (cases "path_to_done (rc_declared r)") (auto simp: close_reconciled_def rejection_def Let_def)
    then obtain declared where d: "rc_declared r = Some declared" by (auto simp: path_to_done_def split: option.split_asm)
    let ?payload = "(rejection tid pid (rc_declared r) [])\<lparr>cl_derived := Some (rc_derived r),
        cl_evidence := Some (close_evidence_of s1 tid pid None local_set), cl_path := Some (declared # path)\<rparr>"
    from cr g p d have w: "walk_to_done cx tid pid path ?payload actor approval declared (rc_derived r) s1 = (payload, s')"
      by (simp add: close_reconciled_def Let_def rejection_def)
    have n: "\<not> cl_applied ?payload" by (simp add: rejection_def)
    from walk_to_done_applied [OF w n assms(2)] obtain cur reason where
      "walk_steps cx tid pid actor (Some reason) approval declared path s1 = ((cur, None), s')" by blast
    with that c Inr s0 r d g p show thesis by simp
  qed
qed


lemma after_stubs_open:
  assumes "map_option tr_phase (find_track s tid pid) \<noteq> Some ''done''"
  shows "after_stubs tid pid s = s"
  using assms by (auto simp: after_stubs_def reconcile_deliverable_dispatches_def split: option.split)

lemma derived_done_unblocked:
  assumes "compute_derived_status s tid pid merged = ''done''"
  shows "blocking_links s tid pid = [] \<and> blocking_dependencies s tid pid = []"
  using assms by (simp add: compute_derived_status_def split: if_split_asm)

text \<open>What an accepted nomination showed.\<close>

lemma revalidation_passed:
  assumes "revalidate_close_evidence s tid pid ev include_parked = Inr skip"
  shows "Option.bind (find_track s tid pid) tr_pr_ref = no_pr_ref ev" "blocking_links s tid pid = []"
    "skip \<Longrightarrow> blocking_dependencies s tid pid = []"
    "parse_pr_numbers (no_pr_ref ev) \<noteq> {} \<Longrightarrow>
      \<exists>v \<in> set (delivery_rows s tid pid). dv_pr v \<in> parse_pr_numbers (no_pr_ref ev) \<and> dv_kind v = ''complete''"
proof -
  show ref: "Option.bind (find_track s tid pid) tr_pr_ref = no_pr_ref ev"
    and "blocking_links s tid pid = []"
    using assms by (auto simp: revalidate_close_evidence_def Let_def split: if_split_asm)
  from assms have gh: "gh_evidence_rejection s tid pid ev = Inr skip"
    and dr: "delivery_rejection s tid pid (no_pr_ref ev) = None"
    unfolding revalidate_close_evidence_def Let_def ref
    by (auto split: if_split_asm sum.split_asm option.split_asm)
  from gh show "skip \<Longrightarrow> blocking_dependencies s tid pid = []"
    by (auto simp: gh_evidence_rejection_def Let_def split: if_split_asm)
  from dr show "parse_pr_numbers (no_pr_ref ev) \<noteq> {} \<Longrightarrow>
      \<exists>v \<in> set (delivery_rows s tid pid). dv_pr v \<in> parse_pr_numbers (no_pr_ref ev) \<and> dv_kind v = ''complete''"
    by (auto simp: delivery_rejection_def Let_def list_ex_iff split: if_split_asm)
qed

text \<open>
  C14: A close that is reported as applied has found an open track (a parked one only when parked tracks were asked
  for) with no blocking item and no blocking dependency, whose derived status is done or which a nomination with the
  track's own pull requests names; when such a nomination names pull requests, one of them is marked complete. The
  track ends in phase done.
\<close>

theorem close_passes_every_gate:
  assumes "close_track_if_done cx tid pid actor evidence approval include_parked merged local_set s = (Inr payload, s')"
    and "cl_applied payload"
  shows "\<exists>t t'. find_track s tid pid = Some t \<and> tr_phase t \<noteq> ''done'' \<and> (tr_phase t = ''parked'' \<longrightarrow> include_parked) \<and>
    blocking_links s tid pid = [] \<and> blocking_dependencies s tid pid = [] \<and>
    (case evidence of
       None \<Rightarrow> compute_derived_status s tid pid (given merged local_set) = ''done''
     | Some ev \<Rightarrow> tr_pr_ref t = no_pr_ref ev \<and>
         (parse_pr_numbers (no_pr_ref ev) \<noteq> {} \<longrightarrow>
           (\<exists>v \<in> set (delivery_rows s tid pid). dv_pr v \<in> parse_pr_numbers (no_pr_ref ev) \<and> dv_kind v = ''complete''))) \<and>
    find_track s' tid pid = Some t' \<and> tr_phase t' = ''done''"
proof -
  from close_applied [OF assms] obtain skip r s1 declared path reason cur where
    rv: "revalidated tid pid evidence include_parked s = (Inr (Inr skip), s)" and
    rc: "reconcile_track tid pid merged local_set s = (Inr r, s1)" "rc_declared r = Some declared" and
    gate: "terminal_gate (rc_derived r) (Some declared) skip include_parked = None" and
    path: "path_to_done (Some declared) = Some path" and
    steps: "walk_steps cx tid pid actor (Some reason) approval declared path s1 = ((cur, None), s')" .
  define derived where "derived = compute_derived_status (after_stubs tid pid s) tid pid (given merged local_set)"
  from rc have s1: "s1 = write_derived_status tid pid derived (after_stubs tid pid s)" and rd: "rc_derived r = derived"
    and dec: "map_option tr_phase (find_track s1 tid pid) = Some declared"
    by (auto simp: reconcile_eq_Inr Let_def derived_def)
  have "map_option tr_phase (find_track s1 tid pid) = map_option tr_phase (find_track s tid pid)"
    unfolding s1 find_write_derived frame_reads(1) [OF after_stubs_frame] by (cases "find_track s tid pid") auto
  with dec obtain t where t: "find_track s tid pid = Some t" "tr_phase t = declared" by auto
  from gate have gates: "declared \<noteq> ''done''" "declared = ''parked'' \<longrightarrow> include_parked" "derived = ''done'' \<or> skip"
    by (auto simp: terminal_gate_def rd split: if_split_asm)
  with t have same: "after_stubs tid pid s = s" by (intro after_stubs_open) simp
  have d: "compute_derived_status s tid pid (given merged local_set) = derived" by (simp add: derived_def same)
  from dec obtain u where u: "find_track s1 tid pid = Some u" "tr_phase u = declared" by auto
  from path have "phase_path_to ALLOWED_TRANSITIONS declared ''done'' = Some (Some path)"
    by (auto simp: path_to_done_def split: option.split_asm)
  from phase_path_found [OF this] have "last_state declared path = ''done''" by (simp add: shortest_def leads_def)
  with walk_steps_reach [OF steps u] obtain t' where t': "find_track s' tid pid = Some t'" "tr_phase t' = ''done''" by auto
  show ?thesis
  proof (cases evidence)
    case None
    with rv have "\<not> skip" by (simp add: revalidated_eq_Inr)
    with gates(3) have "derived = ''done''" by simp
    with derived_done_unblocked [of s tid pid "given merged local_set"] d t t' gates None show ?thesis by simp
  next
    case (Some ev)
    with rv have ok: "revalidate_close_evidence s tid pid ev include_parked = Inr skip" by (simp add: revalidated_eq_Inr)
    have "blocking_dependencies s tid pid = []"
      using gates(3) revalidation_passed(3) [OF ok] derived_done_unblocked [of s tid pid "given merged local_set"] d by blast
    with revalidation_passed(1,2,4) [OF ok] t t' gates Some show ?thesis by simp
  qed
qed

lemma closing_actions:
  assumes "close_reconciled cx tid pid actor approval include_parked local_set skip r s = (payload, s')"
  shows "cl_action payload \<notin> {''stale_candidate'', ''noop_incomplete_delivery''}"
proof -
  have walk: "cl_action out \<notin> {''stale_candidate'', ''noop_incomplete_delivery''}"
    if "walk_to_done cx tid pid path p actor approval declared derived s = (out, s')" for path p declared derived out
    using walk_to_done_cases [OF that] by (auto split: if_split_asm)
  show ?thesis
  proof (cases "terminal_gate (rc_derived r) (rc_declared r) skip include_parked")
    case None
    show ?thesis
    proof (cases "path_to_done (rc_declared r)")
      case (Some path)
      with assms None show ?thesis
        by (intro walk [of path "(rejection tid pid (rc_declared r) [])\<lparr>cl_derived := Some (rc_derived r),
          cl_evidence := Some (close_evidence_of s tid pid None local_set), cl_path := Some (the (rc_declared r) # path)\<rparr>"
          "the (rc_declared r)" "rc_derived r"]) (simp add: close_reconciled_def rejection_def Let_def)
    qed (use assms None in \<open>auto simp: close_reconciled_def rejection_def Let_def\<close>)
  next
    case (Some action)
    then have "action \<notin> {''stale_candidate'', ''noop_incomplete_delivery''}"
      by (auto simp: terminal_gate_def split: if_split_asm)
    with assms Some show ?thesis by (auto simp: close_reconciled_def rejection_def Let_def)
  qed
qed

text \<open>
  A nomination that fails its re-check is refused before anything is written: the two refusals that name a
  stale candidate and an incomplete delivery leave the plan, the dispatches and the event file as they were.
\<close>

lemma refused_nomination_writes_nothing:
  assumes "close_track_if_done cx tid pid actor evidence approval include_parked merged local_set s = (Inr payload, s')"
    and "cl_action payload \<in> {''stale_candidate'', ''noop_incomplete_delivery''}"
  shows "s' = s"
proof -
  from assms(1) obtain checked s0 where c: "revalidated tid pid evidence include_parked s = (Inr checked, s0)"
    and body: "(case checked of
         Inl refusal \<Rightarrow> (Inr refusal, s0)
       | Inr skip_derived \<Rightarrow>
           bindP (reconcile_track tid pid merged local_set s0) (\<lambda>result s.
             let (payload, s') = close_reconciled cx tid pid actor approval include_parked local_set skip_derived result s
             in (Inr payload, s'))) = (Inr payload, s')"
    by (auto simp: close_track_if_done_def bindP_eq_Inr)
  from c have s0: "s0 = s" by (auto simp: revalidated_def get_conn_eq_Inr split: option.split_asm)
  show ?thesis
  proof (cases checked)
    case (Inr skip)
    with body obtain r s1 where "close_reconciled cx tid pid actor approval include_parked local_set skip r s1 = (payload, s')"
      by (auto simp: bindP_eq_Inr case_prod_beta Let_def intro: prod_eqI)
    from closing_actions [OF this] assms(2) show ?thesis by simp
  qed (use body s0 in simp)
qed


section \<open>A finished track closes\<close>

lemma moved_plan_sel [simp]:
  "wall (moved_plan cx tid pid f p actor reason approval s) = wall s"
  "reads (moved_plan cx tid pid f p actor reason approval s) = reads s + 2"
  "zero_tables (moved_plan cx tid pid f p actor reason approval s) = zero_tables s"
  "append_error (moved_plan cx tid pid f p actor reason approval s) = append_error s"
  by (simp_all add: moved_plan_def)

definition clock_ahead :: "plan \<Rightarrow> bool" where
  "clock_ahead s = (strict_mono (wall s) \<and> (\<forall>h \<in> set (phase_log s). ph_at h < wall s (reads s)))"

lemma clock_ahead_moved: "clock_ahead s \<Longrightarrow> clock_ahead (moved_plan cx tid pid f p actor reason approval s)"
proof -
  assume ahead: "clock_ahead s"
  then have later: "wall s (reads s) < wall s (reads s + 2)" by (simp add: clock_ahead_def strict_mono_def)
  with ahead show ?thesis by (auto simp: clock_ahead_def moved_plan_def intro: less_trans)
qed

lemma walk_steps_run:
  assumes "plan_inv s" and "find_track s tid pid = Some t" and "walk ALLOWED_TRANSITIONS (tr_phase t) path"
    and "actor \<in> set TRACK_ACTORS" and "\<not> zero_tables s" and "append_error s = None" and "clock_ahead s"
  shows "\<exists>s' t'. walk_steps cx tid pid actor reason approval (tr_phase t) path s = ((last_state (tr_phase t) path, None), s') \<and>
    find_track s' tid pid = Some t' \<and> tr_phase t' = last_state (tr_phase t) path \<and>
    map ph_to (phase_log s') = map ph_to (phase_log s) @ path"
  using assms
proof (induction path arbitrary: s t)
  case (Cons p path)
  let ?t = "moved_to p (wall s (reads s)) t" and ?s = "moved_plan cx tid pid (tr_phase t) p actor reason approval s"
  from Cons.prems(3) have edge: "p \<in> set (allowed_from ALLOWED_TRANSITIONS (tr_phase t))"
    and rest: "walk ALLOWED_TRANSITIONS p path" by simp_all
  have step: "transition_phase cx tid pid p actor reason approval s = (Inr ?t, ?s)"
    by (rule transition_phase_step [OF Cons.prems(1,2) edge Cons.prems(4-6)])
      (use Cons.prems(7) in \<open>simp add: clock_ahead_def\<close>)
  have "plan_inv ?s" using plan_inv_exec [OF Cons.prems(1), of cx "Phase tid pid p actor reason approval"] by (simp add: step)
  moreover have "find_track ?s tid pid = Some ?t" by (rule find_track_moved [OF Cons.prems(2)])
  moreover have phase: "tr_phase ?t = p" by (simp add: moved_to_def)
  moreover have "clock_ahead ?s" by (rule clock_ahead_moved [OF Cons.prems(7)])
  ultimately obtain s' t' where run: "walk_steps cx tid pid actor reason approval p path ?s = ((last_state p path, None), s')"
    "find_track s' tid pid = Some t'" "tr_phase t' = last_state p path"
    "map ph_to (phase_log s') = map ph_to (phase_log ?s) @ path"
    using Cons.IH [of ?s ?t] Cons.prems(4-6) rest by (force simp: moved_plan_sel)
  have "last_state (tr_phase t) (p # path) = last_state p path" by (simp add: last_state_def)
  moreover have "map ph_to (phase_log ?s) = map ph_to (phase_log s) @ [p]" by (simp add: moved_plan_def)
  ultimately show ?case using run by (simp add: step)
qed simp

lemma walk_to_done_success:
  assumes "\<And>reason. \<exists>s'. walk_steps cx tid pid actor reason approval declared path s = ((cur, None), s') \<and> P s'"
  shows "\<exists>s'. walk_to_done cx tid pid path payload actor approval declared derived s =
    (payload\<lparr>cl_declared := Some ''done'', cl_action := ''closed'', cl_applied := True\<rparr>, s') \<and> P s'"
proof -
  define reason where "reason = ''close-the-loop ('' @ declared @ ''->done, derived='' @ derived @ '')''"
  from assms obtain s' where "walk_steps cx tid pid actor (Some reason) approval declared path s = ((cur, None), s')" "P s'"
    by blast
  then show ?thesis unfolding walk_to_done_def reason_def [symmetric] Let_def by auto
qed

text \<open>The path to done from every phase a close starts from.\<close>

definition close_path :: "string \<Rightarrow> string list" where
  "close_path phase =
     (if phase = ''queued'' then [''active'', ''done'']
      else if phase = ''active'' then [''done'']
      else [''queued'', ''active'', ''done''])"

lemma close_paths:
  assumes "phase \<in> {''queued'', ''active'', ''parked''}"
  shows "path_to_done (Some phase) = Some (close_path phase)" "walk ALLOWED_TRANSITIONS phase (close_path phase)"
    "last_state phase (close_path phase) = ''done''"
proof -
  have "list_all (\<lambda>phase. path_to_done (Some phase) = Some (close_path phase) \<and> walk ALLOWED_TRANSITIONS phase (close_path phase) \<and>
      last_state phase (close_path phase) = ''done'') [''queued'', ''active'', ''parked'']" by code_simp
  with assms show "path_to_done (Some phase) = Some (close_path phase)" "walk ALLOWED_TRANSITIONS phase (close_path phase)"
    "last_state phase (close_path phase) = ''done''" by auto
qed

lemma finished_closes:
  assumes "plan_inv s" and "find_track s tid pid = Some t"
    and "tr_phase t \<in> {''queued'', ''active''} \<or> tr_phase t = ''parked'' \<and> include_parked"
    and "compute_derived_status s tid pid (given merged local_set) = ''done''"
    and "actor \<in> set TRACK_ACTORS" and "has_derived s" and "\<not> zero_tables s" and "append_error s = None" and "clock_ahead s"
  shows "\<exists>payload s' t'. close_track_if_done cx tid pid actor None approval include_parked merged local_set s = (Inr payload, s') \<and>
    cl_action payload = ''closed'' \<and> cl_applied payload \<and> find_track s' tid pid = Some t' \<and> tr_phase t' = ''done'' \<and>
    map ph_to (phase_log s') = map ph_to (phase_log s) @ close_path (tr_phase t)"
proof -
  from assms(3) have phase: "tr_phase t \<in> {''queued'', ''active'', ''parked''}" and not_done: "tr_phase t \<noteq> ''done''" by auto
  let ?s = "write_derived_status tid pid ''done'' s" and ?path = "close_path (tr_phase t)"
  have same: "after_stubs tid pid s = s" using assms(2) not_done by (intro after_stubs_open) simp
  define r where "r = result_view ?s tid pid ''done'' (deliverable_close_candidates s tid pid (given merged local_set))"
  have rec: "reconcile_track tid pid merged local_set s = (Inr r, ?s)"
    using assms(4,6,7) by (simp add: reconcile_eq_Inr Let_def same r_def)
  define u where "u = (if tr_id t = tid \<and> tr_project t = pid then t\<lparr>tr_derived := Some ''done''\<rparr> else t)"
  have u: "find_track ?s tid pid = Some u" "tr_phase u = tr_phase t"
    using assms(2) by (simp_all add: find_write_derived u_def)
  have r: "rc_derived r = ''done''" "rc_declared r = Some (tr_phase t)"
    using u by (simp_all add: r_def)
  have "map core (tracks ?s) = map core (tracks s)"
    by (simp add: write_derived_status_def update_track_def update_where_def core_def)
  then have "quiet s ?s" by (simp add: quiet_def extends_def write_derived_status_def update_track_def)
  then have inv: "plan_inv ?s" by (rule plan_inv_quiet [OF assms(1)])
  have keep: "zero_tables ?s = zero_tables s" "append_error ?s = append_error s" "clock_ahead ?s = clock_ahead s"
    "phase_log ?s = phase_log s"
    by (simp_all add: write_derived_status_def update_track_def clock_ahead_def)
  have "\<exists>s'. walk_steps cx tid pid actor reason approval (tr_phase t) ?path ?s = ((''done'', None), s') \<and>
      (\<exists>t'. find_track s' tid pid = Some t' \<and> tr_phase t' = ''done'' \<and>
        map ph_to (phase_log s') = map ph_to (phase_log s) @ ?path)" for reason
    using walk_steps_run [OF inv u(1), of ?path actor cx reason approval] assms(5,7-9) close_paths [OF phase] u(2)
    by (simp add: keep)
  from walk_to_done_success [OF this] obtain s' t' where
    w: "walk_to_done cx tid pid ?path ((rejection tid pid (Some (tr_phase t)) [])\<lparr>cl_derived := Some ''done'',
        cl_evidence := Some (close_evidence_of ?s tid pid None local_set), cl_path := Some (tr_phase t # ?path)\<rparr>)
        actor approval (tr_phase t) ''done'' ?s =
      ((rejection tid pid (Some (tr_phase t)) [])\<lparr>cl_derived := Some ''done'',
        cl_evidence := Some (close_evidence_of ?s tid pid None local_set), cl_path := Some (tr_phase t # ?path),
        cl_declared := Some ''done'', cl_action := ''closed'', cl_applied := True\<rparr>, s')"
    and t': "find_track s' tid pid = Some t'" "tr_phase t' = ''done''"
      "map ph_to (phase_log s') = map ph_to (phase_log s) @ ?path" by blast
  have "terminal_gate ''done'' (Some (tr_phase t)) False include_parked = None"
    using assms(3) not_done by (auto simp: terminal_gate_def)
  then have "close_reconciled cx tid pid actor approval include_parked local_set False r ?s =
      ((rejection tid pid (Some (tr_phase t)) [])\<lparr>cl_derived := Some ''done'',
        cl_evidence := Some (close_evidence_of ?s tid pid None local_set), cl_path := Some (tr_phase t # ?path),
        cl_declared := Some ''done'', cl_action := ''closed'', cl_applied := True\<rparr>, s')"
    using w close_paths(1) [OF phase] by (simp add: close_reconciled_def r Let_def)
  then show ?thesis
    using t' by (simp add: close_track_if_done_def revalidated_def rec)
qed

text \<open>
  C15: A track whose work is finished does close: when its derived status is done and it is queued or active (or parked,
  with parked tracks asked for), closing it without a nomination succeeds, walks the shortest path
  through the transition table, writes one history row per step and leaves the track in phase done.
\<close>

theorem finished_track_closes:
  assumes "plan_inv s" and "find_track s tid pid = Some t"
    and "tr_phase t \<in> {''queued'', ''active''} \<or> tr_phase t = ''parked'' \<and> include_parked"
    and "compute_derived_status s tid pid (given merged local_set) = ''done''"
    and "actor \<in> set TRACK_ACTORS" and "has_derived s" and "\<not> zero_tables s" and "append_error s = None" and "clock_ahead s"
  shows "\<exists>payload s' t'. close_track_if_done cx tid pid actor None approval include_parked merged local_set s = (Inr payload, s') \<and>
    cl_action payload = ''closed'' \<and> cl_applied payload \<and> find_track s' tid pid = Some t' \<and> tr_phase t' = ''done'' \<and>
    map ph_to (phase_log s') = map ph_to (phase_log s) @ close_path (tr_phase t)"
  using assms by (rule finished_closes)

section \<open>Examples\<close>

definition demo_dispatch :: "string \<Rightarrow> string \<Rightarrow> string option \<Rightarrow> dispatch_row" where
  "demo_dispatch i state output =
     \<lparr>d_id = i, d_project = Some ''vnx-dev'', d_state = state, d_terminal = None, d_track = Some ''t1'',
      d_priority = None, d_pr_ref = None, d_gate = None, d_attempt_count = 0, d_bundle_path = None,
      d_created_at = 0, d_updated_at = 0, d_expires_after = None, d_metadata = JObj [], d_task_class = None,
      d_channel_origin = None, d_claimed_by = None, d_claimed_at = None, d_output_ref = output\<rparr>"

text \<open>A queued track whose one dispatch is completed.\<close>

definition demo_finished :: plan where
  "demo_finished = demo_started\<lparr>coord := (coord demo_plan)\<lparr>dispatches := [demo_dispatch ''d1'' ''completed'' None]\<rparr>\<rparr>"

lemma demo_finished_facts:
  "plan_inv demo_finished" "find_track demo_finished ''t1'' ''vnx-dev'' = Some demo_track"
  "compute_derived_status demo_finished ''t1'' ''vnx-dev'' {} = ''done''"
  "has_derived demo_finished" "\<not> zero_tables demo_finished" "append_error demo_finished = None" "clock_ahead demo_finished"
proof -
  have "plan_inv demo_started" unfolding demo_started_def exec_plan.simps(1) [symmetric] by (rule plan_inv_exec [OF demo_inv])
  moreover have "quiet demo_started demo_finished" by (simp add: quiet_def extends_def demo_finished_def)
  ultimately show "plan_inv demo_finished" by (rule plan_inv_quiet)
  show find: "find_track demo_finished ''t1'' ''vnx-dev'' = Some demo_track"
    using demo_started_sel(1) by (simp add: find_track_def demo_finished_def)
  show "compute_derived_status demo_finished ''t1'' ''vnx-dev'' {} = ''done''"
    unfolding compute_derived_status_def find
    by (simp add: blocking_links_def blocking_dependencies_def unfinished_def edges_of_def track_dispatches_def
        demo_finished_def demo_started_sel demo_dispatch_def status_all_terminal_def TERMINAL_DISPATCH_STATES_def)
  show "has_derived demo_finished" "\<not> zero_tables demo_finished" "append_error demo_finished = None"
    by (simp_all add: demo_finished_def demo_started_sel)
  show "clock_ahead demo_finished"
    by (simp add: clock_ahead_def demo_finished_def demo_started_sel strict_mono_def demo_time_def)
qed

lemma finished_track_closes_witness:
  "\<exists>payload s' t'. close_track_if_done demo_codec ''t1'' ''vnx-dev'' ''operator'' None None False None {} demo_finished = (Inr payload, s') \<and>
    cl_action payload = ''closed'' \<and> cl_applied payload \<and> find_track s' ''t1'' ''vnx-dev'' = Some t' \<and> tr_phase t' = ''done'' \<and>
    map ph_to (phase_log s') = [''active'', ''done'']"
proof -
  have "tr_phase demo_track \<in> {''queued'', ''active''} \<or> tr_phase demo_track = ''parked'' \<and> False" by (simp add: demo_started_sel)
  moreover have "compute_derived_status demo_finished ''t1'' ''vnx-dev'' (given None {}) = ''done''"
    using demo_finished_facts(3) by (simp add: given_def)
  moreover have "''operator'' \<in> set TRACK_ACTORS" by (simp add: TRACK_ACTORS_def)
  ultimately show ?thesis
    using finished_track_closes [OF demo_finished_facts(1,2), of False None "{}" "''operator''" demo_codec None] demo_finished_facts(4-)
    by (simp add: demo_started_sel close_path_def) (simp add: demo_finished_def demo_started_sel)
qed

lemma close_passes_every_gate_witness:
  "\<exists>payload s' t t'. close_track_if_done demo_codec ''t1'' ''vnx-dev'' ''operator'' None None False None {} demo_finished = (Inr payload, s') \<and>
    cl_applied payload \<and> find_track demo_finished ''t1'' ''vnx-dev'' = Some t \<and> tr_phase t \<noteq> ''done'' \<and>
    blocking_links demo_finished ''t1'' ''vnx-dev'' = [] \<and> find_track s' ''t1'' ''vnx-dev'' = Some t' \<and> tr_phase t' = ''done''"
proof -
  have "tr_phase demo_track \<in> {''queued'', ''active''} \<or> tr_phase demo_track = ''parked'' \<and> False" by (simp add: demo_started_sel)
  moreover have "compute_derived_status demo_finished ''t1'' ''vnx-dev'' (given None {}) = ''done''"
    using demo_finished_facts(3) by (simp add: given_def)
  moreover have "''operator'' \<in> set TRACK_ACTORS" by (simp add: TRACK_ACTORS_def)
  ultimately obtain payload s' where
    "close_track_if_done demo_codec ''t1'' ''vnx-dev'' ''operator'' None None False None {} demo_finished = (Inr payload, s')"
    "cl_applied payload"
    using finished_closes [OF demo_finished_facts(1,2), of False None "{}" "''operator''" demo_codec None] demo_finished_facts(4-)
    by (simp add: demo_started_sel) blast
  from this close_passes_every_gate [OF this] show ?thesis by blast
qed

lemma refused_nomination_writes_nothing_witness:
  "snd (close_track_if_done demo_codec ''t1'' ''vnx-dev'' ''operator''
      (Some \<lparr>no_pr_ref = Some ''#9'', no_pr_results = [], no_allow_closed = False\<rparr>) None False None {} demo_finished) = demo_finished"
proof -
  have "revalidated ''t1'' ''vnx-dev'' (Some \<lparr>no_pr_ref = Some ''#9'', no_pr_results = [], no_allow_closed = False\<rparr>) False demo_finished =
    (Inr (Inl (rejection ''t1'' ''vnx-dev'' (Some ''queued'') ''stale_candidate'')), demo_finished)"
    using demo_finished_facts(2,5)
    by (simp add: revalidated_def get_conn_eq_Inr revalidate_close_evidence_def demo_started_sel)
  then have run: "close_track_if_done demo_codec ''t1'' ''vnx-dev'' ''operator''
      (Some \<lparr>no_pr_ref = Some ''#9'', no_pr_results = [], no_allow_closed = False\<rparr>) None False None {} demo_finished =
    (Inr (rejection ''t1'' ''vnx-dev'' (Some ''queued'') ''stale_candidate''), demo_finished)"
    by (simp add: close_track_if_done_def)
  from refused_nomination_writes_nothing [OF this] show ?thesis unfolding run by (simp add: rejection_def)
qed

text \<open>A done track with a stub that was never built.\<close>

definition demo_stub :: plan where
  "demo_stub = (empty_plan ((empty_store [''dispatches'', ''coordination_events''] (Some ''vnx-dev'') 0)
       \<lparr>dispatches := [demo_dispatch ''d1'' ''completed'' None, demo_dispatch ''d2'' ''proposed'' (Some ''reports/d2'')]\<rparr>)
       ''/db'' demo_time)\<lparr>tracks := [demo_track\<lparr>tr_phase := ''done''\<rparr>]\<rparr>"

lemma reconcile_is_idempotent_witness:
  "\<exists>r s1 r2 s2. reconcile_track ''t1'' ''vnx-dev'' None {} demo_stub = (Inr r, s1) \<and>
    reconcile_track ''t1'' ''vnx-dev'' None {} s1 = (Inr r2, s2) \<and> tracks s2 = tracks s1 \<and> coord s2 = coord s1"
proof -
  have "\<not> zero_tables demo_stub" "has_derived demo_stub" by (simp_all add: demo_stub_def empty_plan_def)
  then obtain r s1 where "reconcile_track ''t1'' ''vnx-dev'' None {} demo_stub = (Inr r, s1)"
    using reconcile_eq_Inr [of "''t1''" "''vnx-dev''" None "{}" demo_stub] by (auto simp: Let_def)
  from this reconcile_is_idempotent [OF this] show ?thesis by blast
qed

text \<open>A track whose pull request is merged and marked partial.\<close>

definition demo_partial :: plan where
  "demo_partial = (empty_plan (empty_store [''dispatches'', ''coordination_events''] (Some ''vnx-dev'') 0) ''/db'' demo_time)
     \<lparr>tracks := [demo_track\<lparr>tr_pr_ref := Some ''#7''\<rparr>],
      deliveries := [\<lparr>dv_project = ''vnx-dev'', dv_track = ''t1'', dv_pr = 7, dv_kind = ''partial'', dv_set_by = ''operator'', dv_set_at = 0\<rparr>]\<rparr>"

lemma delivery_hold_vetoes_done_witness:
  "prs_merged (Some ''#7'') {7} \<and> compute_derived_status demo_partial ''t1'' ''vnx-dev'' {7} \<noteq> ''done''"
proof -
  have nums: "parse_pr_numbers (Some ''#7'') = {7}" by code_simp
  have find: "find_track demo_partial ''t1'' ''vnx-dev'' = Some (demo_track\<lparr>tr_pr_ref := Some ''#7''\<rparr>)"
    by (simp add: demo_partial_def empty_plan_def find_track_def demo_started_sel)
  have "delivery_hold demo_partial ''t1'' ''vnx-dev'' (tr_pr_ref (demo_track\<lparr>tr_pr_ref := Some ''#7''\<rparr>)) \<noteq> None"
    using nums by (simp add: delivery_hold_def delivery_rows_def demo_partial_def empty_plan_def Let_def)
  from delivery_hold_vetoes_done [OF find this] nums show ?thesis
    by (simp add: prs_merged_def demo_started_sel)
qed

end
