(* ===== verification/Routing.thy ===== *)
theory Routing
  imports Coordination_DB
begin

text \<open>
  Where a dispatch runs: \<^verbatim>\<open>scripts/lib/execution_target_registry.py\<close>, the registry of terminals, headless
  command lines and channel adapters with their health, and \<^verbatim>\<open>scripts/lib/dispatch_router.py\<close>, which
  picks a registered target for a dispatch by its task class.

  A \<^verbatim>\<open>TargetRecord\<close> has exactly the columns of its row with the two JSON columns read back; the operations
  return the row. Registry and router write the event log of the coordination store; the router swallows a failure of
  that write.
\<close>

section \<open>Constants\<close>

definition VALID_TARGET_TYPES :: "string list" where
  "VALID_TARGET_TYPES =
     [''interactive_tmux_claude'', ''interactive_tmux_codex'', ''headless_claude_cli'', ''headless_codex_cli'',
      ''channel_adapter'']"

definition VALID_TASK_CLASSES :: "string list" where
  "VALID_TASK_CLASSES =
     [''coding_interactive'', ''research_structured'', ''docs_synthesis'', ''ops_watchdog'', ''channel_response'']"

definition VALID_HEALTH_STATES :: "string list" where
  "VALID_HEALTH_STATES = [''healthy'', ''degraded'', ''unhealthy'', ''offline'']"

definition ROUTING_ELIGIBLE_HEALTH :: "string list" where
  "ROUTING_ELIGIBLE_HEALTH = [''healthy'', ''degraded'']"

definition INTERACTIVE_TARGET_TYPES :: "string list" where
  "INTERACTIVE_TARGET_TYPES = [''interactive_tmux_claude'', ''interactive_tmux_codex'']"

definition HEADLESS_TARGET_TYPES :: "string list" where
  "HEADLESS_TARGET_TYPES = [''headless_claude_cli'', ''headless_codex_cli'']"

section \<open>Targets\<close>

definition is_routing_eligible :: "target_row \<Rightarrow> bool" where
  "is_routing_eligible t = (g_health t \<in> set ROUTING_ELIGIBLE_HEALTH)"

definition is_interactive :: "target_row \<Rightarrow> bool" where
  "is_interactive t = (g_type t \<in> set INTERACTIVE_TARGET_TYPES)"

definition is_headless :: "target_row \<Rightarrow> bool" where
  "is_headless t = (g_type t \<in> set HEADLESS_TARGET_TYPES)"

definition supports_task_class :: "target_row \<Rightarrow> string \<Rightarrow> bool" where
  "supports_task_class t task_class = (task_class \<in> set (g_capabilities t))"

definition validate_target_type :: "string \<Rightarrow> exn + unit" where
  "validate_target_type target_type = guardE (target_type \<in> set VALID_TARGET_TYPES) (InvalidTargetTypeError target_type)"

definition validate_health :: "string \<Rightarrow> exn + unit" where
  "validate_health health = guardE (health \<in> set VALID_HEALTH_STATES) (InvalidHealthStateError health)"

fun validate_capabilities :: "string list \<Rightarrow> exn + unit" where
  "validate_capabilities [] = Inr ()"
| "validate_capabilities (cap # caps) =
     bindE (guardE (cap \<in> set VALID_TASK_CLASSES) (InvalidCapabilityError cap)) (\<lambda>_. validate_capabilities caps)"

definition target_at :: "store \<Rightarrow> string \<Rightarrow> target_row option" where
  "target_at s target_id = find (\<lambda>t. g_id t = target_id) (exec_targets s)"

definition insert_target_row :: "target_row \<Rightarrow> store \<Rightarrow> exn + store" where
  "insert_target_row t s =
     bindE (project_id_stamp s ''execution_targets'') (\<lambda>project.
     Inr (s\<lparr>exec_targets := exec_targets s @ [t\<lparr>g_project := project\<rparr>]\<rparr>))"

definition update_target :: "string \<Rightarrow> (target_row \<Rightarrow> target_row) \<Rightarrow> store \<Rightarrow> store" where
  "update_target target_id f s = s\<lparr>exec_targets := update_where (\<lambda>t. g_id t = target_id) f (exec_targets s)\<rparr>"

section \<open>The registry\<close>

record registration =
  rg_id :: string
  rg_type :: string
  rg_terminal :: "string option"
  rg_capabilities :: "string list option"
  rg_health :: string
  rg_model :: "string option"
  rg_metadata :: "(string \<times> json) list option"

definition registered_capabilities :: "registration \<Rightarrow> string list" where
  "registered_capabilities a = (case rg_capabilities a of None \<Rightarrow> [] | Some caps \<Rightarrow> caps)"

text \<open>The targets that occupy a terminal for a new one: every one that is not offline.\<close>

definition terminal_occupant :: "store \<Rightarrow> string \<Rightarrow> string \<Rightarrow> (string \<Rightarrow> bool) \<Rightarrow> target_row option" where
  "terminal_occupant s terminal_id target_id blocking =
     find (\<lambda>t. g_terminal t = Some terminal_id \<and> blocking (g_health t) \<and> g_id t \<noteq> target_id) (exec_targets s)"

definition require_free :: "store \<Rightarrow> string option \<Rightarrow> string \<Rightarrow> (string \<Rightarrow> bool) \<Rightarrow> exn + unit" where
  "require_free s terminal_id target_id blocking =
     (case terminal_id of
        None \<Rightarrow> Inr ()
      | Some t \<Rightarrow>
          (case terminal_occupant s t target_id blocking of
             None \<Rightarrow> Inr ()
           | Some u \<Rightarrow> Inl (TerminalOccupiedError t (g_id u))))"

definition validate_registration :: "registration \<Rightarrow> exn + unit" where
  "validate_registration a =
     bindE (validate_target_type (rg_type a)) (\<lambda>_.
     bindE (validate_health (rg_health a)) (\<lambda>_.
     bindE (validate_capabilities (registered_capabilities a)) (\<lambda>_.
     guardE (\<not> (rg_type a = ''channel_adapter'' \<and> rg_terminal a \<noteq> None))
       (TargetRegistryError ''Channel adapters must not occupy terminal slots''))))"

definition new_target_row :: "registration \<Rightarrow> int \<Rightarrow> target_row" where
  "new_target_row a now =
     \<lparr>g_id = rg_id a, g_type = rg_type a, g_terminal = rg_terminal a,
      g_capabilities = registered_capabilities a, g_health = rg_health a,
      g_health_checked_at = (if rg_health a \<noteq> ''offline'' then Some now else None), g_model = rg_model a,
      g_registered_at = now, g_updated_at = now,
      g_metadata = JObj (case rg_metadata a of None \<Rightarrow> [] | Some m \<Rightarrow> m), g_project = None\<rparr>"

definition register_target :: "registration \<Rightarrow> string \<Rightarrow> store \<Rightarrow> (exn + target_row) \<times> store" where
  "register_target a actor s =
     commit s
       (bindE (validate_registration a) (\<lambda>_.
        bindE (guardE (target_at s (rg_id a) = None) (TargetExistsError (rg_id a))) (\<lambda>_.
        bindE (if rg_health a \<noteq> ''offline''
               then require_free s (rg_terminal a) (rg_id a) (\<lambda>h. h \<noteq> ''offline'') else Inr ()) (\<lambda>_.
        bindE (insert_target_row (new_target_row a (clock s)) s) (\<lambda>s1.
        bindE (append_event ''target_registered'' ''execution_target'' (rg_id a) None (Some (rg_health a)) actor
                 (Some (''registered '' @ rg_type a @ '' target''))
                 (Some [(''target_type'', JStr (rg_type a)), (''terminal_id'', json_opt (rg_terminal a)),
                        (''capabilities'', JList (map JStr (registered_capabilities a))),
                        (''model'', json_opt (rg_model a))]) None s1) (\<lambda>s2.
        bindE (fetch_dict (target_at s2 (rg_id a))) (\<lambda>row. Inr (row, s2))))))))"

definition require_target :: "store \<Rightarrow> string \<Rightarrow> exn + target_row" where
  "require_target s target_id =
     (case target_at s target_id of None \<Rightarrow> Inl (TargetNotFoundError target_id) | Some t \<Rightarrow> Inr t)"

definition deregister_target :: "string \<Rightarrow> string \<Rightarrow> string option \<Rightarrow> store \<Rightarrow> (exn + unit) \<times> store" where
  "deregister_target target_id actor reason s =
     commit s
       (bindE (require_target s target_id) (\<lambda>row.
        bindE (append_event ''target_deregistered'' ''execution_target'' target_id (Some (g_health row))
                 (Some ''offline'') actor (Some (or_else reason ''deregistered'')) None None
                 (update_target target_id (\<lambda>t. t\<lparr>g_health := ''offline'', g_updated_at := clock s\<rparr>) s)) (\<lambda>s2.
        Inr ((), s2))))"

definition remove_target :: "string \<Rightarrow> string \<Rightarrow> store \<Rightarrow> (exn + unit) \<times> store" where
  "remove_target target_id actor s =
     commit s
       (bindE (require_target s target_id) (\<lambda>row.
        bindE (append_event ''target_removed'' ''execution_target'' target_id (Some (g_health row)) None actor
                 (Some ''permanently removed from registry'') None None
                 (s\<lparr>exec_targets := filter (\<lambda>t. g_id t \<noteq> target_id) (exec_targets s)\<rparr>)) (\<lambda>s2.
        Inr ((), s2))))"

text \<open>A target that becomes eligible for routing again needs its terminal free of eligible targets.\<close>

definition check_terminal :: "store \<Rightarrow> target_row \<Rightarrow> string \<Rightarrow> exn + unit" where
  "check_terminal s row health =
     (if health \<in> set ROUTING_ELIGIBLE_HEALTH \<and> g_health row \<notin> set ROUTING_ELIGIBLE_HEALTH
      then require_free s (g_terminal row) (g_id row) (\<lambda>h. h \<in> {''healthy'', ''degraded''}) else Inr ())"

definition update_health :: "string \<Rightarrow> string \<Rightarrow> string \<Rightarrow> string option \<Rightarrow> store \<Rightarrow> (exn + target_row) \<times> store" where
  "update_health target_id health actor reason s =
     commit s
       (bindE (validate_health health) (\<lambda>_.
        bindE (require_target s target_id) (\<lambda>row.
        bindE (check_terminal s row health) (\<lambda>_.
        bindE (append_event ''target_health_changed'' ''execution_target'' target_id (Some (g_health row))
                 (Some health) actor
                 (Some (or_else reason (''health changed: '' @ g_health row @ '' -> '' @ health))) None None
                 (update_target target_id
                    (\<lambda>t. t\<lparr>g_health := health, g_health_checked_at := Some (clock s), g_updated_at := clock s\<rparr>) s)) (\<lambda>s2.
        bindE (fetch_dict (target_at s2 target_id)) (\<lambda>row. Inr (row, s2)))))))"

section \<open>Queries\<close>

definition get_target :: "store \<Rightarrow> string \<Rightarrow> target_row option" where
  "get_target s target_id = target_at s target_id"

definition list_all_targets :: "store \<Rightarrow> target_row list" where
  "list_all_targets s = sort_key g_id (exec_targets s)"

definition list_by_type :: "store \<Rightarrow> string \<Rightarrow> exn + target_row list" where
  "list_by_type s target_type =
     bindE (validate_target_type target_type) (\<lambda>_.
     Inr (sort_key g_id (filter (\<lambda>t. g_type t = target_type) (exec_targets s))))"

definition list_by_terminal :: "store \<Rightarrow> string \<Rightarrow> target_row list" where
  "list_by_terminal s terminal_id = sort_key g_id (filter (\<lambda>t. g_terminal t = Some terminal_id) (exec_targets s))"

definition health_rank :: "string \<Rightarrow> nat" where
  "health_rank health = (if health = ''healthy'' then 0 else 1)"

definition list_routing_eligible :: "store \<Rightarrow> string \<Rightarrow> string option \<Rightarrow> target_row list" where
  "list_routing_eligible s task_class terminal_id =
     filter (\<lambda>t. supports_task_class t task_class)
       (sort_key (\<lambda>t. health_rank (g_health t)) (sort_key g_id
          (filter (\<lambda>t. g_health t \<in> {''healthy'', ''degraded''} \<and> (terminal_id \<noteq> None \<longrightarrow> g_terminal t = terminal_id))
             (exec_targets s))))"

definition list_headless_targets :: "store \<Rightarrow> bool \<Rightarrow> target_row list" where
  "list_headless_targets s healthy_only =
     sort_key g_id (filter (\<lambda>t. g_type t \<in> {''headless_claude_cli'', ''headless_codex_cli''} \<and>
                                (healthy_only \<longrightarrow> g_health t \<in> {''healthy'', ''degraded''})) (exec_targets s))"


section \<open>Routing a dispatch\<close>

definition SKILL_TO_TASK_CLASS :: "(string \<times> string) list" where
  "SKILL_TO_TASK_CLASS =
     [(''backend-developer'', ''coding_interactive''), (''frontend-developer'', ''coding_interactive''),
      (''api-developer'', ''coding_interactive''), (''python-optimizer'', ''coding_interactive''),
      (''supabase-expert'', ''coding_interactive''), (''monitoring-specialist'', ''coding_interactive''),
      (''vnx-manager'', ''coding_interactive''), (''debugger'', ''coding_interactive''),
      (''test-engineer'', ''coding_interactive''), (''quality-engineer'', ''coding_interactive''),
      (''architect'', ''research_structured''), (''reviewer'', ''research_structured''),
      (''planner'', ''research_structured''), (''data-analyst'', ''research_structured''),
      (''performance-profiler'', ''research_structured''), (''security-engineer'', ''research_structured''),
      (''t0-orchestrator'', ''research_structured''), (''excel-reporter'', ''docs_synthesis''),
      (''technical-writer'', ''docs_synthesis'')]"

definition HEADLESS_ELIGIBLE_TASK_CLASSES :: "string list" where
  "HEADLESS_ELIGIBLE_TASK_CLASSES = [''research_structured'', ''docs_synthesis'']"

definition headless_routing_enabled :: "store \<Rightarrow> bool" where
  "headless_routing_enabled s = (py_strip (case env_headless s of None \<Rightarrow> ''0'' | Some v \<Rightarrow> v) = ''1'')"

record routing_decision =
  rd_dispatch :: string
  rd_task_class :: string
  rd_selected :: "target_row option"
  rd_candidates :: nat
  rd_fallback_used :: bool
  rd_fallback_reason :: "string option"
  rd_queued :: bool
  rd_escalation :: "string option"

definition decision_defaults :: "string \<Rightarrow> string \<Rightarrow> routing_decision" where
  "decision_defaults dispatch_id task_class =
     \<lparr>rd_dispatch = dispatch_id, rd_task_class = task_class, rd_selected = None, rd_candidates = 0,
      rd_fallback_used = False, rd_fallback_reason = None, rd_queued = False, rd_escalation = None\<rparr>"

definition routed :: "routing_decision \<Rightarrow> bool" where
  "routed d = (rd_selected d \<noteq> None)"

definition resolve_task_class :: "string option \<Rightarrow> string option \<Rightarrow> string" where
  "resolve_task_class skill explicit_task_class =
     (if truthy explicit_task_class \<and> the explicit_task_class \<in> set VALID_TASK_CLASSES then the explicit_task_class
      else if truthy skill
      then (case map_of SKILL_TO_TASK_CLASS (py_lower (dropWhile (\<lambda>c. c = CHR ''/'') (py_strip (the skill)))) of
              None \<Rightarrow> ''coding_interactive'' | Some task_class \<Rightarrow> task_class)
      else ''coding_interactive'')"

definition routing_metadata :: "routing_decision \<Rightarrow> (string \<times> json) list" where
  "routing_metadata d =
     [(''task_class'', JStr (rd_task_class d)), (''candidates_evaluated'', JInt (int (rd_candidates d))),
      (''fallback_used'', JBool (rd_fallback_used d))] @
     (case rd_selected d of
        Some t \<Rightarrow> if g_id t \<noteq> []
          then [(''selected_target_id'', JStr (g_id t)), (''selected_target_type'', JStr (g_type t))] else []
      | None \<Rightarrow> []) @
     (if truthy (rd_fallback_reason d) then [(''fallback_reason'', JStr (the (rd_fallback_reason d)))] else []) @
     (if truthy (rd_escalation d) then [(''escalation_reason'', JStr (the (rd_escalation d)))] else [])"

definition routing_reason :: "routing_decision \<Rightarrow> string" where
  "routing_reason d =
     ''task_class='' @ rd_task_class d @
     (case rd_selected d of Some t \<Rightarrow> '' routed to '' @ g_id t | None \<Rightarrow> '' not routed'') @
     (if truthy (rd_escalation d) then ''; '' @ the (rd_escalation d) else [])"

definition emit_routing_event :: "routing_decision \<Rightarrow> string \<Rightarrow> store \<Rightarrow> store" where
  "emit_routing_event d actor s =
     (case append_event ''routing_decision'' ''dispatch'' (rd_dispatch d) (Some ''queued'')
             (Some (if routed d then ''claimed'' else ''queued'')) actor (Some (routing_reason d))
             (Some (routing_metadata d)) None s of
        Inl _ \<Rightarrow> s
      | Inr s' \<Rightarrow> s')"

text \<open>The target, whether it is a fallback, and why.\<close>

definition select_target :: "store \<Rightarrow> string \<Rightarrow> target_row list \<Rightarrow> target_row option \<times> bool \<times> string option" where
  "select_target s task_class candidates =
     (let interactive = find is_interactive candidates; headless = find is_headless candidates
      in if task_class = ''coding_interactive'' then (interactive, False, None)
         else if task_class \<in> set HEADLESS_ELIGIBLE_TASK_CLASSES
         then (if headless_routing_enabled s
               then (if headless \<noteq> None then (headless, False, None)
                     else if interactive \<noteq> None
                     then (interactive, True, Some ''No headless target available; fell back to interactive'')
                     else (None, False, None))
               else (interactive, False, None))
         else if task_class = ''ops_watchdog''
         then (if interactive \<noteq> None then (interactive, False, None)
               else if headless_routing_enabled s \<and> headless \<noteq> None
               then (headless, True, Some ''No interactive target; fell back to headless for ops'')
               else (None, False, None))
         else (case candidates of [] \<Rightarrow> (None, False, None) | t # _ \<Rightarrow> (Some t, False, None)))"

definition no_candidates_reason :: "string \<Rightarrow> string" where
  "no_candidates_reason task_class =
     (if task_class = ''coding_interactive''
      then ''No interactive target available for coding dispatch; queued for T0 escalation''
      else if task_class = ''channel_response'' then ''Channel adapter offline; event dead-lettered''
      else ''All targets unhealthy/offline for task_class='' @ py_repr task_class @ ''; T0 escalation'')"

definition override_decision :: "store \<Rightarrow> string \<Rightarrow> string \<Rightarrow> string \<Rightarrow> routing_decision" where
  "override_decision s dispatch_id task_class target_id =
     (let d = decision_defaults dispatch_id task_class
      in case get_target s target_id of
           None \<Rightarrow> d\<lparr>rd_escalation := Some (''R-8 override target not found: '' @ py_repr target_id)\<rparr>
         | Some t \<Rightarrow>
             if \<not> is_routing_eligible t
             then d\<lparr>rd_candidates := 1, rd_escalation := Some (''R-6: override target '' @ py_repr target_id @ '' health is '' @
                     py_repr (g_health t) @ '', not routing-eligible'')\<rparr>
             else if \<not> supports_task_class t task_class
             then d\<lparr>rd_candidates := 1, rd_escalation := Some (''R-5: override target '' @ py_repr target_id @
                     '' does not declare capability '' @ py_repr task_class)\<rparr>
             else d\<lparr>rd_candidates := 1, rd_selected := Some t\<rparr>)"

definition candidate_decision :: "store \<Rightarrow> string \<Rightarrow> string \<Rightarrow> string option \<Rightarrow> routing_decision" where
  "candidate_decision s dispatch_id task_class terminal_id =
     (let d = decision_defaults dispatch_id task_class;
          candidates = list_routing_eligible s task_class terminal_id
      in if candidates = []
         then d\<lparr>rd_queued := True, rd_escalation := Some (no_candidates_reason task_class)\<rparr>
         else let (selected, fallback_used, fallback_reason) = select_target s task_class candidates;
                  d = d\<lparr>rd_selected := selected, rd_candidates := length candidates,
                        rd_fallback_used := fallback_used, rd_fallback_reason := fallback_reason\<rparr>
           in if selected = None
              then d\<lparr>rd_queued := True, rd_escalation := Some (''No suitable target after evaluating '' @
                      py_int (int (length candidates)) @ '' candidates'')\<rparr>
              else d)"

record routing_request =
  rq_dispatch :: string
  rq_task_class :: string
  rq_terminal :: "string option"
  rq_override :: "string option"
  rq_channel_origin :: "string option"

definition route_decision :: "store \<Rightarrow> routing_request \<Rightarrow> routing_decision" where
  "route_decision s q =
     (if rq_task_class q = ''channel_response'' \<and> \<not> truthy (rq_channel_origin q)
      then (decision_defaults (rq_dispatch q) (rq_task_class q))
             \<lparr>rd_escalation := Some ''R-3: channel_response dispatch has no channel_origin; must enter via inbound inbox first''\<rparr>
      else if truthy (rq_override q)
      then override_decision s (rq_dispatch q) (rq_task_class q) (the (rq_override q))
      else candidate_decision s (rq_dispatch q) (rq_task_class q) (rq_terminal q))"

definition route :: "routing_request \<Rightarrow> string \<Rightarrow> store \<Rightarrow> routing_decision \<times> store" where
  "route q actor s = (let d = route_decision s q in (d, emit_routing_event d actor s))"

section \<open>Candidates\<close>

lemma eligible_health: "h \<in> {''healthy'', ''degraded''} \<longleftrightarrow> h \<in> set ROUTING_ELIGIBLE_HEALTH"
  by (simp add: ROUTING_ELIGIBLE_HEALTH_def)

definition candidate :: "store \<Rightarrow> string \<Rightarrow> string option \<Rightarrow> target_row \<Rightarrow> bool" where
  "candidate s task_class terminal_id t =
     (t \<in> set (exec_targets s) \<and> is_routing_eligible t \<and> supports_task_class t task_class \<and>
      (terminal_id \<noteq> None \<longrightarrow> g_terminal t = terminal_id))"

lemma candidates_set: "set (list_routing_eligible s task_class terminal_id) = {t. candidate s task_class terminal_id t}"
  unfolding list_routing_eligible_def candidate_def is_routing_eligible_def eligible_health by auto

text \<open>Healthy before degraded, and by id among targets of the same health.\<close>

definition before :: "target_row \<Rightarrow> target_row \<Rightarrow> bool" where
  "before t u = (health_rank (g_health t) < health_rank (g_health u) \<or>
     health_rank (g_health t) = health_rank (g_health u) \<and> g_id t \<le> g_id u)"

lemma sorted_wrt_stable:
  assumes "sorted_wrt R xs"
  shows "sorted_wrt (\<lambda>x y. k x < k y \<or> k x = k y \<and> R x y) (sort_key (k :: 'a \<Rightarrow> nat) xs)"
proof -
  let ?ys = "sort_key k xs"
  have "?ys ! i = ?ys ! i \<and> (k (?ys ! i) < k (?ys ! j) \<or> k (?ys ! i) = k (?ys ! j) \<and> R (?ys ! i) (?ys ! j))"
    if ij: "i < j" "j < length ?ys" for i j
  proof (cases "k (?ys ! i) = k (?ys ! j)")
    case False
    have "k (?ys ! i) \<le> k (?ys ! j)"
      using sorted_nth_mono [of "map k ?ys" i j] ij by simp
    with False show ?thesis by simp
  next
    case True
    let ?p = "\<lambda>x. k x = k (?ys ! j)"
    have "sorted_wrt R (filter ?p ?ys)"
      using assms by (simp add: sort_key_stable sorted_wrt_filter)
    moreover have "?ys = take (Suc i) ?ys @ drop (Suc i) ?ys" by simp
    then have "filter ?p ?ys = filter ?p (take (Suc i) ?ys) @ filter ?p (drop (Suc i) ?ys)" by (metis filter_append)
    ultimately have "\<forall>x \<in> set (filter ?p (take (Suc i) ?ys)). \<forall>y \<in> set (filter ?p (drop (Suc i) ?ys)). R x y"
      by (simp add: sorted_wrt_append)
    moreover have "?ys ! i \<in> set (filter ?p (take (Suc i) ?ys))"
      using ij True by (auto simp: in_set_conv_nth intro: exI [of _ i])
    moreover have "?ys ! j \<in> set (filter ?p (drop (Suc i) ?ys))"
      using ij by (auto simp: in_set_conv_nth intro: exI [of _ "j - Suc i"])
    ultimately show ?thesis using True by blast
  qed
  then show ?thesis by (auto simp: sorted_wrt_iff_nth_less)
qed

lemma candidates_sorted: "sorted_wrt before (list_routing_eligible s task_class terminal_id)"
proof -
  have "sorted_wrt (\<lambda>t u. g_id t \<le> g_id u) (sort_key g_id xs)" for xs :: "target_row list"
    using sorted_sort_key [of g_id xs] by (simp add: sorted_wrt_map)
  from sorted_wrt_stable [OF this, of "\<lambda>t. health_rank (g_health t)"] show ?thesis
    unfolding list_routing_eligible_def before_def by (simp add: sorted_wrt_filter)
qed

lemma find_first: "find p xs = Some t \<Longrightarrow> sorted_wrt R xs \<Longrightarrow> t \<in> set xs \<and> p t \<and> (\<forall>u \<in> set xs. p u \<longrightarrow> u = t \<or> R t u)"
  by (induction xs) (auto split: if_splits)


section \<open>What routing promises\<close>

lemma route_decision_selected:
  assumes "rd_selected (route_decision s q) = Some t"
  shows "\<not> (rq_task_class q = ''channel_response'' \<and> \<not> truthy (rq_channel_origin q))"
    and "truthy (rq_override q) \<Longrightarrow> g_id t = the (rq_override q) \<and> candidate s (rq_task_class q) None t"
    and "\<not> truthy (rq_override q) \<Longrightarrow>
      fst (select_target s (rq_task_class q) (list_routing_eligible s (rq_task_class q) (rq_terminal q))) = Some t"
proof -
  show "\<not> (rq_task_class q = ''channel_response'' \<and> \<not> truthy (rq_channel_origin q))"
    using assms by (auto simp: route_decision_def decision_defaults_def split: if_split_asm)
  show "g_id t = the (rq_override q) \<and> candidate s (rq_task_class q) None t" if o: "truthy (rq_override q)"
    using assms o by (auto simp: route_decision_def override_decision_def decision_defaults_def get_target_def target_at_def
        candidate_def find_Some_iff Let_def split: if_split_asm option.split_asm)
  show "fst (select_target s (rq_task_class q) (list_routing_eligible s (rq_task_class q) (rq_terminal q))) = Some t"
    if "\<not> truthy (rq_override q)"
    using assms that by (auto simp: route_decision_def candidate_decision_def decision_defaults_def Let_def case_prod_beta
        split: if_split_asm)
qed

text \<open>Which kind of target a task class may run on without an override.\<close>

definition permitted :: "store \<Rightarrow> string \<Rightarrow> target_row \<Rightarrow> bool" where
  "permitted s task_class t =
     (if task_class = ''coding_interactive'' then is_interactive t
      else if task_class \<in> {''research_structured'', ''docs_synthesis'', ''ops_watchdog''}
      then is_interactive t \<or> is_headless t \<and> headless_routing_enabled s
      else True)"

text \<open>Which kind it prefers, among the candidates there are.\<close>

definition preferred :: "store \<Rightarrow> string \<Rightarrow> target_row \<Rightarrow> bool" where
  "preferred s task_class t =
     (if task_class \<in> {''research_structured'', ''docs_synthesis''}
      then (if headless_routing_enabled s then is_headless t else is_interactive t)
      else if task_class \<in> {''coding_interactive'', ''ops_watchdog''} then is_interactive t
      else True)"

lemma select_target_cases:
  "fst (select_target s c ts) =
     (case find (preferred s c) ts of Some t \<Rightarrow> Some t | None \<Rightarrow> find (permitted s c) ts)"
proof -
  consider "c = ''coding_interactive''" | "c \<in> set HEADLESS_ELIGIBLE_TASK_CLASSES" | "c = ''ops_watchdog''"
    | "c \<noteq> ''coding_interactive''" "c \<notin> set HEADLESS_ELIGIBLE_TASK_CLASSES" "c \<noteq> ''ops_watchdog''" by blast
  then show ?thesis
  proof cases
    case 1
    then have "preferred s c = is_interactive" "permitted s c = is_interactive"
      by (auto simp: preferred_def permitted_def)
    with 1 show ?thesis by (simp add: select_target_def Let_def split: option.split)
  next
    case 2
    then have c: "c \<noteq> ''coding_interactive''" "c \<in> {''research_structured'', ''docs_synthesis''}"
      by (auto simp: HEADLESS_ELIGIBLE_TASK_CLASSES_def)
    show ?thesis
    proof (cases "headless_routing_enabled s")
      case True
      with c have k: "preferred s c = is_headless" "permitted s c = (\<lambda>t. is_interactive t \<or> is_headless t)"
        by (auto simp: preferred_def permitted_def)
      have "find (\<lambda>t. is_interactive t \<or> is_headless t) ts = find is_interactive ts" if "find is_headless ts = None"
        using that by (induction ts) (auto split: if_splits)
      with 2 c k True show ?thesis by (auto simp: select_target_def Let_def split: option.split)
    next
      case False
      with c have "preferred s c = is_interactive" "permitted s c = is_interactive"
        by (auto simp: preferred_def permitted_def)
      with 2 c False show ?thesis by (simp add: select_target_def Let_def split: option.split)
    qed
  next
    case 3
    then have c: "c \<noteq> ''coding_interactive''" "c \<notin> set HEADLESS_ELIGIBLE_TASK_CLASSES"
      by (auto simp: HEADLESS_ELIGIBLE_TASK_CLASSES_def)
    have k: "preferred s c = is_interactive" "permitted s c = (\<lambda>t. is_interactive t \<or> is_headless t \<and> headless_routing_enabled s)"
      using 3 by (auto simp: preferred_def permitted_def)
    have "find (\<lambda>t. is_interactive t \<or> is_headless t \<and> headless_routing_enabled s) ts =
        (if headless_routing_enabled s then find is_headless ts else None)" if "find is_interactive ts = None"
      using that by (induction ts) (auto split: if_splits)
    with 3 c k show ?thesis by (auto simp: select_target_def Let_def split: option.split)
  next
    case 4
    then have "preferred s c = (\<lambda>_. True)" "permitted s c = (\<lambda>_. True)"
      by (auto simp: preferred_def permitted_def HEADLESS_ELIGIBLE_TASK_CLASSES_def)
    with 4 show ?thesis by (cases ts) (simp_all add: select_target_def Let_def)
  qed
qed

lemma find_implies: "find p xs = Some t \<Longrightarrow> p t \<and> t \<in> set xs"
  by (auto simp: find_Some_iff)

lemma preferred_permitted: "preferred s c t \<Longrightarrow> permitted s c t"
  by (auto simp: preferred_def permitted_def split: if_split_asm)

lemma selected_first:
  assumes "fst (select_target s c (list_routing_eligible s c tid)) = Some t"
  shows "candidate s c tid t \<and> permitted s c t \<and>
    (\<forall>u. candidate s c tid u \<and> preferred s c u \<longrightarrow> preferred s c t \<and> (u = t \<or> before t u))"
proof -
  let ?ts = "list_routing_eligible s c tid"
  show ?thesis
  proof (cases "find (preferred s c) ?ts")
    case None
    then have "\<not> preferred s c u" if "candidate s c tid u" for u
      using that candidates_set [of s c tid] by (auto simp: find_None_iff)
    moreover have "candidate s c tid t \<and> permitted s c t"
      using assms None candidates_set [of s c tid] by (auto simp: select_target_cases dest: find_implies)
    ultimately show ?thesis by blast
  next
    case (Some u)
    with assms have "u = t" by (simp add: select_target_cases)
    with find_first [OF Some candidates_sorted] candidates_set [of s c tid] preferred_permitted show ?thesis by auto
  qed
qed

text \<open>
  C16: A dispatch is only routed to a registered target that is healthy or degraded and declares the task class;
  a channel response only when it came in through the inbox. With an override it is the target named. Without one it is
  on the terminal asked for and of a kind the class permits (an interactive one for coding, a headless one only
  while headless routing is on), and it is the first, healthy before degraded, of the kind the class prefers.
\<close>

theorem routed_dispatches_obey_the_rules:
  assumes "route q actor s = (d, s')" and "rd_selected d = Some t"
  shows "t \<in> set (exec_targets s) \<and> is_routing_eligible t \<and> supports_task_class t (rq_task_class q) \<and>
    (rq_task_class q = ''channel_response'' \<longrightarrow> truthy (rq_channel_origin q)) \<and>
    (if truthy (rq_override q) then g_id t = the (rq_override q)
     else (rq_terminal q \<noteq> None \<longrightarrow> g_terminal t = rq_terminal q) \<and> permitted s (rq_task_class q) t \<and>
       (\<forall>u. candidate s (rq_task_class q) (rq_terminal q) u \<and> preferred s (rq_task_class q) u \<longrightarrow>
          preferred s (rq_task_class q) t \<and> (u = t \<or> before t u)))"
proof -
  have sel: "rd_selected (route_decision s q) = Some t"
    using assms by (auto simp: route_def Let_def)
  show ?thesis
  proof (cases "truthy (rq_override q)")
    case True
    with route_decision_selected(1,2) [OF sel] show ?thesis by (auto simp: candidate_def)
  next
    case False
    from selected_first [OF route_decision_selected(3) [OF sel False]] route_decision_selected(1) [OF sel] False
    show ?thesis unfolding candidate_def [of s "rq_task_class q" "rq_terminal q" t] by auto
  qed
qed



section \<open>What the registry keeps\<close>

text \<open>Any sequence of calls of registry and router, each with its own outcome.\<close>

datatype registry_cmd =
    Register registration string
  | Deregister string string "string option"
  | Remove string string
  | Health string string string "string option"
  | Route routing_request string
  | Tick int

fun exec_registry :: "registry_cmd \<Rightarrow> store \<Rightarrow> store" where
  "exec_registry (Register a actor) s = snd (register_target a actor s)"
| "exec_registry (Deregister tid actor reason) s = snd (deregister_target tid actor reason s)"
| "exec_registry (Remove tid actor) s = snd (remove_target tid actor s)"
| "exec_registry (Health tid health actor reason) s = snd (update_health tid health actor reason s)"
| "exec_registry (Route q actor) s = snd (route q actor s)"
| "exec_registry (Tick n) s = s\<lparr>clock := n\<rparr>"

definition run_registry :: "registry_cmd list \<Rightarrow> store \<Rightarrow> store" where
  "run_registry cmds s = fold exec_registry cmds s"

definition well_formed_target :: "target_row \<Rightarrow> bool" where
  "well_formed_target t =
     (g_type t \<in> set VALID_TARGET_TYPES \<and> g_health t \<in> set VALID_HEALTH_STATES \<and>
      set (g_capabilities t) \<subseteq> set VALID_TASK_CLASSES \<and>
      (g_type t = ''channel_adapter'' \<longrightarrow> g_terminal t = None))"

definition one_per_terminal :: "target_row list \<Rightarrow> bool" where
  "one_per_terminal rows =
     (\<forall>t \<in> set rows. \<forall>u \<in> set rows. is_routing_eligible t \<and> is_routing_eligible u \<and>
        g_terminal t \<noteq> None \<and> g_terminal t = g_terminal u \<longrightarrow> g_id t = g_id u)"

definition last_health_event :: "store \<Rightarrow> string \<Rightarrow> event_row option" where
  "last_health_event s target_id =
     find (\<lambda>e. e_entity_type e = ''execution_target'' \<and> e_entity e = target_id) (rev (events s))"

definition SEEDED_TARGET_IDS :: "string list" where
  "SEEDED_TARGET_IDS = [''interactive_tmux_claude_T1'', ''interactive_tmux_claude_T2'', ''interactive_tmux_claude_T3'']"

definition seeded_health :: "string \<Rightarrow> string option" where
  "seeded_health target_id = (if target_id \<in> set SEEDED_TARGET_IDS then Some ''offline'' else None)"

definition trail_tells_health :: "store \<Rightarrow> bool" where
  "trail_tells_health s =
     (\<forall>target_id. map_option g_health (target_at s target_id) =
        (case last_health_event s target_id of None \<Rightarrow> seeded_health target_id | Some e \<Rightarrow> e_to e))"

definition registry_inv :: "store \<Rightarrow> bool" where
  "registry_inv s =
     (distinct (map g_id (exec_targets s)) \<and> list_all well_formed_target (exec_targets s) \<and>
      one_per_terminal (exec_targets s) \<and> trail_tells_health s)"

text \<open>What one call does to the table and the trail: it changes the row of one target and logs its new health.\<close>

definition put_target :: "string \<Rightarrow> target_row option \<Rightarrow> store \<Rightarrow> store \<Rightarrow> bool" where
  "put_target target_id new s s' =
     (map g_id (exec_targets s') = (if target_at s target_id = None \<and> new \<noteq> None then map g_id (exec_targets s) @ [target_id]
        else if new = None then filter (\<lambda>i. i \<noteq> target_id) (map g_id (exec_targets s)) else map g_id (exec_targets s)) \<and>
      (\<forall>t \<in> set (exec_targets s'). if g_id t = target_id then new = Some t else t \<in> set (exec_targets s)) \<and>
      (\<exists>e. events s' = events s @ [e] \<and> e_entity_type e = ''execution_target'' \<and> e_entity e = target_id \<and>
           e_to e = map_option g_health new))"

lemma target_at_log [simp]: "target_at (log_event e s) tid = target_at s tid"
  by (simp add: target_at_def log_event_def)

lemma exec_targets_log [simp]: "exec_targets (log_event e s) = exec_targets s"
  by (simp add: log_event_def)

lemma events_log: "events (log_event e s) = events s @ [e]"
  by (simp add: log_event_def)

lemma target_at_mem: "target_at s tid = Some t \<Longrightarrow> t \<in> set (exec_targets s) \<and> g_id t = tid"
  by (auto simp: target_at_def find_Some_iff)

lemma target_at_None: "target_at s tid = None \<longleftrightarrow> (\<forall>t \<in> set (exec_targets s). g_id t \<noteq> tid)"
  by (auto simp: target_at_def find_None_iff)

lemma target_at_iff: "distinct (map g_id (exec_targets s)) \<Longrightarrow> target_at s tid = Some t \<longleftrightarrow> t \<in> set (exec_targets s) \<and> g_id t = tid"
proof -
  assume d: "distinct (map g_id (exec_targets s))"
  have "find (\<lambda>t. g_id t = tid) rows = Some t \<longleftrightarrow> t \<in> set rows \<and> g_id t = tid" if "distinct (map g_id rows)" for rows
    using that by (induction rows) auto
  with d show ?thesis by (simp add: target_at_def)
qed

lemma put_keeps_inv:
  assumes inv: "registry_inv s" and put: "put_target tid new s s'"
    and new: "\<And>t. new = Some t \<Longrightarrow> g_id t = tid \<and> well_formed_target t \<and> target_at s' tid = Some t"
    and free: "\<And>t u. new = Some t \<Longrightarrow> is_routing_eligible t \<Longrightarrow> g_terminal t \<noteq> None \<Longrightarrow> u \<in> set (exec_targets s) \<Longrightarrow>
      is_routing_eligible u \<Longrightarrow> g_terminal u = g_terminal t \<Longrightarrow> g_id u = tid"
  shows "registry_inv s'"
proof -
  have rows: "\<And>t. t \<in> set (exec_targets s') \<Longrightarrow> if g_id t = tid then new = Some t else t \<in> set (exec_targets s)"
    using put by (auto simp: put_target_def)
  have ids: "distinct (map g_id (exec_targets s'))"
  proof -
    have d: "distinct (map g_id (exec_targets s))" using inv by (simp add: registry_inv_def)
    have m: "map g_id (exec_targets s') = (if target_at s tid = None \<and> new \<noteq> None then map g_id (exec_targets s) @ [tid]
        else if new = None then filter (\<lambda>i. i \<noteq> tid) (map g_id (exec_targets s)) else map g_id (exec_targets s))"
      using put by (simp only: put_target_def)
    have "tid \<notin> set (map g_id (exec_targets s))" if "target_at s tid = None" using that by (auto simp: target_at_None)
    with d show ?thesis unfolding m by (simp add: distinct_filter)
  qed
  have wf: "list_all well_formed_target (exec_targets s')"
    unfolding list_all_iff
  proof
    fix t
    assume t: "t \<in> set (exec_targets s')"
    show "well_formed_target t"
    proof (cases "g_id t = tid")
      case True
      with rows [OF t] new [of t] show ?thesis by simp
    next
      case False
      with rows [OF t] inv show ?thesis by (simp add: registry_inv_def list_all_iff)
    qed
  qed
  have one: "one_per_terminal (exec_targets s')"
    unfolding one_per_terminal_def
  proof (intro ballI impI)
    fix t u
    assume tu: "t \<in> set (exec_targets s')" "u \<in> set (exec_targets s')"
      and e: "is_routing_eligible t \<and> is_routing_eligible u \<and> g_terminal t \<noteq> None \<and> g_terminal t = g_terminal u"
    from e have el: "is_routing_eligible t" "is_routing_eligible u" "g_terminal t \<noteq> None" "g_terminal u \<noteq> None"
      "g_terminal u = g_terminal t" "g_terminal t = g_terminal u" by metis+
    consider "g_id t = tid" "g_id u = tid" | "g_id t = tid" "g_id u \<noteq> tid" | "g_id t \<noteq> tid" "g_id u = tid"
      | "g_id t \<noteq> tid" "g_id u \<noteq> tid" by blast
    then show "g_id t = g_id u"
    proof cases
      case 2
      have "new = Some t" "u \<in> set (exec_targets s)" using rows [OF tu(1)] rows [OF tu(2)] 2 by simp_all
      from free [OF this(1) el(1,3) this(2) el(2,5)] 2 show ?thesis by simp
    next
      case 3
      have "new = Some u" "t \<in> set (exec_targets s)" using rows [OF tu(1)] rows [OF tu(2)] 3 by simp_all
      from free [OF this(1) el(2,4) this(2) el(1,6)] 3 show ?thesis by simp
    next
      case 4
      have "t \<in> set (exec_targets s)" "u \<in> set (exec_targets s)" using rows [OF tu(1)] rows [OF tu(2)] 4 by simp_all
      with e inv show ?thesis unfolding registry_inv_def one_per_terminal_def by blast
    qed simp
  qed
  have "map_option g_health (target_at s' i) =
      (case last_health_event s' i of None \<Rightarrow> seeded_health i | Some e \<Rightarrow> e_to e)" for i
  proof -
    from put obtain e where e: "events s' = events s @ [e]" "e_entity_type e = ''execution_target''" "e_entity e = tid"
      "e_to e = map_option g_health new" by (auto simp: put_target_def)
    show ?thesis
    proof (cases "i = tid")
      case True
      then have last: "last_health_event s' i = Some e" by (simp add: last_health_event_def e)
      have "target_at s' tid = new"
      proof (cases new)
        case None
        have "g_id t \<noteq> tid" if "t \<in> set (exec_targets s')" for t using rows [OF that] None by auto
        with None show ?thesis by (simp add: target_at_None)
      qed (use new in blast)
      then show ?thesis by (simp add: True last [unfolded True] e)
    next
      case False
      then have last: "last_health_event s' i = last_health_event s i" by (simp add: last_health_event_def e)
      have "target_at s' i = target_at s i"
      proof -
        have "t \<in> set (exec_targets s')" if "t \<in> set (exec_targets s)" "g_id t = i" for t
        proof -
          have "g_id t \<in> set (map g_id (exec_targets s'))"
            using put that False by (auto simp: put_target_def)
          with that(2) obtain t' where t': "t' \<in> set (exec_targets s')" "g_id t' = i" by auto
          with rows [OF t'(1)] False have "t' \<in> set (exec_targets s)" by simp
          with t'(2) that inv have "t' = t" by (auto simp: registry_inv_def distinct_map inj_on_def)
          with t' show ?thesis by simp
        qed
        moreover have "t \<in> set (exec_targets s)" if "t \<in> set (exec_targets s')" "g_id t = i" for t
          using rows [OF that(1)] that False by simp
        ultimately have "target_at s' i = Some t \<longleftrightarrow> target_at s i = Some t" for t
          using ids inv by (auto simp: target_at_iff registry_inv_def)
        then show ?thesis by (metis option.exhaust)
      qed
      with last inv show ?thesis by (simp add: registry_inv_def trail_tells_health_def)
    qed
  qed
  with ids wf one show ?thesis by (simp add: registry_inv_def trail_tells_health_def)
qed

lemma require_free_eq_Inr:
  "require_free s terminal target_id blocking = Inr x \<longleftrightarrow>
     (\<forall>u \<in> set (exec_targets s). terminal \<noteq> None \<and> g_terminal u = terminal \<and> blocking (g_health u) \<longrightarrow> g_id u = target_id)"
  by (cases terminal) (auto simp: require_free_def terminal_occupant_def find_None_iff find_Some_iff split: option.split)

lemma require_target_eq_Inr: "require_target s tid = Inr t \<longleftrightarrow> target_at s tid = Some t"
  by (simp add: require_target_def split: option.split)

lemma validate_capabilities_eq_Inr: "validate_capabilities caps = Inr u \<longleftrightarrow> set caps \<subseteq> set VALID_TASK_CLASSES"
  by (induction caps) (auto simp: bindE_eq_Inr guardE_def)

lemma validate_registration_eq_Inr:
  "validate_registration a = Inr u \<longleftrightarrow>
     rg_type a \<in> set VALID_TARGET_TYPES \<and> rg_health a \<in> set VALID_HEALTH_STATES \<and>
     set (registered_capabilities a) \<subseteq> set VALID_TASK_CLASSES \<and> \<not> (rg_type a = ''channel_adapter'' \<and> rg_terminal a \<noteq> None)"
  by (auto simp: validate_registration_def validate_target_type_def validate_health_def validate_capabilities_eq_Inr
      bindE_eq_Inr guardE_def)

lemma put_update:
  assumes "distinct (map g_id (exec_targets s))" and "target_at s tid = Some t"
    and "\<And>t. g_id (f t) = g_id t" and "e_entity_type e = ''execution_target''" and "e_entity e = tid" and "e_to e = Some (g_health (f t))"
  shows "put_target tid (Some (f t)) s (log_event e (update_target tid f s))"
    and "target_at (log_event e (update_target tid f s)) tid = Some (f t)"
proof -
  have ids: "map g_id (update_where (\<lambda>t. g_id t = tid) f rows) = map g_id rows" for rows
    using assms(3) by (induction rows) auto
  have mem: "u \<in> set (update_where (\<lambda>t. g_id t = tid) f rows) \<longleftrightarrow>
      (\<exists>v \<in> set rows. u = (if g_id v = tid then f v else v))" for u rows
    unfolding update_where_def set_map by blast
  have t: "v = t" if "v \<in> set (exec_targets s)" "g_id v = tid" for v
    using target_at_iff [OF assms(1), of tid v] that assms(2) by simp
  show "put_target tid (Some (f t)) s (log_event e (update_target tid f s))"
    unfolding put_target_def
  proof (intro conjI ballI)
    fix u
    assume "u \<in> set (exec_targets (log_event e (update_target tid f s)))"
    then obtain v where v: "v \<in> set (exec_targets s)" "u = (if g_id v = tid then f v else v)"
      by (auto simp: update_target_def mem)
    then show "if g_id u = tid then Some (f t) = Some u else u \<in> set (exec_targets s)"
      using t [OF v(1)] assms(3) [of v] by (cases "g_id v = tid") simp_all
  qed (use assms in \<open>auto simp: update_target_def ids events_log\<close>)
  show "target_at (log_event e (update_target tid f s)) tid = Some (f t)"
  proof -
    have "find (\<lambda>t. g_id t = tid) (update_where (\<lambda>t. g_id t = tid) f rows) = map_option f (find (\<lambda>t. g_id t = tid) rows)" for rows
      using assms(3) by (induction rows) auto
    with assms(2) show ?thesis by (simp add: target_at_def update_target_def)
  qed
qed

lemma mk_event_sel [simp]:
  "e_entity_type (mk_event s ty et ei f t a r md p) = et" "e_entity (mk_event s ty et ei f t a r md p) = ei"
  "e_to (mk_event s ty et ei f t a r md p) = t"
  by (simp_all add: mk_event_def)

lemma register_keeps_inv:
  assumes inv: "registry_inv s"
  shows "registry_inv (snd (register_target a actor s))"
proof -
  obtain r s' where run: "register_target a actor s = (r, s')" by (metis prod.exhaust)
  show ?thesis
  proof (cases r)
    case (Inl e)
    with run have "s' = s" by (simp add: register_target_def commit_eq_Inl)
    with inv run show ?thesis by simp
  next
    case (Inr x)
    note run = run [unfolded this]
    from run obtain pid e where ok: "validate_registration a = Inr ()" "target_at s (rg_id a) = None"
      and free: "rg_health a \<noteq> ''offline'' \<Longrightarrow> require_free s (rg_terminal a) (rg_id a) (\<lambda>h. h \<noteq> ''offline'') = Inr ()"
      and s': "s' = log_event e (s\<lparr>exec_targets := exec_targets s @ [(new_target_row a (clock s))\<lparr>g_project := pid\<rparr>]\<rparr>)"
        "e_entity_type e = ''execution_target''" "e_entity e = rg_id a" "e_to e = Some (rg_health a)"
      by (auto simp: register_target_def commit_eq_Inr bindE_eq_Inr guardE_def insert_target_row_def append_event_eq_Inr
          split: if_split_asm)
    define t where "t = (new_target_row a (clock s))\<lparr>g_project := pid\<rparr>"
    have t: "g_id t = rg_id a" "g_health t = rg_health a" "g_terminal t = rg_terminal a" "well_formed_target t"
      using ok(1) by (auto simp: t_def new_target_row_def well_formed_target_def validate_registration_eq_Inr)
    have "registry_inv s'"
    proof (rule put_keeps_inv [OF inv])
      show "put_target (rg_id a) (Some t) s s'"
        using ok(2) s'(2-4) t by (auto simp: put_target_def s'(1) t_def [symmetric] events_log target_at_None)
      show "g_id u = rg_id a \<and> well_formed_target u \<and> target_at s' (rg_id a) = Some u" if "Some t = Some u" for u
      proof -
        have "find p (rows @ [t]) = Some t" if "find p rows = None" "p t" for p rows
          using that by (induction rows) (auto split: if_split_asm)
        with ok(2) t that show ?thesis by (simp add: s'(1) t_def [symmetric] target_at_def)
      qed
      show "g_id v = rg_id a" if "Some t = Some u" "is_routing_eligible u" "g_terminal u \<noteq> None" "v \<in> set (exec_targets s)"
        "is_routing_eligible v" "g_terminal v = g_terminal u" for u v
      proof -
        have "u = t" using that(1) by simp
        moreover have "rg_health a \<noteq> ''offline''" "g_health v \<noteq> ''offline''"
          using that(2,5) t(2) \<open>u = t\<close> by (auto simp: is_routing_eligible_def ROUTING_ELIGIBLE_HEALTH_def)
        ultimately show ?thesis
          using free that(3,4,6) t(3) by (auto simp: require_free_eq_Inr)
      qed
    qed
    with run show ?thesis by simp
  qed
qed

lemma health_keeps_inv:
  assumes inv: "registry_inv s"
  shows "registry_inv (snd (update_health tid health actor reason s))"
proof -
  have ids: "distinct (map g_id (exec_targets s))" using inv by (simp add: registry_inv_def)
  obtain r s' where run: "update_health tid health actor reason s = (r, s')" by (metis prod.exhaust)
  show ?thesis
  proof (cases r)
    case (Inl e)
    with run have "s' = s" by (simp add: update_health_def commit_eq_Inl)
    with inv run show ?thesis by simp
  next
    case (Inr x)
    note run = run [unfolded this]
    let ?f = "\<lambda>t. t\<lparr>g_health := health, g_health_checked_at := Some (clock s), g_updated_at := clock s\<rparr>"
    from run obtain t e where ok: "health \<in> set VALID_HEALTH_STATES" "target_at s tid = Some t"
      and free: "check_terminal s t health = Inr ()"
      and s': "s' = log_event e (update_target tid ?f s)"
        "e_entity_type e = ''execution_target''" "e_entity e = tid" "e_to e = Some health"
      by (auto simp: update_health_def commit_eq_Inr bindE_eq_Inr validate_health_def guardE_def append_event_eq_Inr
          require_target_eq_Inr split: if_split_asm)
    have t: "t \<in> set (exec_targets s)" "g_id t = tid" using ok(2) target_at_mem by auto
    have put: "put_target tid (Some (?f t)) s s'" "target_at s' tid = Some (?f t)"
      unfolding s'(1) using put_update [OF ids ok(2), of ?f e] s'(2-4) by simp_all
    have "registry_inv s'"
    proof (rule put_keeps_inv [OF inv put(1)])
      show "g_id u = tid \<and> well_formed_target u \<and> target_at s' tid = Some u" if "Some (?f t) = Some u" for u
      proof -
        have "u = ?f t" using that by simp
        moreover have "well_formed_target t" using inv t by (simp add: registry_inv_def list_all_iff)
        ultimately show ?thesis using put(2) t ok(1) by (simp add: well_formed_target_def)
      qed
      show "g_id v = tid" if "Some (?f t) = Some u" "is_routing_eligible u" "g_terminal u \<noteq> None" "v \<in> set (exec_targets s)"
        "is_routing_eligible v" "g_terminal v = g_terminal u" for u v
      proof (cases "is_routing_eligible t")
        case True
        have "one_per_terminal (exec_targets s)" using inv by (simp add: registry_inv_def)
        moreover have "g_terminal u = g_terminal t" using that(1) by auto
        ultimately show ?thesis using True t that(3-6) unfolding one_per_terminal_def by metis
      next
        case False
        have "health \<in> set ROUTING_ELIGIBLE_HEALTH" "g_terminal u = g_terminal t"
          using that(1,2) by (auto simp: is_routing_eligible_def)
        with free False have "require_free s (g_terminal t) (g_id t) (\<lambda>h. h \<in> {''healthy'', ''degraded''}) = Inr ()"
          by (simp add: check_terminal_def is_routing_eligible_def)
        moreover have "g_health v \<in> {''healthy'', ''degraded''}" "g_terminal v = g_terminal t" "g_terminal t \<noteq> None"
          using that(3,5,6) \<open>g_terminal u = g_terminal t\<close> by (simp_all add: is_routing_eligible_def ROUTING_ELIGIBLE_HEALTH_def)
        ultimately have "g_id v = g_id t" using that(4) unfolding require_free_eq_Inr by blast
        with t show ?thesis by simp
      qed
    qed
    with run show ?thesis by simp
  qed
qed

lemma deregister_keeps_inv:
  assumes inv: "registry_inv s"
  shows "registry_inv (snd (deregister_target tid actor reason s))"
proof -
  have ids: "distinct (map g_id (exec_targets s))" using inv by (simp add: registry_inv_def)
  obtain r s' where run: "deregister_target tid actor reason s = (r, s')" by (metis prod.exhaust)
  show ?thesis
  proof (cases r)
    case (Inl e)
    with run have "s' = s" by (simp add: deregister_target_def commit_eq_Inl)
    with inv run show ?thesis by simp
  next
    case (Inr x)
    note run = run [unfolded this]
    let ?f = "\<lambda>t. t\<lparr>g_health := ''offline'', g_updated_at := clock s\<rparr>"
    from run obtain t e where ok: "target_at s tid = Some t"
      and s': "s' = log_event e (update_target tid ?f s)"
        "e_entity_type e = ''execution_target''" "e_entity e = tid" "e_to e = Some ''offline''"
      by (auto simp: deregister_target_def commit_eq_Inr bindE_eq_Inr append_event_eq_Inr require_target_eq_Inr)
    have t: "t \<in> set (exec_targets s)" "g_id t = tid" using ok target_at_mem by auto
    have put: "put_target tid (Some (?f t)) s s'" "target_at s' tid = Some (?f t)"
      unfolding s'(1) using put_update [OF ids ok, of ?f e] s'(2-4) by simp_all
    have "registry_inv s'"
    proof (rule put_keeps_inv [OF inv put(1)])
      show "g_id u = tid \<and> well_formed_target u \<and> target_at s' tid = Some u" if "Some (?f t) = Some u" for u
      proof -
        have "u = ?f t" using that by simp
        moreover have "well_formed_target t" using inv t by (simp add: registry_inv_def list_all_iff)
        ultimately show ?thesis using put(2) t by (simp add: well_formed_target_def VALID_HEALTH_STATES_def)
      qed
    qed (auto simp: is_routing_eligible_def ROUTING_ELIGIBLE_HEALTH_def)
    with run show ?thesis by simp
  qed
qed

lemma remove_keeps_inv:
  assumes inv: "registry_inv s"
  shows "registry_inv (snd (remove_target tid actor s))"
proof -
  obtain r s' where run: "remove_target tid actor s = (r, s')" by (metis prod.exhaust)
  show ?thesis
  proof (cases r)
    case (Inl e)
    with run have "s' = s" by (simp add: remove_target_def commit_eq_Inl)
    with inv run show ?thesis by simp
  next
    case (Inr x)
    note run = run [unfolded this]
    from run obtain t e where ok: "target_at s tid = Some t"
      and s': "s' = log_event e (s\<lparr>exec_targets := filter (\<lambda>t. g_id t \<noteq> tid) (exec_targets s)\<rparr>)"
        "e_entity_type e = ''execution_target''" "e_entity e = tid" "e_to e = None"
      by (auto simp: remove_target_def commit_eq_Inr bindE_eq_Inr append_event_eq_Inr require_target_eq_Inr)
    have "registry_inv s'"
    proof (rule put_keeps_inv [OF inv])
      show "put_target tid None s s'"
        using s'(2-4) ok by (auto simp: put_target_def s'(1) events_log filter_map comp_def)
    qed simp_all
    with run show ?thesis by simp
  qed
qed

lemma emit_routing_event_cases:
  "emit_routing_event d actor s = s \<or> (\<exists>e. emit_routing_event d actor s = log_event e s \<and> e_entity_type e = ''dispatch'')"
proof (cases "event_project s None")
  case (Inl e)
  then show ?thesis by (simp add: emit_routing_event_def append_event_def)
next
  case (Inr pid)
  then have "emit_routing_event d actor s =
      log_event (mk_event s ''routing_decision'' ''dispatch'' (rd_dispatch d) (Some ''queued'')
        (Some (if routed d then ''claimed'' else ''queued'')) actor (Some (routing_reason d)) (Some (routing_metadata d)) pid) s"
    unfolding emit_routing_event_def append_event_def by (simp only: bindE_Inr sum.case)
  then show ?thesis using mk_event_sel(1) by blast
qed

lemma route_keeps_inv:
  assumes "registry_inv s"
  shows "registry_inv (snd (route q actor s))"
  using emit_routing_event_cases [of "route_decision s q" actor s]
proof
  assume "\<exists>e. emit_routing_event (route_decision s q) actor s = log_event e s \<and> e_entity_type e = ''dispatch''"
  then obtain e where e: "emit_routing_event (route_decision s q) actor s = log_event e s" "e_entity_type e = ''dispatch''" by blast
  then have "last_health_event (log_event e s) i = last_health_event s i" for i
    by (simp add: last_health_event_def events_log)
  with assms e(1) show ?thesis by (simp add: route_def Let_def registry_inv_def trail_tells_health_def)
qed (use assms in \<open>simp add: route_def Let_def\<close>)

lemma registry_inv_exec: "registry_inv s \<Longrightarrow> registry_inv (exec_registry c s)"
proof (cases c)
  case (Tick n)
  moreover assume "registry_inv s"
  ultimately show ?thesis
    by (simp add: registry_inv_def trail_tells_health_def target_at_def last_health_event_def)
qed (simp_all add: register_keeps_inv deregister_keeps_inv remove_keeps_inv health_keeps_inv route_keeps_inv)

lemma registry_inv_run: "registry_inv s \<Longrightarrow> registry_inv (run_registry cmds s)"
  unfolding run_registry_def by (induction cmds arbitrary: s) (simp_all add: registry_inv_exec)

lemma registry_inv_empty: "registry_inv (empty_store tables project now)"
proof -
  let ?s = "empty_store tables project now"
  have rows: "exec_targets ?s = SEED_TARGETS (if ''execution_targets'' \<in> set tables then Some DEFAULT_PROJECT else None) now"
    "events ?s = []"
    by (simp_all add: empty_store_def)
  have "\<not> is_routing_eligible t" if "t \<in> set (exec_targets ?s)" for t
    using that by (auto simp: rows SEED_TARGETS_def is_routing_eligible_def ROUTING_ELIGIBLE_HEALTH_def)
  then have "one_per_terminal (exec_targets ?s)" by (auto simp: one_per_terminal_def)
  moreover have "trail_tells_health ?s"
    by (auto simp: trail_tells_health_def target_at_def last_health_event_def rows SEED_TARGETS_def seeded_health_def
        SEEDED_TARGET_IDS_def)
  moreover have "distinct (map g_id (exec_targets ?s))" "list_all well_formed_target (exec_targets ?s)"
    by (simp_all add: rows SEED_TARGETS_def well_formed_target_def VALID_TARGET_TYPES_def VALID_HEALTH_STATES_def
        VALID_TASK_CLASSES_def)
  ultimately show ?thesis by (simp add: registry_inv_def)
qed

text \<open>
  C18: Whatever calls the registry and the router have received since the store was created, in any order and accepted or
  refused: target ids are unique, every row has a known type, health and capabilities, a channel
  adapter occupies no terminal, and no terminal has two targets that routing may pick.
\<close>

theorem registry_stays_consistent:
  "let rows = exec_targets (run_registry cmds (empty_store tables project now))
   in distinct (map g_id rows) \<and> list_all well_formed_target rows \<and> one_per_terminal rows"
  using registry_inv_run [OF registry_inv_empty, of cmds tables project now] by (simp add: registry_inv_def Let_def)

text \<open>
  C19: The schema's seed rows and the event log alone tell the health of every target: after any calls on a database
  just created, the last event about a target names the health its row has, or reports its removal and there is no row;
  a target without events is one of the three the schema seeds, still offline as seeded, or has no row.
\<close>

theorem event_log_tells_target_health:
  "map_option g_health (target_at (run_registry cmds (empty_store tables project now)) target_id) =
   (case last_health_event (run_registry cmds (empty_store tables project now)) target_id of
      Some e \<Rightarrow> e_to e
    | None \<Rightarrow> if target_id \<in> set SEEDED_TARGET_IDS then Some ''offline'' else None)"
  using registry_inv_run [OF registry_inv_empty, of cmds tables project now]
  by (simp add: registry_inv_def trail_tells_health_def seeded_health_def split: option.splits)


section \<open>Examples\<close>

definition demo_registration :: "string \<Rightarrow> string \<Rightarrow> string option \<Rightarrow> string \<Rightarrow> registration" where
  "demo_registration i ty terminal health =
     \<lparr>rg_id = i, rg_type = ty, rg_terminal = terminal, rg_capabilities = Some [''coding_interactive'', ''research_structured''],
      rg_health = health, rg_model = None, rg_metadata = None\<rparr>"

definition demo_registry :: store where
  "demo_registry = run_registry
     [Register (demo_registration ''headless'' ''headless_claude_cli'' None ''healthy'') ''op'',
      Register (demo_registration ''tmux1'' ''interactive_tmux_claude'' (Some ''T1'') ''degraded'') ''op'',
      Register (demo_registration ''tmux2'' ''interactive_tmux_codex'' (Some ''T2'') ''healthy'') ''op'']
     (empty_store [] (Some ''vnx-dev'') 7)"

definition demo_request :: routing_request where
  "demo_request = \<lparr>rq_dispatch = ''d1'', rq_task_class = ''coding_interactive'', rq_terminal = None, rq_override = None,
     rq_channel_origin = None\<rparr>"

lemma routed_dispatches_obey_the_rules_witness:
  "\<exists>t. rd_selected (fst (route demo_request ''router'' demo_registry)) = Some t \<and> g_id t = ''tmux2'' \<and>
     is_routing_eligible t \<and> permitted demo_registry ''coding_interactive'' t"
proof -
  have "map_option g_id (rd_selected (fst (route demo_request ''router'' demo_registry))) = Some ''tmux2''" by code_simp
  then obtain t where t: "rd_selected (fst (route demo_request ''router'' demo_registry)) = Some t" "g_id t = ''tmux2''" by auto
  have "rq_override demo_request = None" "rq_task_class demo_request = ''coding_interactive''" by (simp_all add: demo_request_def)
  with routed_dispatches_obey_the_rules [OF prod.collapse [symmetric] t(1)] t show ?thesis by auto
qed


text \<open>
  The rule of one active target per terminal is checked against targets that are not offline when one is registered but only
  against eligible ones when its health changes: two targets of a terminal can both be other than offline.
\<close>

lemma two_targets_not_offline:
  "map (\<lambda>t. (g_id t, g_health t)) (filter (\<lambda>t. g_terminal t = Some ''T1'' \<and> g_health t \<noteq> ''offline'') (exec_targets (run_registry
     [Register (demo_registration ''a'' ''interactive_tmux_claude'' (Some ''T1'') ''healthy'') ''op'',
      Register (demo_registration ''b'' ''interactive_tmux_codex'' (Some ''T1'') ''offline'') ''op'',
      Health ''a'' ''unhealthy'' ''op'' None, Health ''b'' ''healthy'' ''op'' None]
     (empty_store [] (Some ''vnx-dev'') 7)))) = [(''a'', ''unhealthy''), (''b'', ''healthy'')]"
  by code_simp

end
