(* ===== verification/Governance.thy ===== *)
theory Governance
  imports Coordination_DB
begin

text \<open>
  Who may do what: \<^verbatim>\<open>scripts/lib/governance_evaluator.py\<close>, the policy matrix over decision types, and
  \<^verbatim>\<open>scripts/lib/governance_escalation.py\<close>, the attention level of an entity with its overrides.

  The operations run on a connection of their caller and raise after they have written; what such a
  call has written stays on the connection until the caller commits or rolls back. So an operation returns its outcome and the
  store of the open connection in both cases. The JSON log beside the database, whose failures the code swallows, is left out.
\<close>

type_synonym 'a act = "(exn + 'a) \<times> store"

text \<open>A write of the event log on the open connection.\<close>

definition log_act ::
  "string \<Rightarrow> string \<Rightarrow> string \<Rightarrow> string option \<Rightarrow> string option \<Rightarrow> string \<Rightarrow> string option \<Rightarrow> (string \<times> json) list \<Rightarrow>
   store \<Rightarrow> unit act" where
  "log_act event_type entity_type entity_id from_state to_state actor reason metadata s =
     (case append_event event_type entity_type entity_id from_state to_state actor reason (Some metadata) None s of
        Inl e \<Rightarrow> (Inl e, s)
      | Inr s' \<Rightarrow> (Inr (), s'))"

fun json_int_opt :: "int option \<Rightarrow> json" where
  "json_int_opt None = JNull"
| "json_int_opt (Some n) = JInt n"

section \<open>Levels and authority\<close>

definition ESCALATION_SEVERITY :: "(string \<times> nat) list" where
  "ESCALATION_SEVERITY = [(''info'', 0), (''review_required'', 1), (''hold'', 2), (''escalate'', 3)]"

definition ESCALATION_LEVELS :: "string list" where
  "ESCALATION_LEVELS = [''info'', ''review_required'', ''hold'', ''escalate'']"

definition GATE_ACTORS :: "string list" where
  "GATE_ACTORS = [''t0'', ''operator'']"

definition DE_ESCALATION_AUTHORITY :: "(string \<times> string list) list" where
  "DE_ESCALATION_AUTHORITY = [(''hold'', [''t0'', ''operator'']), (''escalate'', [''t0''])]"

definition OVERRIDE_TYPES :: "string list" where
  "OVERRIDE_TYPES =
     [''gate_bypass'', ''invariant_override'', ''dispatch_force_promote'', ''dead_letter_override'', ''hold_release'',
      ''escalation_resolve'']"

definition severity_of :: "string \<Rightarrow> nat" where
  "severity_of level = (case map_of ESCALATION_SEVERITY level of None \<Rightarrow> 0 | Some n \<Rightarrow> n)"

definition authority_for :: "string \<Rightarrow> string list" where
  "authority_for level = (case map_of DE_ESCALATION_AUTHORITY level of None \<Rightarrow> GATE_ACTORS | Some actors \<Rightarrow> actors)"

section \<open>Escalation\<close>

definition get_escalation_state :: "store \<Rightarrow> string \<Rightarrow> string \<Rightarrow> level_row option" where
  "get_escalation_state s entity_type entity_id =
     find (\<lambda>v. v_entity_type v = entity_type \<and> v_entity v = entity_id) (levels s)"

definition get_escalation_level :: "store \<Rightarrow> string \<Rightarrow> string \<Rightarrow> string" where
  "get_escalation_level s entity_type entity_id =
     (case get_escalation_state s entity_type entity_id of None \<Rightarrow> ''info'' | Some v \<Rightarrow> v_level v)"

definition validate_escalation_transition :: "string \<Rightarrow> string \<Rightarrow> string \<Rightarrow> exn + unit" where
  "validate_escalation_transition actor current_level new_level =
     (case map_of ESCALATION_SEVERITY current_level of
        None \<Rightarrow> Inl (KeyError current_level)
      | Some current_severity \<Rightarrow>
          (case map_of ESCALATION_SEVERITY new_level of
             None \<Rightarrow> Inl (KeyError new_level)
           | Some new_severity \<Rightarrow>
               bindE (guardE (\<not> (actor \<notin> set GATE_ACTORS \<and> new_severity < current_severity))
                        (InvalidEscalationTransition actor current_level new_level)) (\<lambda>_.
               guardE (new_severity < current_severity \<longrightarrow> actor \<in> set (authority_for current_level))
                 (InvalidEscalationTransition actor current_level new_level))))"

text \<open>What the caller says of a transition.\<close>

record escalation_note =
  en_category :: "string option"
  en_description :: "string option"
  en_policy_class :: "string option"
  en_decision_type :: "string option"
  en_retry_count :: "int option"
  en_budget_remaining :: "int option"

definition new_level_row :: "string \<Rightarrow> string \<Rightarrow> string \<Rightarrow> escalation_note \<Rightarrow> int \<Rightarrow> level_row" where
  "new_level_row entity_type entity_id new_level note now =
     \<lparr>v_entity_type = entity_type, v_entity = entity_id, v_level = new_level, v_category = en_category note,
      v_description = en_description note, v_policy_class = en_policy_class note,
      v_decision_type = en_decision_type note, v_retry_count = en_retry_count note,
      v_budget_remaining = en_budget_remaining note, v_escalated_at = now, v_updated_at = now,
      v_resolved_at = None, v_resolved_by = None\<rparr>"

definition upsert_escalation_state ::
  "string \<Rightarrow> string \<Rightarrow> string \<Rightarrow> string \<Rightarrow> escalation_note \<Rightarrow> bool \<Rightarrow> store \<Rightarrow> store" where
  "upsert_escalation_state entity_type entity_id new_level actor note exists s =
     (let now = clock s
      in if exists
         then s\<lparr>levels := update_where (\<lambda>v. v_entity_type v = entity_type \<and> v_entity v = entity_id)
                (\<lambda>v. v\<lparr>v_level := new_level, v_category := en_category note, v_description := en_description note,
                      v_policy_class := en_policy_class note, v_decision_type := en_decision_type note,
                      v_retry_count := en_retry_count note, v_budget_remaining := en_budget_remaining note,
                      v_updated_at := now,
                      v_resolved_at := (if new_level = ''info'' then Some now else v_resolved_at v),
                      v_resolved_by := (if new_level = ''info'' then Some actor else v_resolved_by v)\<rparr>) (levels s)\<rparr>
         else s\<lparr>levels := levels s @ [new_level_row entity_type entity_id new_level note now]\<rparr>)"

definition transition_escalation ::
  "string \<Rightarrow> string \<Rightarrow> string \<Rightarrow> string \<Rightarrow> escalation_note \<Rightarrow> store \<Rightarrow> level_row act" where
  "transition_escalation entity_type entity_id new_level actor note s =
     bindS (raise_unless (new_level \<in> set ESCALATION_LEVELS) (InvalidEscalationTransition actor [] new_level) s) (\<lambda>_ s.
     let current = get_escalation_state s entity_type entity_id;
         current_level = get_escalation_level s entity_type entity_id
     in bindS (validate_escalation_transition actor current_level new_level, s) (\<lambda>_ s.
        bindS (log_act ''escalation_transition'' entity_type entity_id (Some current_level) (Some new_level) actor
                 (en_description note)
                 [(''trigger_category'', json_opt (en_category note)), (''policy_class'', json_opt (en_policy_class note)),
                  (''decision_type'', json_opt (en_decision_type note)), (''retry_count'', json_int_opt (en_retry_count note)),
                  (''budget_remaining'', json_int_opt (en_budget_remaining note))]
                 (upsert_escalation_state entity_type entity_id new_level actor note (current \<noteq> None) s)) (\<lambda>_ s.
        (fetch_dict (get_escalation_state s entity_type entity_id), s))))"

definition is_blocked :: "store \<Rightarrow> string \<Rightarrow> string \<Rightarrow> bool" where
  "is_blocked s entity_type entity_id =
     (severity_of ''hold'' \<le> severity_of (get_escalation_level s entity_type entity_id))"

definition get_unresolved_escalations :: "store \<Rightarrow> string \<Rightarrow> int \<Rightarrow> level_row list" where
  "get_unresolved_escalations s min_level limit =
     (let min_sev = (case map_of ESCALATION_SEVERITY min_level of None \<Rightarrow> 1 | Some n \<Rightarrow> n)
      in filter (\<lambda>v. min_sev \<le> severity_of (v_level v))
           (sql_limit limit
              (sort_key (\<lambda>v. - int (severity_of (v_level v))) (sort_key (\<lambda>v. - v_updated_at v)
                 (filter (\<lambda>v. v_resolved_at v = None) (levels s))))))"

section \<open>Overrides\<close>

definition determine_override_level :: "string \<Rightarrow> string \<Rightarrow> string \<Rightarrow> string" where
  "determine_override_level override_type previous_level outcome =
     (if outcome \<noteq> ''granted'' then previous_level
      else if override_type \<in> {''hold_release'', ''escalation_resolve''} then ''info''
      else if override_type \<in> {''gate_bypass'', ''dispatch_force_promote'', ''dead_letter_override''} \<and>
              previous_level \<in> {''hold'', ''escalate''} then ''review_required''
      else previous_level)"

definition validate_override_params :: "string \<Rightarrow> string \<Rightarrow> string \<Rightarrow> string \<Rightarrow> exn + unit" where
  "validate_override_params actor override_type justification outcome =
     bindE (guardE (actor \<in> set GATE_ACTORS) (GovernanceError ''lacks override authority'')) (\<lambda>_.
     bindE (guardE (py_strip justification \<noteq> []) (GovernanceError ''Override justification is required and cannot be empty'')) (\<lambda>_.
     bindE (guardE (override_type \<in> set OVERRIDE_TYPES) (GovernanceError ''Unknown override type'')) (\<lambda>_.
     guardE (outcome \<in> {''granted'', ''denied''}) (GovernanceError ''Override outcome must be granted or denied''))))"

record override_request =
  or_entity_type :: string
  or_entity :: string
  or_actor :: string
  or_type :: string
  or_justification :: string
  or_outcome :: string
  or_policy_class :: "string option"
  or_decision_type :: "string option"
  or_scope :: "string option"

definition insert_override_record :: "string \<Rightarrow> override_request \<Rightarrow> string \<Rightarrow> string \<Rightarrow> store \<Rightarrow> unit act" where
  "insert_override_record override_id q previous_level new_level s =
     bindS (raise_unless (find (\<lambda>r. o_id r = override_id) (overrides s) = None)
              (IntegrityError ''UNIQUE constraint failed: governance_overrides.override_id'') s) (\<lambda>_ s.
     log_act ''governance_override'' (or_entity_type q) (or_entity q) (Some previous_level) (Some new_level) (or_actor q)
       (Some (or_justification q))
       [(''override_id'', JStr override_id), (''override_type'', JStr (or_type q)), (''outcome'', JStr (or_outcome q)),
        (''policy_class'', json_opt (or_policy_class q)), (''decision_type'', json_opt (or_decision_type q)),
        (''override_scope'', json_opt (or_scope q))]
       (s\<lparr>overrides := overrides s @
            [\<lparr>o_id = override_id, o_entity_type = or_entity_type q, o_entity = or_entity q, o_actor = or_actor q,
              o_type = or_type q, o_justification = or_justification q, o_outcome = or_outcome q,
              o_previous = previous_level, o_new = new_level, o_policy_class = or_policy_class q,
              o_decision_type = or_decision_type q, o_scope = or_scope q, o_at = clock s\<rparr>]\<rparr>))"

definition override_note :: "override_request \<Rightarrow> escalation_note" where
  "override_note q =
     \<lparr>en_category = Some ''operator_escalation'',
      en_description = Some (''Override '' @ or_type q @ '': '' @ or_justification q),
      en_policy_class = or_policy_class q, en_decision_type = or_decision_type q, en_retry_count = None,
      en_budget_remaining = None\<rparr>"

definition record_override :: "override_request \<Rightarrow> store \<Rightarrow> override_row act" where
  "record_override q s =
     bindS (validate_override_params (or_actor q) (or_type q) (or_justification q) (or_outcome q), s) (\<lambda>_ s.
     let override_id = new_uuid s;
         previous_level = get_escalation_level s (or_entity_type q) (or_entity q);
         new_level = determine_override_level (or_type q) previous_level (or_outcome q)
     in bindS (insert_override_record override_id q previous_level new_level (s\<lparr>uuid_next := Suc (uuid_next s)\<rparr>)) (\<lambda>_ s.
        bindS (if or_outcome q = ''granted'' \<and> new_level \<noteq> previous_level
               then bindS (transition_escalation (or_entity_type q) (or_entity q) new_level (or_actor q) (override_note q) s)
                      (\<lambda>_ s. (Inr (), s))
               else (Inr (), s)) (\<lambda>_ s.
        (fetch_dict (find (\<lambda>r. o_id r = override_id) (overrides s)), s))))"

definition get_overrides :: "store \<Rightarrow> string option \<Rightarrow> string option \<Rightarrow> int \<Rightarrow> override_row list" where
  "get_overrides s entity_type entity_id limit =
     sql_limit limit (sort_key (\<lambda>r. - o_at r)
       (filter (\<lambda>r. (truthy entity_type \<longrightarrow> Some (o_entity_type r) = entity_type) \<and>
                    (truthy entity_id \<longrightarrow> Some (o_entity r) = entity_id)) (overrides s)))"

section \<open>The operator's summary\<close>

record attention =
  at_entity :: string
  at_trigger :: "string option"
  at_since :: int

record level_summary =
  su_total :: nat
  su_blocking :: nat
  su_counts :: "(string \<times> nat) list"
  su_holds :: "attention list"
  su_escalations :: "attention list"
  su_enforcement :: bool

definition is_enforcement_enabled :: "store \<Rightarrow> bool" where
  "is_enforcement_enabled s = ((case env_autonomy s of None \<Rightarrow> ''0'' | Some v \<Rightarrow> v) = ''1'')"

definition count_level :: "level_row \<Rightarrow> (string \<times> nat) list \<Rightarrow> (string \<times> nat) list" where
  "count_level v counts =
     AList.update (v_level v) (Suc (case map_of counts (v_level v) of None \<Rightarrow> 0 | Some n \<Rightarrow> n)) counts"

definition attention_of :: "level_row \<Rightarrow> attention" where
  "attention_of v =
     \<lparr>at_entity = v_entity_type v @ '':'' @ v_entity v, at_trigger = v_description v, at_since = v_updated_at v\<rparr>"

definition escalation_summary :: "store \<Rightarrow> level_summary" where
  "escalation_summary s =
     (let rows = filter (\<lambda>v. v_resolved_at v = None) (levels s);
          counts = fold count_level rows [(''info'', 0), (''review_required'', 0), (''hold'', 0), (''escalate'', 0)]
      in \<lparr>su_total = sum_list (map snd counts),
          su_blocking = the (map_of counts ''hold'') + the (map_of counts ''escalate''),
          su_counts = counts,
          su_holds = map attention_of (filter (\<lambda>v. v_level v = ''hold'') rows),
          su_escalations = map attention_of (filter (\<lambda>v. v_level v = ''escalate'') rows),
          su_enforcement = is_enforcement_enabled s\<rparr>)"


section \<open>The policy matrix\<close>

definition ACTORS :: "string list" where
  "ACTORS = [''runtime'', ''router'', ''broker'', ''t0'', ''operator'']"

definition POLICY_VERSION :: string where
  "POLICY_VERSION = ''fpd-pr1-v1''"

definition DECISION_TYPE_REGISTRY :: "(string \<times> string \<times> string) list" where
  "DECISION_TYPE_REGISTRY =
     [(''heartbeat_check'', ''operational'', ''automatic''),
      (''health_state_update'', ''operational'', ''automatic''),
      (''lease_renewal'', ''operational'', ''automatic''),
      (''event_append'', ''operational'', ''automatic''),
      (''dispatch_create'', ''dispatch_lifecycle'', ''automatic''),
      (''dispatch_claim'', ''dispatch_lifecycle'', ''automatic''),
      (''dispatch_deliver'', ''dispatch_lifecycle'', ''automatic''),
      (''dispatch_accept'', ''dispatch_lifecycle'', ''automatic''),
      (''dispatch_run'', ''dispatch_lifecycle'', ''automatic''),
      (''dispatch_timeout'', ''dispatch_lifecycle'', ''automatic''),
      (''dispatch_fail'', ''dispatch_lifecycle'', ''automatic''),
      (''process_restart'', ''recovery'', ''automatic''),
      (''delivery_retry'', ''recovery'', ''automatic''),
      (''lease_recover'', ''recovery'', ''automatic''),
      (''dispatch_recover'', ''recovery'', ''automatic''),
      (''inbox_retry'', ''recovery'', ''automatic''),
      (''target_select'', ''routing'', ''automatic''),
      (''fallback_route'', ''routing'', ''automatic''),
      (''override_route'', ''routing'', ''gated''),
      (''intelligence_inject'', ''intelligence'', ''automatic''),
      (''intelligence_suppress'', ''intelligence'', ''automatic''),
      (''escalation_emit'', ''escalation'', ''automatic''),
      (''hold_enter'', ''escalation'', ''automatic''),
      (''hold_release'', ''escalation'', ''gated''),
      (''escalate_to_t0'', ''escalation'', ''automatic''),
      (''dispatch_complete'', ''completion'', ''gated''),
      (''pr_close'', ''completion'', ''gated''),
      (''feature_certify'', ''completion'', ''gated''),
      (''policy_update'', ''configuration'', ''gated''),
      (''feature_flag_toggle'', ''configuration'', ''gated''),
      (''budget_adjust'', ''configuration'', ''gated''),
      (''branch_merge'', ''merge'', ''forbidden''),
      (''force_push'', ''merge'', ''forbidden''),
      (''gate_bypass'', ''override'', ''forbidden''),
      (''invariant_override'', ''override'', ''forbidden''),
      (''dispatch_force_promote'', ''override'', ''forbidden''),
      (''dead_letter_override'', ''override'', ''forbidden'')]"

text \<open>Only the keys are read; their default budgets are not.\<close>

definition BUDGET_LIMITED_ACTIONS :: "string list" where
  "BUDGET_LIMITED_ACTIONS = [''process_restart'', ''delivery_retry'', ''inbox_retry'']"

definition ALWAYS_ESCALATE_ACTIONS :: "string list" where
  "ALWAYS_ESCALATE_ACTIONS = [''dispatch_timeout'', ''dispatch_fail'']"

record policy_context =
  cx_dispatch :: "string option"
  cx_target :: "string option"
  cx_terminal :: "string option"
  cx_budget_remaining :: "int option"
  cx_escalation_level :: "string option"

record rules_result =
  ru_outcome :: string
  ru_level :: "string option"
  ru_authority :: "string option"
  ru_reasons :: "string list"

definition budget_exhausted :: "string \<Rightarrow> policy_context \<Rightarrow> bool" where
  "budget_exhausted action cx =
     (action \<in> set BUDGET_LIMITED_ACTIONS \<and> (case cx_budget_remaining cx of None \<Rightarrow> False | Some n \<Rightarrow> n \<le> 0))"

definition budget_rule :: "string \<Rightarrow> policy_context \<Rightarrow> rules_result \<Rightarrow> rules_result" where
  "budget_rule action cx r =
     (if ru_outcome r = ''automatic'' \<and> budget_exhausted action cx
      then r\<lparr>ru_outcome := ''gated'', ru_level := Some ''hold'', ru_authority := Some ''t0'',
             ru_reasons := ru_reasons r @ [''budget exhausted -> gated+hold'']\<rparr>
      else r)"

definition trigger_rule :: "string \<Rightarrow> rules_result \<Rightarrow> rules_result" where
  "trigger_rule action r =
     (if action \<in> set ALWAYS_ESCALATE_ACTIONS \<and> ru_outcome r = ''automatic'' \<and>
         (\<not> truthy (ru_level r) \<or> severity_of (the (ru_level r)) < 1)
      then r\<lparr>ru_level := Some ''info'', ru_reasons := ru_reasons r @ [''auto-escalation trigger'']\<rparr>
      else r)"

definition gate_rule :: "string \<Rightarrow> rules_result \<Rightarrow> rules_result" where
  "gate_rule actor r =
     (if ru_outcome r = ''gated''
      then (if actor \<in> set GATE_ACTORS
            then r\<lparr>ru_authority := Some actor, ru_reasons := ru_reasons r @ [''gate satisfied by '' @ actor]\<rparr>
            else r\<lparr>ru_authority := Some ''t0'', ru_reasons := ru_reasons r @ [''gate required: '' @ actor @ '' lacks authority'']\<rparr>)
      else r)"

definition forbidden_rule :: "string \<Rightarrow> rules_result \<Rightarrow> rules_result" where
  "forbidden_rule actor r =
     (if ru_outcome r = ''forbidden''
      then (if actor \<in> set GATE_ACTORS
            then r\<lparr>ru_outcome := ''gated'', ru_authority := Some actor,
                   ru_reasons := ru_reasons r @ [''forbidden action permitted via '' @ actor @ '' override flow'']\<rparr>
            else r\<lparr>ru_level := Some ''escalate'',
                   ru_reasons := ru_reasons r @ [''forbidden action by non-human actor'']\<rparr>)
      else r)"

definition apply_policy_rules :: "string \<Rightarrow> string \<Rightarrow> string \<Rightarrow> string \<Rightarrow> policy_context \<Rightarrow> rules_result" where
  "apply_policy_rules action actor base_outcome policy_class cx =
     forbidden_rule actor (gate_rule actor (trigger_rule action (budget_rule action cx
       \<lparr>ru_outcome = base_outcome, ru_level = cx_escalation_level cx, ru_authority = None,
        ru_reasons = [''policy_class='' @ policy_class @ '', base='' @ base_outcome]\<rparr>)))"

record evaluation =
  ev_outcome :: string
  ev_action :: string
  ev_policy_class :: string
  ev_reason :: string
  ev_level :: "string option"
  ev_authority :: "string option"
  ev_at :: int

definition PREFIX_ENTITY :: "(string \<times> string) list" where
  "PREFIX_ENTITY =
     [(''dispatch'', ''dispatch''), (''lease'', ''lease''), (''target'', ''target''), (''heartbeat'', ''target''),
      (''health'', ''target''), (''process'', ''target''), (''delivery'', ''dispatch''), (''inbox'', ''inbox_event''),
      (''intelligence'', ''dispatch''), (''branch'', ''dispatch''), (''force'', ''dispatch''), (''gate'', ''dispatch''),
      (''invariant'', ''dispatch''), (''dead'', ''dispatch''), (''pr'', ''dispatch''), (''feature'', ''dispatch''),
      (''policy'', ''dispatch''), (''budget'', ''dispatch''), (''escalation'', ''dispatch''), (''hold'', ''dispatch''),
      (''escalate'', ''dispatch''), (''override'', ''dispatch''), (''fallback'', ''target'')]"

definition infer_entity_type :: "string \<Rightarrow> policy_context \<Rightarrow> string" where
  "infer_entity_type action cx =
     (if truthy (cx_dispatch cx) then ''dispatch''
      else if truthy (cx_target cx) then ''target''
      else if truthy (cx_terminal cx) then ''lease''
      else (case map_of PREFIX_ENTITY (takeWhile (\<lambda>c. c \<noteq> CHR ''_'') action) of None \<Rightarrow> ''dispatch'' | Some ty \<Rightarrow> ty))"

definition context_entity :: "policy_context \<Rightarrow> string" where
  "context_entity cx = or_else (cx_dispatch cx) (or_else (cx_target cx) (or_else (cx_terminal cx) ''system''))"

definition emit_evaluation_event :: "evaluation \<Rightarrow> string \<Rightarrow> policy_context \<Rightarrow> store \<Rightarrow> unit act" where
  "emit_evaluation_event r actor cx s =
     log_act ''policy_evaluation'' (infer_entity_type (ev_action r) cx) (context_entity cx) None None actor
       (Some (ev_reason r))
       [(''action'', JStr (ev_action r)), (''policy_class'', JStr (ev_policy_class r)), (''outcome'', JStr (ev_outcome r)),
        (''escalation_level'', json_opt (ev_level r)), (''gate_authority'', json_opt (ev_authority r)),
        (''budget_remaining'', json_int_opt (cx_budget_remaining cx)), (''policy_version'', JStr POLICY_VERSION),
        (''enforcement'', JBool (is_enforcement_enabled s))] s"

text \<open>The event is written when the caller passes a connection or a state directory.\<close>

definition evaluate_policy :: "string \<Rightarrow> string \<Rightarrow> policy_context \<Rightarrow> bool \<Rightarrow> store \<Rightarrow> evaluation act" where
  "evaluate_policy action actor cx emits s =
     (if actor \<notin> set ACTORS then (Inl (GovernanceError ''Unknown actor''), s)
      else case map_of DECISION_TYPE_REGISTRY action of
        None \<Rightarrow> (Inl (GovernanceError ''Unknown decision type''), s)
      | Some (policy_class, base_outcome) \<Rightarrow>
          let rules = apply_policy_rules action actor base_outcome policy_class cx;
              result = \<lparr>ev_outcome = ru_outcome rules, ev_action = action, ev_policy_class = policy_class,
                        ev_reason = join_with ''; '' (ru_reasons rules), ev_level = ru_level rules,
                        ev_authority = ru_authority rules, ev_at = clock s\<rparr>
          in if emits then bindS (emit_evaluation_event result actor cx s) (\<lambda>_ s. (Inr result, s)) else (Inr result, s))"

definition forbidden_note :: "evaluation \<Rightarrow> escalation_note" where
  "forbidden_note r =
     \<lparr>en_category = Some ''forbidden_action'', en_description = Some (''Forbidden action attempted: '' @ ev_action r),
      en_policy_class = Some (ev_policy_class r), en_decision_type = Some (ev_action r), en_retry_count = None,
      en_budget_remaining = None\<rparr>"

text \<open>The evaluation, whether the entity is blocked, and whether enforcement is on.\<close>

definition check_action :: "string \<Rightarrow> string \<Rightarrow> policy_context \<Rightarrow> store \<Rightarrow> (evaluation \<times> bool \<times> bool) act" where
  "check_action action actor cx s =
     bindS (evaluate_policy action actor cx True s) (\<lambda>result s.
     let entity_type = infer_entity_type action cx; entity_id = context_entity cx;
         blocked = is_blocked s entity_type entity_id; enforcement = is_enforcement_enabled s
     in if enforcement \<and> ev_outcome result = ''forbidden'' \<and> actor \<notin> set GATE_ACTORS
        then bindS (transition_escalation entity_type entity_id ''escalate'' actor (forbidden_note result) s)
               (\<lambda>_ s. (Inl (ForbiddenActionError action actor), s))
        else (Inr (result, blocked, enforcement), s))"

section \<open>Facts about single calls\<close>

lemma log_act_sel [simp]:
  "levels (snd (log_act ty et ei f t a r md s)) = levels s" "overrides (snd (log_act ty et ei f t a r md s)) = overrides s"
  "env_autonomy (snd (log_act ty et ei f t a r md s)) = env_autonomy s"
  "env_project (snd (log_act ty et ei f t a r md s)) = env_project s"
  "pid_tables (snd (log_act ty et ei f t a r md s)) = pid_tables s"
  by (simp_all add: log_act_def append_event_def bindE_def log_event_def split: sum.split)

lemma bindS_levels: "(\<And>x s. levels (snd (f x s)) = levels s) \<Longrightarrow> levels (snd (bindS m f)) = levels (snd m)"
  by (auto simp: bindS_def split: prod.split sum.split)

lemma level_frame:
  "levels s' = levels s \<Longrightarrow> get_escalation_state s' = get_escalation_state s \<and> get_escalation_level s' = get_escalation_level s"
  by (auto simp: get_escalation_state_def get_escalation_level_def fun_eq_iff)

text \<open>An upsert sets the level of one entity.\<close>

lemma upsert_level:
  assumes "exists = (get_escalation_state s ty i \<noteq> None)"
  shows "get_escalation_level (upsert_escalation_state ty i lv actor note exists s) ty' i' =
    (if ty' = ty \<and> i' = i then lv else get_escalation_level s ty' i')"
proof -
  have upd: "find (\<lambda>v. v_entity_type v = ty' \<and> v_entity v = i')
        (update_where (\<lambda>v. v_entity_type v = ty \<and> v_entity v = i) f rows) =
      map_option (\<lambda>v. if v_entity_type v = ty \<and> v_entity v = i then f v else v)
        (find (\<lambda>v. v_entity_type v = ty' \<and> v_entity v = i') rows)"
    if "\<And>v. v_entity_type (f v) = v_entity_type v \<and> v_entity (f v) = v_entity v" for rows and f :: "level_row \<Rightarrow> level_row"
    using that by (induction rows) auto
  have app: "find p (rows @ [x]) = (case find p rows of None \<Rightarrow> if p x then Some x else None | Some y \<Rightarrow> Some y)"
    for p and rows :: "level_row list" and x
    by (induction rows) auto
  show ?thesis
  proof (cases "get_escalation_state s ty i")
    case None
    then have none: "find (\<lambda>v. v_entity_type v = ty \<and> v_entity v = i) (levels s) = None"
      by (simp only: get_escalation_state_def)
    from assms None have e: "levels (upsert_escalation_state ty i lv actor note exists s) =
        levels s @ [new_level_row ty i lv note (clock s)]"
      by (simp add: upsert_escalation_state_def Let_def)
    show ?thesis
    proof (cases "ty' = ty \<and> i' = i")
      case True
      with none show ?thesis
        by (simp only: get_escalation_level_def get_escalation_state_def e app option.case) (simp add: new_level_row_def)
    next
      case False
      then show ?thesis
        by (simp only: get_escalation_level_def get_escalation_state_def e app)
           (auto simp: new_level_row_def split: option.split)
    qed
  next
    case (Some v)
    let ?f = "\<lambda>v. v\<lparr>v_level := lv, v_category := en_category note, v_description := en_description note,
                v_policy_class := en_policy_class note, v_decision_type := en_decision_type note,
                v_retry_count := en_retry_count note, v_budget_remaining := en_budget_remaining note,
                v_updated_at := clock s,
                v_resolved_at := (if lv = ''info'' then Some (clock s) else v_resolved_at v),
                v_resolved_by := (if lv = ''info'' then Some actor else v_resolved_by v)\<rparr>"
    from Some assms have e: "levels (upsert_escalation_state ty i lv actor note exists s) =
        update_where (\<lambda>v. v_entity_type v = ty \<and> v_entity v = i) ?f (levels s)"
      by (simp add: upsert_escalation_state_def Let_def)
    have f: "find (\<lambda>v. v_entity_type v = ty' \<and> v_entity v = i') (levels (upsert_escalation_state ty i lv actor note exists s)) =
        map_option (\<lambda>v. if v_entity_type v = ty \<and> v_entity v = i then ?f v else v)
          (find (\<lambda>v. v_entity_type v = ty' \<and> v_entity v = i') (levels s))"
      unfolding e by (rule upd) simp
    from Some have found: "find (\<lambda>v. v_entity_type v = ty \<and> v_entity v = i) (levels s) = Some v"
      by (simp only: get_escalation_state_def)
    then have v: "v_entity_type v = ty \<and> v_entity v = i" by (auto simp: find_Some_iff)
    show ?thesis
    proof (cases "ty' = ty \<and> i' = i")
      case True
      show ?thesis
        unfolding get_escalation_level_def get_escalation_state_def f using True found v by simp
    next
      case False
      have "(case find (\<lambda>v. v_entity_type v = ty' \<and> v_entity v = i') (levels s) of None \<Rightarrow> True
             | Some w \<Rightarrow> \<not> (v_entity_type w = ty \<and> v_entity w = i))"
        using False by (auto simp: find_Some_iff split: option.split)
      with False show ?thesis
        by (simp only: get_escalation_level_def get_escalation_state_def f) (auto split: option.splits)
    qed
  qed
qed

lemma validate_ok:
  assumes "validate_escalation_transition actor cur new = Inr u"
  shows "severity_of new < severity_of cur \<longrightarrow> actor \<in> set GATE_ACTORS \<and> actor \<in> set (authority_for cur)"
  using assms by (auto simp: validate_escalation_transition_def severity_of_def bindE_eq_Inr guardE_def
      split: option.split_asm if_split_asm)

text \<open>Whatever a transition returns, it lowers a level only for an actor with the authority to.\<close>

definition lowers_only_by :: "string \<Rightarrow> string \<Rightarrow> string \<Rightarrow> store \<Rightarrow> store \<Rightarrow> bool" where
  "lowers_only_by actor ty i s s' =
     (\<forall>ty' i'. severity_of (get_escalation_level s' ty' i') < severity_of (get_escalation_level s ty' i') \<longrightarrow>
        ty' = ty \<and> i' = i \<and> actor \<in> set GATE_ACTORS \<and> actor \<in> set (authority_for (get_escalation_level s ty i)))"

lemma lowers_same_levels: "levels s' = levels s \<Longrightarrow> lowers_only_by actor ty i s s'"
  using level_frame [of s' s] by (simp add: lowers_only_by_def)

lemma transition_lowers: "lowers_only_by actor ty i s (snd (transition_escalation ty i lv actor note s))"
proof -
  let ?cur = "get_escalation_level s ty i"
  let ?up = "upsert_escalation_state ty i lv actor note (get_escalation_state s ty i \<noteq> None) s"
  show ?thesis
  proof (cases "lv \<in> set ESCALATION_LEVELS \<and> validate_escalation_transition actor ?cur lv = Inr ()")
    case True
    then have lv: "levels (snd (transition_escalation ty i lv actor note s)) = levels ?up"
      by (simp add: transition_escalation_def raise_unless_def Let_def bindS_levels)
    have "lowers_only_by actor ty i s ?up"
      unfolding lowers_only_by_def
    proof (intro allI impI)
      fix ty' i'
      assume less: "severity_of (get_escalation_level ?up ty' i') < severity_of (get_escalation_level s ty' i')"
      show "ty' = ty \<and> i' = i \<and> actor \<in> set GATE_ACTORS \<and> actor \<in> set (authority_for ?cur)"
      proof (cases "ty' = ty \<and> i' = i")
        case True
        with less have "severity_of lv < severity_of ?cur" by (simp add: upsert_level)
        with True validate_ok [of actor ?cur lv "()"] \<open>lv \<in> _ \<and> _\<close> show ?thesis by simp
      next
        case False
        with less show ?thesis by (simp add: upsert_level)
      qed
    qed
    with level_frame [OF lv] show ?thesis by (simp add: lowers_only_by_def)
  next
    case False
    then have "snd (transition_escalation ty i lv actor note s) = s"
      by (cases "validate_escalation_transition actor ?cur lv") (auto simp: transition_escalation_def raise_unless_def Let_def)
    then show ?thesis by (simp add: lowers_same_levels)
  qed
qed

lemma bindS_lowers:
  assumes m: "levels (snd m) = levels s" and f: "\<And>x s1. levels s1 = levels s \<Longrightarrow> lowers_only_by actor ty i s1 (snd (f x s1))"
  shows "lowers_only_by actor ty i s (snd (bindS m f))"
proof (cases m)
  case (Pair r s1)
  show ?thesis
  proof (cases r)
    case (Inl e)
    with Pair m show ?thesis by (simp add: lowers_same_levels)
  next
    case (Inr x)
    from Pair m have "levels s1 = levels s" by simp
    from f [OF this, of x] have "lowers_only_by actor ty i s (snd (f x s1))"
      unfolding lowers_only_by_def by (simp only: level_frame [OF \<open>levels s1 = levels s\<close>])
    with Pair Inr show ?thesis by simp
  qed
qed

lemma bindS_tail_lowers:
  "lowers_only_by actor ty i s (snd m) \<Longrightarrow> (\<And>x s. levels (snd (f x s)) = levels s) \<Longrightarrow>
   lowers_only_by actor ty i s (snd (bindS m f))"
  by (simp only: lowers_only_by_def bindS_levels level_frame [OF bindS_levels, of f m])

lemma insert_override_levels [simp]: "levels (snd (insert_override_record oid q p n s)) = levels s"
  by (simp add: insert_override_record_def bindS_def raise_unless_def)

lemma override_lowers: "lowers_only_by (or_actor q) (or_entity_type q) (or_entity q) s (snd (record_override q s))"
  unfolding record_override_def Let_def
  by (rule bindS_lowers, simp, rule bindS_lowers, simp, rule bindS_tail_lowers)
     (auto intro: bindS_tail_lowers transition_lowers lowers_same_levels)

lemma evaluation_levels [simp]: "levels (snd (evaluate_policy action actor cx emits s)) = levels s"
  by (simp add: evaluate_policy_def emit_evaluation_event_def Let_def bindS_levels split: option.split)

lemma check_lowers: "lowers_only_by actor (infer_entity_type action cx) (context_entity cx) s (snd (check_action action actor cx s))"
  unfolding check_action_def Let_def
  by (rule bindS_lowers, simp) (auto intro: bindS_tail_lowers transition_lowers lowers_same_levels)

section \<open>Sequences of calls\<close>

text \<open>
  A call on the connection. \<open>keeps\<close> says what the caller does with an exception: commit what the call has written
  before it raised, or roll back.
\<close>

datatype gov_call =
    Transition string string string string escalation_note
  | Override override_request
  | Check string string policy_context

fun call_actor :: "gov_call \<Rightarrow> string" where
  "call_actor (Transition ty i level actor note) = actor"
| "call_actor (Override q) = or_actor q"
| "call_actor (Check action actor cx) = actor"

fun call_entity :: "gov_call \<Rightarrow> string \<times> string" where
  "call_entity (Transition ty i level actor note) = (ty, i)"
| "call_entity (Override q) = (or_entity_type q, or_entity q)"
| "call_entity (Check action actor cx) = (infer_entity_type action cx, context_entity cx)"

fun call_store :: "gov_call \<Rightarrow> store \<Rightarrow> unit act" where
  "call_store (Transition ty i level actor note) s = map_prod (map_sum id (\<lambda>_. ())) id (transition_escalation ty i level actor note s)"
| "call_store (Override q) s = map_prod (map_sum id (\<lambda>_. ())) id (record_override q s)"
| "call_store (Check action actor cx) s = map_prod (map_sum id (\<lambda>_. ())) id (check_action action actor cx s)"

definition gov_step :: "bool \<times> gov_call \<Rightarrow> store \<Rightarrow> store" where
  "gov_step kc s = (case call_store (snd kc) s of (Inl e, s') \<Rightarrow> if fst kc then s' else s | (Inr _, s') \<Rightarrow> s')"

text \<open>Nobody with the authority to lower a level of \<open>ty\<close> and \<open>i\<close> from \<open>level\<close> acts on it.\<close>

definition without_release :: "string \<Rightarrow> string \<Rightarrow> string \<Rightarrow> (bool \<times> gov_call) list \<Rightarrow> bool" where
  "without_release level ty i calls =
     list_all (\<lambda>(_, c). call_entity c = (ty, i) \<longrightarrow> call_actor c \<notin> set (authority_for level)) calls"

lemma gov_step_lowers: "lowers_only_by (call_actor (snd kc)) (fst (call_entity (snd kc))) (snd (call_entity (snd kc))) s (gov_step kc s)"
proof -
  have "lowers_only_by (call_actor (snd kc)) (fst (call_entity (snd kc))) (snd (call_entity (snd kc))) s (snd (call_store (snd kc) s))"
    by (cases "snd kc") (simp_all add: transition_lowers override_lowers check_lowers)
  then show ?thesis
    by (auto simp: gov_step_def lowers_same_levels split: prod.split sum.split)
qed

lemma severity_cases:
  "severity_of l = (if l = ''escalate'' then 3 else if l = ''hold'' then 2 else if l = ''review_required'' then 1 else 0)"
  by (simp add: severity_of_def ESCALATION_SEVERITY_def)

lemma authority_cases: "authority_for l = (if l = ''escalate'' then [''t0''] else [''t0'', ''operator''])"
  by (simp add: authority_for_def DE_ESCALATION_AUTHORITY_def GATE_ACTORS_def)

lemma severity_kept:
  assumes "level \<in> {''hold'', ''escalate''}" and "severity_of level \<le> severity_of (get_escalation_level s ty i)"
    and "without_release level ty i calls"
  shows "severity_of level \<le> severity_of (get_escalation_level (fold gov_step calls s) ty i)"
  using assms(2,3)
proof (induction calls arbitrary: s)
  case (Cons kc calls)
  let ?cur = "get_escalation_level s ty i" and ?nxt = "get_escalation_level (gov_step kc s) ty i"
  have sub: "set (authority_for ?cur) \<subseteq> set (authority_for level)"
    using Cons.prems(1) assms(1) by (auto simp: severity_cases authority_cases split: if_split_asm)
  have "\<not> severity_of ?nxt < severity_of ?cur"
  proof
    assume less: "severity_of ?nxt < severity_of ?cur"
    then have "call_entity (snd kc) = (ty, i) \<and> call_actor (snd kc) \<in> set (authority_for ?cur)"
      using gov_step_lowers [of kc s] by (auto simp: lowers_only_by_def prod_eq_iff)
    with sub Cons.prems(2) show False by (auto simp: without_release_def split: prod.splits)
  qed
  with Cons.prems have "severity_of level \<le> severity_of ?nxt" "without_release level ty i calls"
    by (simp_all add: without_release_def)
  then show ?case using Cons.IH by simp
qed simp

lemma is_blocked_iff: "is_blocked s ty i \<longleftrightarrow> severity_of ''hold'' \<le> severity_of (get_escalation_level s ty i)"
  by (simp add: is_blocked_def)

section \<open>The outcome of an evaluation\<close>

lemma registry_outcomes:
  "map_of DECISION_TYPE_REGISTRY action = Some (pc, base) \<Longrightarrow> base \<in> {''automatic'', ''gated'', ''forbidden''}"
  by (drule map_of_SomeD) (auto simp: DECISION_TYPE_REGISTRY_def)

text \<open>The matrix as one table.\<close>

definition decided_outcome :: "string \<Rightarrow> string \<Rightarrow> string \<Rightarrow> policy_context \<Rightarrow> string" where
  "decided_outcome base action actor cx =
     (if base = ''forbidden'' then (if actor \<in> {''t0'', ''operator''} then ''gated'' else ''forbidden'')
      else if base = ''automatic'' \<and> \<not> budget_exhausted action cx then ''automatic'' else ''gated'')"

definition decided_level :: "string \<Rightarrow> string \<Rightarrow> string \<Rightarrow> policy_context \<Rightarrow> string option" where
  "decided_level base action actor cx =
     (case decided_outcome base action actor cx of oc \<Rightarrow>
        if oc = ''forbidden'' then Some ''escalate''
        else if base = ''automatic'' \<and> budget_exhausted action cx then Some ''hold''
        else if action \<in> {''dispatch_timeout'', ''dispatch_fail''} \<and>
                cx_escalation_level cx \<notin> {Some ''review_required'', Some ''hold'', Some ''escalate''} then Some ''info''
        else cx_escalation_level cx)"

definition decided_authority :: "string \<Rightarrow> string \<Rightarrow> string \<Rightarrow> policy_context \<Rightarrow> string option" where
  "decided_authority base action actor cx =
     (if decided_outcome base action actor cx \<noteq> ''gated'' then None
      else Some (if actor \<in> {''t0'', ''operator''} then actor else ''t0''))"

lemma timeout_actions:
  "map_of DECISION_TYPE_REGISTRY action = Some (pc, base) \<Longrightarrow> action \<in> set ALWAYS_ESCALATE_ACTIONS \<Longrightarrow>
   base = ''automatic'' \<and> action \<notin> set BUDGET_LIMITED_ACTIONS"
  by (auto simp: ALWAYS_ESCALATE_ACTIONS_def DECISION_TYPE_REGISTRY_def BUDGET_LIMITED_ACTIONS_def)

lemma human_classes:
  assumes "map_of DECISION_TYPE_REGISTRY action = Some (pc, base)"
    and "pc \<in> {''completion'', ''configuration'', ''merge'', ''override''}"
  shows "base = (if pc \<in> {''merge'', ''override''} then ''forbidden'' else ''gated'')"
proof -
  have "list_all (\<lambda>(_, pc, base). pc \<in> {''completion'', ''configuration'', ''merge'', ''override''} \<longrightarrow>
      base = (if pc \<in> {''merge'', ''override''} then ''forbidden'' else ''gated'')) DECISION_TYPE_REGISTRY"
    by code_simp
  with map_of_SomeD [OF assms(1)] assms(2) show ?thesis by (auto simp: list_all_iff)
qed

lemma rules_decided:
  fixes actor cx
  assumes "map_of DECISION_TYPE_REGISTRY action = Some (pc, base)"
  defines "r \<equiv> apply_policy_rules action actor base pc cx"
  shows "ru_outcome r = decided_outcome base action actor cx"
    and "ru_authority r = decided_authority base action actor cx"
    and "ru_level r = decided_level base action actor cx"
proof -
  note rules = apply_policy_rules_def budget_rule_def trigger_rule_def gate_rule_def forbidden_rule_def
    decided_outcome_def decided_authority_def decided_level_def GATE_ACTORS_def
  from registry_outcomes [OF assms(1)] consider "base = ''automatic''" | "base = ''gated''" | "base = ''forbidden''" by blast
  then have "ru_outcome r = decided_outcome base action actor cx \<and> ru_authority r = decided_authority base action actor cx \<and>
      ru_level r = decided_level base action actor cx"
  proof cases
    case 1
    show ?thesis
    proof (cases "action \<in> set ALWAYS_ESCALATE_ACTIONS")
      case True
      with timeout_actions [OF assms(1)] have "\<not> budget_exhausted action cx" by (simp add: budget_exhausted_def)
      with 1 True show ?thesis
        by (cases "cx_escalation_level cx") (simp_all add: r_def rules severity_cases ALWAYS_ESCALATE_ACTIONS_def)
    next
      case False
      with 1 show ?thesis by (simp add: r_def rules ALWAYS_ESCALATE_ACTIONS_def)
    qed
  next
    case 2
    with timeout_actions [OF assms(1)] have "action \<notin> set ALWAYS_ESCALATE_ACTIONS" by auto
    with 2 show ?thesis by (simp add: r_def rules ALWAYS_ESCALATE_ACTIONS_def)
  next
    case 3
    with timeout_actions [OF assms(1)] have "action \<notin> set ALWAYS_ESCALATE_ACTIONS" by auto
    with 3 show ?thesis by (simp add: r_def rules ALWAYS_ESCALATE_ACTIONS_def)
  qed
  then show "ru_outcome r = decided_outcome base action actor cx" "ru_authority r = decided_authority base action actor cx"
    "ru_level r = decided_level base action actor cx" by simp_all
qed

lemma log_act_ok: "events_ok s \<Longrightarrow> \<exists>e. log_act ty et ei f t a r md s = (Inr (), log_event e s)"
  using append_event_any_ok [of s ty et ei f t a r "Some md" None] by (auto simp: log_act_def)

lemma policy_evaluated:
  assumes "evaluate_policy action actor cx emits s = (Inr r, s')"
  obtains base where "map_of DECISION_TYPE_REGISTRY action = Some (ev_policy_class r, base)" and "actor \<in> set ACTORS"
    and "ev_outcome r = decided_outcome base action actor cx" and "ev_level r = decided_level base action actor cx"
    and "ev_authority r = decided_authority base action actor cx"
    and "get_escalation_level s' = get_escalation_level s"
proof -
  have actor: "actor \<in> set ACTORS"
    using assms by (cases "actor \<in> set ACTORS") (simp_all add: evaluate_policy_def)
  with assms obtain pc base where m: "map_of DECISION_TYPE_REGISTRY action = Some (pc, base)"
    by (auto simp: evaluate_policy_def split: option.split_asm)
  have r: "ev_policy_class r = pc \<and> ev_outcome r = ru_outcome (apply_policy_rules action actor base pc cx) \<and>
      ev_level r = ru_level (apply_policy_rules action actor base pc cx) \<and>
      ev_authority r = ru_authority (apply_policy_rules action actor base pc cx)"
    using assms actor m
    by (auto simp: evaluate_policy_def Let_def bindS_def split: if_split_asm prod.split_asm sum.split_asm)
  from evaluation_levels [of action actor cx emits s] assms have "levels s' = levels s" by simp
  from level_frame [OF this] have "get_escalation_level s' = get_escalation_level s" by simp
  from that [OF _ actor _ _ _ this] r rules_decided [OF m, of actor cx] m show thesis by simp
qed

lemma gated_decisions:
  assumes "map_of DECISION_TYPE_REGISTRY action = Some (pc, base)" and "action \<in> {''hold_release'', ''override_route''}"
  shows "base = ''gated''"
  using assms by (auto simp: DECISION_TYPE_REGISTRY_def)

text \<open>C22: the runtime, the router and the broker get no authority the matrix does not give them: to them a merge or an
override is forbidden and escalated (the recovery of a dead letter aside), and whatever the matrix reserves for a human,
completions, changes of configuration, the release of a hold and a chosen route among it, is never automatic and names
T0 as its gate unless it is forbidden. T0 passes those gates by its own authority. For every actor an action is automatic
exactly when its entry in the table is and its budget is not exhausted; exhausted it needs a gate, and a restart or a
redelivery is on hold. Evaluating changes no escalation level.\<close>

theorem autonomy_stays_within_the_matrix:
  assumes "evaluate_policy action actor cx emits s = (Inr r, s')"
  shows "\<exists>base. map_of DECISION_TYPE_REGISTRY action = Some (ev_policy_class r, base) \<and>
      (actor \<notin> {''t0'', ''operator''} \<longrightarrow>
         (ev_policy_class r \<in> {''merge'', ''override''} \<and> action \<noteq> ''dead_letter_override'' \<longrightarrow>
            ev_outcome r = ''forbidden'' \<and> ev_level r = Some ''escalate'') \<and>
         (ev_policy_class r \<in> {''completion'', ''configuration'', ''merge'', ''override''} \<or>
            action \<in> {''hold_release'', ''override_route''} \<longrightarrow>
            ev_outcome r = ''forbidden'' \<or> ev_outcome r = ''gated'' \<and> ev_authority r = Some ''t0'')) \<and>
      (actor = ''t0'' \<and> (ev_policy_class r \<in> {''completion'', ''configuration'', ''merge'', ''override''} \<or>
            action \<in> {''hold_release'', ''override_route''}) \<longrightarrow>
         ev_outcome r = ''gated'' \<and> ev_authority r = Some ''t0'') \<and>
      (ev_outcome r = ''automatic'' \<longleftrightarrow> base = ''automatic'' \<and> \<not> budget_exhausted action cx) \<and>
      (base = ''automatic'' \<and> budget_exhausted action cx \<longrightarrow>
         ev_outcome r = ''gated'' \<and> (action \<in> {''process_restart'', ''delivery_retry''} \<longrightarrow> ev_level r = Some ''hold'')) \<and>
      get_escalation_level s' = get_escalation_level s"
proof -
  obtain base where m: "map_of DECISION_TYPE_REGISTRY action = Some (ev_policy_class r, base)"
    and r: "ev_outcome r = decided_outcome base action actor cx" "ev_level r = decided_level base action actor cx"
      "ev_authority r = decided_authority base action actor cx" "get_escalation_level s' = get_escalation_level s"
    using policy_evaluated [OF assms] by blast
  have human: "base \<in> {''gated'', ''forbidden''}"
    if "ev_policy_class r \<in> {''completion'', ''configuration'', ''merge'', ''override''} \<or> action \<in> {''hold_release'', ''override_route''}"
    using that human_classes [OF m] gated_decisions [OF m] by (auto split: if_split_asm)
  have strict: "base = ''forbidden''" if "ev_policy_class r \<in> {''merge'', ''override''}"
    using that human_classes [OF m] by auto
  let ?human = "ev_policy_class r \<in> {''completion'', ''configuration'', ''merge'', ''override''} \<or>
    action \<in> {''hold_release'', ''override_route''}" and ?strict = "ev_policy_class r \<in> {''merge'', ''override''}"
  from registry_outcomes [OF m] consider "base = ''automatic''" | "base = ''gated''" | "base = ''forbidden''" by blast
  then have "(actor \<notin> {''t0'', ''operator''} \<longrightarrow>
         (?strict \<longrightarrow> ev_outcome r = ''forbidden'' \<and> ev_level r = Some ''escalate'') \<and>
         (?human \<longrightarrow> ev_outcome r = ''forbidden'' \<or> ev_outcome r = ''gated'' \<and> ev_authority r = Some ''t0'')) \<and>
      (actor = ''t0'' \<and> ?human \<longrightarrow> ev_outcome r = ''gated'' \<and> ev_authority r = Some ''t0'') \<and>
      (ev_outcome r = ''automatic'' \<longleftrightarrow> base = ''automatic'' \<and> \<not> budget_exhausted action cx) \<and>
      (base = ''automatic'' \<and> budget_exhausted action cx \<longrightarrow> ev_outcome r = ''gated'' \<and> ev_level r = Some ''hold'')"
  proof cases
    case 1
    then have "\<not> ?human" "\<not> ?strict" using human strict by blast+
    with 1 show ?thesis by (simp add: r decided_outcome_def decided_level_def)
  next
    case 2
    then have "\<not> ?strict" using strict by blast
    with 2 show ?thesis by (simp add: r decided_outcome_def decided_authority_def)
  next
    case 3
    then show ?thesis by (simp add: r decided_outcome_def decided_level_def decided_authority_def)
  qed
  with m r(4) show ?thesis by blast
qed

definition g_cx :: policy_context where
  "g_cx = \<lparr>cx_dispatch = Some ''d1'', cx_target = None, cx_terminal = None, cx_budget_remaining = Some 0,
           cx_escalation_level = None\<rparr>"

lemma autonomy_stays_within_the_matrix_witness:
  "ev_outcome (projr (fst (evaluate_policy ''branch_merge'' ''router'' g_cx False (empty_store [] None 0)))) = ''forbidden''"
proof -
  let ?r = "projr (fst (evaluate_policy ''branch_merge'' ''router'' g_cx False (empty_store [] None 0)))"
  have "evaluate_policy ''branch_merge'' ''router'' g_cx False (empty_store [] None 0) = (Inr ?r, (empty_store [] None 0))"
    by (simp add: evaluate_policy_def ACTORS_def DECISION_TYPE_REGISTRY_def Let_def)
  from autonomy_stays_within_the_matrix [OF this] have
    "ev_policy_class ?r \<in> {''merge'', ''override''} \<longrightarrow> ev_outcome ?r = ''forbidden''" by auto
  moreover have "ev_policy_class ?r = ''merge''"
    by (simp add: evaluate_policy_def ACTORS_def DECISION_TYPE_REGISTRY_def Let_def)
  ultimately show ?thesis by simp
qed

text \<open>
  Where the code leaves section 3.2 of the matrix document: the operator satisfies a gate that is T0's alone (completing a
  dispatch), and the recovery of a dead letter, gated there, is forbidden to the runtime.
\<close>

lemma operator_passes_t0_gates:
  "\<exists>r. evaluate_policy ''dispatch_complete'' ''operator'' cx False s = (Inr r, s) \<and> ev_authority r = Some ''operator'' \<and>
     ru_reasons (apply_policy_rules ''dispatch_complete'' ''operator'' ''gated'' ''completion'' cx) =
       [''policy_class=completion, base=gated'', ''gate satisfied by operator'']"
  by (simp add: evaluate_policy_def ACTORS_def DECISION_TYPE_REGISTRY_def apply_policy_rules_def budget_rule_def
      trigger_rule_def ALWAYS_ESCALATE_ACTIONS_def gate_rule_def GATE_ACTORS_def forbidden_rule_def)

lemma dead_letter_recovery_is_forbidden:
  "\<exists>r. evaluate_policy ''dead_letter_override'' ''runtime'' cx False s = (Inr r, s) \<and> ev_outcome r = ''forbidden''"
  by (simp add: evaluate_policy_def ACTORS_def DECISION_TYPE_REGISTRY_def apply_policy_rules_def budget_rule_def
      trigger_rule_def ALWAYS_ESCALATE_ACTIONS_def gate_rule_def GATE_ACTORS_def forbidden_rule_def Let_def)

text \<open>C20: a level of hold or escalate stays at least as severe through any sequence of transitions, overrides and checked
actions, whatever their callers do with the exceptions, until someone with the authority to lower that level (T0 or the
operator for hold, T0 alone for escalate) acts on the entity; so the entity stays blocked.\<close>

theorem blocked_until_released:
  assumes "level \<in> {''hold'', ''escalate''}" and "severity_of level \<le> severity_of (get_escalation_level s ty i)"
    and "without_release level ty i calls"
  shows "severity_of level \<le> severity_of (get_escalation_level (fold gov_step calls s) ty i) \<and>
    is_blocked (fold gov_step calls s) ty i"
proof -
  have "severity_of ''hold'' \<le> severity_of level" using assms(1) by (auto simp: severity_cases)
  with severity_kept [OF assms] show ?thesis by (simp add: is_blocked_iff)
qed

lemma escalate_ok:
  assumes "events_ok s" and "get_escalation_level s ty i \<in> set ESCALATION_LEVELS"
  shows "\<exists>v s'. transition_escalation ty i ''escalate'' actor note s = (Inr v, s') \<and>
    get_escalation_level s' ty i = ''escalate''"
proof -
  let ?cur = "get_escalation_level s ty i"
  let ?up = "upsert_escalation_state ty i ''escalate'' actor note (get_escalation_state s ty i \<noteq> None) s"
  have env: "events_ok ?up = events_ok s"
    by (rule events_ok_cong) (simp_all add: upsert_escalation_state_def Let_def)
  have valid: "validate_escalation_transition actor ?cur ''escalate'' = Inr ()"
    using assms(2) by (auto simp: validate_escalation_transition_def ESCALATION_LEVELS_def ESCALATION_SEVERITY_def)
  from log_act_ok assms(1) env obtain e where log:
    "log_act ''escalation_transition'' ty i (Some ?cur) (Some ''escalate'') actor (en_description note)
       [(''trigger_category'', json_opt (en_category note)), (''policy_class'', json_opt (en_policy_class note)),
        (''decision_type'', json_opt (en_decision_type note)), (''retry_count'', json_int_opt (en_retry_count note)),
        (''budget_remaining'', json_int_opt (en_budget_remaining note))] ?up = (Inr (), log_event e ?up)"
    by metis
  have level: "get_escalation_level (log_event e ?up) ty i = ''escalate''"
  proof -
    have "levels (log_event e ?up) = levels ?up" by (simp add: log_event_def)
    then have "get_escalation_level (log_event e ?up) ty i = get_escalation_level ?up ty i"
      by (rule conjunct2 [OF level_frame, THEN fun_cong, THEN fun_cong])
    also have "\<dots> = ''escalate''" by (subst upsert_level) simp_all
    finally show ?thesis .
  qed
  then obtain v where v: "get_escalation_state (log_event e ?up) ty i = Some v"
    by (cases "get_escalation_state (log_event e ?up) ty i") (simp_all add: get_escalation_level_def)
  have "transition_escalation ty i ''escalate'' actor note s = (Inr v, log_event e ?up)"
    by (simp add: transition_escalation_def raise_unless_def valid log v Let_def fetch_dict_def ESCALATION_LEVELS_def
        del: not_None_eq)
  with level show ?thesis by blast
qed

lemma evaluation_ok:
  assumes "actor \<in> set ACTORS" and "map_of DECISION_TYPE_REGISTRY action = Some (pc, base)"
    and "\<And>r. \<exists>e. emit_evaluation_event r actor cx s = (Inr (), log_event e s)"
  shows "\<exists>r e. evaluate_policy action actor cx True s = (Inr r, log_event e s) \<and>
    ev_outcome r = ru_outcome (apply_policy_rules action actor base pc cx)"
proof -
  let ?rules = "apply_policy_rules action actor base pc cx"
  let ?r = "\<lparr>ev_outcome = ru_outcome ?rules, ev_action = action, ev_policy_class = pc,
      ev_reason = join_with ''; '' (ru_reasons ?rules), ev_level = ru_level ?rules,
      ev_authority = ru_authority ?rules, ev_at = clock s\<rparr>"
  from assms(3) obtain e where e: "emit_evaluation_event ?r actor cx s = (Inr (), log_event e s)" by blast
  have "evaluate_policy action actor cx True s = (Inr ?r, log_event e s)"
    by (simp only: evaluate_policy_def assms(1,2) e Let_def bindS_simps option.case prod.case if_True not_True_eq_False if_False)
  moreover have "ev_outcome ?r = ru_outcome ?rules" by simp
  ultimately show ?thesis by blast
qed

text \<open>C21: under enforcement, a forbidden action of the runtime, the router or the broker raises, leaves its entity at
level escalate on the connection, and if the caller commits the entity stays escalated, hence blocked, until T0 acts on
it.\<close>

theorem forbidden_attempt_escalates:
  assumes "map_of DECISION_TYPE_REGISTRY action = Some (pc, ''forbidden'')"
    and "actor \<in> {''runtime'', ''router'', ''broker''}" and "is_enforcement_enabled s" and "events_ok s"
    and "get_escalation_level s (infer_entity_type action cx) (context_entity cx) \<in> set ESCALATION_LEVELS"
    and "without_release ''escalate'' (infer_entity_type action cx) (context_entity cx) calls"
  shows "fst (check_action action actor cx s) = Inl (ForbiddenActionError action actor) \<and>
    severity_of (get_escalation_level (fold gov_step ((True, Check action actor cx) # calls) s)
      (infer_entity_type action cx) (context_entity cx)) = severity_of ''escalate'' \<and>
    is_blocked (fold gov_step ((True, Check action actor cx) # calls) s) (infer_entity_type action cx) (context_entity cx)"
proof -
  let ?ty = "infer_entity_type action cx" and ?i = "context_entity cx"
  have actor: "actor \<in> set ACTORS" and gate: "actor \<notin> set GATE_ACTORS"
    using assms(2) by (auto simp: ACTORS_def GATE_ACTORS_def)
  have "\<exists>e. emit_evaluation_event r actor cx s = (Inr (), log_event e s)" for r
    unfolding emit_evaluation_event_def by (rule log_act_ok [OF assms(4)])
  with actor assms(1) obtain r e where eval: "evaluate_policy action actor cx True s = (Inr r, log_event e s)"
      and "ev_outcome r = ru_outcome (apply_policy_rules action actor ''forbidden'' pc cx)"
    using evaluation_ok by blast
  with rules_decided(1) [OF assms(1)] assms(2) have forbidden: "ev_outcome r = ''forbidden''"
    by (auto simp: decided_outcome_def)
  have same: "levels (log_event e s) = levels s" "env_autonomy (log_event e s) = env_autonomy s"
    by (simp_all add: log_event_def)
  then have on: "is_enforcement_enabled (log_event e s)" using assms(3) by (simp add: is_enforcement_enabled_def)
  from escalate_ok [of "log_event e s" ?ty ?i actor "forbidden_note r"] assms(4,5) level_frame [OF same(1)]
  obtain v s' where esc: "transition_escalation ?ty ?i ''escalate'' actor (forbidden_note r) (log_event e s) = (Inr v, s')"
      and level: "get_escalation_level s' ?ty ?i = ''escalate''" by auto
  have check: "check_action action actor cx s = (Inl (ForbiddenActionError action actor), s')"
    by (simp add: check_action_def eval on forbidden gate esc Let_def)
  then have step: "gov_step (True, Check action actor cx) s = s'" by (simp add: gov_step_def)
  have "severity_of ''escalate'' \<le> severity_of (get_escalation_level (fold gov_step calls s') ?ty ?i)"
    by (rule severity_kept) (simp_all add: level assms(6))
  then have "3 \<le> severity_of (get_escalation_level (fold gov_step calls s') ?ty ?i)" by (simp add: severity_cases)
  moreover have "severity_of l \<le> 3" for l by (simp add: severity_cases)
  ultimately have three: "severity_of (get_escalation_level (fold gov_step calls s') ?ty ?i) = 3" by (simp add: le_antisym)
  have "severity_of ''escalate'' = 3" "severity_of ''hold'' = 2" by (simp_all add: severity_cases)
  with check step three show ?thesis by (simp add: is_blocked_iff)
qed

text \<open>A witness run: the runtime puts a dispatch on hold, the router's attempt to merge escalates it.\<close>

definition g_note :: escalation_note where
  "g_note = \<lparr>en_category = None, en_description = Some ''x'', en_policy_class = None, en_decision_type = None,
            en_retry_count = None, en_budget_remaining = None\<rparr>"

definition g_store :: store where
  "g_store = (snd (transition_escalation ''dispatch'' ''d1'' ''hold'' ''runtime'' g_note (empty_store [] None 0)))
     \<lparr>env_autonomy := Some ''1''\<rparr>"

definition g_calls :: "(bool \<times> gov_call) list" where
  "g_calls = [(True, Transition ''dispatch'' ''d1'' ''info'' ''runtime'' g_note),
              (False, Check ''force_push'' ''router'' g_cx),
              (True, Transition ''dispatch'' ''d2'' ''info'' ''t0'' g_note)]"

lemma blocked_until_released_witness:
  "severity_of ''hold'' \<le> severity_of (get_escalation_level (fold gov_step g_calls g_store) ''dispatch'' ''d1'') \<and>
   is_blocked (fold gov_step g_calls g_store) ''dispatch'' ''d1''"
  by (rule blocked_until_released [of "''hold''" g_store "''dispatch''" "''d1''" g_calls]; code_simp)

lemma forbidden_attempt_escalates_witness:
  "fst (check_action ''branch_merge'' ''router'' g_cx g_store) = Inl (ForbiddenActionError ''branch_merge'' ''router'') \<and>
   severity_of (get_escalation_level (fold gov_step ((True, Check ''branch_merge'' ''router'' g_cx) # g_calls) g_store)
     (infer_entity_type ''branch_merge'' g_cx) (context_entity g_cx)) = severity_of ''escalate'' \<and>
   is_blocked (fold gov_step ((True, Check ''branch_merge'' ''router'' g_cx) # g_calls) g_store)
     (infer_entity_type ''branch_merge'' g_cx) (context_entity g_cx)"
  by (rule forbidden_attempt_escalates [of "''branch_merge''" "''merge''" "''router''" g_store g_cx g_calls]; code_simp)

text \<open>
  A hold that the operator has released once stays resolved when it is put on hold again: the entity is blocked, and neither
  the list of unresolved escalations nor the summary shows it.
\<close>

definition g_again :: store where
  "g_again = fold gov_step
     [(True, Transition ''dispatch'' ''d1'' ''info'' ''operator'' g_note),
      (True, Transition ''dispatch'' ''d1'' ''hold'' ''runtime'' g_note)] g_store"

lemma second_hold_is_not_listed:
  "is_blocked g_again ''dispatch'' ''d1'' \<and> get_unresolved_escalations g_again ''hold'' 100 = [] \<and>
   su_blocking (escalation_summary g_again) = 0"
  by code_simp

text \<open>An override that the operator is granted on an escalated entity raises, and its record stays on the connection.\<close>

lemma refused_override_is_recorded:
  "let s = snd (transition_escalation ''dispatch'' ''d1'' ''escalate'' ''runtime'' g_note g_store);
       q = \<lparr>or_entity_type = ''dispatch'', or_entity = ''d1'', or_actor = ''operator'', or_type = ''hold_release'',
            or_justification = ''j'', or_outcome = ''granted'', or_policy_class = None, or_decision_type = None,
            or_scope = None\<rparr>
   in isl (fst (record_override q s)) \<and> map o_outcome (overrides (snd (record_override q s))) = [''granted'']"
  by code_simp

section \<open>The rows stay well formed\<close>

definition override_valid :: "override_row \<Rightarrow> bool" where
  "override_valid r =
     (o_actor r \<in> set GATE_ACTORS \<and> o_type r \<in> set OVERRIDE_TYPES \<and> py_strip (o_justification r) \<noteq> [] \<and>
      o_outcome r \<in> {''granted'', ''denied''} \<and> (o_outcome r = ''denied'' \<longrightarrow> o_new r = o_previous r) \<and>
      severity_of (o_new r) \<le> severity_of (o_previous r))"

definition governance_ok :: "store \<Rightarrow> bool" where
  "governance_ok s =
     (distinct (map (\<lambda>v. (v_entity_type v, v_entity v)) (levels s)) \<and>
      list_all (\<lambda>v. v_level v \<in> set ESCALATION_LEVELS) (levels s) \<and>
      distinct (map o_id (overrides s)) \<and> list_all override_valid (overrides s))"

lemma governance_frame:
  "levels s' = levels s \<Longrightarrow> overrides s' = overrides s \<Longrightarrow> governance_ok s' = governance_ok s"
  by (simp add: governance_ok_def)

lemma log_act_governance [simp]: "governance_ok (snd (log_act ty et ei f t a r md s)) = governance_ok s"
  by (rule governance_frame) simp_all

lemma upsert_governance:
  assumes "governance_ok s" and "lv \<in> set ESCALATION_LEVELS"
  shows "governance_ok (upsert_escalation_state ty i lv actor note (get_escalation_state s ty i \<noteq> None) s)"
proof (cases "get_escalation_state s ty i")
  case None
  then have "(ty, i) \<notin> (\<lambda>v. (v_entity_type v, v_entity v)) ` set (levels s)"
    by (auto simp: get_escalation_state_def find_None_iff)
  moreover have "upsert_escalation_state ty i lv actor note (get_escalation_state s ty i \<noteq> None) s =
      s\<lparr>levels := levels s @ [new_level_row ty i lv note (clock s)]\<rparr>"
    using None by (simp add: upsert_escalation_state_def Let_def)
  ultimately show ?thesis using assms by (simp add: governance_ok_def new_level_row_def)
next
  case (Some v)
  have all: "list_all (\<lambda>v. v_level v \<in> set ESCALATION_LEVELS) (update_where p f rows)"
    if "list_all (\<lambda>v. v_level v \<in> set ESCALATION_LEVELS) rows" and "\<And>v. v_level (f v) = lv"
    for p rows and f :: "level_row \<Rightarrow> level_row"
    using that assms(2) by (induction rows) auto
  from Some assms show ?thesis
    by (simp add: upsert_escalation_state_def Let_def governance_ok_def map_update_where all)
qed

lemma transition_governance: "governance_ok s \<Longrightarrow> governance_ok (snd (transition_escalation ty i lv actor note s))"
  unfolding transition_escalation_def Let_def
  by (rule bindS_keeps, simp, rule bindS_keeps, simp add: raise_unless_eq, rule bindS_keeps)
     (auto simp: raise_unless_eq intro: upsert_governance simp del: not_None_eq)

lemma lower_or_same: "severity_of (determine_override_level ty prev oc) \<le> severity_of prev"
  by (simp add: determine_override_level_def severity_cases)

lemma insert_override_governance:
  assumes "governance_ok s" and "validate_override_params (or_actor q) (or_type q) (or_justification q) (or_outcome q) = Inr ()"
  shows "governance_ok (snd (insert_override_record oid q prev (determine_override_level (or_type q) prev (or_outcome q)) s))"
proof -
  have valid: "or_actor q \<in> set GATE_ACTORS \<and> or_type q \<in> set OVERRIDE_TYPES \<and> py_strip (or_justification q) \<noteq> [] \<and>
      or_outcome q \<in> {''granted'', ''denied''}"
    using assms(2) by (simp add: validate_override_params_def bindE_eq_Inr guardE_def split: if_split_asm)
  show ?thesis
    unfolding insert_override_record_def
  proof (rule bindS_keeps)
    show "governance_ok (snd (raise_unless (find (\<lambda>r. o_id r = oid) (overrides s) = None)
        (IntegrityError ''UNIQUE constraint failed: governance_overrides.override_id'') s))"
      using assms(1) by simp
  next
    fix x s1
    assume "raise_unless (find (\<lambda>r. o_id r = oid) (overrides s) = None)
        (IntegrityError ''UNIQUE constraint failed: governance_overrides.override_id'') s = (Inr x, s1)"
    then have new: "oid \<notin> o_id ` set (overrides s)" and s1: "s1 = s"
      by (auto simp: raise_unless_eq find_None_iff)
    have "or_outcome q = ''denied'' \<Longrightarrow> determine_override_level (or_type q) prev (or_outcome q) = prev"
      by (simp add: determine_override_level_def)
    then show "governance_ok (snd (log_act ''governance_override'' (or_entity_type q) (or_entity q) (Some prev)
       (Some (determine_override_level (or_type q) prev (or_outcome q))) (or_actor q) (Some (or_justification q))
       [(''override_id'', JStr oid), (''override_type'', JStr (or_type q)), (''outcome'', JStr (or_outcome q)),
        (''policy_class'', json_opt (or_policy_class q)), (''decision_type'', json_opt (or_decision_type q)),
        (''override_scope'', json_opt (or_scope q))]
       (s1\<lparr>overrides := overrides s1 @
            [\<lparr>o_id = oid, o_entity_type = or_entity_type q, o_entity = or_entity q, o_actor = or_actor q,
              o_type = or_type q, o_justification = or_justification q, o_outcome = or_outcome q,
              o_previous = prev, o_new = determine_override_level (or_type q) prev (or_outcome q),
              o_policy_class = or_policy_class q,
              o_decision_type = or_decision_type q, o_scope = or_scope q, o_at = clock s1\<rparr>]\<rparr>)))"
      using assms(1) new valid unfolding s1 by (simp add: governance_ok_def override_valid_def lower_or_same)
  qed
qed

lemma override_governance: "governance_ok s \<Longrightarrow> governance_ok (snd (record_override q s))"
proof -
  assume ok: "governance_ok s"
  have frame: "governance_ok (s\<lparr>uuid_next := n\<rparr>)" if "governance_ok s" for s :: store and n
    using that by (simp add: governance_ok_def)
  show ?thesis
    unfolding record_override_def Let_def
    by (rule bindS_keeps, simp add: ok, rule bindS_keeps)
       (auto intro!: insert_override_governance frame bindS_keeps [of governance_ok] transition_governance)
qed

lemma check_governance: "governance_ok s \<Longrightarrow> governance_ok (snd (check_action action actor cx s))"
proof -
  assume ok: "governance_ok s"
  have "overrides (snd (evaluate_policy action actor cx True s)) = overrides s"
    by (auto simp: evaluate_policy_def emit_evaluation_event_def Let_def bindS_def split: option.split prod.split sum.split)
       (metis log_act_sel(2) snd_conv)+
  with ok have eval: "governance_ok (snd (evaluate_policy action actor cx True s))"
    using governance_frame evaluation_levels by metis
  show ?thesis
    unfolding check_action_def Let_def
    by (rule bindS_keeps, rule eval) (auto intro!: bindS_keeps [of governance_ok] transition_governance)
qed

text \<open>C23: after any sequence of transitions, overrides and checked actions, every entity has one level and it is one of the
four; override identifiers are unique, and every recorded override was asked for by T0 or the operator with a reason, has a
known type and outcome, never raises a level, and leaves it alone when denied.\<close>

theorem governance_rows_stay_well_formed:
  "governance_ok (fold gov_step calls (empty_store with_project project now))"
proof -
  have step: "governance_ok (gov_step kc s)" if "governance_ok s" for kc s
  proof -
    have "governance_ok (snd (call_store (snd kc) s))"
      using that by (cases "snd kc") (simp_all add: transition_governance override_governance check_governance)
    with that show ?thesis by (auto simp: gov_step_def split: prod.split sum.split)
  qed
  have "governance_ok s \<Longrightarrow> governance_ok (fold gov_step calls s)" for s
    by (induction calls arbitrary: s) (simp_all add: step)
  moreover have "governance_ok (empty_store with_project project now)"
    by (simp add: governance_ok_def empty_store_def)
  ultimately show ?thesis by blast
qed

end
