(* ===== verification/Pool_Decisions.thy ===== *)
theory Pool_Decisions
  imports Prelude "HOL-Library.AList" "HOL-Library.Multiset"
begin

text \<open>
  How large a worker pool should be, which of its workers are dead and which providers new workers get:
  \<^verbatim>\<open>scripts/lib/pool_decision_engine.py\<close>, \<^verbatim>\<open>pool_scaling_policies\<close>, \<^verbatim>\<open>pool_reaper.py\<close> and
  \<^verbatim>\<open>pool_provider_allocator.py\<close>. None of it touches a store.

  Instants and durations are whole microseconds, money is whole millionths of a dollar: what the code computes in floats is
  exact here. The text of a reason is kept as its ingredients. What \<^verbatim>\<open>cost_tracker\<close> reads out of the receipts and whether a
  process is alive are arguments.
\<close>

section \<open>Data\<close>

abbreviation second :: int where
  "second \<equiv> 1000000"

definition POOL_HEARTBEAT_STALE_SECONDS :: int where
  "POOL_HEARTBEAT_STALE_SECONDS = 180 * second"

record pool_config =
  pc_id :: string
  pc_min :: int
  pc_max :: int
  pc_policy :: string
  pc_mix :: "string list"
  pc_cooldown :: int
  pc_stale :: int
  pc_ceiling :: "int option"

record membership =
  mb_id :: string
  mb_terminal :: string
  mb_provider :: string
  mb_role :: string
  mb_status :: string
  mb_joined :: int
  mb_heartbeat :: "int option"
  mb_pid :: "int option"

record pool_state =
  pq_depth :: int
  pq_last_scaled :: "int option"
  pq_now :: int

datatype decision_reason =
    Heartbeat_stale nat int
  | Cooldown_active int int
  | Unknown_policy string
  | Target_from_queue int int
  | Target_current int int
  | At_target

record pool_decision =
  pd_action :: string
  pd_delta :: int
  pd_reason :: decision_reason
  pd_targets :: "string list"
  pd_cooldown_remaining :: int

section \<open>Scaling policies\<close>

definition active_members :: "membership list \<Rightarrow> membership list" where
  "active_members members = filter (\<lambda>m. mb_status m = ''active'') members"

definition queue_depth_v1 :: "pool_config \<Rightarrow> pool_state \<Rightarrow> int" where
  "queue_depth_v1 cfg st =
     (let raw_target = - ((- pq_depth st) div 2); target = max (pc_min cfg) raw_target in min target (pc_max cfg))"

text \<open>\<open>cost\<close> is \<^verbatim>\<open>recent_cost_per_hour\<close>, \<open>None\<close> when it cannot be imported or raises.\<close>

type_synonym cost_source = "int \<Rightarrow> string list \<Rightarrow> int option"

definition estimate_hourly_cost :: "cost_source \<Rightarrow> string list \<Rightarrow> int \<Rightarrow> int" where
  "estimate_hourly_cost cost mix target_size =
     (let conservative = target_size * 500000
      in case cost target_size mix of
           None \<Rightarrow> conservative
         | Some r \<Rightarrow> if 0 < r then r else conservative)"

definition cost_aware_v1 :: "cost_source \<Rightarrow> pool_config \<Rightarrow> pool_state \<Rightarrow> membership list \<Rightarrow> int" where
  "cost_aware_v1 cost cfg st members =
     (let proposed = queue_depth_v1 cfg st; active_count = int (length (active_members members))
      in if proposed \<le> active_count then proposed
         else case pc_ceiling cfg of
                None \<Rightarrow> proposed
              | Some limit \<Rightarrow>
                  if limit \<le> 0 then proposed
                  else if limit < estimate_hourly_cost cost (pc_mix cfg) proposed then active_count
                  else proposed)"

definition POLICIES ::
  "cost_source \<Rightarrow> string \<Rightarrow> (pool_config \<Rightarrow> pool_state \<Rightarrow> membership list \<Rightarrow> int) option" where
  "POLICIES cost name = map_of
     [(''fixed'', \<lambda>cfg _ _. pc_min cfg),
      (''queue_depth_v1'', \<lambda>cfg st _. queue_depth_v1 cfg st),
      (''queue_aware'', \<lambda>cfg st _. queue_depth_v1 cfg st),
      (''cost_aware_v1'', cost_aware_v1 cost)] name"

section \<open>The decision\<close>

definition is_stale :: "membership \<Rightarrow> int \<Rightarrow> int \<Rightarrow> bool" where
  "is_stale m now threshold =
     (case mb_heartbeat m of None \<Rightarrow> threshold < now - mb_joined m | Some t \<Rightarrow> threshold < now - t)"

definition noop :: "decision_reason \<Rightarrow> pool_decision" where
  "noop reason = \<lparr>pd_action = ''noop'', pd_delta = 0, pd_reason = reason, pd_targets = [], pd_cooldown_remaining = 0\<rparr>"

definition scaling_decision :: "pool_state \<Rightarrow> membership list \<Rightarrow> int \<Rightarrow> pool_decision" where
  "scaling_decision st active target =
     (let current = int (length active); delta = target - current
      in if 0 < delta
         then (noop (Target_from_queue target (pq_depth st)))\<lparr>pd_action := ''scale_up'', pd_delta := delta\<rparr>
         else if delta < 0
         then (noop (Target_current target current))
                \<lparr>pd_action := ''scale_down'', pd_delta := delta,
                 pd_targets := map mb_id (take (nat \<bar>delta\<bar>) (sort_key mb_joined active))\<rparr>
         else noop At_target)"

definition cooldown_left :: "pool_config \<Rightarrow> pool_state \<Rightarrow> int option" where
  "cooldown_left cfg st =
     (case pq_last_scaled st of
        None \<Rightarrow> None
      | Some t \<Rightarrow> if pq_now st - t < pc_cooldown cfg then Some (pc_cooldown cfg - (pq_now st - t)) else None)"

definition decide :: "cost_source \<Rightarrow> pool_config \<Rightarrow> pool_state \<Rightarrow> membership list \<Rightarrow> pool_decision" where
  "decide cost cfg st members =
     (let active = active_members members;
          stale = filter (\<lambda>m. is_stale m (pq_now st) (pc_stale cfg)) active
      in if stale \<noteq> []
         then (noop (Heartbeat_stale (length stale) (pc_stale cfg)))\<lparr>pd_action := ''reap'', pd_targets := map mb_id stale\<rparr>
         else case cooldown_left cfg st of
                Some remaining \<Rightarrow>
                  (noop (Cooldown_active (pc_cooldown cfg - remaining) (pc_cooldown cfg)))\<lparr>pd_cooldown_remaining := remaining\<rparr>
              | None \<Rightarrow>
                  (case POLICIES cost (pc_policy cfg) of
                     None \<Rightarrow> noop (Unknown_policy (pc_policy cfg))
                   | Some policy \<Rightarrow> scaling_decision st active (policy cfg st members)))"

section \<open>The reaper\<close>

datatype reap_reason = Never_heartbeat int int | Heartbeat_age int int | Pid_dead int

record reap_target =
  rt_id :: string
  rt_terminal :: string
  rt_pid :: "int option"
  rt_reason :: reap_reason

record reap_config =
  rc_stale :: int
  rc_stuck :: int
  rc_warmup :: int

definition default_reap_config :: reap_config where
  "default_reap_config =
     \<lparr>rc_stale = POOL_HEARTBEAT_STALE_SECONDS, rc_stuck = 300 * second, rc_warmup = 120 * second\<rparr>"

definition reap_target_of :: "membership \<Rightarrow> reap_reason \<Rightarrow> reap_target" where
  "reap_target_of m reason = \<lparr>rt_id = mb_id m, rt_terminal = mb_terminal m, rt_pid = mb_pid m, rt_reason = reason\<rparr>"

definition reap_verdict :: "int \<Rightarrow> reap_config \<Rightarrow> membership \<Rightarrow> reap_target option" where
  "reap_verdict now cfg m =
     (let worker_age = now - mb_joined m
      in if mb_status m \<noteq> ''active'' then None
         else if worker_age < rc_warmup cfg then None
         else case mb_heartbeat m of
                None \<Rightarrow> if rc_stale cfg < worker_age
                        then Some (reap_target_of m (Never_heartbeat worker_age (rc_stale cfg))) else None
              | Some t \<Rightarrow> if rc_stale cfg < now - t
                        then Some (reap_target_of m (Heartbeat_age (now - t) (rc_stale cfg))) else None)"

definition identify_reap_targets :: "membership list \<Rightarrow> int \<Rightarrow> reap_config \<Rightarrow> reap_target list" where
  "identify_reap_targets members now cfg = List.map_filter (reap_verdict now cfg) members"

text \<open>\<open>running\<close> is the probe \<^verbatim>\<open>os.kill(pid, 0)\<close>.\<close>

definition is_pid_alive :: "(int \<Rightarrow> bool) \<Rightarrow> int option \<Rightarrow> bool" where
  "is_pid_alive running pid = (case pid of None \<Rightarrow> False | Some n \<Rightarrow> 0 < n \<and> running n)"

definition dead_pid_verdict :: "(int \<Rightarrow> bool) \<Rightarrow> membership \<Rightarrow> reap_target option" where
  "dead_pid_verdict running m =
     (if mb_status m \<noteq> ''active'' then None
      else case mb_pid m of
             None \<Rightarrow> None
           | Some pid \<Rightarrow> if pid \<le> 0 then None
                         else if \<not> is_pid_alive running (mb_pid m) then Some (reap_target_of m (Pid_dead pid)) else None)"

definition identify_dead_pid_targets :: "(int \<Rightarrow> bool) \<Rightarrow> membership list \<Rightarrow> reap_target list" where
  "identify_dead_pid_targets running members = List.map_filter (dead_pid_verdict running) members"

section \<open>Providers for new workers\<close>

text \<open>A dictionary of counts, in insertion order; a missing key counts zero.\<close>

type_synonym counts = "(string \<times> int) list"

definition count_of :: "counts \<Rightarrow> string \<Rightarrow> int" where
  "count_of d p = (case map_of d p of None \<Rightarrow> 0 | Some n \<Rightarrow> n)"

definition counter :: "string list \<Rightarrow> counts" where
  "counter xs = fold (\<lambda>x d. AList.update x (count_of d x + 1) d) xs []"

text \<open>Python's \<^verbatim>\<open>round\<close> of a quotient: to the nearest integer, halves to the even one.\<close>

definition round_quotient :: "int \<Rightarrow> int \<Rightarrow> int" where
  "round_quotient a b =
     (let q = a div b; r = 2 * (a mod b)
      in if r < b then q else if b < r then q + 1 else if even q then q else q + 1)"

fun fill_shares :: "counts \<Rightarrow> int \<Rightarrow> int \<Rightarrow> int \<Rightarrow> counts" where
  "fill_shares [] pool_size mix_size remaining = []"
| "fill_shares [(provider, _)] pool_size mix_size remaining = [(provider, remaining)]"
| "fill_shares ((provider, mix_count) # rest) pool_size mix_size remaining =
     (let share = round_quotient (pool_size * mix_count) mix_size
      in (provider, share) # fill_shares rest pool_size mix_size (remaining - share))"

definition compute_target_shares :: "string list \<Rightarrow> int \<Rightarrow> counts" where
  "compute_target_shares provider_mix pool_size =
     (if provider_mix = [] then []
      else let sorted_providers = sort_key (\<lambda>x. - snd x) (counter provider_mix);
               target = fill_shares sorted_providers pool_size (int (length provider_mix)) pool_size;
               total = sum_list (map snd target)
           in if total \<noteq> pool_size
              then let first = fst (hd sorted_providers)
                   in AList.update first (count_of target first + (pool_size - total)) target
              else target)"

text \<open>\<^verbatim>\<open>max\<close> and \<^verbatim>\<open>min\<close> over a list return the first of several extreme elements.\<close>

fun first_best :: "('a \<Rightarrow> 'a \<Rightarrow> bool) \<Rightarrow> 'a \<Rightarrow> 'a list \<Rightarrow> 'a" where
  "first_best better best [] = best"
| "first_best better best (x # xs) = first_best better (if better x best then x else best) xs"

definition wider_gap :: "string \<times> int \<Rightarrow> string \<times> int \<Rightarrow> bool" where
  "wider_gap x y =
     (snd y < snd x \<or> snd x = snd y \<and> (of_char (hd (fst x)) :: nat) < of_char (hd (fst y)))"

definition share_gaps :: "counts \<Rightarrow> counts \<Rightarrow> counts" where
  "share_gaps target_shares pending = map (\<lambda>(p, t). (p, t - count_of pending p)) target_shares"

definition positive :: "counts \<Rightarrow> counts" where
  "positive d = filter (\<lambda>x. 0 < snd x) d"

definition choose_provider :: "counts \<Rightarrow> counts \<Rightarrow> exn + string option" where
  "choose_provider target_shares pending =
     (case positive (share_gaps target_shares pending) of
        [] \<Rightarrow> Inr None
      | x # xs \<Rightarrow> if [] \<in> fst ` set (x # xs) then Inl IndexError
                  else Inr (Some (fst (first_best wider_gap x xs))))"

text \<open>The providers in the order of the slots, and those chosen as fallback.\<close>

fun allocate_slots :: "nat \<Rightarrow> counts \<Rightarrow> string \<Rightarrow> counts \<Rightarrow> exn + (string list \<times> string list)" where
  "allocate_slots 0 target_shares fallback pending = Inr ([], [])"
| "allocate_slots (Suc n) target_shares fallback pending =
     bindE (choose_provider target_shares pending) (\<lambda>c.
     let chosen = (case c of None \<Rightarrow> fallback | Some p \<Rightarrow> p);
         used = (case c of None \<Rightarrow> [fallback] | Some _ \<Rightarrow> [])
     in bindE (allocate_slots n target_shares fallback (AList.update chosen (count_of pending chosen + 1) pending))
          (\<lambda>(providers, fallback_used). Inr (chosen # providers, used @ fallback_used)))"

definition allocate_for_scale_up ::
  "membership list \<Rightarrow> string list \<Rightarrow> int \<Rightarrow> string \<Rightarrow> exn + (string list \<times> string list)" where
  "allocate_for_scale_up members provider_mix delta fallback =
     (if delta \<le> 0 then Inr ([], [])
      else if provider_mix = [] then Inr (replicate (nat delta) fallback, replicate (nat delta) fallback)
      else let active = active_members members;
               target_shares = compute_target_shares provider_mix (int (length active) + delta)
           in allocate_slots (nat delta) target_shares fallback (counter (map mb_provider active)))"

section \<open>Workers to release\<close>

definition older :: "membership \<Rightarrow> membership \<Rightarrow> bool" where
  "older x y = (mb_joined x < mb_joined y)"

text \<open>An empty provider name counts as no provider.\<close>

definition overfull_provider :: "counts \<Rightarrow> string option" where
  "overfull_provider excess =
     (case positive excess of
        [] \<Rightarrow> None
      | x # xs \<Rightarrow> (let p = fst (first_best (\<lambda>x y. snd y < snd x) x xs) in if p = [] then None else Some p))"

fun pick_victims :: "nat \<Rightarrow> membership list \<Rightarrow> counts \<Rightarrow> membership list \<Rightarrow> membership list" where
  "pick_victims 0 active excess candidates = candidates"
| "pick_victims (Suc n) active excess candidates =
     (let chosen_provider = overfull_provider excess;
          pool = filter (\<lambda>m. m \<notin> set candidates)
                   (case chosen_provider of None \<Rightarrow> active | Some p \<Rightarrow> filter (\<lambda>m. mb_provider m = p) active)
      in case pool of
           [] \<Rightarrow> candidates
         | m # ms \<Rightarrow>
             pick_victims n active
               (case chosen_provider of None \<Rightarrow> excess | Some p \<Rightarrow> AList.update p (count_of excess p - 1) excess)
               (candidates @ [first_best older m ms]))"

definition select_for_scale_down :: "membership list \<Rightarrow> string list \<Rightarrow> int \<Rightarrow> string list" where
  "select_for_scale_down members provider_mix delta =
     (if 0 \<le> delta then []
      else let active = active_members members;
               target_shares = compute_target_shares provider_mix (max (int (length active) + delta) 0);
               current_shares = counter (map mb_provider active);
               excess = map (\<lambda>(p, n). (p, n - count_of target_shares p)) current_shares
           in map mb_id (pick_victims (nat (- delta)) active excess []))"


section \<open>Counting\<close>

lemma count_of_update [simp]: "count_of (AList.update k v d) p = (if p = k then v else count_of d p)"
  by (simp add: count_of_def update_conv')

lemma count_of_Nil [simp]: "count_of [] p = 0"
  by (simp add: count_of_def)

lemma counter_from:
  "count_of (fold (\<lambda>x d. AList.update x (count_of d x + 1) d) xs d) p = count_of d p + int (count_list xs p)"
  by (induction xs arbitrary: d) auto

lemma image_fst_update: "fst ` set (AList.update k v d) = insert k (fst ` set d)"
  by (simp add: AList.dom_update dom_map_of_conv_image_fst [symmetric] update_conv')

lemma counter_keys:
  "fst ` set (fold (\<lambda>x d. AList.update x (count_of d x + 1) d) xs d) = fst ` set d \<union> set xs"
  by (induction xs arbitrary: d) (auto simp: image_fst_update)

lemma counter_distinct:
  "distinct (map fst d) \<Longrightarrow> distinct (map fst (fold (\<lambda>x d. AList.update x (count_of d x + 1) d) xs d))"
  by (induction xs arbitrary: d) (auto intro: distinct_update)

lemma count_of_counter [simp]: "count_of (counter xs) p = int (count_list xs p)"
  by (simp add: counter_def counter_from)

lemma keys_counter [simp]: "fst ` set (counter xs) = set xs"
  by (simp add: counter_def counter_keys)

lemma distinct_counter [simp]: "distinct (map fst (counter xs))"
  by (simp add: counter_def counter_distinct)

lemma count_of_mem: "distinct (map fst d) \<Longrightarrow> (p, t) \<in> set d \<Longrightarrow> count_of d p = t"
  by (simp add: count_of_def)

lemma sum_counts:
  "distinct (map fst d) \<Longrightarrow> sum_list (map (\<lambda>(p, t). f p t) d) = (\<Sum>p \<in> fst ` set d. f p (count_of d p))"
proof (induction d)
  case (Cons x d)
  have "(\<Sum>p \<in> fst ` set d. f p (count_of (x # d) p)) = (\<Sum>p \<in> fst ` set d. f p (count_of d p))"
    using Cons.prems by (intro sum.cong) (auto simp: count_of_def image_iff)
  moreover have "count_of (x # d) (fst x) = snd x" by (simp add: count_of_def)
  ultimately show ?case using Cons by (simp add: case_prod_beta)
qed simp

lemma sum_counts_snd: "distinct (map fst d) \<Longrightarrow> sum_list (map snd d) = (\<Sum>p \<in> fst ` set d. count_of d p)"
proof -
  assume "distinct (map fst d)"
  then have "sum_list (map (\<lambda>(p, t). t) d) = (\<Sum>p \<in> fst ` set d. count_of d p)"
    by (rule sum_counts [of d "\<lambda>p t. t"])
  moreover have "map (\<lambda>(p, t). t) d = map snd d" by auto
  ultimately show ?thesis by simp
qed

lemma sum_count_list_le: "finite X \<Longrightarrow> (\<Sum>p \<in> X. int (count_list xs p)) \<le> int (length xs)"
proof -
  assume fin: "finite X"
  have "(\<Sum>p \<in> X. count_list xs p) \<le> (\<Sum>p \<in> X \<union> set xs. count_list xs p)"
    by (rule sum_mono2) (use fin in auto)
  also have "\<dots> = length xs" by (rule sum_count_set) (use fin in auto)
  finally show ?thesis by (simp flip: of_nat_sum)
qed

lemma sum_count_list_eq: "finite X \<Longrightarrow> set xs \<subseteq> X \<Longrightarrow> (\<Sum>p \<in> X. int (count_list xs p)) = int (length xs)"
  using sum_count_set [of xs X] by (simp flip: of_nat_sum)

lemma first_best_mem: "first_best better x xs \<in> set (x # xs)"
  by (induction xs arbitrary: x) (auto split: if_splits)

section \<open>Target shares\<close>

lemma fill_shares_keys: "map fst (fill_shares d pool_size mix_size remaining) = map fst d"
  by (induction d pool_size mix_size remaining rule: fill_shares.induct) (auto simp: Let_def)

lemma fill_shares_sum: "d \<noteq> [] \<Longrightarrow> sum_list (map snd (fill_shares d pool_size mix_size remaining)) = remaining"
  by (induction d pool_size mix_size remaining rule: fill_shares.induct) (auto simp: Let_def)

text \<open>The shares always add up, so the code's correction of the first share never applies.\<close>

lemma target_shares:
  assumes "provider_mix \<noteq> []"
  shows "sum_list (map snd (compute_target_shares provider_mix n)) = n"
    and "distinct (map fst (compute_target_shares provider_mix n))"
    and "fst ` set (compute_target_shares provider_mix n) = set provider_mix"
proof -
  let ?d = "sort_key (\<lambda>x. - snd x) (counter provider_mix)"
  let ?t = "fill_shares ?d n (int (length provider_mix)) n"
  have keys: "fst ` set ?d = set provider_mix" by simp
  with assms have "?d \<noteq> []" by (metis image_empty list.set(1) set_empty)
  then have sum: "sum_list (map snd ?t) = n" by (rule fill_shares_sum)
  then have t: "compute_target_shares provider_mix n = ?t"
    using assms by (simp add: compute_target_shares_def Let_def)
  have "distinct (map fst ?d)"
  proof -
    have "mset (map fst ?d) = mset (map fst (counter provider_mix))" by simp
    then show ?thesis using distinct_counter mset_eq_imp_distinct_iff by blast
  qed
  with sum keys show "sum_list (map snd (compute_target_shares provider_mix n)) = n"
    "distinct (map fst (compute_target_shares provider_mix n))"
    "fst ` set (compute_target_shares provider_mix n) = set provider_mix"
    unfolding t by (simp_all add: fill_shares_keys) (metis fill_shares_keys image_set keys)
qed

section \<open>Allocation\<close>

definition shortfall :: "counts \<Rightarrow> counts \<Rightarrow> int" where
  "shortfall target_shares pending = (\<Sum>p \<in> fst ` set target_shares. max 0 (count_of target_shares p - count_of pending p))"

lemma shortfall_step:
  assumes "p \<in> fst ` set target_shares" and "count_of pending p < count_of target_shares p"
  shows "shortfall target_shares (AList.update p (count_of pending p + 1) pending) = shortfall target_shares pending - 1"
proof -
  let ?X = "fst ` set target_shares" and ?f = "\<lambda>d q. max 0 (count_of target_shares q - count_of d q)"
  have "(\<Sum>q \<in> ?X - {p}. ?f (AList.update p (count_of pending p + 1) pending) q) = (\<Sum>q \<in> ?X - {p}. ?f pending q)"
    by (rule sum.cong) auto
  with assms show ?thesis by (simp add: shortfall_def sum.remove [of ?X p])
qed

lemma choose_provider_gap:
  assumes "distinct (map fst target_shares)" and "[] \<notin> fst ` set target_shares" and "0 < shortfall target_shares pending"
  shows "\<exists>p. choose_provider target_shares pending = Inr (Some p) \<and> p \<in> fst ` set target_shares \<and>
    count_of pending p < count_of target_shares p"
proof -
  let ?gaps = "positive (share_gaps target_shares pending)"
  have gap: "fst x \<in> fst ` set target_shares \<and> count_of pending (fst x) < count_of target_shares (fst x)"
    if "x \<in> set ?gaps" for x
    using that count_of_mem [OF assms(1)] by (force simp: positive_def share_gaps_def)
  have "?gaps \<noteq> []"
  proof
    assume none: "?gaps = []"
    have "max 0 (count_of target_shares p - count_of pending p) = 0" if "p \<in> fst ` set target_shares" for p
    proof -
      from that obtain t where t: "(p, t) \<in> set target_shares" by auto
      with none have "t \<le> count_of pending p" by (force simp: positive_def share_gaps_def filter_empty_conv)
      with count_of_mem [OF assms(1) t] show ?thesis by simp
    qed
    with assms(3) show False by (simp add: shortfall_def)
  qed
  then obtain x xs where xs: "?gaps = x # xs" by (cases ?gaps) auto
  let ?p = "fst (first_best wider_gap x xs)"
  have "[] \<notin> fst ` set (x # xs)" using gap assms(2) unfolding xs [symmetric] by force
  with xs have "choose_provider target_shares pending = Inr (Some ?p)" by (simp add: choose_provider_def)
  moreover have "first_best wider_gap x xs \<in> set ?gaps" using first_best_mem [of wider_gap x xs] by (simp add: xs)
  ultimately show ?thesis using gap by blast
qed

lemma allocate_slots_gaps:
  assumes "distinct (map fst target_shares)" and "[] \<notin> fst ` set target_shares" and "int n \<le> shortfall target_shares pending"
  shows "\<exists>ps. allocate_slots n target_shares fallback pending = Inr (ps, []) \<and> length ps = n \<and>
    set ps \<subseteq> fst ` set target_shares \<and>
    (\<forall>p. int (count_list ps p) \<le> max 0 (count_of target_shares p - count_of pending p))"
  using assms(3)
proof (induction n arbitrary: pending)
  case (Suc n)
  from Suc.prems have "0 < shortfall target_shares pending" by simp
  from choose_provider_gap [OF assms(1,2) this] obtain p where p: "choose_provider target_shares pending = Inr (Some p)"
      "p \<in> fst ` set target_shares" "count_of pending p < count_of target_shares p" by blast
  let ?next = "AList.update p (count_of pending p + 1) pending"
  from Suc.prems shortfall_step [OF p(2,3)] have "int n \<le> shortfall target_shares ?next" by simp
  from Suc.IH [OF this] obtain ps where ps: "allocate_slots n target_shares fallback ?next = Inr (ps, [])" "length ps = n"
      "set ps \<subseteq> fst ` set target_shares"
      and le: "\<And>q. int (count_list ps q) \<le> max 0 (count_of target_shares q - count_of ?next q)" by blast
  have "int (count_list (p # ps) q) \<le> max 0 (count_of target_shares q - count_of pending q)" for q
    using le [of q] p(3) by (auto split: if_splits)
  with ps p(1,2) show ?case by (intro exI [of _ "p # ps"]) (simp add: Let_def)
qed simp

definition working_providers :: "membership list \<Rightarrow> string list" where
  "working_providers members = map mb_provider (active_members members)"

text \<open>The share of a provider in a pool of \<open>n\<close> workers.\<close>

abbreviation share_of :: "string list \<Rightarrow> int \<Rightarrow> string \<Rightarrow> int" where
  "share_of provider_mix n \<equiv> count_of (compute_target_shares provider_mix n)"

lemma sum_target_shares:
  "provider_mix \<noteq> [] \<Longrightarrow> (\<Sum>p \<in> set provider_mix. count_of (compute_target_shares provider_mix n) p) = n"
  using sum_counts_snd [OF target_shares(2)] target_shares(1,3) by metis

text \<open>A scale-up always finds a provider below its share, so the fallback provider the module's text speaks of is never
used; and when no provider was above its share before, every provider has exactly its share afterwards.\<close>

lemma scale_up_fills_the_shares:
  assumes "provider_mix \<noteq> []" and "[] \<notin> set provider_mix" and "0 < delta"
  shows "\<exists>ps. allocate_for_scale_up members provider_mix delta fallback = Inr (ps, []) \<and> int (length ps) = delta \<and>
    set ps \<subseteq> set provider_mix \<and>
    (\<forall>p. int (count_list ps p) \<le>
       max 0 (share_of provider_mix (int (length (working_providers members)) + delta) p - int (count_list (working_providers members) p))) \<and>
    (set (working_providers members) \<subseteq> set provider_mix \<and>
     (\<forall>p \<in> set provider_mix. int (count_list (working_providers members) p) \<le>
        share_of provider_mix (int (length (working_providers members)) + delta) p) \<longrightarrow>
     (\<forall>p \<in> set provider_mix. int (count_list (working_providers members @ ps) p) =
        share_of provider_mix (int (length (working_providers members)) + delta) p))"
proof -
  let ?w = "working_providers members" and ?M = "set provider_mix"
  let ?n = "int (length ?w) + delta"
  let ?t = "compute_target_shares provider_mix ?n"
  note shares = target_shares [OF assms(1), of ?n]
  have total: "(\<Sum>p \<in> ?M. count_of ?t p) = ?n" by (rule sum_target_shares [OF assms(1)])
  have "delta \<le> (\<Sum>p \<in> ?M. count_of ?t p - int (count_list ?w p))"
    using total sum_count_list_le [of ?M ?w] by (simp add: sum_subtractf)
  also have "\<dots> \<le> (\<Sum>p \<in> ?M. max 0 (count_of ?t p - int (count_list ?w p)))" by (rule sum_mono) simp
  also have "\<dots> = shortfall ?t (counter ?w)" by (simp add: shortfall_def shares(3))
  finally have "int (nat delta) \<le> shortfall ?t (counter ?w)" using assms(3) by simp
  moreover have "[] \<notin> fst ` set ?t" using assms(2) by (simp add: shares(3))
  ultimately obtain ps where slots: "allocate_slots (nat delta) ?t fallback (counter ?w) = Inr (ps, [])"
      and len: "length ps = nat delta" and sub: "set ps \<subseteq> ?M"
      and le: "\<And>p. int (count_list ps p) \<le> max 0 (count_of ?t p - int (count_list ?w p))"
    using allocate_slots_gaps [OF shares(2), of "nat delta" "counter ?w" fallback] by (auto simp: shares(3))
  have alloc: "allocate_for_scale_up members provider_mix delta fallback = Inr (ps, [])"
    using assms(1,3) slots by (simp add: allocate_for_scale_up_def Let_def working_providers_def)
  have exact: "int (count_list (?w @ ps) p) = count_of ?t p"
    if inside: "set ?w \<subseteq> ?M" and room: "\<forall>p \<in> ?M. int (count_list ?w p) \<le> count_of ?t p" and p: "p \<in> ?M" for p
  proof -
    let ?rest = "\<lambda>p. count_of ?t p - int (count_list (?w @ ps) p)"
    have "(\<Sum>p \<in> ?M. int (count_list (?w @ ps) p)) = ?n"
      using sum_count_list_eq [of ?M "?w @ ps"] inside sub len assms(3) by simp
    then have "(\<Sum>p \<in> ?M. ?rest p) = 0" using total by (simp add: sum_subtractf)
    moreover have "0 \<le> ?rest q" if "q \<in> ?M" for q using le [of q] room that by (simp add: count_list_append)
    ultimately have "?rest p = 0" using p by (subst (asm) sum_nonneg_eq_0_iff) auto
    then show ?thesis by simp
  qed
  from alloc len sub le exact assms(3) show ?thesis by auto
qed

definition pool_mix_demo :: "string list" where
  "pool_mix_demo = [''claude'', ''claude'', ''codex'']"

definition demo_member :: "string \<Rightarrow> string \<Rightarrow> int \<Rightarrow> membership" where
  "demo_member i provider joined =
     \<lparr>mb_id = i, mb_terminal = i, mb_provider = provider, mb_role = ''backend-developer'', mb_status = ''active'',
      mb_joined = joined, mb_heartbeat = None, mb_pid = None\<rparr>"

lemma scale_up_fills_the_shares_witness:
  "\<exists>ps. allocate_for_scale_up [demo_member ''m'' ''claude'' 0] pool_mix_demo 5 ''claude'' = Inr (ps, []) \<and>
     int (length ps) = 5 \<and> int (count_list ([''claude''] @ ps) ''codex'') = 2"
proof -
  have w: "working_providers [demo_member ''m'' ''claude'' 0] = [''claude'']"
    by (simp add: working_providers_def active_members_def demo_member_def)
  have shares: "share_of pool_mix_demo 6 ''claude'' = 4" "share_of pool_mix_demo 6 ''codex'' = 2"
    by (simp_all add: pool_mix_demo_def) code_simp+
  have mix: "set pool_mix_demo = {''claude'', ''codex''}" by (auto simp: pool_mix_demo_def)
  have "pool_mix_demo \<noteq> []" "[] \<notin> set pool_mix_demo" "(0 :: int) < 5" by (simp_all add: pool_mix_demo_def)
  from scale_up_fills_the_shares [OF this, of "[demo_member ''m'' ''claude'' 0]" "''claude''"]
  obtain ps where ps: "allocate_for_scale_up [demo_member ''m'' ''claude'' 0] pool_mix_demo 5 ''claude'' = Inr (ps, [])"
      "int (length ps) = 5"
    and full: "set [''claude''] \<subseteq> set pool_mix_demo \<and>
      (\<forall>p \<in> set pool_mix_demo. int (count_list [''claude''] p) \<le> share_of pool_mix_demo 6 p) \<longrightarrow>
      (\<forall>p \<in> set pool_mix_demo. int (count_list ([''claude''] @ ps) p) = share_of pool_mix_demo 6 p)"
    unfolding w by auto
  from full have "int (count_list ([''claude''] @ ps) ''codex'') = 2" by (simp add: mix shares)
  with ps show ?thesis by blast
qed







text \<open>With six providers for four workers the last one's share is negative; a scale-down by two then finds one worker.\<close>

lemma negative_share:
  "share_of [''a'', ''b'', ''c'', ''d'', ''e'', ''f''] 4 ''f'' = - 1 \<and>
   select_for_scale_down (map (\<lambda>p. demo_member p p 0) [''a'', ''b'', ''c'', ''d'', ''e'', ''f''])
     [''a'', ''b'', ''c'', ''d'', ''e'', ''f''] (- 2) = [''f'']"
  by code_simp

text \<open>The example of the module: three of four workers go to the provider that is named twice.\<close>

lemma no_fallback_for_four:
  "allocate_for_scale_up [] pool_mix_demo 4 ''claude'' = Inr ([''claude'', ''claude'', ''claude'', ''codex''], [])"
  by code_simp

section \<open>What a decision promises\<close>

lemma queue_depth_bounds:
  "pc_min cfg \<le> pc_max cfg \<Longrightarrow> pc_min cfg \<le> queue_depth_v1 cfg st \<and> queue_depth_v1 cfg st \<le> pc_max cfg"
  by (simp add: queue_depth_v1_def Let_def)

definition affordable :: "cost_source \<Rightarrow> pool_config \<Rightarrow> int \<Rightarrow> bool" where
  "affordable cost cfg target =
     (pc_policy cfg = ''cost_aware_v1'' \<longrightarrow>
        (case pc_ceiling cfg of None \<Rightarrow> True
         | Some limit \<Rightarrow> limit \<le> 0 \<or> estimate_hourly_cost cost (pc_mix cfg) target \<le> limit))"

lemma policy_bounds:
  fixes members :: "membership list" and st :: pool_state
  assumes "POLICIES cost (pc_policy cfg) = Some policy" and "pc_min cfg \<le> pc_max cfg"
  defines "current \<equiv> int (length (active_members members))" and "target \<equiv> policy cfg st members"
  shows "target = current \<or> pc_min cfg \<le> target \<and> target \<le> pc_max cfg"
    and "current < target \<Longrightarrow> affordable cost cfg target"
proof -
  from assms(1) consider
      "pc_policy cfg = ''fixed''" "policy = (\<lambda>cfg _ _. pc_min cfg)"
    | "pc_policy cfg \<in> {''queue_depth_v1'', ''queue_aware''}" "policy = (\<lambda>cfg st _. queue_depth_v1 cfg st)"
    | "pc_policy cfg = ''cost_aware_v1''" "policy = cost_aware_v1 cost"
    by (auto simp: POLICIES_def split: if_split_asm)
  then have "(target = current \<or> pc_min cfg \<le> target \<and> target \<le> pc_max cfg) \<and> (current < target \<longrightarrow> affordable cost cfg target)"
  proof cases
    case 3
    with queue_depth_bounds [OF assms(2), of st] show ?thesis
      by (auto simp: target_def current_def cost_aware_v1_def affordable_def Let_def split: option.split)
  qed (use assms(2) queue_depth_bounds [OF assms(2), of st] in \<open>auto simp: target_def affordable_def\<close>)
  then show "target = current \<or> pc_min cfg \<le> target \<and> target \<le> pc_max cfg"
    and "current < target \<Longrightarrow> affordable cost cfg target" by simp_all
qed

lemma sorted_take_drop:
  assumes "x \<in> set (take n (sort_key f xs))" and "y \<in> set (drop n (sort_key f xs))"
  shows "(f x :: int) \<le> f y"
proof -
  have "sorted (map f (take n (sort_key f xs) @ drop n (sort_key f xs)))" by simp
  with assms show ?thesis by (auto simp: sorted_append simp del: append_take_drop_id)
qed

lemma decision_limits:
  assumes "0 \<le> pc_min cfg" and "pc_min cfg \<le> pc_max cfg" and "decide cost cfg st members = d"
  shows "pd_action d \<in> {''noop'', ''scale_up'', ''scale_down'', ''reap''} \<and>
    (pd_action d = ''scale_up'' \<longrightarrow>
       0 < pd_delta d \<and> int (length (active_members members)) + pd_delta d \<le> pc_max cfg \<and>
       affordable cost cfg (int (length (active_members members)) + pd_delta d)) \<and>
    (pd_action d \<in> {''scale_up'', ''scale_down''} \<longrightarrow>
       list_all (\<lambda>m. \<not> is_stale m (pq_now st) (pc_stale cfg)) (active_members members) \<and> cooldown_left cfg st = None) \<and>
    (pd_action d = ''scale_down'' \<longrightarrow>
       pc_min cfg \<le> int (length (active_members members)) + pd_delta d \<and>
       (\<exists>released kept. mset released + mset kept = mset (active_members members) \<and>
          pd_targets d = map mb_id released \<and> int (length released) = - pd_delta d \<and>
          (\<forall>x \<in> set released. \<forall>y \<in> set kept. mb_joined x \<le> mb_joined y))) \<and>
    (pd_action d = ''reap'' \<longrightarrow>
       pd_targets d = map mb_id (filter (\<lambda>m. is_stale m (pq_now st) (pc_stale cfg)) (active_members members)))"
proof -
  let ?active = "active_members members"
  let ?stale = "filter (\<lambda>m. is_stale m (pq_now st) (pc_stale cfg)) ?active"
  show ?thesis
  proof (cases "?stale = [] \<and> cooldown_left cfg st = None \<and> POLICIES cost (pc_policy cfg) \<noteq> None")
    case False
    with assms(3) show ?thesis
      by (auto simp: decide_def noop_def Let_def split: option.split_asm if_split_asm)
  next
    case True
    then obtain policy where policy: "POLICIES cost (pc_policy cfg) = Some policy" by blast
    let ?target = "policy cfg st members" and ?current = "int (length ?active)"
    have fresh: "list_all (\<lambda>m. \<not> is_stale m (pq_now st) (pc_stale cfg)) ?active"
      using True by (auto simp: list_all_iff filter_empty_conv)
    have d: "d = scaling_decision st ?active ?target" using True assms(3) policy by (simp add: decide_def Let_def)
    note bounds = policy_bounds [where members = members and st = st, OF policy assms(2)]
    consider "?current < ?target" | "?target < ?current" | "?target = ?current" by linarith
    then show ?thesis
    proof cases
      case 1
      with bounds fresh True show ?thesis by (simp add: d scaling_decision_def noop_def Let_def)
    next
      case 2
      let ?sorted = "sort_key mb_joined ?active" and ?k = "nat (?current - ?target)"
      have k: "?k \<le> length ?active" using bounds(1) assms(1) 2 by auto
      have "mset (take ?k ?sorted) + mset (drop ?k ?sorted) = mset ?active"
        by (metis append_take_drop_id mset_append mset_sort)
      moreover have "int (length (take ?k ?sorted)) = ?current - ?target" using k 2 by simp
      ultimately have "\<exists>released kept. mset released + mset kept = mset ?active \<and>
          map mb_id (take ?k ?sorted) = map mb_id released \<and> int (length released) = ?current - ?target \<and>
          (\<forall>x \<in> set released. \<forall>y \<in> set kept. mb_joined x \<le> mb_joined y)"
        using sorted_take_drop [of _ ?k mb_joined ?active] by blast
      moreover have "nat \<bar>?target - ?current\<bar> = ?k" using 2 by simp
      ultimately show ?thesis using 2 bounds(1) fresh True
        by (auto simp: d scaling_decision_def noop_def Let_def)
    next
      case 3
      then show ?thesis by (simp add: d scaling_decision_def noop_def Let_def)
    qed
  qed
qed

text \<open>A decision stays within the limits of the pool: it grows a pool only when no active worker is silent and no cooldown is
left, never beyond the maximum, and under the cost policy only to a size whose estimated cost is within the ceiling; it
shrinks a pool never below the minimum and names exactly as many active workers, none of them younger than one it
keeps; it reaps exactly the silent active workers.\<close>

lemma decisions_respect_the_limits:
  assumes "0 \<le> pc_min cfg" and "pc_min cfg \<le> pc_max cfg" and "decide cost cfg st members = d"
  shows "pd_action d \<in> {''noop'', ''scale_up'', ''scale_down'', ''reap''} \<and>
    (pd_action d = ''scale_up'' \<longrightarrow>
       0 < pd_delta d \<and> int (length (active_members members)) + pd_delta d \<le> pc_max cfg \<and>
       affordable cost cfg (int (length (active_members members)) + pd_delta d)) \<and>
    (pd_action d \<in> {''scale_up'', ''scale_down''} \<longrightarrow>
       list_all (\<lambda>m. \<not> is_stale m (pq_now st) (pc_stale cfg)) (active_members members) \<and> cooldown_left cfg st = None) \<and>
    (pd_action d = ''scale_down'' \<longrightarrow>
       pc_min cfg \<le> int (length (active_members members)) + pd_delta d \<and>
       (\<exists>released kept. mset released + mset kept = mset (active_members members) \<and>
          pd_targets d = map mb_id released \<and> int (length released) = - pd_delta d \<and>
          (\<forall>x \<in> set released. \<forall>y \<in> set kept. mb_joined x \<le> mb_joined y))) \<and>
    (pd_action d = ''reap'' \<longrightarrow>
       pd_targets d = map mb_id (filter (\<lambda>m. is_stale m (pq_now st) (pc_stale cfg)) (active_members members)))"
  using assms by (rule decision_limits)

definition demo_pool_config :: pool_config where
  "demo_pool_config = \<lparr>pc_id = ''default'', pc_min = 1, pc_max = 4, pc_policy = ''queue_depth_v1'', pc_mix = [''claude''],
     pc_cooldown = 60 * second, pc_stale = POOL_HEARTBEAT_STALE_SECONDS, pc_ceiling = None\<rparr>"

lemma decisions_respect_the_limits_witness:
  "pd_action (decide (\<lambda>_ _. None) demo_pool_config \<lparr>pq_depth = 9, pq_last_scaled = None, pq_now = 5\<rparr> [demo_member ''m'' ''claude'' 0])
     = ''scale_up'' \<and>
   int (length (active_members [demo_member ''m'' ''claude'' 0])) +
     pd_delta (decide (\<lambda>_ _. None) demo_pool_config \<lparr>pq_depth = 9, pq_last_scaled = None, pq_now = 5\<rparr> [demo_member ''m'' ''claude'' 0]) \<le> 4"
proof -
  let ?d = "decide (\<lambda>_ _. None) demo_pool_config \<lparr>pq_depth = 9, pq_last_scaled = None, pq_now = 5\<rparr> [demo_member ''m'' ''claude'' 0]"
  have up: "pd_action ?d = ''scale_up''" by code_simp
  have lim: "0 \<le> pc_min demo_pool_config" "pc_min demo_pool_config \<le> pc_max demo_pool_config" "pc_max demo_pool_config = 4"
    by (simp_all add: demo_pool_config_def)
  from decisions_respect_the_limits [OF lim(1,2) refl, of "\<lambda>_ _. None" "\<lparr>pq_depth = 9, pq_last_scaled = None, pq_now = 5\<rparr>"
      "[demo_member ''m'' ''claude'' 0]"] up lim(3) show ?thesis by simp
qed

section \<open>Releasing the overfull\<close>

abbreviation workers_of :: "string \<Rightarrow> membership list \<Rightarrow> membership list" where
  "workers_of p ms \<equiv> filter (\<lambda>m. mb_provider m = p) ms"

lemma count_workers: "count_list (map mb_provider ms) p = length (workers_of p ms)"
  by (induction ms) auto

definition surplus :: "counts \<Rightarrow> int" where
  "surplus excess = (\<Sum>p \<in> fst ` set excess. max 0 (count_of excess p))"

lemma overfull_positive:
  assumes "distinct (map fst excess)" and "[] \<notin> fst ` set excess" and "0 < surplus excess"
  shows "\<exists>p. overfull_provider excess = Some p \<and> p \<in> fst ` set excess \<and> 0 < count_of excess p"
proof -
  have "positive excess \<noteq> []"
  proof
    assume none: "positive excess = []"
    have "max 0 (count_of excess p) = 0" if "p \<in> fst ` set excess" for p
    proof -
      from that obtain t where t: "(p, t) \<in> set excess" by auto
      with none have "t \<le> 0" by (force simp: positive_def filter_empty_conv)
      with count_of_mem [OF assms(1) t] show ?thesis by simp
    qed
    with assms(3) show False by (simp add: surplus_def)
  qed
  then obtain x xs where xs: "positive excess = x # xs" by (cases "positive excess") auto
  let ?x = "first_best (\<lambda>x y. snd y < snd x) x xs"
  have "?x \<in> set (positive excess)" using first_best_mem [of "\<lambda>x y. snd y < snd x" x xs] by (simp add: xs)
  then have mem: "?x \<in> set excess" "0 < snd ?x" by (auto simp: positive_def)
  then have "count_of excess (fst ?x) = snd ?x" using count_of_mem [OF assms(1)] by (metis prod.collapse)
  moreover have "fst ?x \<in> fst ` set excess" using mem(1) by simp
  moreover from this assms(2) have "fst ?x \<noteq> []" by force
  ultimately show ?thesis using mem(2) xs by (intro exI [of _ "fst ?x"]) (simp add: overfull_provider_def Let_def)
qed

lemma surplus_step:
  assumes "p \<in> fst ` set excess" and "0 < count_of excess p"
  shows "surplus (AList.update p (count_of excess p - 1) excess) = surplus excess - 1"
proof -
  let ?X = "fst ` set excess" and ?n = "AList.update p (count_of excess p - 1) excess"
  have keys: "fst ` set ?n = ?X" using assms(1) by (simp add: image_fst_update insert_absorb)
  have "(\<Sum>q \<in> ?X - {p}. max 0 (count_of ?n q)) = (\<Sum>q \<in> ?X - {p}. max 0 (count_of excess q))"
    by (rule sum.cong) auto
  with assms show ?thesis unfolding surplus_def keys by (simp add: sum.remove [of ?X p])
qed

lemma pick_victims_exact:
  assumes "distinct active" and "[] \<notin> mb_provider ` set active" and "\<And>p. 0 \<le> share p"
    and "distinct (map fst excess)" and "fst ` set excess = mb_provider ` set active"
    and "distinct chosen" and "set chosen \<subseteq> set active"
    and "\<And>p. p \<in> mb_provider ` set active \<Longrightarrow>
      count_of excess p = int (length (workers_of p active)) - share p - int (length (workers_of p chosen))"
    and "int n \<le> surplus excess"
  shows "\<exists>r. pick_victims n active excess chosen = chosen @ r \<and> distinct (chosen @ r) \<and> set r \<subseteq> set active \<and>
    length r = n \<and> (\<forall>p. int (length (workers_of p (chosen @ r))) \<le>
      max (int (length (workers_of p chosen))) (int (length (workers_of p active)) - share p))"
  using assms(4-9)
proof (induction n arbitrary: excess chosen)
  case (Suc n)
  note ih = Suc.IH and prems = Suc.prems
  from prems(6) have "0 < surplus excess" by simp
  from overfull_positive [OF prems(1) _ this] prems(2) assms(2) obtain p where p: "overfull_provider excess = Some p"
      "p \<in> fst ` set excess" "0 < count_of excess p" by auto
  let ?pool = "filter (\<lambda>m. m \<notin> set chosen) (workers_of p active)"
  have "?pool \<noteq> []"
  proof
    assume "?pool = []"
    then have "set (workers_of p active) \<subseteq> set (workers_of p chosen)" by (auto simp: filter_empty_conv)
    then have "length (workers_of p active) \<le> length (workers_of p chosen)"
      using assms(1) prems(3) by (metis card_mono distinct_card distinct_filter List.finite_set)
    with prems(5) [of p] p(2,3) prems(2) assms(3) [of p] show False by simp
  qed
  then obtain m ms where pool: "?pool = m # ms" by (cases ?pool) auto
  let ?v = "first_best older m ms"
  let ?next = "AList.update p (count_of excess p - 1) excess"
  have v: "?v \<in> set active" "mb_provider ?v = p" "?v \<notin> set chosen"
    using first_best_mem [of older m ms] unfolding pool [symmetric] by auto
  have step: "pick_victims (Suc n) active excess chosen = pick_victims n active ?next (chosen @ [?v])"
    using p(1) pool by (simp add: Let_def)
  have "\<exists>r. pick_victims n active ?next (chosen @ [?v]) = (chosen @ [?v]) @ r \<and> distinct ((chosen @ [?v]) @ r) \<and>
      set r \<subseteq> set active \<and> length r = n \<and> (\<forall>q. int (length (workers_of q ((chosen @ [?v]) @ r))) \<le>
        max (int (length (workers_of q (chosen @ [?v])))) (int (length (workers_of q active)) - share q))"
  proof (rule ih)
    show "distinct (map fst ?next)" using prems(1) by (rule distinct_update)
    show "fst ` set ?next = mb_provider ` set active" using p(2) prems(2) by (simp add: image_fst_update insert_absorb)
    show "distinct (chosen @ [?v])" "set (chosen @ [?v]) \<subseteq> set active" using prems(3,4) v by auto
    show "count_of ?next q = int (length (workers_of q active)) - share q - int (length (workers_of q (chosen @ [?v])))"
      if "q \<in> mb_provider ` set active" for q using prems(5) [OF that] v(2) by (cases "q = p") simp_all
    show "int n \<le> surplus ?next" using prems(6) surplus_step [OF p(2,3)] by simp
  qed
  then obtain r where r: "pick_victims n active ?next (chosen @ [?v]) = (chosen @ [?v]) @ r"
      "distinct ((chosen @ [?v]) @ r)" "set r \<subseteq> set active" "length r = n"
      and le: "\<And>q. int (length (workers_of q ((chosen @ [?v]) @ r))) \<le>
        max (int (length (workers_of q (chosen @ [?v])))) (int (length (workers_of q active)) - share q)" by blast
  have "int (length (workers_of q (chosen @ ?v # r))) \<le>
      max (int (length (workers_of q chosen))) (int (length (workers_of q active)) - share q)" for q
    using le [of q] prems(5) [of p] p(2,3) prems(2) v(2) by (cases "q = p") auto
  with r v step show ?case by (intro exI [of _ "?v # r"]) auto
qed simp

text \<open>
  When no share is negative, a scale-down names as many distinct active workers as asked for, and takes from no provider more
  than it has above its share.
\<close>

lemma scale_down_trims_the_overfull:
  assumes "distinct (active_members members)" and "[] \<notin> set (working_providers members)"
    and "delta < 0" and "- delta \<le> int (length (active_members members))"
    and "\<And>p. 0 \<le> share_of provider_mix (int (length (active_members members)) + delta) p"
  shows "\<exists>released. select_for_scale_down members provider_mix delta = map mb_id released \<and> distinct released \<and>
    set released \<subseteq> set (active_members members) \<and> int (length released) = - delta \<and>
    (\<forall>p. int (length (workers_of p released)) \<le>
       max 0 (int (length (workers_of p (active_members members))) -
              share_of provider_mix (int (length (active_members members)) + delta) p))"
proof -
  let ?a = "active_members members" and ?n = "int (length (active_members members)) + delta"
  let ?share = "share_of provider_mix ?n"
  let ?c = "counter (map mb_provider ?a)"
  let ?excess = "map (\<lambda>(p, n). (p, n - ?share p)) ?c"
  have keys: "map fst ?excess = map fst ?c" by (simp add: case_prod_beta)
  have key_set: "fst ` set ?excess = mb_provider ` set ?a"
    by (metis keys keys_counter list.set_map)
  have excess: "count_of ?excess p = int (length (workers_of p ?a)) - ?share p" if "p \<in> mb_provider ` set ?a" for p
  proof -
    from that have "p \<in> fst ` set ?c" by simp
    then obtain t where t: "(p, t) \<in> set ?c" by (force simp del: keys_counter)
    then have "(p, t - ?share p) \<in> set ?excess" by force
    moreover have "distinct (map fst ?excess)" unfolding keys by simp
    ultimately have "count_of ?excess p = t - ?share p" by (intro count_of_mem)
    with count_of_mem [OF distinct_counter t] show ?thesis by (simp only: count_of_counter count_workers)
  qed
  have "(\<Sum>p \<in> mb_provider ` set ?a. ?share p) \<le> ?n"
  proof (cases "provider_mix = []")
    case True
    then have "?share p = 0" for p by (simp add: compute_target_shares_def)
    with assms(4) show ?thesis by simp
  next
    case False
    have zero: "?share p = 0" if "p \<notin> set provider_mix" for p
      using that target_shares(3) [OF False, of ?n] by (simp add: count_of_def map_of_eq_None_iff split: option.split)
         (metis map_of_eq_None_iff option.distinct(1))
    have "(\<Sum>p \<in> mb_provider ` set ?a. ?share p) = (\<Sum>p \<in> mb_provider ` set ?a \<inter> set provider_mix. ?share p)"
      by (rule sum.mono_neutral_right) (auto simp: zero)
    also have "\<dots> \<le> (\<Sum>p \<in> set provider_mix. ?share p)" by (rule sum_mono2) (auto simp: assms(5))
    also have "\<dots> = ?n" by (rule sum_target_shares [OF False])
    finally show ?thesis .
  qed
  moreover have "(\<Sum>p \<in> mb_provider ` set ?a. int (length (workers_of p ?a))) = int (length ?a)"
    using sum_count_list_eq [of "mb_provider ` set ?a" "map mb_provider ?a"] by (simp add: count_workers)
  ultimately have "- delta \<le> (\<Sum>p \<in> mb_provider ` set ?a. int (length (workers_of p ?a)) - ?share p)"
    by (simp add: sum_subtractf)
  also have "\<dots> \<le> surplus ?excess" unfolding surplus_def key_set by (rule sum_mono) (simp add: excess)
  finally have enough: "int (nat (- delta)) \<le> surplus ?excess" using assms(3) by simp
  have "\<exists>r. pick_victims (nat (- delta)) ?a ?excess [] = [] @ r \<and> distinct ([] @ r) \<and> set r \<subseteq> set ?a \<and>
      length r = nat (- delta) \<and> (\<forall>p. int (length (workers_of p ([] @ r))) \<le>
        max (int (length (workers_of p []))) (int (length (workers_of p ?a)) - ?share p))"
  proof (rule pick_victims_exact [OF assms(1) _ assms(5)])
    show "[] \<notin> mb_provider ` set ?a" using assms(2) by (simp add: working_providers_def)
    show "distinct (map fst ?excess)" unfolding keys by simp
    show "count_of ?excess p = int (length (workers_of p ?a)) - ?share p - int (length (workers_of p []))"
      if "p \<in> mb_provider ` set ?a" for p using excess [OF that] by simp
    show "fst ` set ?excess = mb_provider ` set ?a" by (rule key_set)
    show "int (nat (- delta)) \<le> surplus ?excess" by (rule enough)
  qed simp_all
  moreover have "max (?n) 0 = ?n" using assms(4) by simp
  ultimately show ?thesis using assms(3) by (auto simp: select_for_scale_down_def Let_def)
qed

end
