(* ===== verification/Pool_Manager.thy ===== *)
theory Pool_Manager
  imports Pool_Decisions Coordination_DB
begin

text \<open>
  A worker pool over its tables: \<^verbatim>\<open>scripts/lib/pool_state_repo.py\<close>, the reads and writes, and
  \<^verbatim>\<open>scripts/lib/pool_manager.py\<close>, whose tick reaps dead workers, decides, and carries the decision out.

  Every write is a transaction of its own, so an operation that raises keeps what it has committed: it returns its outcome and the
  store it leaves. What the environment answers (which processes run, whether a spawn or a kill succeeds, what the receipts
  say of the cost, the instants the clock gives) is an argument of a tick. Whether the ledger file can be written is part of
  the store. Of the metadata of a member the two keys are kept that the code reads, of a lease the columns that it touches.
\<close>

section \<open>Tables\<close>

record config_row =
  cf_project :: string
  cf_pool :: string
  cf_min :: int
  cf_max :: int
  cf_target :: int
  cf_policy :: string
  cf_mix :: "string list option"
  cf_cooldown :: int
  cf_ceiling :: "int option"
  cf_stale :: "int option"
  cf_updated_at :: int

record pool_row =
  po_project :: string
  po_pool :: string
  po_current_size :: int
  po_last_scaled :: "int option"
  po_last_action :: "string option"
  po_last_decision :: "(string \<times> pool_decision \<times> int) option"

datatype release_reason = Scaled_down | Heartbeat_gone | Reaped reap_reason

record member_row =
  me_row :: nat
  me_terminal :: string
  me_project :: string
  me_pool :: string
  me_provider :: string
  me_role :: string
  me_joined :: int
  me_released :: "int option"
  me_reason :: "release_reason option"
  me_membership :: "string option"
  me_pid :: "int option"

record worker_lease =
  le_terminal :: string
  le_project :: string
  le_state :: string
  le_pid :: "int option"
  le_heartbeat :: "int option"
  le_token :: string

datatype config_update =
    Min_workers int | Max_workers int | Scaling_policy string | Cooldown_seconds int
  | Cost_ceiling "int option" | Heartbeat_stale_after "int option" | Unknown_field string

datatype pool_event =
    Member_added string string string string string int
  | Member_reaped string string release_reason int
  | Decision_recorded string string pool_decision int
  | Lease_acquired string string "int option" int
  | Lease_released string string release_reason int
  | Config_updated string "config_update list" int
  | Worker_dead_reaped string string string reap_reason int

record pool_store =
  configs :: "config_row list"
  pools :: "pool_row list"
  memberships :: "member_row list"
  worker_leases :: "worker_lease list"
  queue_rows :: "dispatch_row list"
  pool_ledger :: "pool_event list"
  ledger_ok :: bool
  ids :: "nat \<Rightarrow> string"
  id_next :: nat

type_synonym 'a pact = "(exn + 'a) \<times> pool_store"

definition fresh_id :: "pool_store \<Rightarrow> string" where
  "fresh_id s = ids s (id_next s)"

definition next_id :: "pool_store \<Rightarrow> pool_store" where
  "next_id s = s\<lparr>id_next := Suc (id_next s)\<rparr>"

text \<open>A call whose exception is logged and dropped.\<close>

definition ignoring :: "'a pact \<Rightarrow> unit pact" where
  "ignoring m = (Inr (), snd m)"

section \<open>The repository: reads\<close>

definition config_at :: "pool_store \<Rightarrow> string \<Rightarrow> string \<Rightarrow> config_row option" where
  "config_at s p q = find (\<lambda>c. cf_project c = p \<and> cf_pool c = q) (configs s)"

definition get_config :: "pool_store \<Rightarrow> string \<Rightarrow> string \<Rightarrow> pool_config option" where
  "get_config s p q = map_option (\<lambda>c.
     \<lparr>pc_id = cf_pool c, pc_min = cf_min c, pc_max = cf_max c, pc_policy = cf_policy c,
      pc_mix = (case cf_mix c of None \<Rightarrow> [''claude''] | Some mix \<Rightarrow> mix), pc_cooldown = cf_cooldown c,
      pc_stale = (case cf_stale c of None \<Rightarrow> POOL_HEARTBEAT_STALE_SECONDS | Some t \<Rightarrow> t), pc_ceiling = cf_ceiling c\<rparr>)
     (config_at s p q)"

definition get_state :: "pool_store \<Rightarrow> string \<Rightarrow> string \<Rightarrow> int \<Rightarrow> pool_state" where
  "get_state s p q now =
     \<lparr>pq_depth = int (length (filter (\<lambda>d. d_project d = Some p \<and> d_state d = ''queued'') (queue_rows s))),
      pq_last_scaled = (case find (\<lambda>r. po_project r = p \<and> po_pool r = q) (pools s) of None \<Rightarrow> None | Some r \<Rightarrow> po_last_scaled r),
      pq_now = now\<rparr>"

definition active_in :: "string \<Rightarrow> string \<Rightarrow> member_row \<Rightarrow> bool" where
  "active_in p q r = (me_project r = p \<and> me_pool r = q \<and> me_released r = None)"

definition lease_of :: "pool_store \<Rightarrow> member_row \<Rightarrow> worker_lease option" where
  "lease_of s r = find (\<lambda>l. le_terminal l = me_terminal r \<and> le_project l = me_project r) (worker_leases s)"

definition member_of :: "pool_store \<Rightarrow> member_row \<Rightarrow> membership" where
  "member_of s r =
     (let lease = lease_of s r
      in \<lparr>mb_id = (case me_membership r of None \<Rightarrow> py_int (int (me_row r)) | Some i \<Rightarrow> i), mb_terminal = me_terminal r,
          mb_provider = me_provider r, mb_role = me_role r, mb_status = ''active'', mb_joined = me_joined r,
          mb_heartbeat = (case lease of None \<Rightarrow> None | Some l \<Rightarrow> le_heartbeat l),
          mb_pid = (case lease of None \<Rightarrow> me_pid r
                    | Some l \<Rightarrow> (case le_pid l of None \<Rightarrow> me_pid r | Some pid \<Rightarrow> Some pid))\<rparr>)"

definition list_members :: "pool_store \<Rightarrow> string \<Rightarrow> string \<Rightarrow> membership list" where
  "list_members s p q = map (member_of s) (filter (active_in p q) (memberships s))"

definition get_current_size :: "pool_store \<Rightarrow> string \<Rightarrow> string \<Rightarrow> int" where
  "get_current_size s p q = int (length (filter (active_in p q) (memberships s)))"

section \<open>The repository: writes\<close>

definition emit_ledger :: "pool_event \<Rightarrow> pool_store \<Rightarrow> unit pact" where
  "emit_ledger ev s =
     (if ledger_ok s then (Inr (), s\<lparr>pool_ledger := pool_ledger s @ [ev]\<rparr>) else (Inl (OSError ''pool_events.ndjson''), s))"

definition POOL_PROVIDERS :: "string list" where
  "POOL_PROVIDERS = [''claude'', ''codex'', ''gemini'', ''litellm'']"

text \<open>The constraints of the table: the unique active terminal, the check on the provider, the two foreign keys.\<close>

definition member_insert_ok :: "string \<Rightarrow> string \<Rightarrow> string \<Rightarrow> string \<Rightarrow> pool_store \<Rightarrow> bool" where
  "member_insert_ok p q terminal provider s =
     (\<not> list_ex (\<lambda>r. me_terminal r = terminal \<and> me_project r = p \<and> me_released r = None) (memberships s) \<and>
      provider \<in> set POOL_PROVIDERS \<and>
      list_ex (\<lambda>l. le_terminal l = terminal \<and> le_project l = p) (worker_leases s) \<and>
      config_at s p q \<noteq> None)"

definition add_member ::
  "string \<Rightarrow> string \<Rightarrow> string \<Rightarrow> string \<Rightarrow> string \<Rightarrow> int \<Rightarrow> int option \<Rightarrow> pool_store \<Rightarrow> string pact" where
  "add_member p q terminal provider role now pid s =
     (let membership_id = fresh_id s; s = next_id s
      in bindS (raise_unless (member_insert_ok p q terminal provider s) (IntegrityError ''worker_pool_membership'') s) (\<lambda>_ s.
         bindS (emit_ledger (Member_added q membership_id terminal provider role now)
                  (s\<lparr>memberships := memberships s @
                       [\<lparr>me_row = length (memberships s) + 1, me_terminal = terminal, me_project = p, me_pool = q,
                         me_provider = provider, me_role = role, me_joined = now, me_released = None, me_reason = None,
                         me_membership = Some membership_id, me_pid = pid\<rparr>]\<rparr>)) (\<lambda>_ s.
         (Inr membership_id, s))))"

definition member_matches :: "string \<Rightarrow> member_row \<Rightarrow> bool" where
  "member_matches membership_id r = (me_membership r = Some membership_id \<and> me_released r = None)"

definition release_members :: "string \<Rightarrow> release_reason \<Rightarrow> int \<Rightarrow> pool_store \<Rightarrow> pool_store" where
  "release_members membership_id reason now s =
     s\<lparr>memberships := update_where (member_matches membership_id)
         (\<lambda>r. r\<lparr>me_released := Some now, me_reason := Some reason\<rparr>) (memberships s)\<rparr>"

definition mark_member_reaped :: "string \<Rightarrow> release_reason \<Rightarrow> int \<Rightarrow> pool_store \<Rightarrow> unit pact" where
  "mark_member_reaped membership_id reason now s =
     (let event_id = fresh_id s; s = next_id s
      in if \<not> list_ex (member_matches membership_id) (memberships s) then (Inr (), s)
         else ignoring (emit_ledger (Member_reaped event_id membership_id reason now)
                (release_members membership_id reason now s)))"

definition update_leases_of :: "(worker_lease \<Rightarrow> bool) \<Rightarrow> (worker_lease \<Rightarrow> worker_lease) \<Rightarrow> pool_store \<Rightarrow> pool_store" where
  "update_leases_of which f s = s\<lparr>worker_leases := update_where which f (worker_leases s)\<rparr>"

definition lease_at_terminal :: "string \<Rightarrow> string \<Rightarrow> worker_lease \<Rightarrow> bool" where
  "lease_at_terminal p terminal l = (le_terminal l = terminal \<and> le_project l = p)"

definition store_worker_pid :: "string \<Rightarrow> string \<Rightarrow> int \<Rightarrow> pool_store \<Rightarrow> pool_store" where
  "store_worker_pid p terminal pid s = update_leases_of (lease_at_terminal p terminal) (\<lambda>l. l\<lparr>le_pid := Some pid\<rparr>) s"

definition update_heartbeat_by_terminal :: "string \<Rightarrow> string \<Rightarrow> int \<Rightarrow> pool_store \<Rightarrow> pool_store" where
  "update_heartbeat_by_terminal p terminal now s =
     update_leases_of (lease_at_terminal p terminal) (\<lambda>l. l\<lparr>le_heartbeat := Some now\<rparr>) s"

definition update_member_heartbeat :: "string \<Rightarrow> int \<Rightarrow> pool_store \<Rightarrow> pool_store" where
  "update_member_heartbeat membership_id now s =
     update_leases_of (\<lambda>l. list_ex (\<lambda>r. member_matches membership_id r \<and> lease_at_terminal (me_project r) (me_terminal r) l)
                             (memberships s))
       (\<lambda>l. l\<lparr>le_heartbeat := Some now\<rparr>) s"

definition update_pool :: "string \<Rightarrow> string \<Rightarrow> (pool_row \<Rightarrow> pool_row) \<Rightarrow> pool_store \<Rightarrow> pool_store" where
  "update_pool p q f s = s\<lparr>pools := update_where (\<lambda>r. po_project r = p \<and> po_pool r = q) f (pools s)\<rparr>"

definition update_last_scaled_at :: "string \<Rightarrow> string \<Rightarrow> int \<Rightarrow> pool_store \<Rightarrow> pool_store" where
  "update_last_scaled_at p q now s = update_pool p q (\<lambda>r. r\<lparr>po_last_scaled := Some now\<rparr>) s"

definition update_pool_size :: "string \<Rightarrow> string \<Rightarrow> int \<Rightarrow> pool_store \<Rightarrow> pool_store" where
  "update_pool_size p q current_size s = update_pool p q (\<lambda>r. r\<lparr>po_current_size := current_size\<rparr>) s"

definition record_decision :: "string \<Rightarrow> string \<Rightarrow> pool_decision \<Rightarrow> int \<Rightarrow> pool_store \<Rightarrow> string pact" where
  "record_decision p q d now s =
     (let decision_id = fresh_id s; s = next_id s
      in bindS (emit_ledger (Decision_recorded q decision_id d now)
                  (update_pool p q (\<lambda>r. r\<lparr>po_last_decision := Some (decision_id, d, now),
                                          po_last_action := Some (pd_action d)\<rparr>) s)) (\<lambda>_ s.
         (Inr decision_id, s)))"

text \<open>The insert or refresh of a lease; a token is in use once.\<close>

definition put_lease :: "string \<Rightarrow> string \<Rightarrow> int option \<Rightarrow> int \<Rightarrow> string \<Rightarrow> pool_store \<Rightarrow> pool_store" where
  "put_lease p terminal pid now token s =
     (if list_ex (lease_at_terminal p terminal) (worker_leases s)
      then update_leases_of (lease_at_terminal p terminal)
             (\<lambda>l. l\<lparr>le_state := ''leased'', le_pid := pid, le_heartbeat := Some now, le_token := token\<rparr>) s
      else s\<lparr>worker_leases := worker_leases s @
             [\<lparr>le_terminal = terminal, le_project = p, le_state = ''leased'', le_pid = pid, le_heartbeat = Some now,
               le_token = token\<rparr>]\<rparr>)"

definition add_or_refresh_pool_lease :: "string \<Rightarrow> string \<Rightarrow> int option \<Rightarrow> int \<Rightarrow> pool_store \<Rightarrow> unit pact" where
  "add_or_refresh_pool_lease p terminal pid now s =
     (let token = fresh_id s; s = next_id s
      in bindS (raise_unless (\<not> list_ex (\<lambda>l. le_token l = token \<and> token \<noteq> [] \<and> \<not> lease_at_terminal p terminal l) (worker_leases s))
                  (IntegrityError ''terminal_leases.lease_token'') s) (\<lambda>_ s.
         emit_ledger (Lease_acquired terminal p pid now) (put_lease p terminal pid now token s)))"

definition release_pool_lease :: "string \<Rightarrow> string \<Rightarrow> release_reason \<Rightarrow> int \<Rightarrow> pool_store \<Rightarrow> unit pact" where
  "release_pool_lease p terminal reason now s =
     ignoring (emit_ledger (Lease_released terminal p reason now)
       (update_leases_of (\<lambda>l. lease_at_terminal p terminal l \<and> le_state l \<noteq> ''released'')
          (\<lambda>l. l\<lparr>le_state := ''released'', le_token := [], le_pid := None, le_heartbeat := Some now\<rparr>) s))"

fun apply_config_update :: "config_update \<Rightarrow> config_row \<Rightarrow> config_row" where
  "apply_config_update (Min_workers n) c = c\<lparr>cf_min := n\<rparr>"
| "apply_config_update (Max_workers n) c = c\<lparr>cf_max := n\<rparr>"
| "apply_config_update (Scaling_policy name) c = c\<lparr>cf_policy := name\<rparr>"
| "apply_config_update (Cooldown_seconds t) c = c\<lparr>cf_cooldown := t\<rparr>"
| "apply_config_update (Cost_ceiling limit) c = c\<lparr>cf_ceiling := limit\<rparr>"
| "apply_config_update (Heartbeat_stale_after t) c = c\<lparr>cf_stale := t\<rparr>"
| "apply_config_update (Unknown_field name) c = c"

definition config_row_ok :: "config_row \<Rightarrow> bool" where
  "config_row_ok c = (0 \<le> cf_min c \<and> cf_min c \<le> cf_max c \<and> cf_min c \<le> cf_target c \<and> cf_target c \<le> cf_max c)"

fun unknown_field :: "config_update list \<Rightarrow> string option" where
  "unknown_field [] = None"
| "unknown_field (Unknown_field name # updates) = Some name"
| "unknown_field (_ # updates) = unknown_field updates"

definition update_config :: "string \<Rightarrow> string \<Rightarrow> config_update list \<Rightarrow> int \<Rightarrow> pool_store \<Rightarrow> unit pact" where
  "update_config p q updates now s =
     (case unknown_field updates of
        Some name \<Rightarrow> (Inl (ValueError (''Unknown config field: '' @ name)), s)
      | None \<Rightarrow>
          if updates = [] then (Inr (), s)
          else let changed = update_where (\<lambda>c. cf_project c = p \<and> cf_pool c = q)
                     (\<lambda>c. (fold apply_config_update updates c)\<lparr>cf_updated_at := now\<rparr>) (configs s)
               in bindS (raise_unless (list_all config_row_ok changed) (IntegrityError ''CHECK constraint failed: pool_config'') s) (\<lambda>_ s.
                  emit_ledger (Config_updated q updates now) (s\<lparr>configs := changed\<rparr>)))"

section \<open>The manager\<close>

text \<open>
  What a tick meets: the processes that run, the outcome of a spawn (terminal, provider, role), whether killing the worker of a
  terminal raises, the cost source, and the instants at which it reaps, decides, executes and records.
\<close>

datatype spawn_outcome = Spawned "int option" | Spawn_failed | Spawn_raised

record tick_env =
  te_running :: "int \<Rightarrow> bool"
  te_spawn :: "string \<Rightarrow> string \<Rightarrow> string \<Rightarrow> spawn_outcome"
  te_kill_raises :: "string \<Rightarrow> bool"
  te_cost :: cost_source
  te_reap_now :: int
  te_decide_now :: int
  te_execute_now :: int
  te_record_now :: int

text \<open>The terminals spawned, the memberships reaped, and the terminals or memberships of the errors.\<close>

record exec_result =
  ex_spawned :: "string list"
  ex_reaped :: "string list"
  ex_errors :: "string list"

definition no_result :: exec_result where
  "no_result = \<lparr>ex_spawned = [], ex_reaped = [], ex_errors = []\<rparr>"

definition load_state ::
  "string \<Rightarrow> string \<Rightarrow> int \<Rightarrow> pool_store \<Rightarrow> exn + (pool_config \<times> pool_state \<times> membership list)" where
  "load_state p q now s =
     (case get_config s p q of
        None \<Rightarrow> Inl (RuntimeError (''No pool_config row for project='' @ p @ '' pool='' @ q))
      | Some cfg \<Rightarrow> Inr (cfg, get_state s p q now, list_members s p q))"

definition resolve_role :: "string list \<Rightarrow> nat \<Rightarrow> string" where
  "resolve_role mix slot =
     (if mix = [] then ''backend-developer''
      else let entry = mix ! (slot mod length mix); rest = dropWhile (\<lambda>c. c \<noteq> CHR '':'') entry
           in if rest = [] \<or> tl rest = [] then ''backend-developer'' else tl rest)"

definition terminal_name :: "string \<Rightarrow> int \<Rightarrow> nat \<Rightarrow> string" where
  "terminal_name p now slot = p @ ''-P'' @ py_int (now div 1000 mod 100000) @ ''-'' @ py_int (int slot)"

definition spawn_slot ::
  "string \<Rightarrow> string \<Rightarrow> tick_env \<Rightarrow> string list \<Rightarrow> nat \<times> string \<Rightarrow> exec_result \<times> pool_store \<Rightarrow> exec_result \<times> pool_store" where
  "spawn_slot p q env mix = (\<lambda>(slot, provider) (res, s).
     let now = te_execute_now env; terminal = terminal_name p now slot; role = resolve_role mix slot
     in case te_spawn env terminal provider role of
          Spawned pid \<Rightarrow>
            (case bindS (add_or_refresh_pool_lease p terminal pid now s)
                    (\<lambda>_ s. add_member p q terminal provider role now pid s) of
               (Inr _, s) \<Rightarrow> (res\<lparr>ex_spawned := ex_spawned res @ [terminal]\<rparr>, s)
             | (Inl _, s) \<Rightarrow>
                 (res\<lparr>ex_errors := ex_errors res @ [terminal] @ (if te_kill_raises env terminal then [terminal] else [])\<rparr>, s))
        | _ \<Rightarrow> (res\<lparr>ex_errors := ex_errors res @ [terminal]\<rparr>, s))"

definition execute_scale_up :: "string \<Rightarrow> string \<Rightarrow> tick_env \<Rightarrow> pool_decision \<Rightarrow> pool_store \<Rightarrow> exec_result pact" where
  "execute_scale_up p q env d s =
     bindS (load_state p q (te_execute_now env) s, s) (\<lambda>(cfg, _, members) s.
     bindS (allocate_for_scale_up members (pc_mix cfg) \<bar>pd_delta d\<bar> ''claude'', s) (\<lambda>(providers, _) s.
     case fold (spawn_slot p q env (pc_mix cfg)) (zip [0..<length providers] providers) (no_result, s) of
       (res, s) \<Rightarrow> (Inr res, s)))"

text \<open>A dictionary from memberships to terminals: the last member with an id wins.\<close>

definition terminal_of :: "membership list \<Rightarrow> string \<Rightarrow> string option" where
  "terminal_of members membership_id = map_of (rev (map (\<lambda>m. (mb_id m, mb_terminal m)) members)) membership_id"

definition scale_down_one :: "string \<Rightarrow> membership list \<Rightarrow> int \<Rightarrow> string \<Rightarrow> pool_store \<Rightarrow> pool_store" where
  "scale_down_one p members now membership_id s =
     (let s = snd (mark_member_reaped membership_id Scaled_down now s)
      in case terminal_of members membership_id of
           None \<Rightarrow> s
         | Some terminal \<Rightarrow> if terminal = [] then s else snd (release_pool_lease p terminal Scaled_down now s))"

definition execute_scale_down :: "string \<Rightarrow> string \<Rightarrow> tick_env \<Rightarrow> pool_decision \<Rightarrow> pool_store \<Rightarrow> exec_result pact" where
  "execute_scale_down p q env d s =
     bindS (load_state p q (te_execute_now env) s, s) (\<lambda>(cfg, _, members) s.
     let membership_ids = (if pd_targets d \<noteq> [] then pd_targets d else select_for_scale_down members (pc_mix cfg) (pd_delta d))
     in (Inr (no_result\<lparr>ex_reaped := membership_ids\<rparr>),
         fold (scale_down_one p members (te_execute_now env)) membership_ids s))"

definition execute_reap :: "string \<Rightarrow> string \<Rightarrow> tick_env \<Rightarrow> pool_decision \<Rightarrow> pool_store \<Rightarrow> exec_result pact" where
  "execute_reap p q env d s =
     bindS (load_state p q (te_execute_now env) s, s) (\<lambda>_ s.
     (Inr (no_result\<lparr>ex_reaped := pd_targets d\<rparr>),
      fold (\<lambda>membership_id s. snd (mark_member_reaped membership_id Heartbeat_gone (te_execute_now env) s)) (pd_targets d) s))"

definition execute :: "string \<Rightarrow> string \<Rightarrow> tick_env \<Rightarrow> pool_decision \<Rightarrow> pool_store \<Rightarrow> exec_result pact" where
  "execute p q env d s =
     (if pd_action d = ''scale_up'' then execute_scale_up p q env d s
      else if pd_action d = ''scale_down'' then execute_scale_down p q env d s
      else if pd_action d = ''reap'' then execute_reap p q env d s
      else (Inr no_result, s))"

fun first_targets :: "string set \<Rightarrow> reap_target list \<Rightarrow> reap_target list" where
  "first_targets seen [] = []"
| "first_targets seen (t # ts) =
     (if rt_id t \<in> seen then first_targets seen ts else t # first_targets (insert (rt_id t) seen) ts)"

definition dead_targets :: "tick_env \<Rightarrow> membership list \<Rightarrow> reap_target list" where
  "dead_targets env members =
     first_targets {} (identify_dead_pid_targets (te_running env) members @
       identify_reap_targets members (te_reap_now env) default_reap_config)"

definition reap_one ::
  "string \<Rightarrow> string \<Rightarrow> int \<Rightarrow> reap_target \<Rightarrow> reap_target list \<times> pool_store \<Rightarrow> reap_target list \<times> pool_store" where
  "reap_one p q now t = (\<lambda>(reaped, s).
     case bindS (mark_member_reaped (rt_id t) (Reaped (rt_reason t)) now s)
            (\<lambda>_ s. emit_ledger (Worker_dead_reaped q (rt_id t) (rt_terminal t) (rt_reason t) now) s) of
       (r, s) \<Rightarrow> (if isl r then reaped else reaped @ [t],
                  snd (release_pool_lease p (rt_terminal t) (Reaped (rt_reason t)) now s)))"

definition reap_dead :: "string \<Rightarrow> string \<Rightarrow> tick_env \<Rightarrow> pool_store \<Rightarrow> reap_target list pact" where
  "reap_dead p q env s =
     bindS (load_state p q (te_reap_now env) s, s) (\<lambda>(_, _, members) s.
     case fold (reap_one p q (te_reap_now env)) (dead_targets env members) ([], s) of (reaped, s) \<Rightarrow> (Inr reaped, s))"

definition manager_decide :: "string \<Rightarrow> string \<Rightarrow> tick_env \<Rightarrow> pool_store \<Rightarrow> exn + pool_decision" where
  "manager_decide p q env s =
     bindE (load_state p q (te_decide_now env) s) (\<lambda>(cfg, st, members). Inr (decide (te_cost env) cfg st members))"

definition note_change :: "string \<Rightarrow> string \<Rightarrow> int \<Rightarrow> exec_result \<Rightarrow> pool_store \<Rightarrow> pool_store" where
  "note_change p q now res s =
     (if ex_spawned res \<noteq> [] \<or> ex_reaped res \<noteq> []
      then let s = update_last_scaled_at p q now s in update_pool_size p q (get_current_size s p q) s
      else s)"

definition tick :: "string \<Rightarrow> string \<Rightarrow> tick_env \<Rightarrow> pool_store \<Rightarrow> (pool_decision \<times> exec_result) pact" where
  "tick p q env s =
     bindS (reap_dead p q env s) (\<lambda>reaped s.
     bindS (manager_decide p q env s, s) (\<lambda>d s.
     bindS (execute p q env d s) (\<lambda>res s.
     let res = res\<lparr>ex_reaped := ex_reaped res @ map rt_id reaped\<rparr>
     in bindS (record_decision p q d (te_record_now env) s) (\<lambda>_ s.
        (Inr (d, res), note_change p q (te_record_now env) res s)))))"

section \<open>What the calls leave alone\<close>

lemma next_id_sel [simp]:
  "configs (next_id s) = configs s" "pools (next_id s) = pools s" "memberships (next_id s) = memberships s"
  "worker_leases (next_id s) = worker_leases s" "ledger_ok (next_id s) = ledger_ok s" "queue_rows (next_id s) = queue_rows s"
  "ids (next_id s) = ids s"
  by (simp_all add: next_id_def)

lemma emit_ledger_sel [simp]:
  "configs (snd (emit_ledger ev s)) = configs s" "pools (snd (emit_ledger ev s)) = pools s"
  "memberships (snd (emit_ledger ev s)) = memberships s" "worker_leases (snd (emit_ledger ev s)) = worker_leases s"
  "ledger_ok (snd (emit_ledger ev s)) = ledger_ok s" "queue_rows (snd (emit_ledger ev s)) = queue_rows s"
  "ids (snd (emit_ledger ev s)) = ids s"
  by (simp_all add: emit_ledger_def)

lemma ignoring_sel [simp]: "snd (ignoring m) = snd m" "fst (ignoring m) = Inr ()"
  by (simp_all add: ignoring_def)

lemma update_leases_of_sel [simp]:
  "configs (update_leases_of w f s) = configs s" "pools (update_leases_of w f s) = pools s"
  "memberships (update_leases_of w f s) = memberships s" "ledger_ok (update_leases_of w f s) = ledger_ok s"
  "queue_rows (update_leases_of w f s) = queue_rows s" "ids (update_leases_of w f s) = ids s"
  "worker_leases (update_leases_of w f s) = update_where w f (worker_leases s)"
  by (simp_all add: update_leases_of_def)

lemma put_lease_sel [simp]:
  "configs (put_lease p t pid now tok s) = configs s" "pools (put_lease p t pid now tok s) = pools s"
  "memberships (put_lease p t pid now tok s) = memberships s" "ledger_ok (put_lease p t pid now tok s) = ledger_ok s"
  by (simp_all add: put_lease_def)

lemma release_pool_lease_sel [simp]:
  "configs (snd (release_pool_lease p t r now s)) = configs s" "pools (snd (release_pool_lease p t r now s)) = pools s"
  "memberships (snd (release_pool_lease p t r now s)) = memberships s"
  "ledger_ok (snd (release_pool_lease p t r now s)) = ledger_ok s"
  "worker_leases (snd (release_pool_lease p t r now s)) =
     update_where (\<lambda>l. lease_at_terminal p t l \<and> le_state l \<noteq> ''released'')
       (\<lambda>l. l\<lparr>le_state := ''released'', le_token := [], le_pid := None, le_heartbeat := Some now\<rparr>) (worker_leases s)"
  by (simp_all add: release_pool_lease_def)

lemma mark_memberships:
  "memberships (snd (mark_member_reaped i reason now s)) =
     update_where (member_matches i) (\<lambda>r. r\<lparr>me_released := Some now, me_reason := Some reason\<rparr>) (memberships s)"
proof (cases "list_ex (member_matches i) (memberships s)")
  case True
  then show ?thesis by (simp add: mark_member_reaped_def Let_def release_members_def)
next
  case False
  then have "update_where (member_matches i) f (memberships s) = memberships s" for f
    by (auto simp: update_where_def list_ex_iff intro: map_idI)
  with False show ?thesis by (simp add: mark_member_reaped_def Let_def)
qed

lemma mark_sel [simp]:
  "configs (snd (mark_member_reaped i reason now s)) = configs s" "pools (snd (mark_member_reaped i reason now s)) = pools s"
  "ledger_ok (snd (mark_member_reaped i reason now s)) = ledger_ok s"
  "worker_leases (snd (mark_member_reaped i reason now s)) = worker_leases s"
  "fst (mark_member_reaped i reason now s) = Inr ()"
  by (simp_all add: mark_member_reaped_def release_members_def Let_def)

section \<open>How far a pool can grow\<close>

text \<open>The pool \<open>p\<close>, \<open>q\<close> gains at most \<open>n\<close> workers, no other pool gains any; configurations and pool rows stay.\<close>

definition grows :: "string \<Rightarrow> string \<Rightarrow> int \<Rightarrow> pool_store \<Rightarrow> pool_store \<Rightarrow> bool" where
  "grows p q n s s' =
     (configs s' = configs s \<and> pools s' = pools s \<and> ledger_ok s' = ledger_ok s \<and>
      (\<forall>p' q'. get_current_size s' p' q' \<le> get_current_size s p' q' + (if p' = p \<and> q' = q then n else 0)))"

lemma grows_refl [simp]: "0 \<le> n \<Longrightarrow> grows p q n s s"
  by (simp add: grows_def)

lemma grows_trans: "grows p q n s s1 \<Longrightarrow> grows p q m s1 s2 \<Longrightarrow> grows p q (n + m) s s2"
  unfolding grows_def by (smt (verit))

lemma grows_0_trans: "grows p q 0 s s1 \<Longrightarrow> grows p q 0 s1 s2 \<Longrightarrow> grows p q 0 s s2"
  using grows_trans [of p q 0 s s1 0 s2] by simp

lemma grows_memberships:
  "configs s' = configs s \<Longrightarrow> pools s' = pools s \<Longrightarrow> ledger_ok s' = ledger_ok s \<Longrightarrow> memberships s' = memberships s \<Longrightarrow> 0 \<le> n \<Longrightarrow> grows p q n s s'"
  by (simp add: grows_def get_current_size_def)

lemma filter_released_le:
  "length (filter (active_in p q) (update_where w (\<lambda>r. r\<lparr>me_released := Some now, me_reason := reason\<rparr>) rows))
     \<le> length (filter (active_in p q) rows)"
  by (induction rows) (auto simp: active_in_def)

lemma grows_mark: "grows p q 0 s (snd (mark_member_reaped i reason now s))"
  by (simp add: grows_def get_current_size_def mark_memberships filter_released_le)

lemma grows_lease: "grows p q 0 s (snd (release_pool_lease p' t r now s))"
  by (simp add: grows_memberships)

lemma grows_add: "grows p q 1 s (snd (add_member p q terminal provider role now pid s))"
proof -
  have "grows p q 1 s (s'\<lparr>memberships := memberships s' @ [r]\<rparr>)"
    if "configs s' = configs s" "pools s' = pools s" "ledger_ok s' = ledger_ok s" "memberships s' = memberships s" "me_project r = p" "me_pool r = q" for s' r
    using that by (auto simp: grows_def get_current_size_def active_in_def)
  then have "grows p q 1 s (snd (emit_ledger ev (s'\<lparr>memberships := memberships s' @ [r]\<rparr>)))"
    if "configs s' = configs s" "pools s' = pools s" "ledger_ok s' = ledger_ok s" "memberships s' = memberships s" "me_project r = p" "me_pool r = q" for s' r ev
    using that grows_trans [OF _ grows_memberships [of _ _ 0]] by fastforce
  then show ?thesis
    by (auto simp: add_member_def Let_def bindS_def raise_unless_def grows_memberships split: prod.split sum.split)
       (metis next_id_sel(1,2,3,5) member_row.select_convs(3,4) snd_conv)+
qed

lemma grows_lease_added: "grows p q 0 s (snd (add_or_refresh_pool_lease p' terminal pid now s))"
  by (rule grows_memberships) (auto simp: add_or_refresh_pool_lease_def Let_def bindS_def raise_unless_def)

lemma bindS_grows:
  assumes "grows p q n s (snd m)" and "\<And>x s1. grows p q k s1 (snd (f x s1))" and "0 \<le> k"
  shows "grows p q (n + k) s (snd (bindS m f))"
proof (cases m)
  case (Pair r s1)
  with assms(1) have first: "grows p q n s s1" by simp
  show ?thesis
  proof (cases r)
    case (Inl e)
    with Pair first grows_trans [OF first grows_refl [OF assms(3)]] show ?thesis by simp
  next
    case (Inr x)
    with Pair grows_trans [OF first assms(2)] show ?thesis by simp
  qed
qed

lemma grows_slot: "grows p q 1 s (snd (spawn_slot p q env mix x (res, s)))"
proof (cases x)
  case (Pair slot provider)
  let ?t = "terminal_name p (te_execute_now env) slot" and ?role = "resolve_role mix slot"
  show ?thesis
  proof (cases "te_spawn env ?t provider ?role")
    case (Spawned pid)
    have "grows p q (0 + 1) s (snd (bindS (add_or_refresh_pool_lease p ?t pid (te_execute_now env) s)
        (\<lambda>_ s. add_member p q ?t provider ?role (te_execute_now env) pid s)))"
      by (rule bindS_grows [OF grows_lease_added grows_add]) simp
    with Pair Spawned show ?thesis by (auto simp: spawn_slot_def Let_def split: prod.splits sum.splits)
  qed (simp_all add: Pair spawn_slot_def Let_def)
qed

lemma grows_slots: "grows p q (int (length xs)) s (snd (fold (spawn_slot p q env mix) xs (res, s)))"
proof (induction xs arbitrary: res s)
  case (Cons x xs)
  obtain res1 s1 where x: "spawn_slot p q env mix x (res, s) = (res1, s1)" by (metis prod.exhaust)
  with grows_slot [of p q s env mix x res] have "grows p q 1 s s1" by simp
  from grows_trans [OF this Cons.IH [of s1 res1]] x show ?case by simp
qed simp

lemma allocate_slots_length: "allocate_slots n t fb d = Inr (ps, fs) \<Longrightarrow> length ps = n"
  by (induction n arbitrary: d ps fs) (auto simp: bindE_eq_Inr Let_def)

lemma allocate_length: "allocate_for_scale_up members mix delta fb = Inr (ps, fs) \<Longrightarrow> int (length ps) = max 0 delta"
  by (auto simp: allocate_for_scale_up_def Let_def split: if_split_asm dest: allocate_slots_length)

lemma grows_scale_up: "grows p q \<bar>pd_delta d\<bar> s (snd (execute_scale_up p q env d s))"
proof -
  have "grows p q \<bar>pd_delta d\<bar> s (snd (bindS (allocate_for_scale_up members mix \<bar>pd_delta d\<bar> ''claude'', s) (\<lambda>(providers, _) s.
      case fold (spawn_slot p q env mix) (zip [0..<length providers] providers) (no_result, s) of (res, s) \<Rightarrow> (Inr res, s))))"
    for members mix
  proof (cases "allocate_for_scale_up members mix \<bar>pd_delta d\<bar> ''claude''")
    case (Inr r)
    then obtain ps fs where r: "allocate_for_scale_up members mix \<bar>pd_delta d\<bar> ''claude'' = Inr (ps, fs)" by (cases r) simp
    from grows_slots [of p q "zip [0..<length ps] ps" s env mix no_result] allocate_length [OF r] r show ?thesis
      by (simp add: case_prod_beta)
  qed simp
  then show ?thesis
    by (cases "load_state p q (te_execute_now env) s") (auto simp: execute_scale_up_def)
qed

lemma fold_grows: "(\<And>x s. grows p q 0 s (f x s)) \<Longrightarrow> grows p q 0 s (fold f xs s)"
proof (induction xs arbitrary: s)
  case (Cons x xs)
  from Cons.prems grows_0_trans [OF _ Cons.IH [OF Cons.prems, of "f x s"]] show ?case by simp
qed simp

lemma grows_scale_down: "grows p q 0 s (snd (execute_scale_down p q env d s))"
proof -
  have one: "grows p q 0 s (scale_down_one p members now i s)" for members now i s
    unfolding scale_down_one_def Let_def
    using grows_0_trans [OF grows_mark grows_lease] grows_mark by (simp split: option.split)
  then show ?thesis
    by (cases "load_state p q (te_execute_now env) s") (auto simp: execute_scale_down_def Let_def intro!: fold_grows one)
qed

lemma grows_execute_reap: "grows p q 0 s (snd (execute_reap p q env d s))"
  by (cases "load_state p q (te_execute_now env) s") (auto simp: execute_reap_def intro: fold_grows grows_mark)

lemma grows_execute:
  "grows p q (if pd_action d = ''scale_up'' then \<bar>pd_delta d\<bar> else 0) s (snd (execute p q env d s))"
  by (simp add: execute_def grows_scale_up grows_scale_down grows_execute_reap)

lemma reap_one_state:
  "snd (reap_one p q now t (reaped, s)) =
     snd (release_pool_lease p (rt_terminal t) (Reaped (rt_reason t)) now
       (snd (emit_ledger (Worker_dead_reaped q (rt_id t) (rt_terminal t) (rt_reason t) now)
         (snd (mark_member_reaped (rt_id t) (Reaped (rt_reason t)) now s)))))"
proof -
  obtain s1 where s1: "mark_member_reaped (rt_id t) (Reaped (rt_reason t)) now s = (Inr (), s1)"
    using mark_sel(5) [of "rt_id t" "Reaped (rt_reason t)" now s] by (metis prod.collapse)
  then show ?thesis by (simp add: reap_one_def case_prod_beta)
qed

lemma grows_reap_one: "grows p q 0 s (snd (reap_one p q' now t (reaped, s)))"
  unfolding reap_one_state
  by (rule grows_0_trans [OF grows_mark grows_0_trans [OF grows_memberships grows_lease]]) simp_all

lemma grows_reap_all: "grows p q 0 s (snd (fold (reap_one p q' now) ts (reaped, s)))"
proof (induction ts arbitrary: reaped s)
  case (Cons t ts)
  obtain r1 s1 where t: "reap_one p q' now t (reaped, s) = (r1, s1)" by (metis prod.exhaust)
  with grows_reap_one [of p q s q' now t reaped] have "grows p q 0 s s1" by simp
  from grows_0_trans [OF this Cons.IH [of s1 r1]] t show ?case by simp
qed simp

lemma grows_reap_dead: "grows p q 0 s (snd (reap_dead p q env s))"
proof (cases "load_state p q (te_reap_now env) s")
  case (Inr x)
  then show ?thesis
    using grows_reap_all [of p q s q "te_reap_now env" _ "[]"] by (auto simp: reap_dead_def split: prod.split)
       (metis snd_conv)
qed (simp add: reap_dead_def)

lemma record_decision_eq:
  "snd (record_decision p q d now s) = snd (emit_ledger (Decision_recorded q (fresh_id s) d now)
     (update_pool p q (\<lambda>r. r\<lparr>po_last_decision := Some (fresh_id s, d, now), po_last_action := Some (pd_action d)\<rparr>) (next_id s)))"
  by (simp add: record_decision_def Let_def emit_ledger_def)

lemma update_pool_sel [simp]:
  "configs (update_pool p q f s) = configs s" "memberships (update_pool p q f s) = memberships s"
  "ledger_ok (update_pool p q f s) = ledger_ok s"
  "pools (update_pool p q f s) = update_where (\<lambda>r. po_project r = p \<and> po_pool r = q) f (pools s)"
  by (simp_all add: update_pool_def)

lemma note_change_sel [simp]:
  "configs (note_change p q now res s) = configs s" "memberships (note_change p q now res s) = memberships s"
  by (simp_all add: note_change_def update_last_scaled_at_def update_pool_size_def Let_def)

section \<open>A pool within its maximum\<close>

datatype pool_step =
    Tick string string tick_env
  | Beat string int
  | Beat_terminal string string int
  | Store_pid string string int

fun after_step :: "pool_step \<Rightarrow> pool_store \<Rightarrow> pool_store" where
  "after_step (Tick p q env) s = snd (tick p q env s)"
| "after_step (Beat membership_id now) s = update_member_heartbeat membership_id now s"
| "after_step (Beat_terminal p terminal now) s = update_heartbeat_by_terminal p terminal now s"
| "after_step (Store_pid p terminal pid) s = store_worker_pid p terminal pid s"

text \<open>The configuration keeps its constraints and no pool has more workers than its maximum.\<close>

definition pools_within :: "pool_store \<Rightarrow> bool" where
  "pools_within s =
     (distinct (map (\<lambda>c. (cf_project c, cf_pool c)) (configs s)) \<and> list_all config_row_ok (configs s) \<and>
      list_all (\<lambda>c. get_current_size s (cf_project c) (cf_pool c) \<le> cf_max c) (configs s))"

lemma grows_within: "grows p q 0 s s' \<Longrightarrow> pools_within s \<Longrightarrow> pools_within s'"
  unfolding grows_def pools_within_def list_all_iff by (smt (verit, best))

lemma growsD: "grows p q n s s' \<Longrightarrow> get_current_size s' p q \<le> get_current_size s p q + n"
  unfolding grows_def by (metis (full_types))

lemma growsD_other:
  "grows p q n s s' \<Longrightarrow> \<not> (p' = p \<and> q' = q) \<Longrightarrow> get_current_size s' p' q' \<le> get_current_size s p' q'"
  unfolding grows_def by (metis (full_types) add.right_neutral)

lemma within_memberships:
  "configs s' = configs s \<Longrightarrow> memberships s' = memberships s \<Longrightarrow> pools_within s \<Longrightarrow> pools_within s'"
  by (simp add: pools_within_def get_current_size_def)

lemma size_active: "int (length (active_members (list_members s p q))) = get_current_size s p q"
proof -
  have "active_members (list_members s p q) = list_members s p q"
    by (simp add: active_members_def list_members_def member_of_def Let_def comp_def)
  then show ?thesis by (simp add: list_members_def get_current_size_def)
qed

lemma config_at_row: "config_at s p q = Some c \<Longrightarrow> c \<in> set (configs s) \<and> cf_project c = p \<and> cf_pool c = q"
  by (auto simp: config_at_def find_Some_iff)

lemma tick_within:
  assumes "pools_within s"
  shows "pools_within (snd (tick p q env s))"
proof (cases "reap_dead p q env s")
  case (Pair r s1)
  with grows_reap_dead [of p q s env] have within1: "pools_within s1" using grows_within assms by fastforce
  show ?thesis
  proof (cases r)
    case (Inl e)
    with Pair within1 show ?thesis by (simp add: tick_def)
  next
    case (Inr reaped)
    show ?thesis
    proof (cases "manager_decide p q env s1")
      case (Inl e)
      with Pair Inr within1 show ?thesis by (simp add: tick_def)
    next
      case d: (Inr d)
      let ?x = "execute p q env d s1"
      have "pools_within (snd ?x)"
      proof (cases "pd_action d = ''scale_up''")
        case False
        with grows_execute [of p q d s1 env] have "grows p q 0 s1 (snd ?x)" by simp
        with within1 show ?thesis by (rule grows_within [rotated])
      next
        case True
        from d obtain cfg where cfg: "get_config s1 p q = Some cfg"
            and dec: "decide (te_cost env) cfg (get_state s1 p q (te_decide_now env)) (list_members s1 p q) = d"
          by (auto simp: manager_decide_def load_state_def bindE_eq_Inr split: option.split_asm)
        then obtain c where c: "config_at s1 p q = Some c" and max: "pc_max cfg = cf_max c" and min: "pc_min cfg = cf_min c"
          by (auto simp: get_config_def)
        note row = config_at_row [OF c]
        have "config_row_ok c" using row within1 by (auto simp: pools_within_def list_all_iff)
        then have "0 \<le> pc_min cfg" "pc_min cfg \<le> pc_max cfg" by (simp_all add: config_row_ok_def max min)
        from decision_limits [OF this dec] True
        have up: "0 < pd_delta d" "get_current_size s1 p q + pd_delta d \<le> cf_max c" by (simp_all add: size_active max)
        from True up(1) grows_execute [of p q d s1 env] have grow: "grows p q (pd_delta d) s1 (snd ?x)" by simp
        have "get_current_size (snd ?x) (cf_project c') (cf_pool c') \<le> cf_max c'" if c': "c' \<in> set (configs s1)" for c'
        proof (cases "cf_project c' = p \<and> cf_pool c' = q")
          case True
          with row c' within1 have "c' = c" by (auto simp: pools_within_def dest: map_of_eqI inj_onD distinct_map [THEN iffD1])
          with growsD [OF grow] up(2) True show ?thesis by simp
        next
          case False
          with growsD_other [OF grow] have "get_current_size (snd ?x) (cf_project c') (cf_pool c')
              \<le> get_current_size s1 (cf_project c') (cf_pool c')" by blast
          also have "\<dots> \<le> cf_max c'" using within1 c' by (simp add: pools_within_def list_all_iff)
          finally show ?thesis .
        qed
        with grow within1 show ?thesis by (simp add: grows_def pools_within_def list_all_iff)
      qed
      moreover obtain r2 s2 where x: "?x = (r2, s2)" by (metis prod.exhaust)
      ultimately have within2: "pools_within s2" by simp
      show ?thesis
      proof (cases r2)
        case (Inl e)
        with Pair Inr d x within2 show ?thesis by (simp add: tick_def)
      next
        case res: (Inr res)
        obtain r3 s3 where rec: "record_decision p q d (te_record_now env) s2 = (r3, s3)" by (metis prod.exhaust)
        with record_decision_eq [of p q d "te_record_now env" s2] have within3: "pools_within s3"
          using within_memberships [OF _ _ within2, of s3] by simp
        have note3: "pools_within (note_change p q now res' s3)" for now res'
          using within_memberships [OF _ _ within3, of "note_change p q now res' s3"] by simp
        from Pair Inr d x res rec within3 note3 show ?thesis
          by (cases r3) (simp_all add: tick_def Let_def)
      qed
    qed
  qed
qed

text \<open>C24: no pool ever exceeds its maximum: from a store in which no pool does, none does after any ticks of any pools, whatever
the spawns, kills, probes, costs, clocks and the ledger do, with heartbeats and process ids stored in between.\<close>

theorem pools_stay_within_their_maximum:
  assumes "pools_within s"
  shows "pools_within (fold after_step steps s)"
  using assms
proof (induction steps arbitrary: s)
  case (Cons x steps)
  have "pools_within (after_step x s)"
  proof (cases x)
    case (Tick p q env)
    with tick_within [OF Cons.prems] show ?thesis by simp
  next
    case (Beat i now)
    then show ?thesis using within_memberships [OF _ _ Cons.prems, of "after_step x s"] by (simp add: update_member_heartbeat_def)
  next
    case (Beat_terminal p t now)
    then show ?thesis
      using within_memberships [OF _ _ Cons.prems, of "after_step x s"] by (simp add: update_heartbeat_by_terminal_def)
  next
    case (Store_pid p t pid)
    then show ?thesis using within_memberships [OF _ _ Cons.prems, of "after_step x s"] by (simp add: store_worker_pid_def)
  qed
  with Cons.IH show ?case by simp
qed simp

section \<open>What reaping changes\<close>

text \<open>A worker is dead when its process is gone or when, after the warm-up, it has been silent for too long.\<close>

definition worker_dead :: "tick_env \<Rightarrow> membership \<Rightarrow> bool" where
  "worker_dead env m =
     ((case mb_pid m of None \<Rightarrow> False | Some pid \<Rightarrow> 0 < pid \<and> \<not> te_running env pid) \<or>
      120 * second \<le> te_reap_now env - mb_joined m \<and>
      180 * second < te_reap_now env - (case mb_heartbeat m of None \<Rightarrow> mb_joined m | Some t \<Rightarrow> t))"

definition members_ok :: "pool_store \<Rightarrow> bool" where
  "members_ok s =
     (list_all (\<lambda>r. me_membership r \<noteq> None) (memberships s) \<and> distinct (map me_membership (memberships s)) \<and>
      distinct (map (\<lambda>r. (me_terminal r, me_project r)) (filter (\<lambda>r. me_released r = None) (memberships s))))"

lemma first_targets_ids: "rt_id ` set (first_targets seen ts) = rt_id ` set ts - seen"
  by (induction seen ts rule: first_targets.induct) auto

lemma first_targets_sub: "set (first_targets seen ts) \<subseteq> set ts"
  by (induction seen ts rule: first_targets.induct) auto

lemma reap_verdict_iff:
  "mb_status m = ''active'' \<Longrightarrow> (dead_pid_verdict (te_running env) m \<noteq> None \<or>
     reap_verdict (te_reap_now env) default_reap_config m \<noteq> None) = worker_dead env m"
  by (auto simp: dead_pid_verdict_def reap_verdict_def worker_dead_def default_reap_config_def
      POOL_HEARTBEAT_STALE_SECONDS_def is_pid_alive_def Let_def split: option.split)

lemma verdict_target:
  "dead_pid_verdict running m = Some t \<Longrightarrow> rt_id t = mb_id m \<and> rt_terminal t = mb_terminal m"
  "reap_verdict now cfg m = Some t \<Longrightarrow> rt_id t = mb_id m \<and> rt_terminal t = mb_terminal m"
  by (auto simp: dead_pid_verdict_def reap_verdict_def reap_target_of_def Let_def split: if_split_asm option.split_asm)

lemma dead_targets_from:
  assumes "list_all (\<lambda>m. mb_status m = ''active'') members"
  shows "rt_id ` set (dead_targets env members) = mb_id ` {m \<in> set members. worker_dead env m}"
    and "t \<in> set (dead_targets env members) \<Longrightarrow>
      \<exists>m \<in> set members. worker_dead env m \<and> rt_id t = mb_id m \<and> rt_terminal t = mb_terminal m"
proof -
  let ?all = "identify_dead_pid_targets (te_running env) members @
      identify_reap_targets members (te_reap_now env) default_reap_config"
  have mem: "set ?all = {t. \<exists>m \<in> set members. dead_pid_verdict (te_running env) m = Some t \<or>
      reap_verdict (te_reap_now env) default_reap_config m = Some t}"
    by (auto simp: identify_dead_pid_targets_def identify_reap_targets_def List.map_filter_def)
       (metis (mono_tags, lifting) imageI mem_Collect_eq option.distinct(1) option.sel)+
  have each: "(\<exists>t. dead_pid_verdict (te_running env) m = Some t \<or> reap_verdict (te_reap_now env) default_reap_config m = Some t) =
      worker_dead env m" if "m \<in> set members" for m
    using reap_verdict_iff [of m env] that assms by (auto simp: list_all_iff)
  have from_all: "\<exists>m \<in> set members. worker_dead env m \<and> rt_id t = mb_id m \<and> rt_terminal t = mb_terminal m"
    if t: "t \<in> set ?all" for t
  proof -
    from t mem obtain m where m: "m \<in> set members"
        and v: "dead_pid_verdict (te_running env) m = Some t \<or> reap_verdict (te_reap_now env) default_reap_config m = Some t" by auto
    from v each [OF m] have "worker_dead env m" by blast
    with v m verdict_target show ?thesis by blast
  qed
  have "rt_id ` set ?all = mb_id ` {m \<in> set members. worker_dead env m}"
  proof
    show "rt_id ` set ?all \<subseteq> mb_id ` {m \<in> set members. worker_dead env m}" using from_all by fastforce
    show "mb_id ` {m \<in> set members. worker_dead env m} \<subseteq> rt_id ` set ?all"
    proof
      fix i
      assume "i \<in> mb_id ` {m \<in> set members. worker_dead env m}"
      then obtain m where m: "m \<in> set members" "worker_dead env m" "i = mb_id m" by auto
      with each [of m] obtain t where v: "dead_pid_verdict (te_running env) m = Some t \<or>
          reap_verdict (te_reap_now env) default_reap_config m = Some t" by auto
      with m(1) mem have "t \<in> set ?all" by blast
      moreover from v verdict_target m(3) have "rt_id t = i" by auto
      ultimately show "i \<in> rt_id ` set ?all" by blast
    qed
  qed
  then show "rt_id ` set (dead_targets env members) = mb_id ` {m \<in> set members. worker_dead env m}"
    by (simp add: dead_targets_def first_targets_ids)
  show "t \<in> set (dead_targets env members) \<Longrightarrow>
      \<exists>m \<in> set members. worker_dead env m \<and> rt_id t = mb_id m \<and> rt_terminal t = mb_terminal m"
    using from_all first_targets_sub [of "{}" ?all] by (auto simp: dead_targets_def)
qed

definition released_row :: "int \<Rightarrow> reap_reason \<Rightarrow> member_row \<Rightarrow> member_row" where
  "released_row now why r = r\<lparr>me_released := Some now, me_reason := Some (Reaped why)\<rparr>"

definition released_lease :: "int \<Rightarrow> worker_lease \<Rightarrow> worker_lease" where
  "released_lease now l = l\<lparr>le_state := ''released'', le_token := [], le_pid := None, le_heartbeat := Some now\<rparr>"

lemma reap_one_memberships:
  "memberships (snd (reap_one p q now t (acc, s))) =
     update_where (member_matches (rt_id t)) (released_row now (rt_reason t)) (memberships s)"
  by (simp add: reap_one_state mark_memberships released_row_def [abs_def])

lemma reap_one_leases:
  "worker_leases (snd (reap_one p q now t (acc, s))) =
     update_where (\<lambda>l. lease_at_terminal p (rt_terminal t) l \<and> le_state l \<noteq> ''released'') (released_lease now) (worker_leases s)"
  by (simp add: reap_one_state released_lease_def [abs_def])

lemma reap_all_memberships:
  "memberships (snd (fold (reap_one p q now) ts (acc, s))) =
     map (\<lambda>r. case find (\<lambda>t. member_matches (rt_id t) r) ts of None \<Rightarrow> r | Some t \<Rightarrow> released_row now (rt_reason t) r) (memberships s)"
proof (induction ts arbitrary: acc s)
  case (Cons t ts)
  obtain acc1 s1 where t: "reap_one p q now t (acc, s) = (acc1, s1)" by (metis prod.exhaust)
  with reap_one_memberships [of p q now t acc s]
  have s1: "memberships s1 = update_where (member_matches (rt_id t)) (released_row now (rt_reason t)) (memberships s)" by simp
  have none: "find (\<lambda>t. member_matches (rt_id t) (released_row now why r)) ts = None" for why r
    by (auto simp: find_None_iff member_matches_def released_row_def)
  from t Cons.IH [of acc1 s1] show ?case by (simp add: s1 update_where_def comp_def none)
qed simp

lemma reap_all_leases:
  "worker_leases (snd (fold (reap_one p q now) ts (acc, s))) =
     update_where (\<lambda>l. le_state l \<noteq> ''released'' \<and> list_ex (\<lambda>t. lease_at_terminal p (rt_terminal t) l) ts) (released_lease now)
       (worker_leases s)"
proof (induction ts arbitrary: acc s)
  case Nil
  show ?case by (simp add: update_where_def)
next
  case (Cons t ts)
  obtain acc1 s1 where t: "reap_one p q now t (acc, s) = (acc1, s1)" by (metis prod.exhaust)
  with reap_one_leases [of p q now t acc s] have s1: "worker_leases s1 =
      update_where (\<lambda>l. lease_at_terminal p (rt_terminal t) l \<and> le_state l \<noteq> ''released'') (released_lease now) (worker_leases s)" by simp
  have "le_state (released_lease now l) = ''released''" for l by (simp add: released_lease_def)
  with t Cons.IH [of acc1 s1] show ?case by (auto simp: s1 update_where_def)
qed

lemma reap_all_reported:
  "ledger_ok s \<Longrightarrow> fst (fold (reap_one p q now) ts (acc, s)) = acc @ ts"
proof (induction ts arbitrary: acc s)
  case (Cons t ts)
  have "fst (reap_one p q now t (acc, s)) = acc @ [t]"
  proof -
    obtain s1 where s1: "mark_member_reaped (rt_id t) (Reaped (rt_reason t)) now s = (Inr (), s1)"
      using mark_sel(5) [of "rt_id t" "Reaped (rt_reason t)" now s] by (metis prod.collapse)
    with mark_sel(3) [of "rt_id t" "Reaped (rt_reason t)" now s] Cons.prems have "ledger_ok s1" by simp
    with s1 show ?thesis by (simp add: reap_one_def emit_ledger_def)
  qed
  moreover have "ledger_ok (snd (reap_one p q now t (acc, s)))" using Cons.prems by (simp add: reap_one_state)
  ultimately show ?case using Cons.IH [of "snd (reap_one p q now t (acc, s))" "acc @ [t]"]
    by (metis append.assoc append_Cons append_Nil fold_simps(2) prod.collapse)
qed simp

lemma list_members_active: "list_all (\<lambda>m. mb_status m = ''active'') (list_members s p q)"
  by (simp add: list_members_def list_all_iff member_of_def Let_def)

lemma member_of_sel [simp]: "mb_terminal (member_of s r) = me_terminal r" "mb_joined (member_of s r) = me_joined r"
  by (simp_all add: member_of_def Let_def)

lemma member_of_id: "members_ok s \<Longrightarrow> r \<in> set (memberships s) \<Longrightarrow> me_membership r = Some (mb_id (member_of s r))"
  by (cases "me_membership r") (auto simp: members_ok_def list_all_iff member_of_def Let_def)

lemma same_membership:
  "members_ok s \<Longrightarrow> r \<in> set (memberships s) \<Longrightarrow> r' \<in> set (memberships s) \<Longrightarrow> me_membership r = me_membership r' \<Longrightarrow> r = r'"
  by (auto simp: members_ok_def distinct_map inj_on_def)

lemma target_of_row:
  assumes "members_ok s" and "r \<in> set (memberships s)"
  shows "(find (\<lambda>t. member_matches (rt_id t) r) (dead_targets env (list_members s p q)) \<noteq> None) =
    (active_in p q r \<and> worker_dead env (member_of s r))"
proof
  assume "find (\<lambda>t. member_matches (rt_id t) r) (dead_targets env (list_members s p q)) \<noteq> None"
  then obtain t where t: "t \<in> set (dead_targets env (list_members s p q))" "member_matches (rt_id t) r"
    using find_SomeD by fastforce
  from dead_targets_from(2) [OF list_members_active t(1)] obtain r' where r': "r' \<in> set (memberships s)" "active_in p q r'"
      "worker_dead env (member_of s r')" "rt_id t = mb_id (member_of s r')" by (auto simp: list_members_def)
  with t(2) member_of_id [OF assms(1) r'(1)] have "me_membership r = me_membership r'" by (simp add: member_matches_def)
  with same_membership [OF assms r'(1)] r'(2,3) show "active_in p q r \<and> worker_dead env (member_of s r)" by simp
next
  assume dead: "active_in p q r \<and> worker_dead env (member_of s r)"
  then have "mb_id (member_of s r) \<in> mb_id ` {m \<in> set (list_members s p q). worker_dead env m}"
    using assms(2) by (auto simp: list_members_def)
  then have "mb_id (member_of s r) \<in> rt_id ` set (dead_targets env (list_members s p q))"
    unfolding dead_targets_from(1) [OF list_members_active] .
  then obtain t where "t \<in> set (dead_targets env (list_members s p q))" and "rt_id t = mb_id (member_of s r)" by force
  moreover from this member_of_id [OF assms] dead have "member_matches (rt_id t) r" by (simp add: member_matches_def active_in_def)
  ultimately show "find (\<lambda>t. member_matches (rt_id t) r) (dead_targets env (list_members s p q)) \<noteq> None"
    unfolding find_None_all by blast
qed

lemma reap_dead_Inr:
  assumes "reap_dead p q env s = (Inr ts, s')"
  shows "(ts, s') = fold (reap_one p q (te_reap_now env)) (dead_targets env (list_members s p q)) ([], s)"
  using assms by (auto simp: reap_dead_def load_state_def split: option.split_asm prod.split_asm)

lemma reap_dead_exact:
  assumes "members_ok s" and "reap_dead p q env s = (Inr ts, s')"
  shows "\<exists>why. memberships s' = map (\<lambda>r. if active_in p q r \<and> worker_dead env (member_of s r)
      then released_row (te_reap_now env) (why r) r else r) (memberships s)"
    and "worker_leases s' = update_where (\<lambda>l. le_state l \<noteq> ''released'' \<and>
      list_ex (\<lambda>r. active_in p q r \<and> worker_dead env (member_of s r) \<and> lease_at_terminal p (me_terminal r) l) (memberships s))
      (released_lease (te_reap_now env)) (worker_leases s)"
    and "ledger_ok s \<Longrightarrow> ts = dead_targets env (list_members s p q)"
proof -
  let ?ts = "dead_targets env (list_members s p q)" and ?now = "te_reap_now env"
  have run: "fold (reap_one p q ?now) ?ts ([], s) = (ts, s')" using reap_dead_Inr [OF assms(2)] by simp
  let ?why = "\<lambda>r. rt_reason (the (find (\<lambda>t. member_matches (rt_id t) r) ?ts))"
  have "(case find (\<lambda>t. member_matches (rt_id t) r) ?ts of None \<Rightarrow> r | Some t \<Rightarrow> released_row ?now (rt_reason t) r) =
      (if active_in p q r \<and> worker_dead env (member_of s r) then released_row ?now (?why r) r else r)"
    if "r \<in> set (memberships s)" for r
    using target_of_row [OF assms(1) that, of env p q] by (cases "find (\<lambda>t. member_matches (rt_id t) r) ?ts") auto
  with reap_all_memberships [of p q ?now ?ts "[]" s] run
  have "memberships s' = map (\<lambda>r. if active_in p q r \<and> worker_dead env (member_of s r) then released_row ?now (?why r) r else r)
      (memberships s)" by simp
  then show "\<exists>why. memberships s' = map (\<lambda>r. if active_in p q r \<and> worker_dead env (member_of s r)
      then released_row ?now (why r) r else r) (memberships s)" by (intro exI [of _ ?why])
  have ex: "list_ex (\<lambda>t. lease_at_terminal p (rt_terminal t) l) ?ts =
      list_ex (\<lambda>r. active_in p q r \<and> worker_dead env (member_of s r) \<and> lease_at_terminal p (me_terminal r) l) (memberships s)" for l
  proof
    assume "list_ex (\<lambda>t. lease_at_terminal p (rt_terminal t) l) ?ts"
    then obtain t where t: "t \<in> set ?ts" "lease_at_terminal p (rt_terminal t) l" by (auto simp: list_ex_iff)
    from dead_targets_from(2) [OF list_members_active t(1)] t(2)
    show "list_ex (\<lambda>r. active_in p q r \<and> worker_dead env (member_of s r) \<and> lease_at_terminal p (me_terminal r) l) (memberships s)"
      by (auto simp: list_members_def list_ex_iff)
  next
    assume "list_ex (\<lambda>r. active_in p q r \<and> worker_dead env (member_of s r) \<and> lease_at_terminal p (me_terminal r) l) (memberships s)"
    then obtain r where r: "r \<in> set (memberships s)" "active_in p q r" "worker_dead env (member_of s r)"
        "lease_at_terminal p (me_terminal r) l" by (auto simp: list_ex_iff)
    with target_of_row [OF assms(1) r(1), of env p q] obtain t where t: "t \<in> set ?ts" "member_matches (rt_id t) r"
      using find_SomeD by fastforce
    from dead_targets_from(2) [OF list_members_active t(1)] obtain r' where r': "r' \<in> set (memberships s)"
        "rt_id t = mb_id (member_of s r')" "rt_terminal t = me_terminal r'" by (auto simp: list_members_def)
    with t(2) member_of_id [OF assms(1) r'(1)] same_membership [OF assms(1) r(1) r'(1)] have "r' = r"
      by (simp add: member_matches_def)
    with r'(3) r(4) have "lease_at_terminal p (rt_terminal t) l" by simp
    with t(1) show "list_ex (\<lambda>t. lease_at_terminal p (rt_terminal t) l) ?ts" unfolding list_ex_iff by blast
  qed
  show "worker_leases s' = update_where (\<lambda>l. le_state l \<noteq> ''released'' \<and>
      list_ex (\<lambda>r. active_in p q r \<and> worker_dead env (member_of s r) \<and> lease_at_terminal p (me_terminal r) l) (memberships s))
      (released_lease ?now) (worker_leases s)"
    using reap_all_leases [of p q ?now ?ts "[]" s] run by (simp only: ex snd_conv)
  show "ledger_ok s \<Longrightarrow> ts = ?ts" using reap_all_reported [of s p q ?now ?ts "[]"] run by simp
qed

text \<open>C25: the reaper is exact: it releases exactly the active members of the pool whose process is gone or which, after the
warm-up of two minutes, have been silent for more than three, together with exactly the leases of their terminals; every
other row stays as it is, and what it reports are these members.\<close>

theorem reaping_is_exact:
  assumes "members_ok s" and "reap_dead p q env s = (Inr ts, s')"
  shows "(\<exists>why. memberships s' = map (\<lambda>r. if active_in p q r \<and> worker_dead env (member_of s r)
      then released_row (te_reap_now env) (why r) r else r) (memberships s)) \<and>
    worker_leases s' = update_where (\<lambda>l. le_state l \<noteq> ''released'' \<and>
      list_ex (\<lambda>r. active_in p q r \<and> worker_dead env (member_of s r) \<and> lease_at_terminal p (me_terminal r) l) (memberships s))
      (released_lease (te_reap_now env)) (worker_leases s) \<and>
    (ledger_ok s \<longrightarrow> rt_id ` set ts = mb_id ` {m \<in> set (list_members s p q). worker_dead env m})"
  using reap_dead_exact [OF assms] dead_targets_from(1) [OF list_members_active] by blast

section \<open>Healthy workers\<close>

definition tick_decision :: "string \<Rightarrow> string \<Rightarrow> tick_env \<Rightarrow> pool_store \<Rightarrow> exn + pool_decision" where
  "tick_decision p q env s = manager_decide p q env (snd (reap_dead p q env s))"

lemma lease_added_memberships: "memberships (snd (add_or_refresh_pool_lease p terminal pid now s)) = memberships s"
  by (simp add: add_or_refresh_pool_lease_def emit_ledger_def raise_unless_def Let_def)

lemma add_member_keeps_row:
  "r \<in> set (memberships s) \<Longrightarrow> r \<in> set (memberships (snd (add_member p q terminal provider role now pid s)))"
  by (simp add: add_member_def emit_ledger_def raise_unless_def Let_def)

lemma spawn_slot_keeps_row:
  assumes "r \<in> set (memberships s)"
  shows "r \<in> set (memberships (snd (spawn_slot p q env mix x (res, s))))"
proof -
  have "r \<in> set (memberships (snd (bindS (add_or_refresh_pool_lease p terminal pid now s)
      (\<lambda>_ s. add_member p q terminal provider role now pid s))))" for terminal pid now provider role
    by (rule bindS_keeps) (use assms add_member_keeps_row lease_added_memberships in auto)
  then show ?thesis
    using assms by (auto simp: spawn_slot_def Let_def split: prod.splits spawn_outcome.split sum.split) (metis snd_conv)+
qed

lemma slots_keep_row:
  "r \<in> set (memberships s) \<Longrightarrow> r \<in> set (memberships (snd (fold (spawn_slot p q env mix) xs (res, s))))"
proof (induction xs arbitrary: res s)
  case (Cons x xs)
  from spawn_slot_keeps_row [OF Cons.prems, of p q env mix x res] Cons.IH show ?case
    by (metis fold_simps(2) prod.collapse)
qed simp

lemma marks_keep_row:
  "r \<in> set (memberships s) \<Longrightarrow> \<not> list_ex (\<lambda>i. member_matches i r) is \<Longrightarrow>
   r \<in> set (memberships (fold (\<lambda>i s. snd (mark_member_reaped i reason now s)) is s))"
proof (induction "is" arbitrary: s)
  case (Cons i "is")
  have "r \<in> set (memberships (snd (mark_member_reaped i reason now s)))"
    using Cons.prems by (auto simp: mark_memberships in_update_where)
  with Cons show ?case by simp
qed simp

lemma members_ok_id:
  assumes "members_ok s" and "r \<in> set (memberships s)" and "r' \<in> set (memberships s)"
    and "member_matches (mb_id (member_of s' r')) r" and "me_membership r' = Some (mb_id (member_of s' r'))"
  shows "r = r'"
  using same_membership [OF assms(1-3)] assms(4,5) by (simp add: member_matches_def)

lemma lease_survives:
  assumes "members_ok s" and "reap_dead p q env s = (Inr ts, s1)" and "r \<in> set (memberships s)" and "active_in p q r"
    and "\<not> worker_dead env (member_of s r)"
  shows "r \<in> set (memberships s1)" and "member_of s1 r = member_of s r"
proof -
  from reap_dead_exact(1) [OF assms(1,2)] assms(3-5) show "r \<in> set (memberships s1)" by force
  let ?hit = "\<lambda>l. le_state l \<noteq> ''released'' \<and> list_ex (\<lambda>r. active_in p q r \<and> worker_dead env (member_of s r) \<and>
      lease_at_terminal p (me_terminal r) l) (memberships s)"
  let ?mine = "\<lambda>l. le_terminal l = me_terminal r \<and> le_project l = me_project r"
  have other: "\<not> ?hit l" if "?mine l" for l
  proof
    assume hit: "?hit l"
    then obtain r' where r': "r' \<in> set (memberships s)" "active_in p q r'" "worker_dead env (member_of s r')"
        "lease_at_terminal p (me_terminal r') l" by (auto simp: list_ex_iff)
    with that assms(4) have "(me_terminal r, me_project r) = (me_terminal r', me_project r')"
      by (simp add: lease_at_terminal_def active_in_def)
    with assms(1,3,4) r'(1,2) have "r = r'"
      by (auto simp: members_ok_def distinct_map inj_on_def active_in_def)
    with r'(3) assms(5) show False by simp
  qed
  have "find ?mine (update_where ?hit (released_lease now) rows) = find ?mine rows" for now rows
    using other by (induction rows) (auto simp: released_lease_def)
  then have "lease_of s1 r = lease_of s r"
    unfolding lease_of_def reap_dead_exact(2) [OF assms(1,2)] .
  then show "member_of s1 r = member_of s r" by (simp add: member_of_def)
qed

lemma reap_keeps_ids:
  assumes "members_ok s" and "reap_dead p q env s = (Inr ts, s1)"
  shows "map me_membership (memberships s1) = map me_membership (memberships s)"
proof -
  from reap_dead_exact(1) [OF assms] obtain why where
    "memberships s1 = map (\<lambda>r. if active_in p q r \<and> worker_dead env (member_of s r)
      then released_row (te_reap_now env) (why r) r else r) (memberships s)" by blast
  then show ?thesis by (simp add: comp_def released_row_def cong: map_cong)
qed

lemma reap_dead_returns: "get_config s p q = Some cfg \<Longrightarrow> \<exists>ts s1. reap_dead p q env s = (Inr ts, s1)"
  by (cases "fold (reap_one p q (te_reap_now env)) (dead_targets env (list_members s p q)) ([], s)")
     (simp add: reap_dead_def load_state_def)

lemma execute_keeps_row:
  assumes row: "r \<in> set (memberships s1)" and "pd_action d \<noteq> ''scale_down''"
    and "pd_action d = ''reap'' \<Longrightarrow> \<not> list_ex (\<lambda>i. member_matches i r) (pd_targets d)"
  shows "r \<in> set (memberships (snd (execute p q env d s1)))"
proof -
  have "r \<in> set (memberships (snd (execute_scale_up p q env d s1)))"
    using slots_keep_row [OF row]
    by (auto simp: execute_scale_up_def bindS_def row case_prod_beta split: sum.split)
  moreover have "r \<in> set (memberships (snd (execute_reap p q env d s1)))" if "pd_action d = ''reap''"
    using marks_keep_row [OF row assms(3) [OF that]] row by (auto simp: execute_reap_def bindS_def split: sum.split)
  ultimately show ?thesis using row assms(2) by (auto simp: execute_def)
qed

text \<open>C26: a healthy worker survives a tick: its membership row is untouched when its process runs (or is unknown) and it has been
heard of recently enough for the reaper and for the pool's own threshold, unless the tick shrinks the pool.\<close>

theorem healthy_worker_survives:
  assumes "members_ok s" and "r \<in> set (memberships s)" and "active_in p q r" and "get_config s p q = Some cfg"
    and "\<not> worker_dead env (member_of s r)" and "\<not> is_stale (member_of s r) (te_decide_now env) (pc_stale cfg)"
  shows "r \<in> set (memberships (snd (tick p q env s))) \<or>
    (\<exists>d. tick_decision p q env s = Inr d \<and> pd_action d = ''scale_down'')"
proof -
  from assms(4) obtain ts s1 where reap: "reap_dead p q env s = (Inr ts, s1)"
    using reap_dead_returns by blast
  note kept = lease_survives [OF assms(1) reap assms(2,3,5)]
  from grows_reap_dead [of p q s env] reap have "configs s1 = configs s" by (simp add: grows_def)
  then have cfg: "get_config s1 p q = Some cfg" using assms(4) by (simp add: get_config_def config_at_def)
  let ?d = "decide (te_cost env) cfg (get_state s1 p q (te_decide_now env)) (list_members s1 p q)"
  have d: "manager_decide p q env s1 = Inr ?d" by (simp add: manager_decide_def load_state_def cfg)
  show ?thesis
  proof (cases "pd_action ?d = ''scale_down''")
    case True
    with d reap show ?thesis by (simp add: tick_decision_def)
  next
    case False
    have "\<not> list_ex (\<lambda>i. member_matches i r) (pd_targets ?d)" if "pd_action ?d = ''reap''"
    proof
      assume "list_ex (\<lambda>i. member_matches i r) (pd_targets ?d)"
      then obtain i where i: "i \<in> set (pd_targets ?d)" "member_matches i r" by (auto simp: list_ex_iff)
      from that have "pd_targets ?d = map mb_id (filter (\<lambda>m. is_stale m (te_decide_now env) (pc_stale cfg))
          (active_members (list_members s1 p q)))"
        by (auto simp: decide_def noop_def scaling_decision_def Let_def get_state_def split: if_splits option.splits)
      with i(1) obtain r' where r': "r' \<in> set (memberships s1)" "is_stale (member_of s1 r') (te_decide_now env) (pc_stale cfg)"
          "i = mb_id (member_of s1 r')" by (auto simp: active_members_def list_members_def)
      have ids: "list_all (\<lambda>x. x \<noteq> None) (map me_membership (memberships s1))" "distinct (map me_membership (memberships s1))"
        using assms(1) unfolding reap_keeps_ids [OF assms(1) reap] by (auto simp: members_ok_def list_all_iff)
      then have "me_membership r' = Some (mb_id (member_of s1 r'))"
        using r'(1) by (cases "me_membership r'") (auto simp: list_all_iff member_of_def Let_def)
      with i(2) r'(3) have "me_membership r = me_membership r'" by (simp add: member_matches_def)
      with ids(2) kept(1) r'(1) have "r = r'" by (auto simp: distinct_map inj_on_def)
      with r'(2) kept(2) assms(6) show False by simp
    qed
    from execute_keeps_row [OF kept(1) False this] have
      exec: "r \<in> set (memberships (snd (execute p q env ?d s1)))" .
    have "r \<in> set (memberships (snd (tick p q env s)))"
      using exec
      by (auto simp: tick_def reap d bindS_def Let_def record_decision_def emit_ledger_def note_change_def update_pool_def
          update_last_scaled_at_def update_pool_size_def split: prod.split sum.split)
    then show ?thesis by simp
  qed
qed

section \<open>The recorded size\<close>

definition size_exact :: "string \<Rightarrow> string \<Rightarrow> pool_store \<Rightarrow> bool" where
  "size_exact p q s =
     list_all (\<lambda>r. po_project r = p \<and> po_pool r = q \<longrightarrow> po_current_size r = get_current_size s p q) (pools s)"

lemma choose_provider_total:
  "[] \<notin> fst ` set target_shares \<Longrightarrow> \<exists>c. choose_provider target_shares pending = Inr c"
proof -
  assume no: "[] \<notin> fst ` set target_shares"
  have "fst ` set (positive (share_gaps target_shares pending)) \<subseteq> fst ` set target_shares"
    by (force simp: positive_def share_gaps_def)
  with no have "[] \<notin> fst ` set (positive (share_gaps target_shares pending))" by blast
  then show ?thesis by (auto simp: choose_provider_def split: list.split)
qed

lemma allocate_slots_total:
  "[] \<notin> fst ` set target_shares \<Longrightarrow> \<exists>r. allocate_slots n target_shares fb pending = Inr r"
proof (induction n arbitrary: pending)
  case (Suc n)
  from choose_provider_total [OF Suc.prems, of pending] obtain c where c: "choose_provider target_shares pending = Inr c" by blast
  let ?p = "case c of None \<Rightarrow> fb | Some p \<Rightarrow> p"
  from Suc.IH [OF Suc.prems, of "AList.update ?p (count_of pending ?p + 1) pending"] c show ?case
    by (auto simp: Let_def)
qed simp

lemma allocate_total: "[] \<notin> set mix \<Longrightarrow> \<exists>r. allocate_for_scale_up members mix delta fb = Inr r"
  using allocate_slots_total target_shares(3) by (auto simp: allocate_for_scale_up_def Let_def)

lemma add_member_refused:
  "ledger_ok s \<Longrightarrow> add_member p q terminal provider role now pid s = (Inl e, s') \<Longrightarrow> memberships s' = memberships s"
  by (auto simp: add_member_def emit_ledger_def raise_unless_def Let_def split: if_split_asm)

lemma registration_refused:
  assumes "ledger_ok s"
    and "bindS (add_or_refresh_pool_lease p terminal pid now s) (\<lambda>_ s. add_member p q terminal provider role now pid s) = (r, s')"
  shows "isl r \<Longrightarrow> memberships s' = memberships s"
proof -
  assume "isl r"
  obtain a s1 where lease: "add_or_refresh_pool_lease p terminal pid now s = (a, s1)" by (metis prod.exhaust)
  then have s1: "memberships s1 = memberships s" "ledger_ok s1"
    using grows_lease_added [of p q s p terminal pid now] assms(1)
    by (auto simp: grows_def add_or_refresh_pool_lease_def emit_ledger_def raise_unless_def Let_def split: if_split_asm)
  show ?thesis
  proof (cases a)
    case (Inl e)
    with assms(2) lease s1 show ?thesis by simp
  next
    case (Inr u)
    with assms(2) lease have "add_member p q terminal provider role now pid s1 = (r, s')" by simp
    with \<open>isl r\<close> add_member_refused [OF s1(2)] s1(1) show ?thesis by (auto simp: isl_def)
  qed
qed

lemma spawn_slot_reports:
  assumes "ledger_ok s" and "spawn_slot p q env mix x (res, s) = (res', s')"
  shows "ledger_ok s'" and "ex_spawned res' = ex_spawned res \<and> memberships s' = memberships s \<or>
    (\<exists>t. ex_spawned res' = ex_spawned res @ [t])"
proof -
  show "ledger_ok s'" using grows_slot [of p q s env mix x res] assms by (simp add: grows_def)
  obtain slot provider where x: "x = (slot, provider)" by (cases x)
  let ?t = "terminal_name p (te_execute_now env) slot"
  show "ex_spawned res' = ex_spawned res \<and> memberships s' = memberships s \<or> (\<exists>t. ex_spawned res' = ex_spawned res @ [t])"
  proof (cases "te_spawn env ?t provider (resolve_role mix slot)")
    case (Spawned pid)
    obtain r s1 where reg: "bindS (add_or_refresh_pool_lease p ?t pid (te_execute_now env) s)
        (\<lambda>_ s. add_member p q ?t provider (resolve_role mix slot) (te_execute_now env) pid s) = (r, s1)" by (metis prod.exhaust)
    with registration_refused [OF assms(1) reg] assms(2) x Spawned show ?thesis
      by (cases r) (auto simp: spawn_slot_def Let_def)
  qed (use assms(2) x in \<open>auto simp: spawn_slot_def Let_def\<close>)
qed

lemma slots_report:
  assumes "ledger_ok s" and "fold (spawn_slot p q env mix) xs (res, s) = (res', s')"
  shows "length (ex_spawned res) \<le> length (ex_spawned res') \<and>
    (length (ex_spawned res') = length (ex_spawned res) \<longrightarrow> memberships s' = memberships s)"
  using assms
proof (induction xs arbitrary: res s)
  case (Cons x xs)
  obtain res1 s1 where x: "spawn_slot p q env mix x (res, s) = (res1, s1)" by (metis prod.exhaust)
  note first = spawn_slot_reports [OF Cons.prems(1) x]
  from Cons.prems(2) x have "fold (spawn_slot p q env mix) xs (res1, s1) = (res', s')" by simp
  from Cons.IH [OF first(1) this] first(2) show ?case by auto
qed simp

lemma execute_reports:
  assumes "ledger_ok s" and "get_config s p q = Some cfg" and "[] \<notin> set (pc_mix cfg)"
  shows "\<exists>res s'. execute p q env d s = (Inr res, s') \<and>
    (ex_spawned res = [] \<and> ex_reaped res = [] \<longrightarrow> memberships s' = memberships s)"
proof -
  have load: "load_state p q now s = Inr (cfg, get_state s p q now, list_members s p q)" for now
    by (simp add: load_state_def assms(2))
  consider "pd_action d = ''scale_up''" | "pd_action d = ''scale_down''" | "pd_action d = ''reap''"
    | "pd_action d \<notin> {''scale_up'', ''scale_down'', ''reap''}" by blast
  then show ?thesis
  proof cases
    case 1
    from allocate_total [OF assms(3)] obtain ps fs where
      ps: "allocate_for_scale_up (list_members s p q) (pc_mix cfg) \<bar>pd_delta d\<bar> ''claude'' = Inr (ps, fs)" by fastforce
    obtain res s' where slots: "fold (spawn_slot p q env (pc_mix cfg)) (zip [0..<length ps] ps) (no_result, s) = (res, s')"
      by (metis prod.exhaust)
    have "execute p q env d s = (Inr res, s')" by (simp add: execute_def execute_scale_up_def load ps slots 1)
    moreover have "ex_spawned no_result = []" by (simp add: no_result_def)
    ultimately show ?thesis using slots_report [OF assms(1) slots] by auto
  qed (auto simp: execute_def execute_scale_down_def execute_reap_def load no_result_def Let_def)
qed

lemma list_all_update_where: "list_all P (update_where w f rows) = list_all (\<lambda>r. P (if w r then f r else r)) rows"
  by (simp add: update_where_def list.pred_map comp_def)

lemma noted_size_exact:
  "ex_spawned res \<noteq> [] \<or> ex_reaped res \<noteq> [] \<Longrightarrow> size_exact p q (note_change p q now res s)"
  by (simp add: size_exact_def note_change_def update_last_scaled_at_def update_pool_size_def Let_def
      list_all_update_where get_current_size_def) (auto simp: list_all_iff)

text \<open>The size recorded for a pool is the number of its active members: a tick keeps it so, whatever it spawns, reaps or fails
to, as long as the ledger can be written and no provider name is empty.\<close>

lemma recorded_size_is_exact:
  assumes "ledger_ok s" and "size_exact p q s"
    and "case get_config s p q of None \<Rightarrow> True | Some cfg \<Rightarrow> [] \<notin> set (pc_mix cfg)"
  shows "size_exact p q (snd (tick p q env s))"
proof (cases "get_config s p q")
  case None
  then show ?thesis using assms(2) by (simp add: tick_def reap_dead_def load_state_def)
next
  case (Some cfg)
  from reap_dead_returns [OF Some] obtain ts s1 where reap: "reap_dead p q env s = (Inr ts, s1)" by blast
  from grows_reap_dead [of p q s env] reap have g: "configs s1 = configs s" "pools s1 = pools s" "ledger_ok s1"
    using assms(1) by (simp_all add: grows_def)
  have cfg: "get_config s1 p q = Some cfg" using Some g(1) by (simp add: get_config_def config_at_def)
  define d where "d = decide (te_cost env) cfg (get_state s1 p q (te_decide_now env)) (list_members s1 p q)"
  have decided: "manager_decide p q env s1 = Inr d" by (simp add: manager_decide_def load_state_def cfg d_def)
  from execute_reports [OF g(3) cfg, of env d] assms(3) Some obtain res s2 where exec: "execute p q env d s1 = (Inr res, s2)"
      and quiet: "ex_spawned res = [] \<and> ex_reaped res = [] \<longrightarrow> memberships s2 = memberships s1" by auto
  from grows_execute [of p q d s1 env] exec g have g2: "pools s2 = pools s" "ledger_ok s2" by (simp_all add: grows_def)
  let ?res = "res\<lparr>ex_reaped := ex_reaped res @ map rt_id ts\<rparr>"
  obtain i s3 where rec: "record_decision p q d (te_record_now env) s2 = (Inr i, s3)"
    using g2(2) by (simp add: record_decision_def emit_ledger_def Let_def)
  from record_decision_eq [of p q d "te_record_now env" s2] rec have s3: "memberships s3 = memberships s2"
      "pools s3 = update_where (\<lambda>r. po_project r = p \<and> po_pool r = q)
        (\<lambda>r. r\<lparr>po_last_decision := Some (fresh_id s2, d, te_record_now env), po_last_action := Some (pd_action d)\<rparr>) (pools s)"
    by (simp_all add: g2(1))
  have tick: "snd (tick p q env s) = note_change p q (te_record_now env) ?res s3"
    by (simp add: tick_def reap decided exec rec Let_def)
  show ?thesis
  proof (cases "ex_spawned ?res \<noteq> [] \<or> ex_reaped ?res \<noteq> []")
    case True
    then show ?thesis unfolding tick by (rule noted_size_exact)
  next
    case False
    then have "ts = []" by simp
    with reap_dead_Inr [OF reap] reap_all_reported [OF assms(1), of p q "te_reap_now env" "dead_targets env (list_members s p q)" "[]"]
    have "s1 = s" by (metis append_Nil fold_simps(1) fst_conv prod.inject)
    with False quiet s3(1) have same: "memberships s3 = memberships s" by simp
    from assms(2) have "size_exact p q s3"
      by (simp add: size_exact_def s3(2) list_all_update_where get_current_size_def same) (auto simp: list_all_iff)
    moreover have "note_change p q (te_record_now env) ?res s3 = s3" using False by (simp add: note_change_def)
    ultimately show ?thesis by (simp add: tick)
  qed
qed

section \<open>Witnesses\<close>

definition demo_pools :: pool_store where
  "demo_pools =
     \<lparr>configs = [\<lparr>cf_project = ''p'', cf_pool = ''default'', cf_min = 1, cf_max = 2, cf_target = 1, cf_policy = ''fixed'',
        cf_mix = Some [''claude''], cf_cooldown = 60 * second, cf_ceiling = None, cf_stale = None, cf_updated_at = 0\<rparr>],
      pools = [\<lparr>po_project = ''p'', po_pool = ''default'', po_current_size = 2, po_last_scaled = None, po_last_action = None,
        po_last_decision = None\<rparr>],
      memberships = [\<lparr>me_row = 1, me_terminal = ''t1'', me_project = ''p'', me_pool = ''default'', me_provider = ''claude'',
          me_role = ''r'', me_joined = 0, me_released = None, me_reason = None, me_membership = Some ''m1'', me_pid = Some 11\<rparr>,
        \<lparr>me_row = 2, me_terminal = ''t2'', me_project = ''p'', me_pool = ''default'', me_provider = ''claude'',
          me_role = ''r'', me_joined = 0, me_released = None, me_reason = None, me_membership = Some ''m2'', me_pid = Some 12\<rparr>],
      worker_leases = [\<lparr>le_terminal = ''t1'', le_project = ''p'', le_state = ''leased'', le_pid = Some 11,
          le_heartbeat = Some (900 * second), le_token = ''k1''\<rparr>,
        \<lparr>le_terminal = ''t2'', le_project = ''p'', le_state = ''leased'', le_pid = Some 12, le_heartbeat = Some (100 * second),
          le_token = ''k2''\<rparr>],
      queue_rows = [], pool_ledger = [], ledger_ok = True, ids = (\<lambda>n. py_int (int n)), id_next = 0\<rparr>"

definition demo_env :: tick_env where
  "demo_env =
     \<lparr>te_running = (\<lambda>_. True), te_spawn = (\<lambda>_ _ _. Spawned (Some 13)), te_kill_raises = (\<lambda>_. False), te_cost = (\<lambda>_ _. None),
      te_reap_now = 1000 * second, te_decide_now = 1000 * second, te_execute_now = 1000 * second, te_record_now = 1000 * second\<rparr>"

lemma demo_ok: "pools_within demo_pools" "members_ok demo_pools" "ledger_ok demo_pools" "size_exact ''p'' ''default'' demo_pools"
  by (simp_all add: demo_pools_def pools_within_def config_row_ok_def members_ok_def size_exact_def get_current_size_def active_in_def)

lemma demo_config_found: "get_config demo_pools ''p'' ''default'' = Some (the (get_config demo_pools ''p'' ''default''))"
  by (simp add: get_config_def config_at_def demo_pools_def)

lemma pools_stay_within_their_maximum_witness:
  "pools_within (fold after_step [Tick ''p'' ''default'' demo_env, Beat ''m1'' 5, Tick ''p'' ''default'' demo_env] demo_pools)"
  by (rule pools_stay_within_their_maximum [OF demo_ok(1)])

lemma recorded_size_is_exact_witness:
  "size_exact ''p'' ''default'' (snd (tick ''p'' ''default'' demo_env demo_pools)) \<and>
   get_current_size (snd (tick ''p'' ''default'' demo_env demo_pools)) ''p'' ''default'' = 1"
proof
  show "size_exact ''p'' ''default'' (snd (tick ''p'' ''default'' demo_env demo_pools))"
    by (rule recorded_size_is_exact [OF demo_ok(3,4)]) (simp add: get_config_def config_at_def demo_pools_def)
  show "get_current_size (snd (tick ''p'' ''default'' demo_env demo_pools)) ''p'' ''default'' = 1"
    by code_simp
qed

lemma reaping_is_exact_witness:
  "map me_released (memberships (snd (reap_dead ''p'' ''default'' demo_env demo_pools))) = [None, Some (1000 * second)] \<and>
   map le_state (worker_leases (snd (reap_dead ''p'' ''default'' demo_env demo_pools))) = [''leased'', ''released'']"
proof -
  obtain ts s' where run: "reap_dead ''p'' ''default'' demo_env demo_pools = (Inr ts, s')"
    using reap_dead_returns [OF demo_config_found] by blast
  from reaping_is_exact [OF demo_ok(2) run] obtain why where
    "memberships s' = map (\<lambda>r. if active_in ''p'' ''default'' r \<and> worker_dead demo_env (member_of demo_pools r)
       then released_row (te_reap_now demo_env) (why r) r else r) (memberships demo_pools)" by blast
  then have "map me_released (memberships s') = map (\<lambda>r. if active_in ''p'' ''default'' r \<and>
      worker_dead demo_env (member_of demo_pools r) then Some (te_reap_now demo_env) else me_released r) (memberships demo_pools)"
    by (simp add: released_row_def)
  also have "\<dots> = [None, Some (1000 * second)]" by code_simp
  finally have "map me_released (memberships s') = [None, Some (1000 * second)]" .
  moreover have "map le_state (worker_leases (snd (reap_dead ''p'' ''default'' demo_env demo_pools))) = [''leased'', ''released'']"
    by code_simp
  ultimately show ?thesis using run by simp
qed

lemma healthy_worker_survives_witness:
  "hd (memberships demo_pools) \<in> set (memberships (snd (tick ''p'' ''default'' demo_env demo_pools))) \<or>
   (\<exists>d. tick_decision ''p'' ''default'' demo_env demo_pools = Inr d \<and> pd_action d = ''scale_down'')"
proof (rule healthy_worker_survives [OF demo_ok(2) _ _ demo_config_found])
qed (simp_all add: demo_pools_def demo_env_def active_in_def worker_dead_def member_of_def lease_of_def is_stale_def
    get_config_def config_at_def POOL_HEARTBEAT_STALE_SECONDS_def)

section \<open>What the code leaves behind\<close>

text \<open>
  A worker that only the pool's own, shorter threshold calls silent is reaped by the decision, and its lease stays leased with the
  process id of the worker.
\<close>

definition impatient_pools :: pool_store where
  "impatient_pools = demo_pools\<lparr>configs := map (\<lambda>c. c\<lparr>cf_stale := Some (60 * second)\<rparr>) (configs demo_pools)\<rparr>"

lemma decided_reap_keeps_the_lease:
  "map (\<lambda>r. me_released r \<noteq> None) (memberships (snd (tick ''p'' ''default'' demo_env impatient_pools))) = [True, True] \<and>
   map (\<lambda>l. (le_state l, le_pid l)) (worker_leases (snd (tick ''p'' ''default'' demo_env impatient_pools))) =
     [(''leased'', Some 11), (''released'', None)]"
  by code_simp

text \<open>
  A provider that the table does not know, such as \<^verbatim>\<open>litellm:deepseek\<close>, cannot be registered: every tick starts a worker and
  leases it a terminal, then kills it, and the lease stays.
\<close>

definition exotic_pools :: pool_store where
  "exotic_pools = demo_pools\<lparr>configs := map (\<lambda>c. c\<lparr>cf_mix := Some [''litellm:deepseek'']\<rparr>) (configs demo_pools),
     memberships := [], worker_leases := []\<rparr>"

lemma unknown_provider_leaks_leases:
  "memberships (snd (tick ''p'' ''default'' demo_env exotic_pools)) = [] \<and>
   map (\<lambda>l. (le_state l, le_pid l)) (worker_leases (snd (tick ''p'' ''default'' demo_env exotic_pools))) = [(''leased'', Some 13)]"
  by code_simp

end
