(* ===== verification/Spec2Isabelle.thy ===== *)
theory Spec2Isabelle
  imports Broker Reconciler Worker_States Run_Registry Workflow Incident_Log Inbox Hash_Chain Track_Reconciler Routing Governance Pool_Manager
begin

text \<open>
  VNX orchestration: the runtime coordination core of \<^verbatim>\<open>scripts/lib\<close>.

  \<^bold>\<open>The program.\<close> VNX hands units of work (dispatches) to terminals in which agents run. All
  coordination goes through one SQLite file, \<^verbatim>\<open>runtime_coordination.db\<close>. A dispatch is
  registered or arrives through an inbox, is claimed, delivered, accepted and finished; a
  terminal is leased to one dispatch at a time, with a generation number that fences off stale
  holders; workers and headless runs report their progress; a reconciler repairs what a crash
  left behind; a supervisor counts incidents, grants retries within the budget of their class,
  escalates, and sends hopeless dispatches to the dead letters. A router picks a registered execution
  target for a dispatch, and a policy matrix says which actions an actor may take, which need a human and
  which block an entity until one has acted. Pools of workers grow and shrink with the queue: a pool manager reaps the dead,
  decides, and spawns or kills, tick by tick. Work is planned in tracks, which move through phases and close when what they
  asked for is delivered. Every change appends an event to an audit table; ledgers beside the database are chained by
  hashes.

  \<^bold>\<open>The model.\<close> A store is a record of tables; a table is the list of its rows in insertion
  order, so \<^verbatim>\<open>ORDER BY\<close> is a stable sort and \<^verbatim>\<open>UNIQUE\<close>, \<^verbatim>\<open>NOT NULL\<close> and foreign keys are
  checks before an insert. An operation on an open connection has the type
  \<open>args \<Rightarrow> store \<Rightarrow> exn + (value \<times> store)\<close>: every exception of the code is a value, and the
  transaction it aborts leaves no trace. A facade method that opens its own connection has the
  type \<open>args \<Rightarrow> store \<Rightarrow> (exn + value) \<times> store\<close>, because what it has committed stays when it raises.
  The store carries the clock (microseconds, read once per operation), the source of
  \<^verbatim>\<open>uuid4\<close> values, the two environment variables the code reads, and which tables have been
  migrated to \<^verbatim>\<open>project_id\<close> columns. A time column that Python parses back is a \<open>stamp\<close>: an instant, or a text that
  \<^verbatim>\<open>datetime.fromisoformat\<close> refuses. Columns that no modelled code reads or writes (row numbers,
  \<^verbatim>\<open>worker_pid\<close>) are left out of the rows. The planning tables are a record around this store; an operation on
  them, like one of the escalation calls, also returns the store it leaves behind when it raises.

  \<^bold>\<open>Theories.\<close>
  \<^item> \<open>Prelude\<close>: JSON values, time stamps, exceptions, the error monad (\<open>bindE\<close>, \<open>guardE\<close>, \<open>foldE\<close>),
    Python's string operations, updates of rows, transition tables and walks over them.
  \<^item> \<open>Interfaces\<close>: the contracts that several components meet, as locales: a lifecycle with
    validated transitions, a resource with fencing tokens, a bounded retry. Each is interpreted
    on the components that provide it: the dispatch, lease, run, worker and inbox life cycles, the lease
    operations, the supervisor and the budget accounts.
  \<^item> \<open>Coordination_DB\<close>: \<^verbatim>\<open>coordination_db.py\<close> and \<^verbatim>\<open>project_scope.py\<close>: rows, store, state tables,
    event log, project scoping of queries and inserts, the projection of leases.
  \<^item> \<open>Dispatch_Lifecycle\<close>: \<^verbatim>\<open>runtime_state_machine.py\<close>: registering, moving and claiming dispatches,
    delivery attempts.
  \<^item> \<open>Lease_Ops\<close>: \<^verbatim>\<open>lease_operations.py\<close> and \<^verbatim>\<open>lease_manager.py\<close>.
  \<^item> \<open>Broker\<close>: \<^verbatim>\<open>dispatch_broker.py\<close>: registration with its bundle of files, claim and delivery.
  \<^item> \<open>Reconciler\<close>: \<^verbatim>\<open>runtime_reconciler.py\<close>.
  \<^item> \<open>Worker_States\<close>: \<^verbatim>\<open>worker_state_manager.py\<close>.
  \<^item> \<open>Run_Registry\<close>: \<^verbatim>\<open>headless_run_registry.py\<close>.
  \<^item> \<open>Incident_Taxonomy\<close>: \<^verbatim>\<open>incident_taxonomy.py\<close>: classes, contracts, backoff, classification of texts.
  \<^item> \<open>Workflow\<close>: \<^verbatim>\<open>workflow_incident_handler.py\<close> and \<^verbatim>\<open>workflow_supervisor.py\<close>.
  \<^item> \<open>Incident_Log\<close>: \<^verbatim>\<open>incident_log.py\<close>: incidents, retry accounts, the operator's summary.
  \<^item> \<open>Inbox\<close>: \<^verbatim>\<open>inbound_inbox.py\<close>: deduplicated inbound events and their translation into dispatches.
  \<^item> \<open>Json_Text\<close>: the parts of Python's \<^verbatim>\<open>json\<close> module that texts are written and read with.
  \<^item> \<open>Hash_Chain\<close>: \<^verbatim>\<open>ndjson_hash_chain.py\<close>: the hash-chained audit ledger as the text of its file, its writer and its
    verifier.
  \<^item> \<open>Tracks\<close>: \<^verbatim>\<open>tracks.py\<close>: tracks, their phase history, dependencies and open items, with the append-only event
    file (\<^verbatim>\<open>append_locked\<close> of \<^verbatim>\<open>state_writer.py\<close>).
  \<^item> \<open>Phase_Search\<close>: the breadth-first search \<^verbatim>\<open>_phase_path_to\<close> over any phase table.
  \<^item> \<open>Track_Reconciler\<close>: \<^verbatim>\<open>track_reconciler.py\<close> with its status, revalidation and closure modules.
  \<^item> \<open>Routing\<close>: \<^verbatim>\<open>execution_target_registry.py\<close> and \<^verbatim>\<open>dispatch_router.py\<close>: execution targets and their health, the choice
    of a target.
  \<^item> \<open>Governance\<close>: \<^verbatim>\<open>governance_evaluator.py\<close> and \<^verbatim>\<open>governance_escalation.py\<close>: the policy matrix, escalation levels and
    overrides.
  \<^item> \<open>Pool_Decisions\<close>: \<^verbatim>\<open>pool_decision_engine.py\<close> with the policies of \<^verbatim>\<open>pool_scaling_policies\<close>,
    \<^verbatim>\<open>pool_reaper.py\<close> and \<^verbatim>\<open>pool_provider_allocator.py\<close>: pure functions of a pool's configuration and members.
  \<^item> \<open>Pool_Manager\<close>: \<^verbatim>\<open>pool_state_repo.py\<close> and \<^verbatim>\<open>pool_manager.py\<close>: the four tables of the pools and the tick over them.

  \<^bold>\<open>What the lemmas show.\<close> The transition functions accept exactly the walks of their tables, final
  states are final and every dispatch can reach one; queue claims drain the queue in order, each
  dispatch once, in a store whose dispatches carry a project; scoped transitions never touch another project. The lease operations implement
  an abstract lock with fencing tokens; a stale holder is refused whatever happens in between;
  sweeps and closeouts free exactly what they should. A claim through the broker is exclusive,
  delivery completes, repeated acceptance changes nothing, and a bundle on disk always has its
  row. A reconciliation run changes exactly the rows its rules name and a second run does
  nothing. Worker and run records keep their invariants and counters count what they say. Every
  incident class has a bounded contract; the supervisor grants at most the retries of the class,
  leaves its trail, dead-letters only what is eligible and respects a halt until it is cleared;
  the retry accounts of the incident log do the same for attempts guarded by a check. The inbox
  loses no event, and processing one is all or nothing. An appended ledger entry reads back, a ledger to which no backfill
  is appended keeps verifying, and the verifier decides the law of the chain. The phase history of a track is a walk of the
  phase table, every move of it was written whole to the event file (a torn line can hide the one behind it), one track per project is the next, planning decisions survive a sync; the phase search returns the shortest walk;
  reconciling twice changes nothing more, a close passes every gate and a finished track can close. A routed dispatch
  obeys the routing rules, an available target is used, the registry stays consistent and its events and the seeded rows tell
  the health of every target. A blocked entity stays blocked until someone with the authority to release it acts, and the
  policy matrix gives automatic actors no authority that it reserves for a human. No pool
  exceeds its maximum whatever happens outside it, the reaper releases exactly the dead with their leases, a healthy worker
  survives a tick that does not shrink the pool, and every slot of a scale-up goes to a provider furthest below its share.

  \<^bold>\<open>Bounds.\<close> The loops of the code run over the rows of a query and are folds, and most recursions are
  structural. The JSON scanner runs on fuel: \<open>json_loads\<close> gives it twice the length of the text and one more, and
  \<open>Json_Text\<close> shows that this is never the limit (\<open>json_loads_fuel\<close>). The phase search is a \<open>while_option\<close>, shown to return.
  Integers are Python's and unbounded; where a value is bound to
  a column the 64-bit limit of SQLite is a branch (\<open>bind_text\<close>), and \<open>get_cooldown_seconds\<close> raises
  the overflow error of Python's float power from the attempt on where the power leaves the
  range of a double.

  \<^bold>\<open>Parameters.\<close> SHA-256, the text and reading of floats, the text of instants and of SQLite's binding errors (\<open>libs\<close>,
  \<open>codec\<close>), the intelligence selector and the disk of the broker, the instants the wall clock gives and the failure of
  an append to the event file, before, inside or after its write (fields of the plan), the set of merged pull requests of a track; for a tick of a pool, the
  record \<open>tick_env\<close>: which processes run, what spawns and kills answer, what the cost source says, what the clocks read; and
  whether the decision ledger can be written. The pools' float times and costs are exact integers (microseconds, millionths of a dollar).

  \<^bold>\<open>Not modelled.\<close> Two writers inside one operation: SQLite serialises them, an operation is one step.
  Schema creation and migration (a new store holds the rows the schema seeds), a lease length whose end no Python date can
  hold, path handling, logging, command-line parsing and the rendering of results as
  text or dictionaries; the JSON log that repeats escalations, whose failures the code swallows. Texts are ASCII; the JSON reader refuses
  escapes beyond U+00FF, which the type of characters does not hold. The other
  subsystems are not modelled: the planning and dispatch command lines and the provider lanes start processes around the
  operations modelled here; review gates and pull request verification ask external reviewers, \<^verbatim>\<open>git\<close> and \<^verbatim>\<open>gh\<close>; smart
  routing, quality scores, receipts and learning work on free text, configuration and measurements; the worker
  processes of a pool and their worktrees are answers of a tick's environment; dashboards are separate programs over other
  tables.
\<close>

end
